(* ===== verification/Prelude.thy ===== *)
theory Prelude
  imports
    Main
    "HOL-Library.Word"
    "HOL-Library.Monad_Syntax"
    "HOL-Library.Signed_Division"
begin

text \<open>
  Prelude of the libpcp development: the machine integers of the C sources, byte buffers
  with bounds-checked access, the fixed-width byte codecs that the packed structs are made
  of, and the generic lemmas the component theories share.

  The model is that of the default CMake build (experimental options, SADSCP, flow priority,
  NAT-PMP and the IPv6 socket enabled) on a little-endian LP64 platform. A C computation that
  has undefined behaviour, fails an assertion or does not return is the value \<open>None\<close>; every
  other outcome, error returns included, is a value under \<open>Some\<close>.
\<close>

unbundle bit_operations_syntax

section \<open>Machine integers\<close>

type_synonym u8 = "8 word"
type_synonym u16 = "16 word"
type_synonym u32 = "32 word"

named_theorems codec_defs \<open>definitions of the byte codecs\<close>
named_theorems buf_simps \<open>facts on peek and poke\<close>

section \<open>Byte buffers\<close>

text \<open>
  \<open>peek off n buf\<close> reads \<open>n\<close> bytes at offset \<open>off\<close>; \<open>poke off bs buf\<close> overwrites the bytes
  at offset \<open>off\<close>. Both are \<open>None\<close> outside the buffer, which is what makes an out-of-bounds
  access of the C code visible.
\<close>

definition peek :: "nat \<Rightarrow> nat \<Rightarrow> 'a list \<Rightarrow> 'a list option" where
  "peek off n buf = (if off + n \<le> length buf then Some (take n (drop off buf)) else None)"

definition poke :: "nat \<Rightarrow> 'a list \<Rightarrow> 'a list \<Rightarrow> 'a list option" where
  "poke off bs buf =
     (if off + length bs \<le> length buf
      then Some (take off buf @ bs @ drop (off + length bs) buf) else None)"

lemma peek_Some_length [buf_simps]: "peek off n buf = Some bs \<Longrightarrow> length bs = n"
  by (auto simp: peek_def split: if_splits)

lemma peek_in_bounds [buf_simps]: "off + n \<le> length buf \<Longrightarrow> \<exists>bs. peek off n buf = Some bs \<and> length bs = n"
  by (simp add: peek_def)

lemma poke_in_bounds [buf_simps]:
  "off + length bs \<le> length buf \<Longrightarrow> \<exists>buf'. poke off bs buf = Some buf' \<and> length buf' = length buf"
  by (simp add: poke_def)

lemma poke_length [buf_simps]: "poke off bs buf = Some buf' \<Longrightarrow> length buf' = length buf"
  by (auto simp: poke_def split: if_splits)

lemma poke_bound: "poke off bs buf = Some buf' \<Longrightarrow> off + length bs \<le> length buf"
  by (auto simp: poke_def split: if_splits)

lemma peek_poke_same [buf_simps]:
  "poke off bs buf = Some buf' \<Longrightarrow> n = length bs \<Longrightarrow> peek off n buf' = Some bs"
  by (auto simp: peek_def poke_def split: if_splits)

lemma peek_poke_before [buf_simps]:
  assumes "poke off bs buf = Some buf'" and "off' + n \<le> off"
  shows "peek off' n buf' = peek off' n buf"
proof -
  from assms(1) have le: "off + length bs \<le> length buf"
    and buf': "buf' = take off buf @ bs @ drop (off + length bs) buf"
    by (auto simp: poke_def split: if_splits)
  with assms(2) have "take n (drop off' buf') = take n (drop off' buf)"
    by (simp add: take_drop min_def)
  then show ?thesis using le buf' assms(2) by (simp add: peek_def)
qed

lemma peek_poke_after [buf_simps]:
  assumes "poke off bs buf = Some buf'" and "off + length bs \<le> off'"
  shows "peek off' n buf' = peek off' n buf"
proof -
  from assms(1) have le: "off + length bs \<le> length buf"
    and buf': "buf' = take off buf @ bs @ drop (off + length bs) buf"
    by (auto simp: poke_def split: if_splits)
  from buf' le assms(2) have "drop off' buf' = drop off' buf"
    by (simp add: min_def add.commute)
  then show ?thesis using le buf' by (simp add: peek_def)
qed

lemma peek_poke_disjoint [buf_simps]:
  assumes "poke off bs buf = Some buf'" and "off' + n \<le> off \<or> off + length bs \<le> off'"
  shows "peek off' n buf' = peek off' n buf"
  using assms peek_poke_before peek_poke_after by blast

section \<open>Fixed-width byte codecs\<close>

text \<open>
  The interface of a field type of a packed struct: \<open>enc\<close> lays a value out in \<open>width\<close> bytes
  and \<open>dec\<close> reads it back. The client lemmas say that a field read from the place where it
  was written is the value written, and that writes elsewhere do not disturb it.
\<close>

locale byte_codec =
  fixes enc :: "'v \<Rightarrow> u8 list"
    and dec :: "u8 list \<Rightarrow> 'v"
    and width :: nat
  assumes enc_length: "length (enc v) = width"
    and dec_enc: "dec (enc v) = v"
    and enc_dec: "length bs = width \<Longrightarrow> enc (dec bs) = bs"
begin

definition load :: "nat \<Rightarrow> u8 list \<Rightarrow> 'v option" where
  "load off buf = map_option dec (peek off width buf)"

definition store :: "nat \<Rightarrow> 'v \<Rightarrow> u8 list \<Rightarrow> u8 list option" where
  "store off v buf = poke off (enc v) buf"

lemma load_store_same: "store off v buf = Some buf' \<Longrightarrow> load off buf' = Some v"
  by (simp add: load_def store_def peek_poke_same enc_length dec_enc)

lemma load_store_other:
  "poke off bs buf = Some buf' \<Longrightarrow> off' + width \<le> off \<or> off + length bs \<le> off' \<Longrightarrow>
     load off' buf' = load off' buf"
  by (simp add: load_def peek_poke_disjoint)

lemma store_length: "store off v buf = Some buf' \<Longrightarrow> length buf' = length buf"
  by (simp add: store_def poke_length)

lemma store_in_bounds: "off + width \<le> length buf \<Longrightarrow> \<exists>buf'. store off v buf = Some buf'"
  by (simp add: store_def poke_def enc_length)

lemma load_in_bounds: "off + width \<le> length buf \<Longrightarrow> \<exists>v. load off buf = Some v"
  by (simp add: load_def peek_def)

lemma enc_inj: "enc v = enc w \<longleftrightarrow> v = w"
  by (metis dec_enc)

lemma dec_inj: "length bs = width \<Longrightarrow> length cs = width \<Longrightarrow> dec bs = dec cs \<longleftrightarrow> bs = cs"
  by (metis enc_dec)

end

definition u8_bytes :: "u8 \<Rightarrow> u8 list" where
  "u8_bytes w = [w]"

definition u8_of :: "u8 list \<Rightarrow> u8" where
  "u8_of bs = bs ! 0"

definition u16_bytes :: "u16 \<Rightarrow> u8 list" where
  "u16_bytes w = [ucast w, ucast (drop_bit 8 w)]"

definition u16_of :: "u8 list \<Rightarrow> u16" where
  "u16_of bs = ucast (bs ! 0) OR push_bit 8 (ucast (bs ! 1))"

definition u32_bytes :: "u32 \<Rightarrow> u8 list" where
  "u32_bytes w = [ucast w, ucast (drop_bit 8 w), ucast (drop_bit 16 w), ucast (drop_bit 24 w)]"

definition u32_of :: "u8 list \<Rightarrow> u32" where
  "u32_of bs = ucast (bs ! 0) OR push_bit 8 (ucast (bs ! 1)) OR push_bit 16 (ucast (bs ! 2))
     OR push_bit 24 (ucast (bs ! 3))"

lemmas word_codec_defs [codec_defs] =
  u8_bytes_def u8_of_def u16_bytes_def u16_of_def u32_bytes_def u32_of_def

lemma u16_of_bytes: "u16_of (u16_bytes w) = w"
  by (rule bit_word_eqI) (auto simp: codec_defs bit_simps)

lemma u32_of_bytes: "u32_of (u32_bytes w) = w"
proof (rule bit_word_eqI)
  fix n assume "n < LENGTH(32)"
  then consider "n < 8" | "8 \<le> n" "n < 16" | "16 \<le> n" "n < 24" | "24 \<le> n" "n < 32"
    by force
  then show "bit (u32_of (u32_bytes w)) n = bit w n"
    by cases (auto simp: codec_defs bit_simps)
qed

lemma bit_u8_high: "8 \<le> n \<Longrightarrow> \<not> bit (a :: u8) n"
  by (auto dest: bit_imp_le_length)

lemma u16_bytes_of: "u16_bytes (u16_of [a, b]) = [a, b]"
  by (auto simp: codec_defs bit_simps bit_u8_high intro!: bit_word_eqI)

lemma u32_bytes_of: "u32_bytes (u32_of [a, b, c, d]) = [a, b, c, d]"
  by (auto simp: codec_defs bit_simps bit_u8_high intro!: bit_word_eqI)

lemma list_of_length_2: "length bs = 2 \<longleftrightarrow> (\<exists>a b. bs = [a, b])"
  by (auto simp: numeral_2_eq_2 length_Suc_conv)

lemma list_of_length_4: "length bs = 4 \<longleftrightarrow> (\<exists>a b c d. bs = [a, b, c, d])"
  by (auto simp: eval_nat_numeral length_Suc_conv)

interpretation u8c: byte_codec u8_bytes u8_of 1
  by unfold_locales (auto simp: codec_defs length_Suc_conv)

interpretation u16c: byte_codec u16_bytes u16_of 2
proof unfold_locales
  show "length (u16_bytes v) = 2" for v by (simp add: codec_defs)
  show "u16_of (u16_bytes v) = v" for v by (rule u16_of_bytes)
  show "u16_bytes (u16_of bs) = bs" if "length bs = 2" for bs
    using that u16_bytes_of by (auto simp: list_of_length_2)
qed

interpretation u32c: byte_codec u32_bytes u32_of 4
proof unfold_locales
  show "length (u32_bytes v) = 4" for v by (simp add: codec_defs)
  show "u32_of (u32_bytes v) = v" for v by (rule u32_of_bytes)
  show "u32_bytes (u32_of bs) = bs" if "length bs = 4" for bs
    using that u32_bytes_of by (auto simp: list_of_length_4)
qed

section \<open>Byte order\<close>

text \<open>
  \<open>htons\<close>, \<open>htonl\<close> (and \<open>ntohs\<close>, \<open>ntohl\<close>, which are the same functions) swap bytes on a
  little-endian host.
\<close>

definition htons :: "u16 \<Rightarrow> u16" where
  "htons w = u16_of (rev (u16_bytes w))"

definition htonl :: "u32 \<Rightarrow> u32" where
  "htonl w = u32_of (rev (u32_bytes w))"

abbreviation ntohs :: "u16 \<Rightarrow> u16" where "ntohs \<equiv> htons"
abbreviation ntohl :: "u32 \<Rightarrow> u32" where "ntohl \<equiv> htonl"

lemma htons_bytes: "u16_bytes (htons w) = rev (u16_bytes w)"
  by (simp add: htons_def u16c.enc_dec u16c.enc_length)

lemma htonl_bytes: "u32_bytes (htonl w) = rev (u32_bytes w)"
  by (simp add: htonl_def u32c.enc_dec u32c.enc_length)

lemma ntohs_htons [simp]: "ntohs (htons w) = w"
  by (subst htons_def) (simp add: htons_bytes u16c.dec_enc)

lemma ntohl_htonl [simp]: "ntohl (htonl w) = w"
  by (subst htonl_def) (simp add: htonl_bytes u32c.dec_enc)

section \<open>Reasoning about computations that may be undefined\<close>

text \<open>
  \<open>runs m P\<close>: the computation \<open>m\<close> is defined and its result satisfies \<open>P\<close> (total correctness).
  \<open>yields m P\<close>: if \<open>m\<close> is defined then its result satisfies \<open>P\<close>. Both distribute over the monadic
  composition, which is what makes proofs about sequences of calls compositional.
\<close>

named_theorems runs_intros \<open>total correctness of operations\<close>

definition runs :: "'a option \<Rightarrow> ('a \<Rightarrow> bool) \<Rightarrow> bool" where
  "runs m P \<longleftrightarrow> (\<exists>x. m = Some x \<and> P x)"

definition yields :: "'a option \<Rightarrow> ('a \<Rightarrow> bool) \<Rightarrow> bool" where
  "yields m P \<longleftrightarrow> (\<forall>x. m = Some x \<longrightarrow> P x)"

lemma runs_simps [simp]:
  "runs (Some x) P \<longleftrightarrow> P x" "runs None P \<longleftrightarrow> False"
  "runs (Option.bind m f) P \<longleftrightarrow> runs m (\<lambda>x. runs (f x) P)"
  by (auto simp: runs_def bind_eq_Some_conv)

lemma yields_simps [simp]:
  "yields (Some x) P \<longleftrightarrow> P x" "yields None P \<longleftrightarrow> True"
  "yields (Option.bind m f) P \<longleftrightarrow> yields m (\<lambda>x. yields (f x) P)"
  by (auto simp: yields_def bind_eq_Some_conv)

lemma yields_True [simp]: "yields m (\<lambda>_. True)"
  by (simp add: yields_def)

lemma runs_mono: "runs m P \<Longrightarrow> (\<And>x. P x \<Longrightarrow> Q x) \<Longrightarrow> runs m Q"
  by (auto simp: runs_def)

lemma runs_bind: "runs m P \<Longrightarrow> (\<And>x. P x \<Longrightarrow> runs (f x) Q) \<Longrightarrow> runs (Option.bind m f) Q"
  by (auto simp: runs_def)

lemma runs_conj: "runs m P \<Longrightarrow> yields m Q \<Longrightarrow> runs m (\<lambda>x. P x \<and> Q x)"
  by (auto simp: runs_def yields_def)

lemma runs_conjunct1: "runs m (\<lambda>x. P x \<and> Q x) \<Longrightarrow> runs m P"
  by (auto simp: runs_def)

lemma runsE: "runs m P \<Longrightarrow> (\<And>x. m = Some x \<Longrightarrow> P x \<Longrightarrow> thesis) \<Longrightarrow> thesis"
  by (auto simp: runs_def)

lemma yields_mono: "yields m P \<Longrightarrow> (\<And>x. P x \<Longrightarrow> Q x) \<Longrightarrow> yields m Q"
  by (auto simp: yields_def)

lemma yields_bind: "yields m P \<Longrightarrow> (\<And>x. P x \<Longrightarrow> yields (f x) Q) \<Longrightarrow> yields (Option.bind m f) Q"
  by (auto simp: yields_def bind_eq_Some_conv)

lemma yieldsD: "yields m P \<Longrightarrow> m = Some x \<Longrightarrow> P x"
  by (simp add: yields_def)

section \<open>Tables searched for the first match\<close>

text \<open>
  The state machines are arrays of entries that are searched from the front. \<open>look\<close> is such a
  search with key \<open>k\<close>: \<open>hits k e\<close> says that the entry \<open>e\<close> applies.
\<close>

locale first_match =
  fixes look :: "'k \<Rightarrow> 'v option"
    and table :: "'e list"
    and hits :: "'k \<Rightarrow> 'e \<Rightarrow> bool"
    and out :: "'e \<Rightarrow> 'v"
  assumes look_find: "look k = map_option out (find (hits k) table)"
begin

lemma look_in_table: "look k = Some v \<Longrightarrow> \<exists>e\<in>set table. hits k e \<and> out e = v"
  by (auto simp: look_find find_Some_iff)

lemma look_None_iff: "look k = None \<longleftrightarrow> (\<forall>e\<in>set table. \<not> hits k e)"
  by (auto simp: look_find find_None_iff)

lemma look_catch_all: "e \<in> set table \<Longrightarrow> hits k e \<Longrightarrow> \<exists>v. look k = Some v"
  using look_None_iff [of k] by auto

lemma look_first:
  assumes "table = xs @ e # ys" "hits k e" "\<And>x. x \<in> set xs \<Longrightarrow> \<not> hits k x"
  shows "look k = Some (out e)"
proof -
  have "find (hits k) (xs @ e # ys) = Some e" using assms(2,3) by (induction xs) auto
  then show ?thesis using assms(1) by (simp add: look_find)
qed

end

section \<open>Shared lemmas\<close>

lemma take_drop_append_exact [simp]:
  "length a = m \<Longrightarrow> take n (drop m (a @ b)) = take n b"
  by simp

lemma bind_Some_iff:
  "(Option.bind x f = Some y) \<longleftrightarrow> (\<exists>z. x = Some z \<and> f z = Some y)"
  by (cases x) auto

lemma list_update_same_nth: "i < length xs \<Longrightarrow> xs[i := v] ! i = v"
  by simp

lemma find_first_index:
  "find P xs = Some x \<longleftrightarrow> (\<exists>i<length xs. P (xs ! i) \<and> x = xs ! i \<and> (\<forall>j<i. \<not> P (xs ! j)))"
  by (rule find_Some_iff)

end
