(* ===== verification/Pcp_Types.thy ===== *)
theory Pcp_Types
  imports Prelude
begin

text \<open>
  The constants, enumerations and structures of the client library (\<open>pcp.h\<close>,
  \<open>pcp_msg_structs.h\<close>, \<open>pcp_client_db.h\<close>, \<open>pcp_event_handler.h\<close> and the configuration
  header), and the world around a context: the clock, the allocator, the random source and
  the socket, each an oracle indexed by the number of calls made so far.

  Record fields carry a one-letter prefix for their struct (\<open>k_\<close> for \<open>flow_key_data\<close>, \<open>m_\<close>
  for \<open>pcp_recv_msg\<close>, \<open>f_\<close> for \<open>pcp_flow_s\<close>, \<open>s_\<close> for \<open>pcp_server\<close>, \<open>c_\<close> for \<open>pcp_ctx_s\<close>,
  \<open>w_\<close> for the world). A \<open>pcp_flow_t *\<close> is an address of the flow heap of the context, a
  \<open>pcp_server_t *\<close> is an index of its server array; \<open>None\<close> is the null pointer.
\<close>

section \<open>Constants\<close>

abbreviation PCP_MAX_LEN :: nat where "PCP_MAX_LEN \<equiv> 1100"
abbreviation PCP_OPCODE_ANNOUNCE :: u8 where "PCP_OPCODE_ANNOUNCE \<equiv> 0"
abbreviation PCP_OPCODE_MAP :: u8 where "PCP_OPCODE_MAP \<equiv> 1"
abbreviation PCP_OPCODE_PEER :: u8 where "PCP_OPCODE_PEER \<equiv> 2"
abbreviation PCP_OPCODE_SADSCP :: u8 where "PCP_OPCODE_SADSCP \<equiv> 3"
abbreviation NATPMP_OPCODE_ANNOUNCE :: u8 where "NATPMP_OPCODE_ANNOUNCE \<equiv> 0"
abbreviation NATPMP_OPCODE_MAP_UDP :: u8 where "NATPMP_OPCODE_MAP_UDP \<equiv> 1"
abbreviation NATPMP_OPCODE_MAP_TCP :: u8 where "NATPMP_OPCODE_MAP_TCP \<equiv> 2"

abbreviation PCP_RES_SUCCESS :: u32 where "PCP_RES_SUCCESS \<equiv> 0"
abbreviation PCP_RES_UNSUPP_VERSION :: u32 where "PCP_RES_UNSUPP_VERSION \<equiv> 1"
abbreviation PCP_RES_NOT_AUTHORIZED :: u32 where "PCP_RES_NOT_AUTHORIZED \<equiv> 2"
abbreviation PCP_RES_MALFORMED_REQUEST :: u32 where "PCP_RES_MALFORMED_REQUEST \<equiv> 3"
abbreviation PCP_RES_UNSUPP_OPCODE :: u32 where "PCP_RES_UNSUPP_OPCODE \<equiv> 4"
abbreviation PCP_RES_UNSUPP_OPTION :: u32 where "PCP_RES_UNSUPP_OPTION \<equiv> 5"
abbreviation PCP_RES_MALFORMED_OPTION :: u32 where "PCP_RES_MALFORMED_OPTION \<equiv> 6"
abbreviation PCP_RES_NETWORK_FAILURE :: u32 where "PCP_RES_NETWORK_FAILURE \<equiv> 7"
abbreviation PCP_RES_NO_RESOURCES :: u32 where "PCP_RES_NO_RESOURCES \<equiv> 8"
abbreviation PCP_RES_UNSUPP_PROTOCOL :: u32 where "PCP_RES_UNSUPP_PROTOCOL \<equiv> 9"
abbreviation PCP_RES_USER_EX_QUOTA :: u32 where "PCP_RES_USER_EX_QUOTA \<equiv> 10"
abbreviation PCP_RES_CANNOT_PROVIDE_EXTERNAL :: u32 where
  "PCP_RES_CANNOT_PROVIDE_EXTERNAL \<equiv> 11"
abbreviation PCP_RES_ADDRESS_MISMATCH :: u32 where "PCP_RES_ADDRESS_MISMATCH \<equiv> 12"
abbreviation PCP_RES_EXCESSIVE_REMOTE_PEERS :: u32 where
  "PCP_RES_EXCESSIVE_REMOTE_PEERS \<equiv> 13"

abbreviation PCP_OPTION_3RD_PARTY :: u8 where "PCP_OPTION_3RD_PARTY \<equiv> 1"
abbreviation PCP_OPTION_PREF_FAIL :: u8 where "PCP_OPTION_PREF_FAIL \<equiv> 2"
abbreviation PCP_OPTION_FILTER :: u8 where "PCP_OPTION_FILTER \<equiv> 3"
abbreviation PCP_OPTION_DEVICEID :: u8 where "PCP_OPTION_DEVICEID \<equiv> 96"
abbreviation PCP_OPTION_LOCATION :: u8 where "PCP_OPTION_LOCATION \<equiv> 97"
abbreviation PCP_OPTION_USERID :: u8 where "PCP_OPTION_USERID \<equiv> 98"
abbreviation PCP_OPTION_FLOW_PRIORITY :: u8 where "PCP_OPTION_FLOW_PRIORITY \<equiv> 99"
abbreviation PCP_OPTION_METADATA :: u8 where "PCP_OPTION_METADATA \<equiv> 100"

abbreviation MAX_USER_ID :: nat where "MAX_USER_ID \<equiv> 512"
abbreviation MAX_DEVICE_ID :: nat where "MAX_DEVICE_ID \<equiv> 32"
abbreviation MAX_GEO_STR :: nat where "MAX_GEO_STR \<equiv> 32"
abbreviation MD_VAL_MAX_LEN :: nat where "MD_VAL_MAX_LEN \<equiv> 24"

abbreviation FLOW_HASH_BITS :: nat where "FLOW_HASH_BITS \<equiv> 5"
abbreviation FLOW_HASH_SIZE :: nat where "FLOW_HASH_SIZE \<equiv> 64"
abbreviation EMPTY :: u32 where "EMPTY \<equiv> 0xFFFFFFFF"
abbreviation PCP_INV_SERVER :: u32 where "PCP_INV_SERVER \<equiv> 0xFFFFFFFF"
abbreviation PCP_INIT_SERVER_COUNT :: nat where "PCP_INIT_SERVER_COUNT \<equiv> 5"

abbreviation PCP_MAX_PING_COUNT :: u32 where "PCP_MAX_PING_COUNT \<equiv> 5"
abbreviation PCP_RETX_IRT :: u32 where "PCP_RETX_IRT \<equiv> 3000"
abbreviation PCP_RETX_MRC :: u32 where "PCP_RETX_MRC \<equiv> 3"
abbreviation PCP_RETX_MRT :: u32 where "PCP_RETX_MRT \<equiv> 1024000"
abbreviation PCP_SERVER_DISCOVERY_RETRY_DELAY :: int where
  "PCP_SERVER_DISCOVERY_RETRY_DELAY \<equiv> 3600"
abbreviation PCP_SERVER_PORT :: u16 where "PCP_SERVER_PORT \<equiv> 5351"
abbreviation PCP_MAX_SUPPORTED_VERSION :: u8 where "PCP_MAX_SUPPORTED_VERSION \<equiv> 2"
abbreviation IPPROTO_TCP :: u8 where "IPPROTO_TCP \<equiv> 6"
abbreviation IPPROTO_UDP :: u8 where "IPPROTO_UDP \<equiv> 17"
abbreviation LONG_MAX :: int where "LONG_MAX \<equiv> 9223372036854775807"

section \<open>Enumerations\<close>

datatype pcp_errno =
    PCP_ERR_SUCCESS | PCP_ERR_MAX_SIZE | PCP_ERR_OPT_ALREADY_PRESENT | PCP_ERR_BAD_AFINET
  | PCP_ERR_SEND_FAILED | PCP_ERR_RECV_FAILED | PCP_ERR_UNSUP_VERSION | PCP_ERR_NO_MEM
  | PCP_ERR_BAD_ARGS | PCP_ERR_UNKNOWN | PCP_ERR_SHORT_LIFETIME_ERR | PCP_ERR_TIMEOUT
  | PCP_ERR_NOT_FOUND | PCP_ERR_WOULDBLOCK | PCP_ERR_ADDRINUSE

fun errno_code :: "pcp_errno \<Rightarrow> int" where
  "errno_code PCP_ERR_SUCCESS = 0"
| "errno_code PCP_ERR_MAX_SIZE = -1"
| "errno_code PCP_ERR_OPT_ALREADY_PRESENT = -2"
| "errno_code PCP_ERR_BAD_AFINET = -3"
| "errno_code PCP_ERR_SEND_FAILED = -4"
| "errno_code PCP_ERR_RECV_FAILED = -5"
| "errno_code PCP_ERR_UNSUP_VERSION = -6"
| "errno_code PCP_ERR_NO_MEM = -7"
| "errno_code PCP_ERR_BAD_ARGS = -8"
| "errno_code PCP_ERR_UNKNOWN = -9"
| "errno_code PCP_ERR_SHORT_LIFETIME_ERR = -10"
| "errno_code PCP_ERR_TIMEOUT = -11"
| "errno_code PCP_ERR_NOT_FOUND = -12"
| "errno_code PCP_ERR_WOULDBLOCK = -13"
| "errno_code PCP_ERR_ADDRINUSE = -14"

datatype pcp_fstate_e =
    pcp_state_processing | pcp_state_succeeded | pcp_state_partial_result
  | pcp_state_short_lifetime_error | pcp_state_failed

datatype pcp_flow_state_e =
    pfs_any | pfs_idle | pfs_wait_for_server_init | pfs_send | pfs_wait_resp
  | pfs_wait_after_short_life_error | pfs_wait_for_lifetime_renew | pfs_send_renew
  | pfs_failed

datatype pcp_event_e = pcpe_any | pcpe_timeout | pcpe_io_event | pcpe_terminate

text \<open>
  The flow events; \<open>fev_res r\<close> is the enumerator \<open>FEV_RES_BEGIN + r\<close>, where \<open>r\<close> is a result
  code taken from a received message and need not be one of the named ones.
\<close>

datatype pcp_flow_event_e =
    fev_flow_timedout | fev_server_initialized | fev_send | fev_msg_sent | fev_failed
  | fev_none | fev_server_restarted | fev_ignored | fev_res u32

abbreviation fev_res_success :: pcp_flow_event_e where
  "fev_res_success \<equiv> fev_res PCP_RES_SUCCESS"
abbreviation fev_res_unsupp_version :: pcp_flow_event_e where
  "fev_res_unsupp_version \<equiv> fev_res PCP_RES_UNSUPP_VERSION"
abbreviation fev_res_not_authorized :: pcp_flow_event_e where
  "fev_res_not_authorized \<equiv> fev_res PCP_RES_NOT_AUTHORIZED"
abbreviation fev_res_malformed_request :: pcp_flow_event_e where
  "fev_res_malformed_request \<equiv> fev_res PCP_RES_MALFORMED_REQUEST"
abbreviation fev_res_unsupp_opcode :: pcp_flow_event_e where
  "fev_res_unsupp_opcode \<equiv> fev_res PCP_RES_UNSUPP_OPCODE"
abbreviation fev_res_unsupp_option :: pcp_flow_event_e where
  "fev_res_unsupp_option \<equiv> fev_res PCP_RES_UNSUPP_OPTION"
abbreviation fev_res_network_failure :: pcp_flow_event_e where
  "fev_res_network_failure \<equiv> fev_res PCP_RES_NETWORK_FAILURE"
abbreviation fev_res_no_resources :: pcp_flow_event_e where
  "fev_res_no_resources \<equiv> fev_res PCP_RES_NO_RESOURCES"
abbreviation fev_res_unsupp_protocol :: pcp_flow_event_e where
  "fev_res_unsupp_protocol \<equiv> fev_res PCP_RES_UNSUPP_PROTOCOL"
abbreviation fev_res_user_ex_quota :: pcp_flow_event_e where
  "fev_res_user_ex_quota \<equiv> fev_res PCP_RES_USER_EX_QUOTA"
abbreviation fev_res_cant_provide_ext :: pcp_flow_event_e where
  "fev_res_cant_provide_ext \<equiv> fev_res PCP_RES_CANNOT_PROVIDE_EXTERNAL"
abbreviation fev_res_address_mismatch :: pcp_flow_event_e where
  "fev_res_address_mismatch \<equiv> fev_res PCP_RES_ADDRESS_MISMATCH"
abbreviation fev_res_exc_remote_peers :: pcp_flow_event_e where
  "fev_res_exc_remote_peers \<equiv> fev_res PCP_RES_EXCESSIVE_REMOTE_PEERS"

datatype pcp_server_state_e =
    pss_any | pss_unitialized | pss_allocated | pss_ping | pss_wait_ping_resp
  | pss_version_negotiation | pss_send_all_msgs | pss_wait_io
  | pss_wait_io_calc_nearest_timeout | pss_server_restart | pss_server_reping
  | pss_set_not_working | pss_not_working

section \<open>Structures\<close>

text \<open>
  A \<open>struct in6_addr\<close> is its four 32-bit words \<open>S6_ADDR32(a)[0..3]\<close>, in network byte order
  as they lie in memory; \<open>pcp_nonce\<close> likewise.
\<close>

datatype in6_addr = In6 (w0: u32) (w1: u32) (w2: u32) (w3: u32)

datatype pcp_nonce = Nonce (n0: u32) (n1: u32) (n2: u32)

datatype timeval = Timeval (tv_sec: int) (tv_usec: int)

text \<open>The socket addresses the library tells apart: IPv4, IPv6, any other family.\<close>

datatype sockaddr =
    SA_in (sin_port: u16) (sin_addr: u32)
  | SA_in6 (sin6_port: u16) (sin6_addr: in6_addr) (sin6_scope_id: u32)
  | SA_other (sa_family_other: u16)

record mp_keydata =
  mp_protocol :: u8
  mp_src_port :: u16
  mp_dst_ip :: in6_addr
  mp_dst_port :: u16

record flow_key_data =
  k_operation :: u8
  k_src_ip :: in6_addr
  k_pcp_server_ip :: in6_addr
  k_scope_id :: u32
  k_nonce :: pcp_nonce
  k_map_peer :: mp_keydata

abbreviation in6_zero :: in6_addr where "in6_zero \<equiv> In6 0 0 0 0"

text \<open>The key after \<open>memset(&kd, 0, sizeof(kd))\<close>.\<close>

definition kd_zero :: flow_key_data where
  "kd_zero = \<lparr>k_operation = 0, k_src_ip = in6_zero, k_pcp_server_ip = in6_zero,
     k_scope_id = 0, k_nonce = Nonce 0 0 0,
     k_map_peer = \<lparr>mp_protocol = 0, mp_src_port = 0, mp_dst_ip = in6_zero, mp_dst_port = 0\<rparr>\<rparr>"

record md_val_t =
  md_id :: u16
  md_val_buf :: "u8 list" \<comment> \<open>the first \<open>val_len\<close> bytes of \<open>val_buf\<close>\<close>

record pcp_recv_msg =
  m_kd :: flow_key_data
  m_assigned_ext_ip :: in6_addr
  m_assigned_ext_port :: u16
  m_recv_dscp :: u8
  m_recv_version :: u32
  m_recv_epoch :: u32
  m_recv_lifetime :: u32
  m_recv_result :: u32
  m_received_time :: int
  m_pcp_server_indx :: u32
  m_rcvd_from_addr :: sockaddr
  m_rcvd_to_addr :: sockaddr
  m_pcp_msg_len :: nat
  m_pcp_msg_buffer :: "u8 list"

text \<open>The message after \<open>memset(msg, 0, sizeof(*msg))\<close>; family 0 is \<open>AF_UNSPEC\<close>.\<close>

definition msg_zero :: pcp_recv_msg where
  "msg_zero = \<lparr>m_kd = kd_zero, m_assigned_ext_ip = in6_zero, m_assigned_ext_port = 0,
     m_recv_dscp = 0, m_recv_version = 0, m_recv_epoch = 0, m_recv_lifetime = 0,
     m_recv_result = 0, m_received_time = 0, m_pcp_server_indx = 0,
     m_rcvd_from_addr = SA_other 0, m_rcvd_to_addr = SA_other 0, m_pcp_msg_len = 0,
     m_pcp_msg_buffer = replicate PCP_MAX_LEN 0\<rparr>"

type_synonym fid = nat

text \<open>
  \<open>struct pcp_flow_s\<close>, in three groups: what is requested, control data, options. The union of
  \<open>map_peer\<close> and \<open>sadscp\<close> is kept as the bytes of \<open>map_peer\<close> (\<open>f_ext_ip\<close>, \<open>f_ext_port\<close>); the
  \<open>sadscp\<close> members are the first three bytes of \<open>ext_ip\<close> and have accessors below. The
  back pointer \<open>ctx\<close> is left out, there being one context, and so are \<open>opt_flags\<close> and
  \<open>to_send_count\<close>, which no code reads.
\<close>

record pcp_flow_data =
  f_kd :: flow_key_data
  f_key_bucket :: u32
  f_lifetime :: u32
  f_ext_ip :: in6_addr
  f_ext_port :: u16
  f_sadscp_app_name :: "u8 list option"
  f_recv_lifetime :: int
  f_recv_result :: u32

record pcp_flow_ctl = pcp_flow_data +
  f_next :: "fid option"
  f_next_child :: "fid option"
  f_pcp_server_indx :: u32
  f_state :: pcp_flow_state_e
  f_resend_timeout :: u32
  f_retry_count :: u32
  f_timeout :: timeval
  f_pcp_msg_len :: nat
  f_pcp_msg_buffer :: "u8 list option"
  f_user_data :: nat

record pcp_flow = pcp_flow_ctl +
  f_userid :: "u8 list"
  f_location :: "u8 list"
  f_deviceid :: "u8 list"
  f_flowp_option_present :: bool
  f_flowp_dscp_up :: u8
  f_flowp_dscp_down :: u8
  f_pfailure_option_present :: bool
  f_filter_option_present :: bool
  f_filter_prefix :: u8
  f_filter_port :: u16
  f_filter_ip :: in6_addr
  f_third_party_option_present :: bool
  f_third_party_ip :: in6_addr
  f_md_vals :: "md_val_t list"

text \<open>A flow as \<open>calloc\<close> returns it.\<close>

definition flow_zero :: pcp_flow where
  "flow_zero = \<lparr>f_kd = kd_zero, f_key_bucket = 0, f_lifetime = 0, f_ext_ip = in6_zero,
     f_ext_port = 0, f_sadscp_app_name = None, f_recv_lifetime = 0, f_recv_result = 0,
     f_next = None, f_next_child = None, f_pcp_server_indx = 0, f_state = pfs_idle,
     f_resend_timeout = 0, f_retry_count = 0, f_timeout = Timeval 0 0, f_pcp_msg_len = 0,
     f_pcp_msg_buffer = None, f_user_data = 0,
     f_userid = replicate MAX_USER_ID 0, f_location = replicate MAX_GEO_STR 0,
     f_deviceid = replicate MAX_DEVICE_ID 0, f_flowp_option_present = False,
     f_flowp_dscp_up = 0, f_flowp_dscp_down = 0, f_pfailure_option_present = False,
     f_filter_option_present = False, f_filter_prefix = 0, f_filter_port = 0,
     f_filter_ip = in6_zero, f_third_party_option_present = False,
     f_third_party_ip = in6_zero, f_md_vals = []\<rparr>"

text \<open>The \<open>sadscp\<close> view of the union.\<close>

definition f_toler_fields :: "pcp_flow \<Rightarrow> u8" where
  "f_toler_fields f = ucast (w0 (f_ext_ip f))"

definition f_app_name_length :: "pcp_flow \<Rightarrow> u8" where
  "f_app_name_length f = ucast (drop_bit 8 (w0 (f_ext_ip f)))"

definition f_learned_dscp :: "pcp_flow \<Rightarrow> u8" where
  "f_learned_dscp f = ucast (drop_bit 16 (w0 (f_ext_ip f)))"

definition set_ext_byte :: "nat \<Rightarrow> u8 \<Rightarrow> in6_addr \<Rightarrow> in6_addr" where
  "set_ext_byte i b a = In6 (u32_of ((u32_bytes (w0 a))[i := b])) (w1 a) (w2 a) (w3 a)"

text \<open>\<open>struct pcp_server\<close>, without the printable address used by the log messages only.\<close>

record pcp_server =
  s_af_inet6 :: bool \<comment> \<open>\<open>af\<close> is \<open>AF_INET6\<close>, else \<open>AF_INET\<close>\<close>
  s_pcp_ip :: in6_addr
  s_pcp_port :: u16
  s_pcp_scope_id :: u32
  s_src_ip :: in6_addr
  s_pcp_server_saddr :: sockaddr
  s_pcp_version :: u8
  s_next_version :: u8
  s_server_state :: pcp_server_state_e
  s_epoch :: u32
  s_cepoch :: int
  s_nonce :: pcp_nonce
  s_index :: u32
  s_ping_flow_msg :: "fid option"
  s_restart_flow_msg :: "fid option"
  s_ping_count :: u32
  s_next_timeout :: timeval
  s_natpmp_ext_addr :: u32

definition server_zero :: pcp_server where
  "server_zero = \<lparr>s_af_inet6 = False, s_pcp_ip = in6_zero, s_pcp_port = 0,
     s_pcp_scope_id = 0, s_src_ip = in6_zero, s_pcp_server_saddr = SA_other 0,
     s_pcp_version = 0, s_next_version = 0, s_server_state = pss_unitialized, s_epoch = 0,
     s_cepoch = 0, s_nonce = Nonce 0 0 0, s_index = 0, s_ping_flow_msg = None,
     s_restart_flow_msg = None, s_ping_count = 0, s_next_timeout = Timeval 0 0,
     s_natpmp_ext_addr = 0\<rparr>"

section \<open>The world and the context\<close>

text \<open>
  What the library asks of its surroundings. Each call of \<open>gettimeofday\<close>, \<open>time\<close>, \<open>random\<close>,
  of the allocator, of the socket's virtual table and of the kernel's route lookup consumes the next
  answer of an oracle.
  \<open>w_sent\<close> and \<open>w_notified\<close> log what was handed to the socket and to the flow change
  callback, newest first.
\<close>

datatype recv_result =
    Recv_fail int
  | Recv_ok "u8 list" sockaddr sockaddr \<comment> \<open>packet, source, destination\<close>

record sent_packet =
  sp_data :: "u8 list"
  sp_src :: sockaddr
  sp_dst :: sockaddr
  sp_ret :: int

record notification =
  nt_flow :: fid
  nt_src :: sockaddr
  nt_ext :: sockaddr
  nt_state :: pcp_fstate_e

text \<open>
  The kernel's answers in one source address selection (\<open>findsaddr\<close>, \<open>findsaddr6\<close>): whether \<open>socket\<close>
  and \<open>setsockopt\<close> succeed, whether \<open>connect\<close> to a destination does, and what \<open>getsockname\<close> says of the
  socket connected to it.
\<close>

record route_lookup =
  rl_socket :: bool
  rl_setsockopt :: bool
  rl_connect :: "sockaddr \<Rightarrow> bool"
  rl_getsockname :: "sockaddr \<Rightarrow> sockaddr option"

record world =
  w_tod :: "nat \<Rightarrow> timeval"
  w_tod_i :: nat
  w_time :: "nat \<Rightarrow> int"
  w_time_i :: nat
  w_random :: "nat \<Rightarrow> u32"
  w_random_i :: nat
  w_alloc :: "nat \<Rightarrow> bool"
  w_alloc_i :: nat
  w_sendto :: "nat \<Rightarrow> u8 list \<Rightarrow> int"
  w_sendto_i :: nat
  w_recvfrom :: "nat \<Rightarrow> recv_result"
  w_recvfrom_i :: nat
  w_route :: "nat \<Rightarrow> route_lookup"
  w_route_i :: nat
  w_sent :: "sent_packet list"
  w_notified :: "notification list"

record pcp_ctx = world +
  c_pcp_servers :: "pcp_server list"
  c_flow_cnt :: nat
  c_flows :: "fid option list"
  c_flow_change_cb :: bool
  c_msg :: pcp_recv_msg
  c_heap :: "fid \<Rightarrow> pcp_flow option"
  c_brk :: nat

type_synonym 'a result = "('a \<times> pcp_ctx) option"

subsection \<open>Oracle calls\<close>

definition gettimeofday :: "pcp_ctx \<Rightarrow> timeval \<times> pcp_ctx" where
  "gettimeofday c = (w_tod c (w_tod_i c), c\<lparr>w_tod_i := Suc (w_tod_i c)\<rparr>)"

definition time_now :: "pcp_ctx \<Rightarrow> int \<times> pcp_ctx" where
  "time_now c = (w_time c (w_time_i c), c\<lparr>w_time_i := Suc (w_time_i c)\<rparr>)"

definition route_next :: "pcp_ctx \<Rightarrow> route_lookup \<times> pcp_ctx" where
  "route_next c = (w_route c (w_route_i c), c\<lparr>w_route_i := Suc (w_route_i c)\<rparr>)"

definition random_next :: "pcp_ctx \<Rightarrow> u32 \<times> pcp_ctx" where
  "random_next c = (w_random c (w_random_i c), c\<lparr>w_random_i := Suc (w_random_i c)\<rparr>)"

definition alloc_next :: "pcp_ctx \<Rightarrow> bool \<times> pcp_ctx" where
  "alloc_next c = (w_alloc c (w_alloc_i c), c\<lparr>w_alloc_i := Suc (w_alloc_i c)\<rparr>)"

subsection \<open>The flow heap\<close>

text \<open>Access through a \<open>pcp_flow_t *\<close>: \<open>None\<close> for a dangling pointer.\<close>

definition rd_flow :: "fid \<Rightarrow> pcp_ctx \<Rightarrow> pcp_flow option" where
  "rd_flow p c = c_heap c p"

definition upd_flow :: "fid \<Rightarrow> (pcp_flow \<Rightarrow> pcp_flow) \<Rightarrow> pcp_ctx \<Rightarrow> pcp_ctx option" where
  "upd_flow p g c =
     (case c_heap c p of None \<Rightarrow> None | Some f \<Rightarrow> Some (c\<lparr>c_heap := (c_heap c)(p \<mapsto> g f)\<rparr>))"

definition new_flow_cell :: "pcp_flow \<Rightarrow> pcp_ctx \<Rightarrow> fid \<times> pcp_ctx" where
  "new_flow_cell f c =
     (c_brk c, c\<lparr>c_heap := (c_heap c)(c_brk c \<mapsto> f), c_brk := Suc (c_brk c)\<rparr>)"

definition free_flow_cell :: "fid \<Rightarrow> pcp_ctx \<Rightarrow> pcp_ctx option" where
  "free_flow_cell p c =
     (case c_heap c p of None \<Rightarrow> None | Some f \<Rightarrow> Some (c\<lparr>c_heap := (c_heap c)(p := None)\<rparr>))"

definition rd_server :: "nat \<Rightarrow> pcp_ctx \<Rightarrow> pcp_server option" where
  "rd_server i c = (if i < length (c_pcp_servers c) then Some (c_pcp_servers c ! i) else None)"

definition upd_server :: "nat \<Rightarrow> (pcp_server \<Rightarrow> pcp_server) \<Rightarrow> pcp_ctx \<Rightarrow> pcp_ctx option" where
  "upd_server i g c =
     (if i < length (c_pcp_servers c)
      then Some (c\<lparr>c_pcp_servers := (c_pcp_servers c)[i := g (c_pcp_servers c ! i)]\<rparr>) else None)"

section \<open>A context as it is created\<close>

text \<open>
  The context that \<open>pcp_init\<close> allocates: no servers, empty buckets. The oracles here are those of a
  world in which time stands still, memory is plentiful, packets are sent whole, none arrives, and the
  source address towards every destination is \<open>::ffff:1.0.0.0\<close>.
\<close>

definition ctx_start :: pcp_ctx where
  "ctx_start = \<lparr>w_tod = (\<lambda>_. Timeval 1000 0), w_tod_i = 0, w_time = (\<lambda>_. 1000), w_time_i = 0,
     w_random = (\<lambda>i. of_nat i), w_random_i = 0, w_alloc = (\<lambda>_. True), w_alloc_i = 0,
     w_sendto = (\<lambda>_ bs. int (length bs)), w_sendto_i = 0, w_recvfrom = (\<lambda>_. Recv_fail (-13)),
     w_recvfrom_i = 0,
     w_route = (\<lambda>_. \<lparr>rl_socket = True, rl_setsockopt = True, rl_connect = (\<lambda>_. True),
        rl_getsockname = (\<lambda>_. Some (SA_in6 0 (In6 0 0 0xFFFF0000 1) 0))\<rparr>), w_route_i = 0, w_sent = [], w_notified = [], c_pcp_servers = [], c_flow_cnt = 0,
     c_flows = replicate FLOW_HASH_SIZE None, c_flow_change_cb = False, c_msg = msg_zero,
     c_heap = (\<lambda>_. None), c_brk = 0\<rparr>"

end
