(* ===== verification/Net_Addr.thy ===== *)
theory Net_Addr
  imports Pcp_Types
begin

text \<open>
  Addresses: the byte layout of \<open>struct in6_addr\<close> and \<open>struct pcp_nonce\<close>, the address
  predicates of \<open>netinet/in.h\<close> and \<open>pcp_utils.h\<close>, and the conversions between \<open>sockaddr\<close>s
  and IPv6 (possibly IPv4-mapped) addresses of \<open>net/pcp_socket.c\<close>.
\<close>

section \<open>Layout\<close>

definition in6_bytes :: "in6_addr \<Rightarrow> u8 list" where
  "in6_bytes a = u32_bytes (w0 a) @ u32_bytes (w1 a) @ u32_bytes (w2 a) @ u32_bytes (w3 a)"

definition in6_of :: "u8 list \<Rightarrow> in6_addr" where
  "in6_of bs = In6 (u32_of (take 4 bs)) (u32_of (take 4 (drop 4 bs)))
     (u32_of (take 4 (drop 8 bs))) (u32_of (take 4 (drop 12 bs)))"

definition nonce_bytes :: "pcp_nonce \<Rightarrow> u8 list" where
  "nonce_bytes n = u32_bytes (n0 n) @ u32_bytes (n1 n) @ u32_bytes (n2 n)"

definition nonce_of :: "u8 list \<Rightarrow> pcp_nonce" where
  "nonce_of bs = Nonce (u32_of (take 4 bs)) (u32_of (take 4 (drop 4 bs)))
     (u32_of (take 4 (drop 8 bs)))"

lemma take_drop_chunks:
  "take 4 bs @ take 4 (drop 4 bs) @ take 4 (drop 8 bs) @ drop 12 bs = bs"
proof -
  have "take 4 (drop 8 bs) @ drop 12 bs = drop 8 bs"
    using append_take_drop_id [of 4 "drop 8 bs"] by simp
  moreover have "take 4 (drop 4 bs) @ drop 8 bs = drop 4 bs"
    using append_take_drop_id [of 4 "drop 4 bs"] by simp
  ultimately show ?thesis by simp
qed

interpretation in6c: byte_codec in6_bytes in6_of 16
proof unfold_locales
  show "length (in6_bytes v) = 16" for v by (simp add: in6_bytes_def u32c.enc_length)
  show "in6_of (in6_bytes v) = v" for v
    by (simp add: in6_bytes_def in6_of_def u32c.enc_length u32c.dec_enc)
  show "in6_bytes (in6_of bs) = bs" if "length bs = 16" for bs
    using that by (simp add: in6_bytes_def in6_of_def u32c.enc_dec take_drop_chunks)
qed

interpretation noncec: byte_codec nonce_bytes nonce_of 12
proof unfold_locales
  show "length (nonce_bytes v) = 12" for v by (simp add: nonce_bytes_def u32c.enc_length)
  show "nonce_of (nonce_bytes v) = v" for v
    by (simp add: nonce_bytes_def nonce_of_def u32c.enc_length u32c.dec_enc)
  show "nonce_bytes (nonce_of bs) = bs" if "length bs = 12" for bs
    using that take_drop_chunks [of bs] by (simp add: nonce_bytes_def nonce_of_def u32c.enc_dec)
qed

lemmas codec_lengths [simp] =
  u8c.enc_length u16c.enc_length u32c.enc_length in6c.enc_length noncec.enc_length

lemmas codec_dec_enc [simp] =
  u8c.dec_enc u16c.dec_enc u32c.dec_enc in6c.dec_enc noncec.dec_enc

section \<open>Address predicates\<close>

definition IN6_IS_ADDR_UNSPECIFIED :: "in6_addr \<Rightarrow> bool" where
  "IN6_IS_ADDR_UNSPECIFIED a \<longleftrightarrow> w0 a = 0 \<and> w1 a = 0 \<and> w2 a = 0 \<and> w3 a = 0"

definition IN6_IS_ADDR_V4MAPPED :: "in6_addr \<Rightarrow> bool" where
  "IN6_IS_ADDR_V4MAPPED a \<longleftrightarrow> w0 a = 0 \<and> w1 a = 0 \<and> w2 a = htonl 0xFFFF"

definition IN6_IS_ADDR_LINKLOCAL :: "in6_addr \<Rightarrow> bool" where
  "IN6_IS_ADDR_LINKLOCAL a \<longleftrightarrow> w0 a AND htonl 0xFFC00000 = htonl 0xFE800000"

definition IPV6_IS_ADDR_ANY :: "in6_addr \<Rightarrow> bool" where
  "IPV6_IS_ADDR_ANY a \<longleftrightarrow> IN6_IS_ADDR_UNSPECIFIED a \<or>
     (IN6_IS_ADDR_V4MAPPED a \<and> in6_bytes a ! 12 = 0 \<and> in6_bytes a ! 13 = 0 \<and>
      in6_bytes a ! 14 = 0 \<and> in6_bytes a ! 15 = 0)"

text \<open>The address \<open>::ffff:a.b.c.d\<close> of an IPv4 address in network byte order.\<close>

definition v4mapped :: "u32 \<Rightarrow> in6_addr" where
  "v4mapped a = In6 0 0 (htonl 0xFFFF) a"

lemma v4mapped_is_mapped [simp]: "IN6_IS_ADDR_V4MAPPED (v4mapped a)"
  by (simp add: v4mapped_def IN6_IS_ADDR_V4MAPPED_def)

lemma v4mapped_inv: "IN6_IS_ADDR_V4MAPPED a \<Longrightarrow> v4mapped (w3 a) = a"
  by (cases a) (simp add: v4mapped_def IN6_IS_ADDR_V4MAPPED_def)

lemma u32_bytes_zero_iff: "u32_bytes w = [0, 0, 0, 0] \<longleftrightarrow> w = 0"
proof -
  have "u32_bytes 0 = [0, 0, 0, 0]" by (simp add: u32_bytes_def)
  then show ?thesis by (metis u32c.enc_inj)
qed

lemma IPV6_IS_ADDR_ANY_iff:
  "IPV6_IS_ADDR_ANY a \<longleftrightarrow> a = in6_zero \<or> a = v4mapped 0"
proof -
  have "u32_bytes w = [0, 0, 0, 0] \<longleftrightarrow> u32_bytes w ! 0 = 0 \<and> u32_bytes w ! 1 = 0 \<and>
      u32_bytes w ! 2 = 0 \<and> u32_bytes w ! 3 = 0" for w
    by (simp add: u32_bytes_def)
  moreover have "in6_bytes a ! (12 + i) = u32_bytes (w3 a) ! i" if "i < 4" for i
    using that by (simp add: in6_bytes_def nth_append)
  from this [of 0] this [of 1] this [of 2] this [of 3]
  have "in6_bytes a ! 12 = u32_bytes (w3 a) ! 0" "in6_bytes a ! 13 = u32_bytes (w3 a) ! 1"
    "in6_bytes a ! 14 = u32_bytes (w3 a) ! 2" "in6_bytes a ! 15 = u32_bytes (w3 a) ! 3"
    by simp_all
  ultimately show ?thesis
    by (cases a) (auto simp: IPV6_IS_ADDR_ANY_def IN6_IS_ADDR_UNSPECIFIED_def
        IN6_IS_ADDR_V4MAPPED_def v4mapped_def u32_bytes_zero_iff [symmetric])
qed

section \<open>Conversions of \<open>net/pcp_socket.c\<close>\<close>

text \<open>
  The three results of \<open>pcp_fill_in6_addr\<close> as a triple, from their old values: a family other
  than \<open>AF_INET\<close> and \<open>AF_INET6\<close> leaves all three alone. A caller that passes \<open>NULL\<close> for a
  result drops that component.
\<close>

fun pcp_fill_in6_addr :: "in6_addr \<times> u16 \<times> u32 \<Rightarrow> sockaddr \<Rightarrow> in6_addr \<times> u16 \<times> u32" where
  "pcp_fill_in6_addr old (SA_in port addr) = (v4mapped addr, port, 0)"
| "pcp_fill_in6_addr old (SA_in6 port addr scope) = (addr, port, scope)"
| "pcp_fill_in6_addr old (SA_other fam) = old"

definition pcp_fill_sockaddr :: "in6_addr \<Rightarrow> u16 \<Rightarrow> bool \<Rightarrow> u32 \<Rightarrow> sockaddr" where
  "pcp_fill_sockaddr sip sport ret_ipv6_mapped_ipv4 scope_id =
     (if \<not> ret_ipv6_mapped_ipv4 \<and> IN6_IS_ADDR_V4MAPPED sip then SA_in sport (w3 sip)
      else SA_in6 sport sip scope_id)"

definition have_same_af :: "in6_addr \<Rightarrow> in6_addr \<Rightarrow> bool" where
  "have_same_af a b \<longleftrightarrow>
     (IN6_IS_ADDR_V4MAPPED a \<and> IN6_IS_ADDR_V4MAPPED b) \<or>
     (\<not> IN6_IS_ADDR_V4MAPPED a \<and> \<not> IN6_IS_ADDR_V4MAPPED b)"

text \<open>
  Converting an address to a \<open>sockaddr\<close> and back, whichever of the two representations was
  asked for, gives the address and the port again, and the scope of every address that is
  not sent out as IPv4.
\<close>

lemma fill_in6_fill_sockaddr:
  "pcp_fill_in6_addr old (pcp_fill_sockaddr ip port mapped scope) =
     (ip, port, if \<not> mapped \<and> IN6_IS_ADDR_V4MAPPED ip then 0 else scope)"
  by (auto simp: pcp_fill_sockaddr_def v4mapped_inv)

lemma fill_sockaddr_fill_in6:
  "pcp_fill_in6_addr old sa = (ip, port, scope) \<Longrightarrow> sa = SA_in q a \<or> sa = SA_in6 q b r \<Longrightarrow>
     \<not> (\<exists>p x s. sa = SA_in6 p x s \<and> IN6_IS_ADDR_V4MAPPED x) \<Longrightarrow>
     pcp_fill_sockaddr ip port False scope = sa"
  by (cases sa) (auto simp: pcp_fill_sockaddr_def, simp add: v4mapped_def)

section \<open>Properties\<close>

text \<open>An address that is turned into a socket address, in either of the two representations, and
  back is the same address with the same port; the scope survives unless the address is handed out
  as an IPv4 one. Any two IPv4 socket addresses, and any two IPv6 socket addresses that are not
  IPv4-mapped, are told apart by their IPv6 form.\<close>

theorem sockaddr_round_trip:
  "pcp_fill_in6_addr old (pcp_fill_sockaddr ip port mapped scope) =
     (ip, port, if \<not> mapped \<and> IN6_IS_ADDR_V4MAPPED ip then 0 else scope) \<and>
   (case pcp_fill_in6_addr old (SA_in port a) of (ip', port', scope') \<Rightarrow>
      pcp_fill_sockaddr ip' port' False scope' = SA_in port a) \<and>
   (IN6_IS_ADDR_V4MAPPED ip \<or> (case pcp_fill_in6_addr old (SA_in6 port ip scope) of (ip', port', scope') \<Rightarrow>
      pcp_fill_sockaddr ip' port' False scope' = SA_in6 port ip scope))"
proof -
  have "w3 (v4mapped a) = a" by (simp add: v4mapped_def)
  then show ?thesis
    using fill_in6_fill_sockaddr [of old ip port mapped scope] by (simp add: pcp_fill_sockaddr_def)
qed

end
