(* ===== verification/Pcp_Utils.thy ===== *)
theory Pcp_Utils
  imports Net_Addr
begin

text \<open>
  The inline helpers of \<open>pcp_utils.h\<close>: arithmetic on \<open>struct timeval\<close>, the epoch check of
  RFC 6887 section 8.5 and the nonce generator, with their meaning in microseconds and
  seconds.
\<close>

section \<open>timeval\<close>

text \<open>
  \<open>sdiv\<close> and \<open>smod\<close> are C's division and remainder, which truncate towards zero. The C
  functions normalise their arguments in place, so the models return them.
\<close>

definition timeval_align :: "timeval \<Rightarrow> timeval" where
  "timeval_align x =
     (let sec = tv_sec x + tv_usec x sdiv 1000000; usec = tv_usec x smod 1000000
      in if usec < 0 then Timeval (sec - 1) (1000000 + usec) else Timeval sec usec)"

definition timeval_comp :: "timeval \<Rightarrow> timeval \<Rightarrow> int \<times> timeval \<times> timeval" where
  "timeval_comp x0 y0 =
     (let x = timeval_align x0; y = timeval_align y0 in
      (if tv_sec x < tv_sec y then -1 else if tv_sec x > tv_sec y then 1
       else if tv_usec x < tv_usec y then -1 else if tv_usec x > tv_usec y then 1 else 0, x, y))"

text \<open>
  \<open>timeval_subtract(result, x, y)\<close>: returned flag, \<open>result\<close>, and \<open>x\<close>, \<open>y\<close> as the call leaves
  them. Where \<open>result\<close> and \<open>y\<close> are the same object the caller keeps \<open>result\<close>: the code reads
  each field of \<open>y\<close> before it writes that field of \<open>result\<close>.
\<close>

definition timeval_subtract :: "timeval \<Rightarrow> timeval \<Rightarrow> bool \<times> timeval \<times> timeval \<times> timeval" where
  "timeval_subtract x0 y0 =
     (let (ret, x, y) = timeval_comp x0 y0 in
      if ret \<le> 0 then (True, Timeval 0 0, x, y)
      else
        let y' = (if tv_usec x < tv_usec y
                  then let nsec = (tv_usec y - tv_usec x) sdiv 1000000 + 1
                       in Timeval (tv_sec y + nsec) (tv_usec y - 1000000 * nsec)
                  else y)
        in (False, timeval_align (Timeval (tv_sec x - tv_sec y') (tv_usec x - tv_usec y')), x, y'))"

abbreviation tv_zero :: timeval where "tv_zero \<equiv> Timeval 0 0"

definition tv_us :: "timeval \<Rightarrow> int" where
  "tv_us t = tv_sec t * 1000000 + tv_usec t"

definition tv_normal :: "timeval \<Rightarrow> bool" where
  "tv_normal t \<longleftrightarrow> 0 \<le> tv_usec t \<and> tv_usec t < 1000000"

lemma int_smod_sdiv: "(x :: int) = x sdiv 1000000 * 1000000 + x smod 1000000"
  by (simp only: sdiv_mult_smod_eq)

lemma int_smod_bound: "\<bar>(x :: int) smod 1000000\<bar> < 1000000"
  by (simp add: signed_modulo_int_def abs_mult)

lemma timeval_align_us [simp]: "tv_us (timeval_align x) = tv_us x"
  using int_smod_sdiv [of "tv_usec x"] by (simp add: timeval_align_def tv_us_def Let_def)

lemma timeval_align_normal [simp]: "tv_normal (timeval_align x)"
  using int_smod_bound [of "tv_usec x"] by (auto simp: timeval_align_def tv_normal_def Let_def)

lemma tv_normal_less: "tv_normal x \<Longrightarrow> tv_normal y \<Longrightarrow>
    (tv_us x < tv_us y) = (tv_sec x < tv_sec y \<or> tv_sec x = tv_sec y \<and> tv_usec x < tv_usec y)"
  by (auto simp: tv_normal_def tv_us_def)

lemma tv_normal_eq: "tv_normal x \<Longrightarrow> tv_normal y \<Longrightarrow> (tv_us x = tv_us y) = (x = y)"
  using tv_normal_less [of x y] tv_normal_less [of y x]
  by (cases x; cases y) (auto simp: tv_us_def)

instantiation timeval :: linorder
begin

definition less_eq_timeval :: "timeval \<Rightarrow> timeval \<Rightarrow> bool" where
  "less_eq_timeval x y \<longleftrightarrow> tv_sec x < tv_sec y \<or> tv_sec x = tv_sec y \<and> tv_usec x \<le> tv_usec y"

definition less_timeval :: "timeval \<Rightarrow> timeval \<Rightarrow> bool" where
  "less_timeval x y \<longleftrightarrow> tv_sec x < tv_sec y \<or> tv_sec x = tv_sec y \<and> tv_usec x < tv_usec y"

instance
  by intro_classes (auto simp: less_eq_timeval_def less_timeval_def intro: timeval.expand)

end

text \<open>On normalised values the lexicographic order is the order of the instants.\<close>

lemma tv_less_iff_us: "tv_normal x \<Longrightarrow> tv_normal y \<Longrightarrow> x < y \<longleftrightarrow> tv_us x < tv_us y"
  by (simp add: less_timeval_def tv_normal_less)

lemma timeval_align_id: "tv_normal x \<Longrightarrow> timeval_align x = x"
  by (simp flip: tv_normal_eq)

lemma timeval_comp_sgn: "timeval_comp x y = (sgn (tv_us x - tv_us y), timeval_align x, timeval_align y)"
proof -
  let ?x = "timeval_align x" and ?y = "timeval_align y"
  have lt: "(tv_us x < tv_us y) = (tv_sec ?x < tv_sec ?y \<or> tv_sec ?x = tv_sec ?y \<and> tv_usec ?x < tv_usec ?y)"
    using tv_normal_less [of ?x ?y] by simp
  have gt: "(tv_us y < tv_us x) = (tv_sec ?y < tv_sec ?x \<or> tv_sec ?y = tv_sec ?x \<and> tv_usec ?y < tv_usec ?x)"
    using tv_normal_less [of ?y ?x] by simp
  from lt gt show ?thesis by (auto simp: timeval_comp_def Let_def sgn_if)
qed

lemma timeval_subtract_flag: "fst (timeval_subtract x y) \<longleftrightarrow> tv_us x \<le> tv_us y"
  by (simp add: timeval_subtract_def timeval_comp_sgn Let_def sgn_if)

lemma timeval_subtract_diff: "tv_us (fst (snd (timeval_subtract x y))) = max 0 (tv_us x - tv_us y)"
proof (cases "tv_us x \<le> tv_us y")
  case True
  then show ?thesis by (simp add: timeval_subtract_def timeval_comp_sgn tv_us_def sgn_if)
next
  case False
  note us = timeval_align_us [of x, unfolded tv_us_def] timeval_align_us [of y, unfolded tv_us_def]
  show ?thesis using False
    by (simp add: timeval_subtract_def timeval_comp_sgn Let_def sgn_if)
      (use us in \<open>simp add: tv_us_def algebra_simps\<close>)
qed

lemma timeval_subtract_normal: "tv_normal (fst (snd (timeval_subtract x y)))"
  by (simp add: timeval_subtract_def timeval_comp_sgn Let_def) (simp add: tv_normal_def)

lemma timeval_subtract_arg: "tv_us (fst (snd (snd (timeval_subtract x y)))) = tv_us x"
proof -
  have shift: "tv_us (Timeval (tv_sec t + (n + 1)) (tv_usec t - (1000000 * n + 1000000))) = tv_us t" for t n
    by (simp add: tv_us_def algebra_simps)
  show ?thesis by (auto simp: timeval_subtract_def timeval_comp_sgn Let_def shift)
qed

section \<open>Epochs\<close>

definition compare_epochs :: "pcp_recv_msg \<Rightarrow> pcp_server \<Rightarrow> bool \<times> pcp_server" where
  "compare_epochs f s0 =
     (let s = (if s_epoch s0 = 0xFFFFFFFF
               then s0\<lparr>s_epoch := m_recv_epoch f, s_cepoch := m_received_time f\<rparr> else s0);
          c_delta = (word_of_int (m_received_time f - s_cepoch s) :: u32);
          s_delta = m_recv_epoch f - s_epoch s
      in (c_delta + 2 < s_delta - drop_bit 4 s_delta \<or> s_delta + 2 < c_delta - drop_bit 4 c_delta,
          s))"

section \<open>Nonces\<close>

definition createNonce :: "pcp_ctx \<Rightarrow> pcp_nonce \<times> pcp_ctx" where
  "createNonce c =
     (let (r2, c) = random_next c; (r1, c) = random_next c; (r0, c) = random_next c
      in (Nonce (htonl r0) (htonl r1) (htonl r2), c))"

section \<open>Properties\<close>

text \<open>\<open>timeval_subtract\<close> returns 1 exactly when the first instant is not after the second one;
  its result is the difference of the instants in microseconds, cut off at zero, and normalised;
  the two arguments, which the call rewrites in place, still denote the same instants.\<close>

theorem timeval_subtract_correct:
  "case timeval_subtract x y of (neg, r, x', y') \<Rightarrow>
     (neg = (tv_us x \<le> tv_us y)) \<and> tv_us r = max 0 (tv_us x - tv_us y) \<and> tv_normal r \<and>
     tv_us x' = tv_us x \<and> tv_us y' = tv_us y"
proof -
  obtain neg r x' y' where s: "timeval_subtract x y = (neg, r, x', y')" by (metis prod_cases4)
  have shift: "tv_us (Timeval (tv_sec t + (n + 1)) (tv_usec t - (1000000 * n + 1000000))) = tv_us t" for t n
    by (simp add: tv_us_def algebra_simps)
  have "tv_us x' = tv_us x" "tv_us y' = tv_us y"
    using s by (auto simp: timeval_subtract_def timeval_comp_sgn Let_def shift split: if_splits)
  with s show ?thesis
    using timeval_subtract_flag [of x y] timeval_subtract_diff [of x y] timeval_subtract_normal [of x y]
    by simp
qed

text \<open>\<open>timeval_comp\<close> compares the instants, whatever the representation of its arguments, and
  leaves them normalised: its result is the sign of their difference in microseconds.\<close>

theorem timeval_comp_correct:
  "case timeval_comp x y of (r, x', y') \<Rightarrow>
     r = sgn (tv_us x - tv_us y) \<and> tv_us x' = tv_us x \<and> tv_us y' = tv_us y \<and>
     tv_normal x' \<and> tv_normal y' \<and> (r < 0 \<longleftrightarrow> x' < y') \<and> (r = 0 \<longleftrightarrow> x' = y')"
  by (simp add: timeval_comp_sgn tv_less_iff_us sgn_if flip: tv_normal_eq)

text \<open>The deltas of \<open>compare_epochs\<close> as numbers of seconds.\<close>

lemma epoch_test_nat:
  fixes c s :: u32
  assumes "unat c + 2 < 2 ^ 32"
  shows "c + 2 < s - drop_bit 4 s \<longleftrightarrow> unat c + 2 < unat s - unat s div 16"
proof -
  have "unat (drop_bit 4 s) = unat s div 16"
    by (simp add: unsigned_drop_bit_eq drop_bit_eq_div unat_div)
  moreover have "drop_bit 4 s \<le> s"
    by (simp add: word_le_nat_alt unsigned_drop_bit_eq drop_bit_eq_div unat_div)
  ultimately have "unat (s - drop_bit 4 s) = unat s - unat s div 16"
    by (simp add: unat_sub)
  moreover have "unat (c + 2) = unat c + 2"
    using assms by (subst unat_add_lem [THEN iffD1]) simp_all
  ultimately show ?thesis by (simp add: word_less_nat_alt)
qed

text \<open>The elapsed seconds that the two clocks report, as the code subtracts them.\<close>

definition server_elapsed :: "pcp_recv_msg \<Rightarrow> pcp_server \<Rightarrow> nat" where
  "server_elapsed m s = unat (m_recv_epoch m - s_epoch s)"

definition client_elapsed :: "pcp_recv_msg \<Rightarrow> pcp_server \<Rightarrow> nat" where
  "client_elapsed m s = unat (word_of_int (m_received_time m - s_cepoch s) :: u32)"

lemma compare_epochs_known:
  assumes "s_epoch s \<noteq> 0xFFFFFFFF" "server_elapsed m s + 2 < 2 ^ 32" "client_elapsed m s + 2 < 2 ^ 32"
  shows "compare_epochs m s =
    (client_elapsed m s + 2 < server_elapsed m s - server_elapsed m s div 16 \<or>
     server_elapsed m s + 2 < client_elapsed m s - client_elapsed m s div 16, s)"
  using assms by (simp add: compare_epochs_def Let_def server_elapsed_def client_elapsed_def epoch_test_nat)

lemma epoch_back_restart:
  assumes "s_epoch s \<noteq> 0xFFFFFFFF" "m_recv_epoch m < s_epoch s"
    "unat (s_epoch s) \<le> unat (m_recv_epoch m) + 2 ^ 31" "client_elapsed m s < 2000000000"
  shows "compare_epochs m s = (True, s)"
proof -
  let ?a = "unat (m_recv_epoch m)" and ?b = "unat (s_epoch s)"
  have "?b < 2 ^ 32" using unsigned_less [where ?'a = nat, of "s_epoch s"] by simp
  moreover have lt: "?a < ?b" using assms(2) by (simp add: word_less_nat_alt)
  ultimately have sd: "server_elapsed m s = 2 ^ 32 - (?b - ?a)"
    unfolding server_elapsed_def by (simp only: unat_sub_if_size word_size) simp
  have "client_elapsed m s + 2 < server_elapsed m s - server_elapsed m s div 16"
    using sd assms(3,4) lt by simp
  moreover have "client_elapsed m s + 2 < 2 ^ 32" using assms(4) by simp
  ultimately have "word_of_int (m_received_time m - s_cepoch s) + 2 <
      (m_recv_epoch m - s_epoch s) - drop_bit 4 (m_recv_epoch m - s_epoch s)"
    unfolding server_elapsed_def client_elapsed_def by (subst epoch_test_nat)
  with assms(1) show ?thesis by (simp add: compare_epochs_def Let_def)
qed

text \<open>C36: the validity check of the epoch (RFC 6887, section 8.5). The first message of a server only
  records its epoch. Later, a server whose clock and the client's clock have advanced by numbers of
  seconds that differ by at most two is not taken for restarted; a server whose epoch went back (by
  up to \<open>2 ^ 31\<close> seconds) while the client's clock advanced by less than 2,000,000,000 seconds is.\<close>

theorem compare_epochs_correct:
  "(s_epoch s = 0xFFFFFFFF \<longrightarrow>
      compare_epochs m s = (False, s\<lparr>s_epoch := m_recv_epoch m, s_cepoch := m_received_time m\<rparr>)) \<and>
   (s_epoch s \<noteq> 0xFFFFFFFF \<and> server_elapsed m s + 2 < 2 ^ 32 \<and> client_elapsed m s + 2 < 2 ^ 32 \<and>
      client_elapsed m s \<le> server_elapsed m s + 2 \<and> server_elapsed m s \<le> client_elapsed m s + 2 \<longrightarrow>
      compare_epochs m s = (False, s)) \<and>
   (s_epoch s \<noteq> 0xFFFFFFFF \<and> m_recv_epoch m < s_epoch s \<and>
      unat (s_epoch s) \<le> unat (m_recv_epoch m) + 2 ^ 31 \<and> client_elapsed m s < 2000000000 \<longrightarrow>
      compare_epochs m s = (True, s))"
proof (intro conjI impI; (elim conjE)?)
  show "compare_epochs m s = (False, s\<lparr>s_epoch := m_recv_epoch m, s_cepoch := m_received_time m\<rparr>)"
    if "s_epoch s = 0xFFFFFFFF"
    using that by (simp add: compare_epochs_def)
  have *: "\<not> a + 2 < b - b div 16" if "b \<le> a + 2" for a b :: nat using that by simp
  show "compare_epochs m s = (False, s)"
    if "s_epoch s \<noteq> 0xFFFFFFFF" "server_elapsed m s + 2 < 2 ^ 32" "client_elapsed m s + 2 < 2 ^ 32"
      "client_elapsed m s \<le> server_elapsed m s + 2" "server_elapsed m s \<le> client_elapsed m s + 2"
    using compare_epochs_known [OF that(1-3)] * [OF that(4)] * [OF that(5)] by simp
  show "compare_epochs m s = (True, s)"
    if "s_epoch s \<noteq> 0xFFFFFFFF" "m_recv_epoch m < s_epoch s"
      "unat (s_epoch s) \<le> unat (m_recv_epoch m) + 2 ^ 31" "client_elapsed m s < 2000000000"
    by (rule epoch_back_restart [OF that])
qed

theorem compare_epochs_witness:
  "let s = server_zero\<lparr>s_epoch := 500, s_cepoch := 1000\<rparr> in
     compare_epochs (msg_zero\<lparr>m_recv_epoch := 90, m_received_time := 1100\<rparr>) s = (True, s) \<and>
     compare_epochs (msg_zero\<lparr>m_recv_epoch := 600, m_received_time := 1101\<rparr>) s = (False, s)"
  using compare_epochs_correct [of "server_zero\<lparr>s_epoch := 500, s_cepoch := 1000\<rparr>"
      "msg_zero\<lparr>m_recv_epoch := 600, m_received_time := 1101\<rparr>"]
    compare_epochs_correct [of "server_zero\<lparr>s_epoch := 500, s_cepoch := 1000\<rparr>"
      "msg_zero\<lparr>m_recv_epoch := 90, m_received_time := 1100\<rparr>"]
  by (simp add: server_elapsed_def client_elapsed_def)

end
