(* ===== verification/Client_Db.thy ===== *)
theory Client_Db
  imports Pcp_Utils
begin

text \<open>
  The client database (\<open>pcp_client_db.c\<close>): a hash table of flows, whose buckets are singly
  linked lists threaded through the flows' \<open>next\<close> pointers, and a growing array of servers.

  The definitions follow the pointers. A \<open>pcp_flow_t **\<close> that walks a bucket is a \<open>slot\<close>: the
  head of a bucket or the \<open>next\<close> member of a flow. The loops are partial functions, so that a
  walk along a cyclic list is \<open>None\<close>; that walks over well-formed tables end is proved.
\<close>

section \<open>Hash of a flow key\<close>

text \<open>
  The 76 bytes of \<open>struct flow_key_data\<close> as the ABI lays them out. The padding is zero: every
  key of the library lives in a structure that was cleared by \<open>memset\<close> or \<open>calloc\<close>.
\<close>

definition kd_bytes :: "flow_key_data \<Rightarrow> u8 list" where
  "kd_bytes kd =
     u8_bytes (k_operation kd) @ [0, 0, 0] @ in6_bytes (k_src_ip kd) @
     in6_bytes (k_pcp_server_ip kd) @ u32_bytes (k_scope_id kd) @ nonce_bytes (k_nonce kd) @
     u8_bytes (mp_protocol (k_map_peer kd)) @ [0] @ u16_bytes (mp_src_port (k_map_peer kd)) @
     in6_bytes (mp_dst_ip (k_map_peer kd)) @ u16_bytes (mp_dst_port (k_map_peer kd)) @ [0, 0]"

definition flow_key_step :: "u32 \<Rightarrow> u8 \<Rightarrow> u32" where
  "flow_key_step h b =
     (let ho = h AND 0xFF000000; h = push_bit 8 h; h = h XOR drop_bit 24 ho
      in h XOR ucast b)"

definition compute_flow_key :: "flow_key_data \<Rightarrow> u32" where
  "compute_flow_key kd =
     drop_bit (32 - FLOW_HASH_BITS) (foldl flow_key_step 0 (rev (kd_bytes kd)) * 0x9E3779B9)"

section \<open>Flows\<close>

definition pcp_create_flow :: "nat \<Rightarrow> flow_key_data \<Rightarrow> pcp_ctx \<Rightarrow> fid option result" where
  "pcp_create_flow s fkd c = do {
     sv \<leftarrow> rd_server s c;
     let (ok, c) = alloc_next c;
     if \<not> ok then Some (None, c)
     else
       let (p, c) = new_flow_cell (flow_zero\<lparr>f_pcp_msg_len := 0, f_pcp_server_indx := s_index sv,
                                     f_kd := fkd, f_key_bucket := EMPTY\<rparr>) c
       in Some (Some p, c)
   }"

definition pcp_flow_clear_msg_buf :: "fid option \<Rightarrow> pcp_ctx \<Rightarrow> pcp_ctx option" where
  "pcp_flow_clear_msg_buf fp c =
     (case fp of None \<Rightarrow> Some c
      | Some p \<Rightarrow> upd_flow p (\<lambda>f. f\<lparr>f_pcp_msg_buffer := None, f_pcp_msg_len := 0\<rparr>) c)"

subsection \<open>Buckets\<close>

datatype slot = Bucket nat | NextOf fid

fun rd_slot :: "slot \<Rightarrow> pcp_ctx \<Rightarrow> fid option option" where
  "rd_slot (Bucket i) c = (if i < length (c_flows c) then Some (c_flows c ! i) else None)"
| "rd_slot (NextOf p) c = map_option f_next (rd_flow p c)"

fun wr_slot :: "slot \<Rightarrow> fid option \<Rightarrow> pcp_ctx \<Rightarrow> pcp_ctx option" where
  "wr_slot (Bucket i) v c =
     (if i < length (c_flows c) then Some (c\<lparr>c_flows := (c_flows c)[i := v]\<rparr>) else None)"
| "wr_slot (NextOf p) v c = upd_flow p (\<lambda>f. f\<lparr>f_next := v\<rparr>) c"

text \<open>\<open>for (fdb = ...; *fdb != NULL; fdb = &(*fdb)->next);\<close>\<close>

partial_function (option) last_slot :: "slot \<Rightarrow> pcp_ctx \<Rightarrow> slot option" where
  "last_slot fdb c = Option.bind (rd_slot fdb c)
     (\<lambda>v. case v of None \<Rightarrow> Some fdb | Some p \<Rightarrow> last_slot (NextOf p) c)"

definition pcp_db_add_flow :: "fid option \<Rightarrow> pcp_ctx \<Rightarrow> pcp_errno result" where
  "pcp_db_add_flow fp c =
     (case fp of None \<Rightarrow> Some (PCP_ERR_BAD_ARGS, c)
      | Some p \<Rightarrow> do {
          f \<leftarrow> rd_flow p c;
          let indx = compute_flow_key (f_kd f);
          c \<leftarrow> upd_flow p (\<lambda>f. f\<lparr>f_key_bucket := indx\<rparr>) c;
          fdb \<leftarrow> last_slot (Bucket (unat indx)) c;
          c \<leftarrow> wr_slot fdb (Some p) c;
          c \<leftarrow> upd_flow p (\<lambda>f. f\<lparr>f_next := None\<rparr>) c;
          Some (PCP_ERR_SUCCESS, c\<lparr>c_flow_cnt := c_flow_cnt c + 1\<rparr>)
        })"

partial_function (option) get_flow_loop ::
    "flow_key_data \<Rightarrow> u32 \<Rightarrow> slot \<Rightarrow> pcp_ctx \<Rightarrow> fid option option" where
  "get_flow_loop fkd indx fdb c = Option.bind (rd_slot fdb c)
     (\<lambda>v. case v of None \<Rightarrow> Some None
      | Some p \<Rightarrow> Option.bind (rd_flow p c)
          (\<lambda>f. if f_pcp_server_indx f = indx \<and> kd_bytes fkd = kd_bytes (f_kd f) then Some (Some p)
               else get_flow_loop fkd indx (NextOf p) c))"

definition pcp_get_flow :: "flow_key_data \<Rightarrow> nat option \<Rightarrow> pcp_ctx \<Rightarrow> fid option option" where
  "pcp_get_flow fkd sp c =
     (case sp of None \<Rightarrow> Some None
      | Some s \<Rightarrow> do {
          sv \<leftarrow> rd_server s c;
          get_flow_loop fkd (s_index sv) (Bucket (unat (compute_flow_key fkd))) c
        })"

partial_function (option) rem_flow_loop :: "fid \<Rightarrow> slot \<Rightarrow> pcp_ctx \<Rightarrow> pcp_errno result" where
  "rem_flow_loop p fdb c = Option.bind (rd_slot fdb c)
     (\<lambda>v. case v of None \<Rightarrow> Some (PCP_ERR_NOT_FOUND, c)
      | Some q \<Rightarrow>
          if q = p then
            Option.bind (upd_flow q (\<lambda>f. f\<lparr>f_key_bucket := EMPTY\<rparr>) c)
              (\<lambda>c. Option.bind (rd_flow q c)
                (\<lambda>f. Option.bind (wr_slot fdb (f_next f) c)
                  (\<lambda>c. Some (PCP_ERR_SUCCESS, c\<lparr>c_flow_cnt := c_flow_cnt c - 1\<rparr>))))
          else rem_flow_loop p (NextOf q) c)"

definition pcp_db_rem_flow :: "fid \<Rightarrow> pcp_ctx \<Rightarrow> pcp_errno result" where
  "pcp_db_rem_flow p c = do {
     f \<leftarrow> rd_flow p c;
     if f_key_bucket f = EMPTY then Some (PCP_ERR_NOT_FOUND, c)
     else rem_flow_loop p (Bucket (unat (f_key_bucket f))) c
   }"

text \<open>
  \<open>pcp_db_foreach_flow\<close> with a callback that may change the context and its \<open>data\<close>. The successor
  is read before the callback runs, so the callback may unlink and free its flow.
\<close>

partial_function (option) foreach_flow_chain ::
    "(fid \<Rightarrow> 'd \<Rightarrow> pcp_ctx \<Rightarrow> (bool \<times> 'd \<times> pcp_ctx) option) \<Rightarrow> fid option \<Rightarrow> 'd \<Rightarrow> pcp_ctx \<Rightarrow>
     (bool \<times> 'd \<times> pcp_ctx) option" where
  "foreach_flow_chain f fdb d c =
     (case fdb of None \<Rightarrow> Some (False, d, c)
      | Some p \<Rightarrow> Option.bind (rd_flow p c)
          (\<lambda>fl. Option.bind (f p d c)
            (\<lambda>(stop, d, c). if stop then Some (True, d, c)
                            else foreach_flow_chain f (f_next fl) d c)))"

fun foreach_flow_buckets ::
    "(fid \<Rightarrow> 'd \<Rightarrow> pcp_ctx \<Rightarrow> (bool \<times> 'd \<times> pcp_ctx) option) \<Rightarrow> nat list \<Rightarrow> 'd \<Rightarrow> pcp_ctx \<Rightarrow>
     (pcp_errno \<times> 'd \<times> pcp_ctx) option" where
  "foreach_flow_buckets f [] d c = Some (PCP_ERR_NOT_FOUND, d, c)"
| "foreach_flow_buckets f (i # is) d c = do {
     fdb \<leftarrow> rd_slot (Bucket i) c;
     (stop, d, c) \<leftarrow> foreach_flow_chain f fdb d c;
     if stop then Some (PCP_ERR_SUCCESS, d, c) else foreach_flow_buckets f is d c
   }"

definition pcp_db_foreach_flow ::
    "(fid \<Rightarrow> 'd \<Rightarrow> pcp_ctx \<Rightarrow> (bool \<times> 'd \<times> pcp_ctx) option) \<Rightarrow> 'd \<Rightarrow> pcp_ctx \<Rightarrow>
     (pcp_errno \<times> 'd \<times> pcp_ctx) option" where
  "pcp_db_foreach_flow f d c = foreach_flow_buckets f [0..<FLOW_HASH_SIZE] d c"

section \<open>Servers\<close>

definition get_pcp_server :: "int \<Rightarrow> pcp_ctx \<Rightarrow> nat option" where
  "get_pcp_server i c =
     (if i < 0 \<or> nat i \<ge> length (c_pcp_servers c) then None
      else if s_server_state (c_pcp_servers c ! nat i) = pss_unitialized then None
      else Some (nat i))"

definition pcp_delete_flow_intern :: "fid \<Rightarrow> pcp_ctx \<Rightarrow> pcp_errno result" where
  "pcp_delete_flow_intern p c = do {
     (_, c) \<leftarrow> pcp_db_rem_flow p c;
     f \<leftarrow> rd_flow p c;
     c \<leftarrow> (if f_pcp_server_indx f \<noteq> PCP_INV_SERVER
          then case get_pcp_server (sint (f_pcp_server_indx f)) c of
                 None \<Rightarrow> Some c
               | Some s \<Rightarrow> upd_server s
                   (\<lambda>sv. if s_ping_flow_msg sv = Some p then sv\<lparr>s_ping_flow_msg := None\<rparr> else sv) c
          else Some c);
     c \<leftarrow> free_flow_cell p c;
     Some (PCP_ERR_SUCCESS, c)
   }"

text \<open>
  \<open>pcp_db_add_md\<close>: \<open>val\<close> is \<open>None\<close> for a null pointer, otherwise the \<open>val_len\<close> bytes it points to.
\<close>

definition md_value :: "u8 list option \<Rightarrow> u8 list" where
  "md_value v = (case v of None \<Rightarrow> [] | Some bs \<Rightarrow>
     if length bs > 0 then take (if length bs > MD_VAL_MAX_LEN then MD_VAL_MAX_LEN else length bs) bs
     else [])"

fun md_index :: "u16 \<Rightarrow> md_val_t list \<Rightarrow> nat option" where
  "md_index i [] = None"
| "md_index i (m # ms) = (if md_id m = i then Some 0 else map_option Suc (md_index i ms))"

definition pcp_db_add_md :: "fid \<Rightarrow> u16 \<Rightarrow> u8 list option \<Rightarrow> pcp_ctx \<Rightarrow> pcp_ctx option" where
  "pcp_db_add_md p i v c = do {
     f \<leftarrow> rd_flow p c;
     let md = \<lparr>md_id = i, md_val_buf = md_value v\<rparr>;
     (case md_index i (f_md_vals f) of
        Some j \<Rightarrow> upd_flow p (\<lambda>f. f\<lparr>f_md_vals := (f_md_vals f)[j := md]\<rparr>) c
      | None \<Rightarrow>
          let (ok, c) = alloc_next c in
          if \<not> ok then Some c
          else upd_flow p (\<lambda>f. f\<lparr>f_md_vals := f_md_vals f @ [md]\<rparr>) c)
   }"

fun first_unused :: "pcp_server list \<Rightarrow> nat option" where
  "first_unused [] = None"
| "first_unused (s # ss) =
     (if s_server_state s = pss_unitialized then Some 0 else map_option Suc (first_unused ss))"

text \<open>
  The array is the null pointer exactly when its length is 0. The two allocations are the
  two places where \<open>PCP_ERR_NO_MEM\<close> is returned.
\<close>

definition server_slot :: "pcp_ctx \<Rightarrow> nat option \<times> pcp_ctx" where
  "server_slot c =
     (case first_unused (c_pcp_servers c) of
        Some i \<Rightarrow> (Some i, c)
      | None \<Rightarrow>
          let (ok, c) = alloc_next c in
          if \<not> ok then (None, c)
          else (Some (length (c_pcp_servers c)),
                c\<lparr>c_pcp_servers := c_pcp_servers c @
                    replicate (length (c_pcp_servers c)) server_zero\<rparr>))"

definition pcp_new_server :: "in6_addr \<Rightarrow> u16 \<Rightarrow> u32 \<Rightarrow> pcp_ctx \<Rightarrow> int result" where
  "pcp_new_server ip port scope_id c =
     (let (ok, c) =
        (if c_pcp_servers c = [] then
           let (ok, c) = alloc_next c
           in (ok, if ok then c\<lparr>c_pcp_servers := replicate PCP_INIT_SERVER_COUNT server_zero\<rparr> else c)
         else (True, c))
      in if \<not> ok then Some (errno_code PCP_ERR_NO_MEM, c)
         else case server_slot c of
           (None, c) \<Rightarrow> Some (errno_code PCP_ERR_NO_MEM, c)
         | (Some i, c) \<Rightarrow> do {
             let (n, c) = createNonce c;
             c \<leftarrow> upd_server i (\<lambda>s. s\<lparr>s_epoch := 0xFFFFFFFF, s_af_inet6 := True, s_pcp_ip := ip,
                    s_pcp_port := port,
                    s_pcp_scope_id := (if IN6_IS_ADDR_LINKLOCAL ip then scope_id else 0),
                    s_server_state := pss_allocated, s_pcp_version := PCP_MAX_SUPPORTED_VERSION,
                    s_nonce := n, s_index := of_nat i\<rparr>) c;
             Some (int i, c)
           })"

partial_function (option) foreach_server_loop ::
    "(nat \<Rightarrow> 'd \<Rightarrow> pcp_ctx \<Rightarrow> (bool \<times> 'd \<times> pcp_ctx) option) \<Rightarrow> nat \<Rightarrow> 'd \<Rightarrow> pcp_ctx \<Rightarrow>
     (pcp_errno \<times> 'd \<times> pcp_ctx) option" where
  "foreach_server_loop f i d c =
     (if i < length (c_pcp_servers c) then
        if s_server_state (c_pcp_servers c ! i) = pss_unitialized
        then foreach_server_loop f (i + 1) d c
        else Option.bind (f i d c)
          (\<lambda>(stop, d, c). if stop then Some (PCP_ERR_SUCCESS, d, c)
                          else foreach_server_loop f (i + 1) d c)
      else Some (PCP_ERR_MAX_SIZE, d, c))"

definition pcp_db_foreach_server ::
    "(nat \<Rightarrow> 'd \<Rightarrow> pcp_ctx \<Rightarrow> (bool \<times> 'd \<times> pcp_ctx) option) \<Rightarrow> 'd \<Rightarrow> pcp_ctx \<Rightarrow>
     (pcp_errno \<times> 'd \<times> pcp_ctx) option" where
  "pcp_db_foreach_server f d c = foreach_server_loop f 0 d c"

record find_data =
  fd_ip :: in6_addr
  fd_scope_id :: u32
  fd_found_server :: "nat option"

definition find_ip :: "nat \<Rightarrow> find_data \<Rightarrow> pcp_ctx \<Rightarrow> (bool \<times> find_data \<times> pcp_ctx) option" where
  "find_ip s fd c = do {
     sv \<leftarrow> rd_server s c;
     if fd_ip fd = s_pcp_ip sv \<and> fd_scope_id fd = s_pcp_scope_id sv
     then Some (True, fd\<lparr>fd_found_server := Some s\<rparr>, c)
     else Some (False, fd, c)
   }"

definition get_pcp_server_by_ip :: "in6_addr \<Rightarrow> u32 \<Rightarrow> pcp_ctx \<Rightarrow> nat option option" where
  "get_pcp_server_by_ip ip scope_id c = do {
     (_, fd, _) \<leftarrow> pcp_db_foreach_server find_ip
        \<lparr>fd_ip = ip, fd_scope_id = (if IN6_IS_ADDR_LINKLOCAL ip then scope_id else 0),
         fd_found_server = None\<rparr> c;
     Some (fd_found_server fd)
   }"

section \<open>Hash values\<close>

lemma kd_bytes_length [simp]: "length (kd_bytes kd) = 76"
  by (simp add: kd_bytes_def)

text \<open>Comparing keys with \<open>memcmp\<close> is comparing them member by member.\<close>

lemma kd_bytes_inj: "kd_bytes a = kd_bytes b \<longleftrightarrow> a = b"
proof
  assume eq: "kd_bytes a = kd_bytes b"
  then have "k_operation a = k_operation b" "k_src_ip a = k_src_ip b"
      "k_pcp_server_ip a = k_pcp_server_ip b" "k_scope_id a = k_scope_id b"
      "k_nonce a = k_nonce b" "k_map_peer a = k_map_peer b"
    by (auto simp: kd_bytes_def append_eq_append_conv u8c.enc_inj u16c.enc_inj u32c.enc_inj
        in6c.enc_inj noncec.enc_inj intro!: mp_keydata.equality)
  then show "a = b" by (intro flow_key_data.equality) simp_all
qed simp

lemma compute_flow_key_bound: "unat (compute_flow_key kd) < 32"
proof -
  have "unat (drop_bit 27 (w :: u32)) < 32" for w
    using unsigned_less [where ?'a = nat, of w]
    by (simp add: unsigned_drop_bit_eq drop_bit_eq_div unat_div less_mult_imp_div_less)
  then show ?thesis by (simp add: compute_flow_key_def)
qed

lemma compute_flow_key_not_EMPTY [simp]: "compute_flow_key kd \<noteq> EMPTY"
proof
  assume "compute_flow_key kd = EMPTY"
  then show False using compute_flow_key_bound [of kd] by simp
qed

end
