(* ===== verification/Flow_Table.thy ===== *)
theory Flow_Table
  imports Client_Db
begin

text \<open>
  Correctness of the flow table of \<open>pcp_client_db.c\<close>: the invariant of the linked hash table,
  the refinement of the pointer operations to operations on bucket lists, and the interface
  \<open>flow_table\<close> that the rest of the library relies on.
\<close>

section \<open>Bucket lists\<close>

text \<open>\<open>seg h p xs q\<close>: following \<open>next\<close> from \<open>p\<close> visits the flows \<open>xs\<close> and arrives at \<open>q\<close>.\<close>

fun seg :: "(fid \<Rightarrow> pcp_flow option) \<Rightarrow> fid option \<Rightarrow> fid list \<Rightarrow> fid option \<Rightarrow> bool" where
  "seg h p [] q \<longleftrightarrow> p = q"
| "seg h p (x # xs) q \<longleftrightarrow> p = Some x \<and> (\<exists>f. h x = Some f \<and> seg h (f_next f) xs q)"

abbreviation chain :: "(fid \<Rightarrow> pcp_flow option) \<Rightarrow> fid option \<Rightarrow> fid list \<Rightarrow> bool" where
  "chain h p xs \<equiv> seg h p xs None"

lemma seg_append: "seg h p (xs @ ys) q \<longleftrightarrow> (\<exists>r. seg h p xs r \<and> seg h r ys q)"
  by (induction xs arbitrary: p) auto

lemma seg_cong:
  "\<forall>x\<in>set xs. map_option f_next (h' x) = map_option f_next (h x) \<Longrightarrow> seg h' p xs q = seg h p xs q"
proof (induction xs arbitrary: p)
  case (Cons x xs)
  from Cons.prems have "map_option f_next (h' x) = map_option f_next (h x)" by simp
  with Cons show ?case by (cases "h x"; cases "h' x") auto
qed simp

lemma seg_frame [simp]: "x \<notin> set xs \<Longrightarrow> seg (h(x := y)) p xs q = seg h p xs q"
  by (rule seg_cong) auto

lemma chain_unique: "chain h p xs \<Longrightarrow> chain h p ys \<Longrightarrow> xs = ys"
proof (induction xs arbitrary: p ys)
  case Nil then show ?case by (cases ys) auto
next
  case (Cons x xs) then show ?case by (cases ys) auto
qed

lemma seg_mem_alloc: "seg h p xs q \<Longrightarrow> x \<in> set xs \<Longrightarrow> \<exists>f. h x = Some f"
  by (induction xs arbitrary: p) auto

definition slot_after :: "slot \<Rightarrow> fid list \<Rightarrow> slot" where
  "slot_after fdb xs = (if xs = [] then fdb else NextOf (last xs))"

lemma slot_after_simps [simp]:
  "slot_after fdb [] = fdb" "slot_after fdb (x # xs) = slot_after (NextOf x) xs"
  by (simp_all add: slot_after_def)

lemma last_slot_chain:
  "rd_slot fdb c = Some v \<Longrightarrow> chain (c_heap c) v xs \<Longrightarrow> last_slot fdb c = Some (slot_after fdb xs)"
proof (induction xs arbitrary: fdb v)
  case Nil
  then show ?case by (subst last_slot.simps) simp
next
  case (Cons x xs)
  then obtain f where f: "c_heap c x = Some f" "chain (c_heap c) (f_next f) xs" by auto
  then have "rd_slot (NextOf x) c = Some (f_next f)" by (simp add: rd_flow_def)
  from Cons.IH [OF this f(2)] Cons.prems show ?case by (subst last_slot.simps) simp
qed

lemma get_flow_loop_chain:
  "rd_slot fdb c = Some v \<Longrightarrow> chain (c_heap c) v xs \<Longrightarrow>
   get_flow_loop k s fdb c =
     Some (find (\<lambda>p. f_pcp_server_indx (the (c_heap c p)) = s \<and> f_kd (the (c_heap c p)) = k) xs)"
proof (induction xs arbitrary: fdb v)
  case Nil
  then show ?case by (simp add: get_flow_loop.simps [of k s fdb])
next
  case (Cons x xs)
  then obtain f where f: "c_heap c x = Some f" "chain (c_heap c) (f_next f) xs" by auto
  then have "rd_slot (NextOf x) c = Some (f_next f)" by (simp add: rd_flow_def)
  from Cons.IH [OF this f(2)] Cons.prems f show ?case
    by (subst get_flow_loop.simps) (auto simp: rd_flow_def kd_bytes_inj)
qed

text \<open>The unlinking done once the walk has arrived at the flow.\<close>

definition unlink_at :: "fid \<Rightarrow> slot \<Rightarrow> pcp_ctx \<Rightarrow> pcp_errno result" where
  "unlink_at q fdb c = do {
     c \<leftarrow> upd_flow q (\<lambda>f. f\<lparr>f_key_bucket := EMPTY\<rparr>) c;
     f \<leftarrow> rd_flow q c;
     c \<leftarrow> wr_slot fdb (f_next f) c;
     Some (PCP_ERR_SUCCESS, c\<lparr>c_flow_cnt := c_flow_cnt c - 1\<rparr>)
   }"

lemma rem_flow_loop_chain:
  "rd_slot fdb c = Some v \<Longrightarrow> chain (c_heap c) v (as @ p # bs) \<Longrightarrow> p \<notin> set as \<Longrightarrow>
   rem_flow_loop p fdb c = unlink_at p (slot_after fdb as) c"
proof (induction as arbitrary: fdb v)
  case Nil
  then show ?case by (subst rem_flow_loop.simps) (simp add: unlink_at_def)
next
  case (Cons x xs)
  then obtain f where f: "c_heap c x = Some f" "chain (c_heap c) (f_next f) (xs @ p # bs)" by auto
  then have "rd_slot (NextOf x) c = Some (f_next f)" by (simp add: rd_flow_def)
  from Cons.IH [OF this f(2)] Cons.prems show ?case by (subst rem_flow_loop.simps) auto
qed

lemma rem_flow_loop_absent:
  "rd_slot fdb c = Some v \<Longrightarrow> chain (c_heap c) v xs \<Longrightarrow> p \<notin> set xs \<Longrightarrow>
   rem_flow_loop p fdb c = Some (PCP_ERR_NOT_FOUND, c)"
proof (induction xs arbitrary: fdb v)
  case Nil
  then show ?case by (subst rem_flow_loop.simps) simp
next
  case (Cons x xs)
  then obtain f where f: "c_heap c x = Some f" "chain (c_heap c) (f_next f) xs" by auto
  then have "rd_slot (NextOf x) c = Some (f_next f)" by (simp add: rd_flow_def)
  from Cons.IH [OF this f(2)] Cons.prems show ?case by (subst rem_flow_loop.simps) auto
qed

section \<open>The database invariant\<close>

text \<open>
  \<open>db_rep c B\<close>: the table of \<open>c\<close> represents the bucket contents \<open>B\<close>. A flow is linked into the
  bucket its key hashes to exactly when its \<open>key_bucket\<close> is not \<open>EMPTY\<close>.
\<close>

definition in_bucket :: "pcp_ctx \<Rightarrow> nat \<Rightarrow> fid \<Rightarrow> bool" where
  "in_bucket c i p \<longleftrightarrow> (\<exists>f. c_heap c p = Some f \<and> f_key_bucket f \<noteq> EMPTY \<and> unat (f_key_bucket f) = i)"

definition db_rep :: "pcp_ctx \<Rightarrow> fid list list \<Rightarrow> bool" where
  "db_rep c B \<longleftrightarrow>
     length (c_flows c) = FLOW_HASH_SIZE \<and> length B = FLOW_HASH_SIZE \<and>
     (\<forall>i<FLOW_HASH_SIZE. chain (c_heap c) (c_flows c ! i) (B ! i) \<and> distinct (B ! i) \<and>
        set (B ! i) = Collect (in_bucket c i)) \<and>
     (\<forall>p f. c_heap c p = Some f \<longrightarrow> f_key_bucket f \<noteq> EMPTY \<longrightarrow>
        f_key_bucket f = compute_flow_key (f_kd f)) \<and>
     c_flow_cnt c = length (concat B) \<and>
     (\<forall>p. c_brk c \<le> p \<longrightarrow> c_heap c p = None)"

lemma db_rep_key:
  "db_rep c B \<Longrightarrow> c_heap c p = Some f \<Longrightarrow> f_key_bucket f \<noteq> EMPTY \<Longrightarrow>
     f_key_bucket f = compute_flow_key (f_kd f)"
  by (simp add: db_rep_def)

lemma db_rep_bucket:
  assumes "db_rep c B" "i < FLOW_HASH_SIZE"
  shows "chain (c_heap c) (c_flows c ! i) (B ! i)" "distinct (B ! i)"
    and "p \<in> set (B ! i) \<longleftrightarrow> in_bucket c i p" "rd_slot (Bucket i) c = Some (c_flows c ! i)"
  using assms by (auto simp: db_rep_def)

lemma db_rep_lengths: "db_rep c B \<Longrightarrow> length (c_flows c) = FLOW_HASH_SIZE \<and> length B = FLOW_HASH_SIZE"
  by (simp add: db_rep_def)

definition db_inv :: "pcp_ctx \<Rightarrow> bool" where
  "db_inv c \<longleftrightarrow> (\<exists>B. db_rep c B)"

text \<open>The flows that are in the table.\<close>

definition db_flows :: "pcp_ctx \<Rightarrow> fid set" where
  "db_flows c = {p. \<exists>f. c_heap c p = Some f \<and> f_key_bucket f \<noteq> EMPTY}"

text \<open>\<open>same_db\<close>: two contexts have the same table; what else the flows hold may differ.\<close>

definition flow_links :: "pcp_flow \<Rightarrow> fid option \<times> u32 \<times> flow_key_data" where
  "flow_links f = (f_next f, f_key_bucket f, f_kd f)"

definition same_db :: "pcp_ctx \<Rightarrow> pcp_ctx \<Rightarrow> bool" where
  "same_db c c' \<longleftrightarrow> c_flows c' = c_flows c \<and> c_flow_cnt c' = c_flow_cnt c \<and> c_brk c' = c_brk c \<and>
     (\<forall>p. map_option flow_links (c_heap c' p) = map_option flow_links (c_heap c p))"

lemma same_db_refl [simp]: "same_db c c"
  by (simp add: same_db_def)

lemma same_db_trans: "same_db a b \<Longrightarrow> same_db b c \<Longrightarrow> same_db a c"
  by (simp add: same_db_def)

lemma same_db_heap:
  assumes "same_db c c'"
  shows "c_heap c' p = None \<longleftrightarrow> c_heap c p = None"
    and "c_heap c p = Some f \<Longrightarrow> \<exists>f'. c_heap c' p = Some f' \<and> flow_links f' = flow_links f"
proof -
  from assms have eq: "map_option flow_links (c_heap c' p) = map_option flow_links (c_heap c p)"
    by (simp add: same_db_def)
  then show "c_heap c' p = None \<longleftrightarrow> c_heap c p = None" by (metis option.map_disc_iff)
  show "\<exists>f'. c_heap c' p = Some f' \<and> flow_links f' = flow_links f" if "c_heap c p = Some f"
    using eq that by (cases "c_heap c' p") auto
qed

lemma same_db_sym: "same_db c c' \<Longrightarrow> same_db c' c"
  by (simp add: same_db_def)

lemma same_db_in_bucket: "same_db c c' \<Longrightarrow> in_bucket c' i p = in_bucket c i p"
  using same_db_heap(2) [of c c' p] same_db_heap(2) [of c' c p] same_db_sym [of c c']
  by (fastforce simp: in_bucket_def flow_links_def)

lemma same_db_next:
  "same_db c c' \<Longrightarrow> map_option f_next (c_heap c' p) = map_option f_next (c_heap c p)"
  using same_db_heap [of c c' p]
  by (cases "c_heap c p"; cases "c_heap c' p") (auto simp: flow_links_def)

lemma same_db_rep:
  assumes "same_db c c'" and "db_rep c B"
  shows "db_rep c' B"
proof -
  have "seg (c_heap c') v xs q = seg (c_heap c) v xs q" for v xs q
    using same_db_next [OF assms(1)] by (intro seg_cong) simp
  moreover have "f_key_bucket f = compute_flow_key (f_kd f)"
    if "c_heap c' p = Some f" "f_key_bucket f \<noteq> EMPTY" for p f
  proof -
    from same_db_heap(2) [OF same_db_sym [OF assms(1)] that(1)]
    obtain g where g: "c_heap c p = Some g" "flow_links g = flow_links f" by blast
    with db_rep_key [OF assms(2) g(1)] that(2) show ?thesis by (simp add: flow_links_def)
  qed
  ultimately show ?thesis
    using assms same_db_heap(1) [OF assms(1)]
    by (auto simp: db_rep_def same_db_in_bucket [OF assms(1)]) (simp_all add: same_db_def)
qed

lemma same_db_inv: "same_db c c' \<Longrightarrow> db_inv c \<Longrightarrow> db_inv c'"
  using same_db_rep by (auto simp: db_inv_def)

lemma same_db_flows: "same_db c c' \<Longrightarrow> db_flows c' = db_flows c"
  using same_db_in_bucket by (fastforce simp: db_flows_def in_bucket_def set_eq_iff)

lemma upd_flow_same_db:
  "upd_flow p g c = Some c' \<Longrightarrow> (\<And>f. flow_links (g f) = flow_links f) \<Longrightarrow> same_db c c'"
  by (auto simp: upd_flow_def same_db_def split: option.splits)

lemma upd_server_same_db: "upd_server i g c = Some c' \<Longrightarrow> same_db c c'"
  by (auto simp: upd_server_def same_db_def split: if_splits)

section \<open>Adding a flow\<close>

lemma length_concat_update:
  "i < length B \<Longrightarrow> length (concat (B[i := xs])) + length (B ! i) = length (concat B) + length xs"
  by (induction B arbitrary: i) (auto split: nat.splits)

text \<open>The heap after \<open>p\<close> has been linked behind the flows \<open>xs\<close>.\<close>

definition link_heap :: "(fid \<Rightarrow> pcp_flow option) \<Rightarrow> fid \<Rightarrow> pcp_flow \<Rightarrow> fid list \<Rightarrow> fid \<Rightarrow> pcp_flow option" where
  "link_heap h p f xs =
     (let h1 = (if xs = [] then h else h(last xs := map_option (f_next_update (\<lambda>_. Some p)) (h (last xs))))
      in h1(p \<mapsto> f\<lparr>f_key_bucket := compute_flow_key (f_kd f), f_next := None\<rparr>))"

lemma hash_index: "unat (compute_flow_key kd) < FLOW_HASH_SIZE"
  using compute_flow_key_bound [of kd] by simp

lemma chain_link_heap:
  assumes "chain h v xs" "distinct xs" "p \<notin> set xs"
  shows "chain (link_heap h p f xs) (if xs = [] then Some p else v) (xs @ [p])"
proof (cases "xs = []")
  case False
  define ys l where "ys = butlast xs" and "l = last xs"
  with False have xs: "xs = ys @ [l]" by simp
  from assms xs obtain fl where
    "seg h v ys (Some l)" "h l = Some fl" "l \<notin> set ys" "p \<notin> set ys" "p \<noteq> l"
    by (auto simp: seg_append)
  then show ?thesis by (simp add: xs seg_append link_heap_def)
qed (simp add: link_heap_def)

lemma pcp_db_add_flow_eq:
  assumes rep: "db_rep c B" and p: "c_heap c p = Some f" and new: "f_key_bucket f = EMPTY"
  defines "i \<equiv> unat (compute_flow_key (f_kd f))"
  shows "pcp_db_add_flow (Some p) c = Some (PCP_ERR_SUCCESS,
           c\<lparr>c_heap := link_heap (c_heap c) p f (B ! i),
             c_flows := (c_flows c)[i := if B ! i = [] then Some p else c_flows c ! i],
             c_flow_cnt := c_flow_cnt c + 1\<rparr>)"
proof -
  have i: "i < FLOW_HASH_SIZE" unfolding i_def by (rule hash_index)
  let ?f = "f\<lparr>f_key_bucket := compute_flow_key (f_kd f)\<rparr>"
  let ?c = "c\<lparr>c_heap := (c_heap c)(p \<mapsto> ?f)\<rparr>"
  have upd: "upd_flow p (\<lambda>f. f\<lparr>f_key_bucket := compute_flow_key (f_kd f)\<rparr>) c = Some ?c"
    "upd_flow p (\<lambda>g. g\<lparr>f_key_bucket := compute_flow_key (f_kd f)\<rparr>) c = Some ?c"
    using p by (simp_all add: upd_flow_def)
  have notin: "p \<notin> set (B ! i)"
    using db_rep_bucket(3) [OF rep i] p new by (simp add: in_bucket_def)
  then have "last_slot (Bucket i) ?c = Some (slot_after (Bucket i) (B ! i))"
    using db_rep_bucket [OF rep i] db_rep_lengths [OF rep] i by (intro last_slot_chain [where v = "c_flows c ! i"]) auto
  moreover have "B ! i \<noteq> [] \<Longrightarrow> \<exists>g. c_heap c (last (B ! i)) = Some g \<and> last (B ! i) \<noteq> p"
    using seg_mem_alloc [OF db_rep_bucket(1) [OF rep i]] notin last_in_set by metis
  ultimately show ?thesis
    using p i rep upd
    by (auto simp: pcp_db_add_flow_def rd_flow_def i_def [symmetric] slot_after_def link_heap_def
        upd_flow_def fun_upd_twist db_rep_def Let_def)
qed

lemma link_heap_in_bucket:
  assumes "h = c_heap c" "h p = Some f" "f_key_bucket f = EMPTY" "c_heap c' = link_heap h p f xs"
    and "xs \<noteq> [] \<Longrightarrow> h (last xs) \<noteq> None \<and> last xs \<noteq> p"
  shows "in_bucket c' j q \<longleftrightarrow> in_bucket c j q \<or> q = p \<and> j = unat (compute_flow_key (f_kd f))"
  using assms by (auto simp: in_bucket_def link_heap_def Let_def split: if_splits)

lemma link_heap_other_chain:
  "chain h v ys \<Longrightarrow> p \<notin> set ys \<Longrightarrow> (xs \<noteq> [] \<Longrightarrow> last xs \<notin> set ys) \<Longrightarrow>
     chain (link_heap h p f xs) v ys"
  by (simp add: link_heap_def Let_def)

lemma in_bucket_unique: "in_bucket c i p \<Longrightarrow> in_bucket c j p \<Longrightarrow> i = j"
  by (auto simp: in_bucket_def)

lemma pcp_db_add_flow_rep:
  assumes rep: "db_rep c B" and p: "c_heap c p = Some f" and new: "f_key_bucket f = EMPTY"
  defines "i \<equiv> unat (compute_flow_key (f_kd f))"
  defines "c' \<equiv> c\<lparr>c_heap := link_heap (c_heap c) p f (B ! i),
             c_flows := (c_flows c)[i := if B ! i = [] then Some p else c_flows c ! i],
             c_flow_cnt := c_flow_cnt c + 1\<rparr>"
  shows "db_rep c' (B[i := B ! i @ [p]])"
proof -
  have i: "i < FLOW_HASH_SIZE" unfolding i_def by (rule hash_index)
  note len = db_rep_lengths [OF rep]
  have notin: "p \<notin> set (B ! j)" if "j < FLOW_HASH_SIZE" for j
    using db_rep_bucket(3) [OF rep that] p new by (simp add: in_bucket_def)
  have lst: "B ! i \<noteq> [] \<Longrightarrow> \<exists>g. c_heap c (last (B ! i)) = Some g \<and> last (B ! i) \<noteq> p"
    using seg_mem_alloc [OF db_rep_bucket(1) [OF rep i]] notin [OF i] last_in_set by metis
  have inb: "in_bucket c' j q \<longleftrightarrow> in_bucket c j q \<or> q = p \<and> j = i" for j q
    unfolding i_def
    by (rule link_heap_in_bucket [where h = "c_heap c" and xs = "B ! i"])
      (use p new lst in \<open>auto simp: c'_def i_def\<close>)
  have other: "chain (c_heap c') (c_flows c ! j) (B ! j)" if "j < FLOW_HASH_SIZE" "j \<noteq> i" for j
  proof -
    have "last (B ! i) \<notin> set (B ! j)" if "B ! i \<noteq> []"
      using that db_rep_bucket(3) [OF rep] i \<open>j < FLOW_HASH_SIZE\<close> \<open>j \<noteq> i\<close> in_bucket_unique last_in_set
      by metis
    then show ?thesis
      using db_rep_bucket(1) [OF rep that(1)] notin [OF that(1)]
      by (simp add: c'_def link_heap_other_chain)
  qed
  have heap: "c_heap c' = link_heap (c_heap c) p f (B ! i)"
    and flows: "c_flows c' = (c_flows c)[i := if B ! i = [] then Some p else c_flows c ! i]"
    by (simp_all add: c'_def)
  have same: "chain (c_heap c') (if B ! i = [] then Some p else c_flows c ! i) (B ! i @ [p])"
    using chain_link_heap [OF db_rep_bucket(1,2) [OF rep i] notin [OF i], of f] by (simp only: heap)
  have key: "f_key_bucket g = compute_flow_key (f_kd g)"
    if "c_heap c' q = Some g" "f_key_bucket g \<noteq> EMPTY" for q g
    using that p lst db_rep_key [OF rep]
    by (auto simp: c'_def link_heap_def Let_def split: if_splits)
  have brk: "c_heap c' q = None" if "c_brk c' \<le> q" for q
    using that rep p lst by (auto simp: c'_def link_heap_def Let_def db_rep_def)
  have cnt: "c_flow_cnt c' = length (concat (B[i := B ! i @ [p]]))"
    using length_concat_update [of i B "B ! i @ [p]"] len i rep by (simp add: c'_def db_rep_def)
  have "chain (c_heap c') (c_flows c' ! j) (B[i := B ! i @ [p]] ! j) \<and>
        distinct (B[i := B ! i @ [p]] ! j) \<and> set (B[i := B ! i @ [p]] ! j) = Collect (in_bucket c' j)"
    if "j < FLOW_HASH_SIZE" for j
    using other [OF that] same that i len notin [OF that] db_rep_bucket(2,3) [OF rep that] inb
    by (cases "j = i") (auto simp: flows)
  then show ?thesis
    unfolding db_rep_def using key brk cnt len by (simp add: c'_def)
qed

section \<open>Removing a flow\<close>

definition unlink_heap :: "(fid \<Rightarrow> pcp_flow option) \<Rightarrow> fid \<Rightarrow> pcp_flow \<Rightarrow> fid list \<Rightarrow> fid \<Rightarrow> pcp_flow option" where
  "unlink_heap h p f as =
     (let h1 = h(p \<mapsto> f\<lparr>f_key_bucket := EMPTY\<rparr>)
      in if as = [] then h1
         else h1(last as := map_option (f_next_update (\<lambda>_. f_next f)) (h (last as))))"

lemma chain_unlink_heap:
  assumes "chain h v (as @ p # bs)" "distinct (as @ p # bs)" "h p = Some f"
  shows "chain (unlink_heap h p f as) (if as = [] then f_next f else v) (as @ bs)"
proof (cases "as = []")
  case False
  define ys l where "ys = butlast as" and "l = last as"
  with False have as: "as = ys @ [l]" by simp
  from assms as obtain fl where
    "seg h v ys (Some l)" "h l = Some fl" "l \<notin> set ys" "p \<notin> set ys" "p \<noteq> l" "p \<notin> set bs"
    "l \<notin> set bs" "chain h (f_next f) bs"
    by (auto simp: seg_append)
  then show ?thesis by (simp add: as seg_append unlink_heap_def)
qed (use assms in \<open>simp add: unlink_heap_def\<close>)

lemma pcp_db_rem_flow_eq:
  assumes rep: "db_rep c B" and p: "c_heap c p = Some f" and lnk: "f_key_bucket f \<noteq> EMPTY"
    and i: "i = unat (f_key_bucket f)" and split: "B ! i = as @ p # bs"
  shows "pcp_db_rem_flow p c = Some (PCP_ERR_SUCCESS,
           c\<lparr>c_heap := unlink_heap (c_heap c) p f as,
             c_flows := (c_flows c)[i := if as = [] then f_next f else c_flows c ! i],
             c_flow_cnt := c_flow_cnt c - 1\<rparr>)"
proof -
  have i': "i < FLOW_HASH_SIZE"
    using i db_rep_key [OF rep p lnk] hash_index by metis
  note bk = db_rep_bucket [OF rep i']
  have "p \<notin> set as" using bk(2) split by simp
  then have "pcp_db_rem_flow p c = unlink_at p (slot_after (Bucket i) as) c"
    using bk p lnk split i by (simp add: pcp_db_rem_flow_def rd_flow_def rem_flow_loop_chain del: rd_slot.simps)
  moreover have "as \<noteq> [] \<Longrightarrow> \<exists>g. c_heap c (last as) = Some g \<and> last as \<noteq> p"
    using seg_mem_alloc [OF bk(1), of "last as"] \<open>p \<notin> set as\<close> split by (metis Un_iff last_in_set set_append)
  ultimately show ?thesis
    using p i' db_rep_lengths [OF rep]
    by (auto simp: unlink_at_def upd_flow_def rd_flow_def slot_after_def unlink_heap_def Let_def)
qed

lemma unlink_heap_in_bucket:
  assumes "h = c_heap c" "h p = Some f" "c_heap c' = unlink_heap h p f as"
    and "as \<noteq> [] \<Longrightarrow> h (last as) \<noteq> None \<and> last as \<noteq> p"
  shows "in_bucket c' j q \<longleftrightarrow> in_bucket c j q \<and> q \<noteq> p"
  using assms by (auto simp: in_bucket_def unlink_heap_def Let_def split: if_splits)

lemma pcp_db_rem_flow_rep:
  assumes rep: "db_rep c B" and p: "c_heap c p = Some f" and lnk: "f_key_bucket f \<noteq> EMPTY"
    and i: "i = unat (f_key_bucket f)" and split: "B ! i = as @ p # bs"
  defines "c' \<equiv> c\<lparr>c_heap := unlink_heap (c_heap c) p f as,
             c_flows := (c_flows c)[i := if as = [] then f_next f else c_flows c ! i],
             c_flow_cnt := c_flow_cnt c - 1\<rparr>"
  shows "db_rep c' (B[i := as @ bs])"
proof -
  have i': "i < FLOW_HASH_SIZE"
    using i db_rep_key [OF rep p lnk] hash_index by metis
  note bk = db_rep_bucket [OF rep i'] and len = db_rep_lengths [OF rep]
  have dst: "p \<notin> set as" "p \<notin> set bs" "distinct (as @ p # bs)" using bk(2) split by simp_all
  have lst: "as \<noteq> [] \<Longrightarrow> \<exists>g. c_heap c (last as) = Some g \<and> last as \<noteq> p"
    using seg_mem_alloc [OF bk(1), of "last as"] dst(1) split by (metis Un_iff last_in_set set_append)
  have inb: "in_bucket c' j q \<longleftrightarrow> in_bucket c j q \<and> q \<noteq> p" for j q
    by (rule unlink_heap_in_bucket [where h = "c_heap c" and as = as])
      (use p lst in \<open>auto simp: c'_def\<close>)
  have pin: "in_bucket c i p" using bk(3) [of p] split by simp
  have other: "chain (c_heap c') (c_flows c ! j) (B ! j)" if "j < FLOW_HASH_SIZE" "j \<noteq> i" for j
  proof -
    have "x \<notin> set (B ! j)" if "x \<in> set (B ! i)" for x
      using that db_rep_bucket(3) [OF rep] i' \<open>j < FLOW_HASH_SIZE\<close> \<open>j \<noteq> i\<close> in_bucket_unique by metis
    then have "p \<notin> set (B ! j)" "as \<noteq> [] \<Longrightarrow> last as \<notin> set (B ! j)" by (simp_all add: split)
    then show ?thesis
      using db_rep_bucket(1) [OF rep that(1)] by (simp add: c'_def unlink_heap_def Let_def)
  qed
  have heap: "c_heap c' = unlink_heap (c_heap c) p f as"
    and flows: "c_flows c' = (c_flows c)[i := if as = [] then f_next f else c_flows c ! i]"
    by (simp_all add: c'_def)
  have same: "chain (c_heap c') (if as = [] then f_next f else c_flows c ! i) (as @ bs)"
    using chain_unlink_heap [OF bk(1,2) [unfolded split] p] by (simp only: heap)
  have key: "f_key_bucket g = compute_flow_key (f_kd g)"
    if "c_heap c' q = Some g" "f_key_bucket g \<noteq> EMPTY" for q g
    using that p lst db_rep_key [OF rep]
    by (auto simp: c'_def unlink_heap_def Let_def split: if_splits)
  have brk: "c_heap c' q = None" if "c_brk c' \<le> q" for q
    using that rep p lst by (auto simp: c'_def unlink_heap_def Let_def db_rep_def)
  have cnt: "c_flow_cnt c' = length (concat (B[i := as @ bs]))"
    using length_concat_update [of i B "as @ bs"] len i' rep split by (simp add: c'_def db_rep_def)
  have "chain (c_heap c') (c_flows c' ! j) (B[i := as @ bs] ! j) \<and>
        distinct (B[i := as @ bs] ! j) \<and> set (B[i := as @ bs] ! j) = Collect (in_bucket c' j)"
    if "j < FLOW_HASH_SIZE" for j
  proof (cases "j = i")
    case True
    then show ?thesis using same dst bk(3) len i' split inb by (auto simp: flows)
  next
    case False
    have "\<not> in_bucket c j p" using pin False in_bucket_unique by blast
    then show ?thesis
      using False other [OF that] db_rep_bucket(2,3) [OF rep that] inb
      by (auto simp: flows)
  qed
  then show ?thesis
    unfolding db_rep_def using key brk cnt len by (simp add: c'_def)
qed

section \<open>Refinement\<close>

lemma same_db_alloc: "same_db c c' \<Longrightarrow> (c_heap c' p = None) = (c_heap c p = None)"
  by (rule same_db_heap)

lemma db_flows_iff_bucket: "p \<in> db_flows c \<longleftrightarrow> (\<exists>i. in_bucket c i p)"
  by (auto simp: db_flows_def in_bucket_def)

lemma db_rep_in_bucket:
  assumes "db_rep c B" shows "in_bucket c i p \<longleftrightarrow> i < FLOW_HASH_SIZE \<and> p \<in> set (B ! i)"
proof -
  have "i < FLOW_HASH_SIZE" if "in_bucket c i p"
    using that db_rep_key [OF assms] hash_index unfolding in_bucket_def by metis
  then show ?thesis using db_rep_bucket(3) [OF assms] by blast
qed

lemma db_rep_flows:
  assumes "db_rep c B" shows "set (concat B) = db_flows c"
proof -
  have "p \<in> set (concat B) \<longleftrightarrow> (\<exists>i<FLOW_HASH_SIZE. p \<in> set (B ! i))" for p
    using db_rep_lengths [OF assms] by (simp add: set_conv_nth [of B]) blast
  then show ?thesis
    by (simp only: set_eq_iff db_flows_iff_bucket db_rep_in_bucket [OF assms]) simp
qed

lemma distinct_concat_nth:
  "(\<And>i. i < length B \<Longrightarrow> distinct (B ! i)) \<Longrightarrow>
   (\<And>i j. i < length B \<Longrightarrow> j < length B \<Longrightarrow> i \<noteq> j \<Longrightarrow> set (B ! i) \<inter> set (B ! j) = {}) \<Longrightarrow>
   distinct (concat B)"
proof (induction B)
  case (Cons xs B)
  have "distinct (concat B)"
  proof (rule Cons.IH)
    show "distinct (B ! i)" if "i < length B" for i using that Cons.prems(1) [of "Suc i"] by simp
    show "set (B ! i) \<inter> set (B ! j) = {}" if "i < length B" "j < length B" "i \<noteq> j" for i j
      using that Cons.prems(2) [of "Suc i" "Suc j"] by simp
  qed
  moreover have "set xs \<inter> set (B ! j) = {}" if "j < length B" for j
    using that Cons.prems(2) [of 0 "Suc j"] by simp
  then have "set xs \<inter> set (concat B) = {}" by (fastforce simp: in_set_conv_nth)
  ultimately show ?case using Cons.prems(1) [of 0] by simp
qed simp

lemma db_rep_distinct:
  assumes "db_rep c B" shows "distinct (concat B)"
proof (rule distinct_concat_nth)
  note len = db_rep_lengths [OF assms]
  show "distinct (B ! i)" if "i < length B" for i using that len db_rep_bucket(2) [OF assms] by simp
  show "set (B ! i) \<inter> set (B ! j) = {}" if "i < length B" "j < length B" "i \<noteq> j" for i j
    using that len db_rep_bucket(3) [OF assms] in_bucket_unique by (metis disjoint_iff)
qed

text \<open>
  What an operation on the table may not touch: everything about a flow but its two link members, the servers,
  the oracles.
\<close>

definition same_payload :: "pcp_ctx \<Rightarrow> pcp_ctx \<Rightarrow> bool" where
  "same_payload c c' \<longleftrightarrow> c_pcp_servers c' = c_pcp_servers c \<and> c_brk c' = c_brk c \<and>
     w_tod c' = w_tod c \<and> w_tod_i c' = w_tod_i c \<and> w_recvfrom c' = w_recvfrom c \<and> w_sendto c' = w_sendto c \<and> w_alloc c' = w_alloc c \<and> w_alloc_i c' = w_alloc_i c \<and>
     (\<forall>q. map_option (\<lambda>f. f\<lparr>f_next := None, f_key_bucket := 0\<rparr>) (c_heap c' q) =
          map_option (\<lambda>f. f\<lparr>f_next := None, f_key_bucket := 0\<rparr>) (c_heap c q))"

lemma same_payload_field:
  assumes "same_payload c c'" "\<And>f n k. sel (f\<lparr>f_next := n, f_key_bucket := k\<rparr>) = sel f"
  shows "map_option sel (c_heap c' q) = map_option sel (c_heap c q)"
proof -
  let ?g = "\<lambda>f. f\<lparr>f_next := None, f_key_bucket := 0\<rparr>"
  have eq: "map_option ?g (c_heap c' q) = map_option ?g (c_heap c q)"
    using assms(1) by (simp add: same_payload_def)
  have "map_option sel (c_heap d q) = map_option sel (map_option ?g (c_heap d q))" for d
    by (cases "c_heap d q") (simp_all add: assms(2))
  then show ?thesis using eq by metis
qed

lemma link_heap_payload:
  "h p = Some f \<Longrightarrow>
   map_option (\<lambda>f. f\<lparr>f_next := None, f_key_bucket := 0\<rparr>) (link_heap h p f xs q) =
   map_option (\<lambda>f. f\<lparr>f_next := None, f_key_bucket := 0\<rparr>) (h q)"
  by (cases "h (last xs)") (simp_all add: link_heap_def)

lemma unlink_heap_payload:
  "h p = Some f \<Longrightarrow>
   map_option (\<lambda>f. f\<lparr>f_next := None, f_key_bucket := 0\<rparr>) (unlink_heap h p f xs q) =
   map_option (\<lambda>f. f\<lparr>f_next := None, f_key_bucket := 0\<rparr>) (h q)"
  by (cases "xs = []"; cases "q = last xs"; cases "q = p"; cases "h q") (simp_all add: unlink_heap_def)

lemma add_flow_refines:
  assumes "db_rep c B" "c_heap c p = Some f" "f_key_bucket f = EMPTY"
  shows "\<exists>c'. pcp_db_add_flow (Some p) c = Some (PCP_ERR_SUCCESS, c') \<and> same_payload c c' \<and>
           db_rep c' (B[unat (compute_flow_key (f_kd f)) := B ! unat (compute_flow_key (f_kd f)) @ [p]]) \<and>
           db_flows c' = insert p (db_flows c)"
proof -
  let ?i = "unat (compute_flow_key (f_kd f))"
  obtain c' where c': "pcp_db_add_flow (Some p) c = Some (PCP_ERR_SUCCESS, c')"
      "db_rep c' (B[?i := B ! ?i @ [p]])" and pay: "same_payload c c'"
    using pcp_db_add_flow_eq [OF assms] pcp_db_add_flow_rep [OF assms]
    by (simp add: same_payload_def link_heap_payload assms(2))
  have "in_bucket c' j q \<longleftrightarrow> in_bucket c j q \<or> q = p \<and> j = ?i" for j q
    unfolding db_rep_in_bucket [OF c'(2)] db_rep_in_bucket [OF assms(1)]
    using hash_index [of "f_kd f"] db_rep_lengths [OF assms(1)] by (auto simp: nth_list_update)
  then have "db_flows c' = insert p (db_flows c)" by (auto simp: db_flows_iff_bucket)
  with c' pay show ?thesis by blast
qed

lemma rem_flow_refines:
  assumes "db_rep c B" "c_heap c p = Some f" "f_key_bucket f \<noteq> EMPTY"
  shows "\<exists>c'. pcp_db_rem_flow p c = Some (PCP_ERR_SUCCESS, c') \<and> same_payload c c' \<and>
           db_rep c' (B[unat (f_key_bucket f) := remove1 p (B ! unat (f_key_bucket f))]) \<and>
           db_flows c' = db_flows c - {p}"
proof -
  let ?i = "unat (f_key_bucket f)"
  have inb: "in_bucket c ?i p" using assms(2,3) by (simp add: in_bucket_def)
  then have i: "?i < FLOW_HASH_SIZE" and "p \<in> set (B ! ?i)"
    using db_rep_in_bucket [OF assms(1)] by blast+
  then obtain as bs where split: "B ! ?i = as @ p # bs" and as: "p \<notin> set as"
    by (auto dest: split_list_first)
  then have rem: "remove1 p (B ! ?i) = as @ bs" by (simp add: remove1_append)
  obtain c' where c': "pcp_db_rem_flow p c = Some (PCP_ERR_SUCCESS, c')"
      "db_rep c' (B[?i := as @ bs])" and pay: "same_payload c c'"
    using pcp_db_rem_flow_eq [OF assms refl split] pcp_db_rem_flow_rep [OF assms refl split]
    by (simp add: same_payload_def unlink_heap_payload assms(2))
  have "p \<notin> set bs" using db_rep_bucket(2) [OF assms(1) i] split by simp
  then have "in_bucket c' j q \<longleftrightarrow> in_bucket c j q \<and> q \<noteq> p" for j q
    using i db_rep_lengths [OF assms(1)] split as in_bucket_unique [OF inb, of j]
    unfolding db_rep_in_bucket [OF c'(2)] db_rep_in_bucket [OF assms(1)] by (auto simp: nth_list_update)
  then have "db_flows c' = db_flows c - {p}" by (auto simp: db_flows_iff_bucket)
  with c' pay rem show ?thesis by auto
qed

lemma rem_flow_unlinked:
  "c_heap c p = Some f \<Longrightarrow> f_key_bucket f = EMPTY \<Longrightarrow>
     pcp_db_rem_flow p c = Some (PCP_ERR_NOT_FOUND, c)"
  by (simp add: pcp_db_rem_flow_def rd_flow_def)

text \<open>The key of the table: the server the flow is assigned to and its key data.\<close>

definition db_key :: "pcp_ctx \<Rightarrow> fid \<Rightarrow> u32 \<times> flow_key_data" where
  "db_key c p = (f_pcp_server_indx (the (c_heap c p)), f_kd (the (c_heap c p)))"

definition lookup_flow :: "u32 \<times> flow_key_data \<Rightarrow> pcp_ctx \<Rightarrow> fid option option" where
  "lookup_flow k c = get_flow_loop (snd k) (fst k) (Bucket (unat (compute_flow_key (snd k)))) c"

lemma pcp_get_flow_lookup:
  "pcp_get_flow kd (Some s) c = Option.bind (rd_server s c) (\<lambda>sv. lookup_flow (s_index sv, kd) c)"
  by (simp add: pcp_get_flow_def lookup_flow_def)

lemma lookup_flow_refines:
  assumes "db_rep c B"
  shows "lookup_flow k c =
     Some (find (\<lambda>p. db_key c p = k) (B ! unat (compute_flow_key (snd k))))"
  using get_flow_loop_chain [OF db_rep_bucket(4,1) [OF assms hash_index [of "snd k"]]]
  by (cases k) (simp add: lookup_flow_def db_key_def)

lemma lookup_flow_law:
  assumes B: "db_rep c B"
  shows "(\<exists>p. lookup_flow k c = Some (Some p) \<and> p \<in> db_flows c \<and> db_key c p = k) \<or>
      (lookup_flow k c = Some None \<and> (\<forall>p\<in>db_flows c. db_key c p \<noteq> k))"
proof -
  let ?i = "unat (compute_flow_key (snd k))"
  have mem: "p \<in> db_flows c" if "p \<in> set (B ! ?i)" for p
    using that hash_index db_rep_in_bucket [OF B] by (auto simp: db_flows_iff_bucket)
  have conv: "p \<in> set (B ! ?i)" if "p \<in> db_flows c" "db_key c p = k" for p
    using that db_rep_key [OF B] db_rep_in_bucket [OF B, of ?i p]
    by (auto simp: db_flows_def db_key_def in_bucket_def)
  show ?thesis
  proof (cases "find (\<lambda>p. db_key c p = k) (B ! ?i)")
    case None
    then show ?thesis using conv by (auto simp: lookup_flow_refines [OF B] find_None_iff)
  next
    case (Some p)
    then have "p \<in> set (B ! ?i)" "db_key c p = k" by (auto simp: find_Some_iff)
    then show ?thesis using Some mem by (simp add: lookup_flow_refines [OF B])
  qed
qed

section \<open>The interface of the table\<close>

text \<open>
  What the clients of the table rely on: \<open>members\<close> are the flows in it, \<open>alloc\<close> the flows that
  exist, \<open>key\<close> what a flow is looked up by.
\<close>

datatype 'p table_op = Add 'p | Rem 'p

fun apply_op :: "'p table_op \<Rightarrow> 'p set \<Rightarrow> 'p set" where
  "apply_op (Add p) M = insert p M"
| "apply_op (Rem p) M = M - {p}"

fun op_ok :: "'p set \<Rightarrow> 'p set \<Rightarrow> 'p table_op \<Rightarrow> bool" where
  "op_ok A M (Add p) \<longleftrightarrow> p \<in> A \<and> p \<notin> M"
| "op_ok A M (Rem p) \<longleftrightarrow> p \<in> A"

fun ops_ok :: "'p set \<Rightarrow> 'p set \<Rightarrow> 'p table_op list \<Rightarrow> bool" where
  "ops_ok A M [] \<longleftrightarrow> True"
| "ops_ok A M (x # xs) \<longleftrightarrow> op_ok A M x \<and> ops_ok A (apply_op x M) xs"

locale flow_table =
  fixes wf :: "'s \<Rightarrow> bool"
    and alloc :: "'s \<Rightarrow> 'p set"
    and members :: "'s \<Rightarrow> 'p set"
    and key :: "'s \<Rightarrow> 'p \<Rightarrow> 'k"
    and add :: "'p \<Rightarrow> 's \<Rightarrow> 's option"
    and rem :: "'p \<Rightarrow> 's \<Rightarrow> 's option"
    and look :: "'k \<Rightarrow> 's \<Rightarrow> 'p option option"
  assumes members_alloc: "wf s \<Longrightarrow> members s \<subseteq> alloc s"
    and add_law: "wf s \<Longrightarrow> p \<in> alloc s \<Longrightarrow> p \<notin> members s \<Longrightarrow>
      \<exists>s'. add p s = Some s' \<and> wf s' \<and> members s' = insert p (members s) \<and> alloc s' = alloc s \<and>
           (\<forall>q\<in>alloc s. key s' q = key s q)"
    and rem_law: "wf s \<Longrightarrow> p \<in> alloc s \<Longrightarrow>
      \<exists>s'. rem p s = Some s' \<and> wf s' \<and> members s' = members s - {p} \<and> alloc s' = alloc s \<and>
           (\<forall>q\<in>alloc s. key s' q = key s q)"
    and look_law: "wf s \<Longrightarrow>
      (\<exists>p. look k s = Some (Some p) \<and> p \<in> members s \<and> key s p = k) \<or>
      (look k s = Some None \<and> (\<forall>p\<in>members s. key s p \<noteq> k))"
begin

lemma look_Some: "wf s \<Longrightarrow> look k s = Some (Some p) \<Longrightarrow> p \<in> members s \<and> key s p = k"
  using look_law [of s k] by auto

lemma look_None: "wf s \<Longrightarrow> look k s = Some None \<longleftrightarrow> (\<forall>p\<in>members s. key s p \<noteq> k)"
  using look_law [of s k] by auto

lemma look_unique:
  "wf s \<Longrightarrow> p \<in> members s \<Longrightarrow> (\<And>q. q \<in> members s \<Longrightarrow> key s q = key s p \<Longrightarrow> q = p) \<Longrightarrow>
     look (key s p) s = Some (Some p)"
  using look_law [of s "key s p"] by auto

fun run :: "'p table_op list \<Rightarrow> 's \<Rightarrow> 's option" where
  "run [] s = Some s"
| "run (Add p # xs) s = Option.bind (add p s) (run xs)"
| "run (Rem p # xs) s = Option.bind (rem p s) (run xs)"

text \<open>
  Any history of insertions and removals runs to its end, and leaves in the table what the
  same history leaves in a set.
\<close>

lemma run_history:
  "wf s \<Longrightarrow> ops_ok (alloc s) (members s) xs \<Longrightarrow>
     \<exists>s'. run xs s = Some s' \<and> wf s' \<and> alloc s' = alloc s \<and>
          members s' = fold apply_op xs (members s) \<and> (\<forall>q\<in>alloc s. key s' q = key s q)"
proof (induction xs arbitrary: s)
  case (Cons x xs)
  obtain s1 where s1: "run (x # xs) s = run xs s1" "wf s1" "alloc s1 = alloc s"
      "members s1 = apply_op x (members s)" "\<forall>q\<in>alloc s. key s1 q = key s q"
  proof (cases x)
    case (Add p)
    with Cons.prems add_law [of s p] that show ?thesis by auto
  next
    case (Rem p)
    with Cons.prems rem_law [of s p] that show ?thesis by auto
  qed
  with Cons.IH [of s1] Cons.prems(2) show ?case by auto
qed simp

lemma look_after_history:
  assumes "wf s" "ops_ok (alloc s) (members s) xs" "run xs s = Some s'"
  shows "look k s' = Some None \<longleftrightarrow> (\<forall>p\<in>fold apply_op xs (members s). key s p \<noteq> k)"
proof -
  from run_history [OF assms(1,2)] assms(3)
  have s': "wf s'" "members s' = fold apply_op xs (members s)" "alloc s' = alloc s"
    "\<forall>q\<in>alloc s. key s' q = key s q" by auto
  then have "members s' \<subseteq> alloc s" using members_alloc by metis
  with s' have "\<forall>p\<in>members s'. key s' p = key s p" by auto
  with s' show ?thesis by (simp add: look_None)
qed

end

section \<open>The hash table provides the interface\<close>

definition db_alloc :: "pcp_ctx \<Rightarrow> fid set" where
  "db_alloc c = dom (c_heap c)"

lemma same_payload_key: "same_payload c c' \<Longrightarrow> q \<in> db_alloc c \<Longrightarrow> db_key c' q = db_key c q"
  using same_payload_field [of c c' "\<lambda>f. (f_pcp_server_indx f, f_kd f)" q]
  by (cases "c_heap c q"; cases "c_heap c' q") (auto simp: db_key_def db_alloc_def)

lemma same_payload_alloc: "same_payload c c' \<Longrightarrow> db_alloc c' = db_alloc c"
  using same_payload_field [of c c' "\<lambda>f. ()"]
  by (auto simp: db_alloc_def set_eq_iff) (metis option.map_disc_iff option.exhaust)+

interpretation db: flow_table db_inv db_alloc db_flows db_key
  "\<lambda>p c. map_option snd (pcp_db_add_flow (Some p) c)"
  "\<lambda>p c. map_option snd (pcp_db_rem_flow p c)" lookup_flow
proof unfold_locales
  fix c p k
  assume inv: "db_inv c"
  then obtain B where B: "db_rep c B" by (auto simp: db_inv_def)
  show "db_flows c \<subseteq> db_alloc c" by (auto simp: db_flows_def db_alloc_def)
  show "(\<exists>p. lookup_flow k c = Some (Some p) \<and> p \<in> db_flows c \<and> db_key c p = k) \<or>
      (lookup_flow k c = Some None \<and> (\<forall>p\<in>db_flows c. db_key c p \<noteq> k))"
    by (rule lookup_flow_law [OF B])
  show "\<exists>s'. map_option snd (pcp_db_add_flow (Some p) c) = Some s' \<and> db_inv s' \<and>
      db_flows s' = insert p (db_flows c) \<and> db_alloc s' = db_alloc c \<and>
      (\<forall>q\<in>db_alloc c. db_key s' q = db_key c q)"
    if "p \<in> db_alloc c" "p \<notin> db_flows c"
  proof -
    from that obtain f where "c_heap c p = Some f" "f_key_bucket f = EMPTY"
      by (auto simp: db_alloc_def db_flows_def)
    from add_flow_refines [OF B this] show ?thesis
      by (auto simp: db_inv_def same_payload_key same_payload_alloc)
  qed
  show "\<exists>s'. map_option snd (pcp_db_rem_flow p c) = Some s' \<and> db_inv s' \<and>
      db_flows s' = db_flows c - {p} \<and> db_alloc s' = db_alloc c \<and>
      (\<forall>q\<in>db_alloc c. db_key s' q = db_key c q)"
    if "p \<in> db_alloc c"
  proof -
    from that obtain f where f: "c_heap c p = Some f" by (auto simp: db_alloc_def)
    show ?thesis
    proof (cases "f_key_bucket f = EMPTY")
      case True
      then show ?thesis using rem_flow_unlinked [OF f] inv f by (auto simp: db_flows_def)
    next
      case False
      from rem_flow_refines [OF B f this] show ?thesis
        by (auto simp: db_inv_def same_payload_key same_payload_alloc)
    qed
  qed
qed

section \<open>Properties\<close>

text \<open>A history of additions and removals, run on the table.\<close>

fun db_run :: "fid table_op list \<Rightarrow> pcp_ctx \<Rightarrow> pcp_ctx option" where
  "db_run [] c = Some c"
| "db_run (Add p # xs) c = Option.bind (pcp_db_add_flow (Some p) c) (\<lambda>(r, c). db_run xs c)"
| "db_run (Rem p # xs) c = Option.bind (pcp_db_rem_flow p c) (\<lambda>(r, c). db_run xs c)"

lemma db_run_run: "db_run xs c = db.run xs c"
proof (induction xs c rule: db_run.induct)
  case (2 p xs c)
  then show ?case by (cases "pcp_db_add_flow (Some p) c") auto
next
  case (3 p xs c)
  then show ?case by (cases "pcp_db_rem_flow p c") auto
qed simp

text \<open>The table of a new context.\<close>

lemma db_rep_start: "db_rep ctx_start (replicate FLOW_HASH_SIZE [])"
  by (simp add: db_rep_def ctx_start_def in_bucket_def)

text \<open>A context with the two flows \<open>0\<close> and \<open>1\<close> allocated and in no bucket.\<close>

definition ctx_two_flows :: pcp_ctx where
  "ctx_two_flows = ctx_start\<lparr>c_brk := 2, c_heap := [0 \<mapsto> flow_zero\<lparr>f_key_bucket := EMPTY\<rparr>,
     1 \<mapsto> flow_zero\<lparr>f_key_bucket := EMPTY, f_kd := kd_zero\<lparr>k_operation := PCP_OPCODE_MAP\<rparr>\<rparr>]\<rparr>"

lemma db_rep_two_flows: "db_rep ctx_two_flows (replicate FLOW_HASH_SIZE [])"
  by (simp add: db_rep_def ctx_two_flows_def ctx_start_def in_bucket_def)

lemma two_flows_facts:
  "db_inv ctx_two_flows" "db_alloc ctx_two_flows = {0, 1}" "db_flows ctx_two_flows = {}"
  "db_key ctx_two_flows 0 = (0, kd_zero)"
  "db_key ctx_two_flows (Suc 0) = (0, kd_zero\<lparr>k_operation := PCP_OPCODE_MAP\<rparr>)"
  using db_rep_two_flows
  by (auto simp: db_inv_def db_alloc_def db_flows_def db_key_def ctx_two_flows_def flow_zero_def split: if_splits)

text \<open>C9: refinement of the flow table. Any history of \<open>pcp_db_add_flow\<close> (of flows that are not in the
  table) and \<open>pcp_db_rem_flow\<close> (of any flow) on a well-formed table runs to its end, keeps the table
  well formed, leaves the flows' keys alone, and leaves in the table exactly the flows that the same
  insertions and removals leave in a set.\<close>

theorem db_history_refines_set:
  assumes "db_inv c" "ops_ok (db_alloc c) (db_flows c) xs"
  shows "\<exists>c'. db_run xs c = Some c' \<and> db_inv c' \<and> db_flows c' = fold apply_op xs (db_flows c) \<and>
     (\<forall>p\<in>db_alloc c. db_key c' p = db_key c p)"
  using db.run_history [OF assms] by (auto simp: db_run_run)

theorem db_history_refines_set_witness:
  "\<exists>c'. db_run [Add 0, Add 1, Rem 0, Rem 0] ctx_two_flows = Some c' \<and> db_inv c' \<and> db_flows c' = {1}"
  using db_history_refines_set [of ctx_two_flows "[Add 0, Add 1, Rem 0, Rem 0]"]
  by (auto simp: two_flows_facts)



text \<open>A flow that was added is found under its key until it is removed: after a history that leaves
  the flow \<open>p\<close> in the table, and no other flow with its key, \<open>p\<close> is what the lookup finds; after a
  history that leaves no flow with the key \<open>k\<close>, the lookup of \<open>k\<close> finds nothing.\<close>

theorem lookup_after_history:
  assumes "db_inv c" "ops_ok (db_alloc c) (db_flows c) xs" "db_run xs c = Some c'"
  shows "(lookup_flow k c' = Some None \<longleftrightarrow> (\<forall>p\<in>fold apply_op xs (db_flows c). db_key c p \<noteq> k)) \<and>
     ({q \<in> fold apply_op xs (db_flows c). db_key c q = k} = {p} \<longrightarrow> lookup_flow k c' = Some (Some p))"
proof -
  from db.run_history [OF assms(1,2)] assms(3)
  have c': "db_inv c'" "db_flows c' = fold apply_op xs (db_flows c)" "db_alloc c' = db_alloc c"
    "\<forall>q\<in>db_alloc c. db_key c' q = db_key c q" by (auto simp: db_run_run)
  moreover from this have "\<forall>q\<in>db_flows c'. db_key c' q = db_key c q" using db.members_alloc [of c'] by auto
  ultimately have "lookup_flow k c' = Some (Some p)"
    if "{q \<in> fold apply_op xs (db_flows c). db_key c q = k} = {p}"
    using that db.look_law [OF c'(1), of k] by (metis (mono_tags, lifting) mem_Collect_eq singletonI singletonD)
  with db.look_after_history [OF assms(1,2), of c' k] assms(3) show ?thesis by (simp add: db_run_run)
qed

theorem lookup_after_history_witness:
  "\<exists>c'. db_run [Add 0, Add 1, Rem 0] ctx_two_flows = Some c' \<and>
     lookup_flow (0, kd_zero) c' = Some None \<and>
     lookup_flow (0, kd_zero\<lparr>k_operation := PCP_OPCODE_MAP\<rparr>) c' = Some (Some 1)"
proof -
  have ok: "ops_ok (db_alloc ctx_two_flows) (db_flows ctx_two_flows) [Add 0, Add 1, Rem 0]"
    by (simp add: two_flows_facts)
  from db.run_history [OF two_flows_facts(1) ok]
  obtain c' where c': "db_run [Add 0, Add 1, Rem 0] ctx_two_flows = Some c'" by (auto simp: db_run_run)
  have ne: "kd_zero\<lparr>k_operation := PCP_OPCODE_MAP\<rparr> \<noteq> kd_zero" by (simp add: kd_zero_def)
  have one: "{q \<in> {1 :: nat}. db_key ctx_two_flows q = (0, kd_zero\<lparr>k_operation := PCP_OPCODE_MAP\<rparr>)} = {1}"
    using two_flows_facts(5) by auto
  have m: "fold apply_op [Add 0, Add 1, Rem 0] (db_flows ctx_two_flows) = {1 :: nat}"
    by (auto simp: two_flows_facts)
  note h = lookup_after_history [OF two_flows_facts(1) ok c', unfolded m]
  from h [of "(0, kd_zero)" 1] h [of "(0, kd_zero\<lparr>k_operation := PCP_OPCODE_MAP\<rparr>)" 1] one ne c'
  show ?thesis by (simp add: two_flows_facts)
qed

end
