(* ===== verification/Server_Table.thy ===== *)
theory Server_Table
  imports Flow_Table
begin

text \<open>
  Correctness of the server array of \<open>pcp_client_db.c\<close>: allocation of entries, growth of the
  array, lookup by index and by address; and the iteration over the flow table.
\<close>

section \<open>Servers\<close>

text \<open>
  Every entry in use knows its own index; the array is absent or holds \<open>5 * 2 ^ n\<close> entries.
\<close>

definition server_inv :: "pcp_ctx \<Rightarrow> bool" where
  "server_inv c \<longleftrightarrow>
     (\<forall>i<length (c_pcp_servers c). s_server_state (c_pcp_servers c ! i) \<noteq> pss_unitialized \<longrightarrow>
        s_index (c_pcp_servers c ! i) = of_nat i) \<and>
     (length (c_pcp_servers c) = 0 \<or> (\<exists>n. length (c_pcp_servers c) = PCP_INIT_SERVER_COUNT * 2 ^ n))"

lemma first_unused_Some:
  "first_unused ss = Some i \<longleftrightarrow>
     i < length ss \<and> s_server_state (ss ! i) = pss_unitialized \<and>
     (\<forall>j<i. s_server_state (ss ! j) \<noteq> pss_unitialized)"
proof (induction ss arbitrary: i)
  case (Cons s ss)
  then show ?case by (cases i) (auto simp: less_Suc_eq_0_disj)
qed simp

lemma first_unused_None:
  "first_unused ss = None \<longleftrightarrow> (\<forall>i<length ss. s_server_state (ss ! i) \<noteq> pss_unitialized)"
  by (induction ss) (auto simp: less_Suc_eq_0_disj)

text \<open>The array as \<open>pcp_new_server\<close> sees it once it has been initialised.\<close>

definition servers_ready :: "pcp_ctx \<Rightarrow> pcp_server list" where
  "servers_ready c = (if c_pcp_servers c = [] then replicate PCP_INIT_SERVER_COUNT server_zero
                      else c_pcp_servers c)"

definition new_server_index :: "pcp_ctx \<Rightarrow> nat" where
  "new_server_index c = (case first_unused (servers_ready c) of
     Some i \<Rightarrow> i | None \<Rightarrow> length (servers_ready c))"

definition new_server_array :: "pcp_ctx \<Rightarrow> pcp_server list" where
  "new_server_array c = (case first_unused (servers_ready c) of
     Some i \<Rightarrow> servers_ready c
   | None \<Rightarrow> servers_ready c @ replicate (length (servers_ready c)) server_zero)"

definition new_server_allocs :: "pcp_ctx \<Rightarrow> nat" where
  "new_server_allocs c =
     (if c_pcp_servers c = [] then 1 else if first_unused (c_pcp_servers c) = None then 1 else 0)"

definition init_server :: "in6_addr \<Rightarrow> u16 \<Rightarrow> u32 \<Rightarrow> pcp_nonce \<Rightarrow> nat \<Rightarrow> pcp_server \<Rightarrow> pcp_server" where
  "init_server ip port scope n i s =
     s\<lparr>s_epoch := 0xFFFFFFFF, s_af_inet6 := True, s_pcp_ip := ip, s_pcp_port := port,
       s_pcp_scope_id := (if IN6_IS_ADDR_LINKLOCAL ip then scope else 0),
       s_server_state := pss_allocated, s_pcp_version := PCP_MAX_SUPPORTED_VERSION,
       s_nonce := n, s_index := of_nat i\<rparr>"

lemma new_server_index_bound: "new_server_index c < length (new_server_array c)"
  by (auto simp: new_server_index_def new_server_array_def servers_ready_def first_unused_Some
      split: option.splits)

lemma new_server_index_free:
  "s_server_state (new_server_array c ! new_server_index c) = pss_unitialized"
  by (auto simp: new_server_index_def new_server_array_def first_unused_Some nth_append
      server_zero_def split: option.splits)
    (auto simp: servers_ready_def server_zero_def)

lemma new_server_array_keeps:
  "i < length (c_pcp_servers c) \<Longrightarrow> new_server_array c ! i = c_pcp_servers c ! i"
  by (auto simp: new_server_array_def servers_ready_def nth_append split: option.splits)

lemma first_unused_zero [simp]: "first_unused (replicate 5 server_zero) = Some 0"
  by (simp add: eval_nat_numeral server_zero_def)

lemma pcp_new_server_ok:
  assumes "\<And>k. k < new_server_allocs c \<Longrightarrow> w_alloc c (w_alloc_i c + k)"
  shows "\<exists>c' n. pcp_new_server ip port scope c = Some (int (new_server_index c), c') \<and>
     c_pcp_servers c' = (new_server_array c)
       [new_server_index c := init_server ip port scope n (new_server_index c)
          (new_server_array c ! new_server_index c)] \<and>
     same_db c c' \<and> c_heap c' = c_heap c"
proof -
  note bd = new_server_index_bound [of c]
  have al: "w_alloc c (w_alloc_i c)" if "c_pcp_servers c = [] \<or> first_unused (c_pcp_servers c) = None"
    using that assms [of 0] by (auto simp: new_server_allocs_def)
  consider "c_pcp_servers c = []" | "c_pcp_servers c \<noteq> []" "first_unused (c_pcp_servers c) = None"
    | i where "c_pcp_servers c \<noteq> []" "first_unused (c_pcp_servers c) = Some i"
    by fastforce
  then show ?thesis
    using bd al
    by cases (auto simp: pcp_new_server_def servers_ready_def new_server_index_def
        new_server_array_def server_slot_def alloc_next_def createNonce_def random_next_def
        upd_server_def init_server_def same_db_def Let_def)
qed

lemma pcp_new_server_no_mem:
  assumes "k < new_server_allocs c" "\<not> w_alloc c (w_alloc_i c + k)"
  shows "\<exists>c'. pcp_new_server ip port scope c = Some (errno_code PCP_ERR_NO_MEM, c') \<and>
     c_pcp_servers c' = c_pcp_servers c \<and> same_db c c'"
  using assms
  by (auto simp: pcp_new_server_def new_server_allocs_def server_slot_def alloc_next_def
      same_db_def Let_def split: if_splits option.splits)

lemma new_server_inv:
  assumes "server_inv c"
    and "c_pcp_servers c' = (new_server_array c)
       [new_server_index c := init_server ip port scope n (new_server_index c)
          (new_server_array c ! new_server_index c)]"
  shows "server_inv c'"
proof -
  let ?j = "new_server_index c" and ?A = "new_server_array c"
  have "s_index (?A ! i) = of_nat i"
    if "i < length ?A" "s_server_state (?A ! i) \<noteq> pss_unitialized" for i
    using that assms(1)
    by (auto simp: server_inv_def new_server_array_def servers_ready_def nth_append server_zero_def
        split: option.splits if_splits)
  moreover have "\<exists>n. length ?A = PCP_INIT_SERVER_COUNT * 2 ^ n"
  proof -
    have "\<exists>n. length (servers_ready c) = 5 * 2 ^ n"
      using assms(1) by (auto simp: server_inv_def servers_ready_def intro: exI [of _ 0])
    then obtain n where "length (servers_ready c) = 5 * 2 ^ n" by blast
    then show ?thesis
      by (auto simp: new_server_array_def split: option.splits intro: exI [of _ n] exI [of _ "Suc n"])
  qed
  moreover have "s_index (c_pcp_servers c' ! i) = of_nat i"
    if "i < length ?A" "s_server_state (c_pcp_servers c' ! i) \<noteq> pss_unitialized" for i
    using calculation(1) [of i] that assms(2)
    by (cases "i = ?j") (simp_all add: init_server_def)
  ultimately show ?thesis using assms(2) by (simp add: server_inv_def)
qed

lemma get_pcp_server_Some:
  "get_pcp_server i c = Some s \<longleftrightarrow>
     i = int s \<and> s < length (c_pcp_servers c) \<and> s_server_state (c_pcp_servers c ! s) \<noteq> pss_unitialized"
  by (auto simp: get_pcp_server_def)

subsection \<open>Iterating over servers\<close>

text \<open>A callback that only inspects the context: the loop is a search.\<close>

lemma foreach_server_search:
  assumes "\<And>i. i < length (c_pcp_servers c) \<Longrightarrow>
    f i d c = Some (if P i then (True, g i, c) else (False, d, c))"
  shows "foreach_server_loop f i d c =
    Some (case find (\<lambda>j. s_server_state (c_pcp_servers c ! j) \<noteq> pss_unitialized \<and> P j)
                 [i..<length (c_pcp_servers c)] of
            None \<Rightarrow> (PCP_ERR_MAX_SIZE, d, c) | Some j \<Rightarrow> (PCP_ERR_SUCCESS, g j, c))"
proof (induction "length (c_pcp_servers c) - i" arbitrary: i)
  case 0
  then show ?case by (subst foreach_server_loop.simps) simp
next
  case (Suc n)
  then have "i < length (c_pcp_servers c)" "n = length (c_pcp_servers c) - Suc i" by simp_all
  with Suc.hyps(1) [of "Suc i"] assms [of i] show ?case
    by (subst foreach_server_loop.simps) (auto simp: upt_conv_Cons)
qed

lemma get_pcp_server_by_ip_find:
  "get_pcp_server_by_ip ip scope c =
     Some (find (\<lambda>j. s_server_state (c_pcp_servers c ! j) \<noteq> pss_unitialized \<and>
                     s_pcp_ip (c_pcp_servers c ! j) = ip \<and>
                     s_pcp_scope_id (c_pcp_servers c ! j) = (if IN6_IS_ADDR_LINKLOCAL ip then scope else 0))
                [0..<length (c_pcp_servers c)])"
  unfolding get_pcp_server_by_ip_def pcp_db_foreach_server_def
  by (subst foreach_server_search [where
        P = "\<lambda>j. s_pcp_ip (c_pcp_servers c ! j) = ip \<and>
          s_pcp_scope_id (c_pcp_servers c ! j) = (if IN6_IS_ADDR_LINKLOCAL ip then scope else 0)" and
        g = "\<lambda>j. \<lparr>fd_ip = ip, fd_scope_id = (if IN6_IS_ADDR_LINKLOCAL ip then scope else 0),
          fd_found_server = Some j\<rparr>"])
    (auto simp: find_ip_def rd_server_def split: option.splits)

section \<open>Iterating over flows\<close>

text \<open>The reference iteration over a list of flows.\<close>

fun iter_flows ::
    "(fid \<Rightarrow> 'd \<Rightarrow> pcp_ctx \<Rightarrow> (bool \<times> 'd \<times> pcp_ctx) option) \<Rightarrow> fid list \<Rightarrow> 'd \<Rightarrow> pcp_ctx \<Rightarrow>
     (bool \<times> 'd \<times> pcp_ctx) option" where
  "iter_flows f [] d c = Some (False, d, c)"
| "iter_flows f (p # ps) d c =
     Option.bind (f p d c) (\<lambda>(stop, d, c). if stop then Some (True, d, c) else iter_flows f ps d c)"

lemma iter_flows_append:
  "iter_flows f (ps @ qs) d c =
     Option.bind (iter_flows f ps d c)
       (\<lambda>(stop, d, c). if stop then Some (True, d, c) else iter_flows f qs d c)"
  by (induction ps arbitrary: d c) (auto simp: case_prod_unfold intro!: bind_option_cong)

text \<open>
  The contract of the callbacks that the library passes to the iteration: called with the first of
  the flows still to be visited, they keep the links of the flows that come after it, and the heads
  of all buckets that do not start with it. So they may unlink and free the flow they are called
  with, as well as leave it in place.
\<close>

definition links_kept :: "fid set \<Rightarrow> pcp_ctx \<Rightarrow> pcp_ctx \<Rightarrow> bool" where
  "links_kept S c c' \<longleftrightarrow>
     (\<forall>q\<in>S. map_option f_next (c_heap c' q) = map_option f_next (c_heap c q))"

definition heads_kept :: "fid set \<Rightarrow> pcp_ctx \<Rightarrow> pcp_ctx \<Rightarrow> bool" where
  "heads_kept S c c' \<longleftrightarrow> length (c_flows c') = length (c_flows c) \<and>
     (\<forall>j<length (c_flows c). c_flows c ! j \<notin> Some ` S \<longrightarrow> c_flows c' ! j = c_flows c ! j)"

lemma links_kept_chain:
  "links_kept S c c' \<Longrightarrow> set xs \<subseteq> S \<Longrightarrow> chain (c_heap c') v xs = chain (c_heap c) v xs"
  by (rule seg_cong) (auto simp: links_kept_def)

lemma links_kept_trans: "links_kept S a b \<Longrightarrow> links_kept T b c \<Longrightarrow> T \<subseteq> S \<Longrightarrow> links_kept T a c"
  by (auto simp: links_kept_def)

lemma heads_kept_trans:
  "heads_kept S a b \<Longrightarrow> heads_kept T b c \<Longrightarrow> heads_kept (S \<union> T) a c"
  by (auto simp: heads_kept_def image_Un)

lemma same_db_kept: "same_db c c' \<Longrightarrow> links_kept S c c' \<and> heads_kept T c c'"
  by (auto simp: links_kept_def heads_kept_def same_db_next) (simp_all add: same_db_def)

locale flow_visitor =
  fixes I :: "'d \<Rightarrow> fid list \<Rightarrow> pcp_ctx \<Rightarrow> bool"
    and visit :: "fid \<Rightarrow> 'd \<Rightarrow> pcp_ctx \<Rightarrow> (bool \<times> 'd \<times> pcp_ctx) option"
  assumes visit_step: "I d (p # ps) c \<Longrightarrow> visit p d c = Some (stop, d', c') \<Longrightarrow>
      I d' ps c' \<and> links_kept (set ps) c c' \<and> heads_kept {p} c c'"
begin

lemma chain_iter:
  "chain (c_heap c) v xs \<Longrightarrow> I d (xs @ rest) c \<Longrightarrow> foreach_flow_chain visit v d c = iter_flows visit xs d c"
proof (induction xs arbitrary: v d c)
  case Nil
  then show ?case by (subst foreach_flow_chain.simps) simp
next
  case (Cons x xs)
  then obtain fl where fl: "v = Some x" "c_heap c x = Some fl" "chain (c_heap c) (f_next fl) xs" by auto
  have "foreach_flow_chain visit (f_next fl) d' c' = iter_flows visit xs d' c'"
    if "visit x d c = Some (stop, d', c')" for stop d' c'
  proof -
    from visit_step [of d x "xs @ rest" c] Cons.prems(2) that
    have *: "I d' (xs @ rest) c'" "links_kept (set (xs @ rest)) c c'" by auto
    then have "chain (c_heap c') (f_next fl) xs" using fl(3) by (simp add: links_kept_chain)
    then show ?thesis using Cons.IH * by blast
  qed
  then show ?case
    using fl by (subst foreach_flow_chain.simps)
      (auto simp: rd_flow_def split: prod.splits intro!: bind_option_cong)
qed

lemma iter_kept:
  "I d (xs @ rest) c \<Longrightarrow> iter_flows visit xs d c = Some (stop, d', c') \<Longrightarrow> \<not> stop \<Longrightarrow>
     I d' rest c' \<and> links_kept (set rest) c c' \<and> heads_kept (set xs) c c'"
proof (induction xs arbitrary: d c)
  case Nil
  then show ?case by (auto simp: links_kept_def heads_kept_def)
next
  case (Cons x xs)
  then obtain d1 c1 where v: "visit x d c = Some (False, d1, c1)"
      and r: "iter_flows visit xs d1 c1 = Some (stop, d', c')"
    by (auto simp: bind_eq_Some_conv split: if_splits)
  from visit_step [OF _ v, of "xs @ rest"] Cons.prems(1)
  have 1: "I d1 (xs @ rest) c1" "links_kept (set (xs @ rest)) c c1" "heads_kept {x} c c1" by simp_all
  from Cons.IH [OF 1(1) r Cons.prems(3)]
  have "I d' rest c'" "links_kept (set rest) c1 c'" "heads_kept (set xs) c1 c'" by simp_all
  with 1 show ?case using links_kept_trans heads_kept_trans [of "{x}" c c1 "set xs" c'] by auto
qed

lemma foreach_buckets_iter:
  "distinct (concat Bs) \<Longrightarrow> length is = length Bs \<Longrightarrow>
   (\<And>j. j < length is \<Longrightarrow> is ! j < length (c_flows c) \<and> chain (c_heap c) (c_flows c ! (is ! j)) (Bs ! j)) \<Longrightarrow>
   I d (concat Bs) c \<Longrightarrow>
   foreach_flow_buckets visit is d c =
     map_option (\<lambda>(stop, d, c). (if stop then PCP_ERR_SUCCESS else PCP_ERR_NOT_FOUND, d, c))
       (iter_flows visit (concat Bs) d c)"
proof (induction "is" arbitrary: Bs d c)
  case (Cons i "is")
  then obtain xs Bs' where Bs: "Bs = xs # Bs'" by (cases Bs) auto
  have hd: "i < length (c_flows c)" "chain (c_heap c) (c_flows c ! i) xs"
    using Cons.prems(3) [of 0] Bs by simp_all
  have it: "foreach_flow_chain visit (c_flows c ! i) d c = iter_flows visit xs d c"
    using chain_iter [OF hd(2)] Cons.prems(4) Bs by simp
  have rest: "foreach_flow_buckets visit is d' c' =
      map_option (\<lambda>(stop, d, c). (if stop then PCP_ERR_SUCCESS else PCP_ERR_NOT_FOUND, d, c))
        (iter_flows visit (concat Bs') d' c')"
    if "iter_flows visit xs d c = Some (False, d', c')" for d' c'
  proof -
    from iter_kept [OF _ that, of "concat Bs'"] Cons.prems(4) Bs
    have k: "I d' (concat Bs') c'" "links_kept (set (concat Bs')) c c'" "heads_kept (set xs) c c'" by auto
    have "is ! j < length (c_flows c') \<and> chain (c_heap c') (c_flows c' ! (is ! j)) (Bs' ! j)"
      if j: "j < length is" for j
    proof -
      have old: "is ! j < length (c_flows c)" "chain (c_heap c) (c_flows c ! (is ! j)) (Bs' ! j)"
        using Cons.prems(3) [of "Suc j"] j Bs by simp_all
      have sub: "set (Bs' ! j) \<subseteq> set (concat Bs')" using j Cons.prems(2) Bs nth_mem [of j Bs'] by (fastforce simp: set_concat)
      then have "set (Bs' ! j) \<inter> set xs = {}" using Cons.prems(1) Bs by auto
      then have "c_flows c ! (is ! j) \<notin> Some ` set xs"
        using old(2) by (cases "Bs' ! j") auto
      with k old sub show ?thesis by (simp add: heads_kept_def links_kept_chain)
    qed
    then show ?thesis using Cons.IH [of Bs' c' d'] Cons.prems(1,2) Bs k(1) by auto
  qed
  show ?case
    using hd it rest by (cases "iter_flows visit xs d c")
      (auto simp: Bs iter_flows_append split: if_splits)
qed simp

lemma foreach_iter:
  assumes "db_rep c B" "I d (concat B) c"
  shows "pcp_db_foreach_flow visit d c =
     map_option (\<lambda>(stop, d, c). (if stop then PCP_ERR_SUCCESS else PCP_ERR_NOT_FOUND, d, c))
       (iter_flows visit (concat B) d c)"
  unfolding pcp_db_foreach_flow_def
  using assms db_rep_lengths [OF assms(1)] db_rep_bucket(1) [OF assms(1)] db_rep_distinct [OF assms(1)]
  by (intro foreach_buckets_iter) auto

end

text \<open>Callbacks that always return: so does the iteration.\<close>

locale flow_visitor_total = flow_visitor +
  assumes visit_total: "I d (p # ps) c \<Longrightarrow> \<exists>stop d' c'. visit p d c = Some (stop, d', c')"
begin

lemma iter_total: "I d ps c \<Longrightarrow> \<exists>stop d' c' qs. iter_flows visit ps d c = Some (stop, d', c') \<and> I d' qs c'"
proof (induction ps arbitrary: d c)
  case (Cons p ps)
  from visit_total [OF Cons.prems] obtain stop d1 c1 where v: "visit p d c = Some (stop, d1, c1)" by blast
  from visit_step [OF Cons.prems v] have "I d1 ps c1" by simp
  with Cons.IH [of d1 c1] v show ?case by (cases stop) auto
qed auto

lemma foreach_total:
  assumes "db_rep c B" "I d (concat B) c"
  shows "runs (pcp_db_foreach_flow visit d c) (\<lambda>(r, d', c'). \<exists>qs. I d' qs c')"
  using iter_total [OF assms(2)] foreach_iter [OF assms] by auto

end

section \<open>Deleting a flow\<close>

lemma free_unlinked_rep:
  assumes "db_rep c B" "c_heap c p = Some f" "f_key_bucket f = EMPTY"
  shows "db_rep (c\<lparr>c_heap := (c_heap c)(p := None)\<rparr>) B"
proof -
  have nin: "p \<notin> set (B ! i)" if "i < FLOW_HASH_SIZE" for i
    using db_rep_bucket(3) [OF assms(1) that] assms(2,3) by (auto simp: in_bucket_def)
  have "in_bucket (c\<lparr>c_heap := (c_heap c)(p := None)\<rparr>) i = in_bucket c i" for i
    using assms(2,3) by (auto simp: in_bucket_def fun_eq_iff)
  with nin assms(1) show ?thesis by (auto simp: db_rep_def)
qed

lemma rem_flow_any:
  assumes "db_rep c B" "c_heap c p = Some f"
  shows "\<exists>r c' f'. pcp_db_rem_flow p c = Some (r, c') \<and> same_payload c c' \<and> db_inv c' \<and>
    db_flows c' = db_flows c - {p} \<and> c_heap c' p = Some f' \<and> f_key_bucket f' = EMPTY"
proof -
  obtain r c' where c': "pcp_db_rem_flow p c = Some (r, c')" "same_payload c c'" "db_inv c'"
      "db_flows c' = db_flows c - {p}"
  proof (cases "f_key_bucket f = EMPTY")
    case True
    then have "pcp_db_rem_flow p c = Some (PCP_ERR_NOT_FOUND, c)" "p \<notin> db_flows c"
      using rem_flow_unlinked [OF assms(2)] assms(2) by (auto simp: db_flows_def)
    then show ?thesis using that [of PCP_ERR_NOT_FOUND c] assms(1) by (auto simp: same_payload_def db_inv_def)
  next
    case False
    then show ?thesis using rem_flow_refines [OF assms False] that by (auto simp: db_inv_def)
  qed
  have "p \<in> db_alloc c'" using same_payload_alloc [OF c'(2)] assms(2) by (auto simp: db_alloc_def)
  moreover have "p \<notin> db_flows c'" using c'(4) by simp
  ultimately show ?thesis using c' by (auto simp: db_alloc_def db_flows_def)
qed

text \<open>
  What deleting the flow \<open>p\<close>, whose contents are \<open>f\<close>, does apart from unlinking it: its server, if that is
  in use, forgets it as its ping flow.
\<close>

definition unping :: "fid \<Rightarrow> pcp_flow \<Rightarrow> pcp_ctx \<Rightarrow> pcp_server list" where
  "unping p f c =
     (case get_pcp_server (sint (f_pcp_server_indx f)) c of
        None \<Rightarrow> c_pcp_servers c
      | Some s \<Rightarrow> (c_pcp_servers c)[s := (let v = c_pcp_servers c ! s in
          if s_ping_flow_msg v = Some p then v\<lparr>s_ping_flow_msg := None\<rparr> else v)])"

definition flow_removed :: "fid \<Rightarrow> pcp_flow \<Rightarrow> pcp_ctx \<Rightarrow> pcp_ctx \<Rightarrow> bool" where
  "flow_removed p f c c' \<longleftrightarrow> (\<exists>c1. same_payload c c1 \<and> c_heap c' = (c_heap c1)(p := None)) \<and>
     c_pcp_servers c' = unping p f c \<and> w_tod c' = w_tod c \<and> w_sendto c' = w_sendto c \<and>
     w_alloc c' = w_alloc c \<and> w_alloc_i c' = w_alloc_i c"

lemma delete_flow_effect:
  assumes "db_inv c" "c_heap c p = Some f"
  shows "runs (pcp_delete_flow_intern p c) (\<lambda>(r, c'). r = PCP_ERR_SUCCESS \<and> db_inv c' \<and>
     db_flows c' = db_flows c - {p} \<and> flow_removed p f c c')"
proof -
  obtain B where B: "db_rep c B" using assms(1) by (auto simp: db_inv_def)
  from rem_flow_any [OF B assms(2)] obtain r c1 g where
    c1: "pcp_db_rem_flow p c = Some (r, c1)" "same_payload c c1" "db_inv c1" "db_flows c1 = db_flows c - {p}"
      and g: "c_heap c1 p = Some g" "f_key_bucket g = EMPTY" by blast
  have idx: "f_pcp_server_indx g = f_pcp_server_indx f"
    using same_payload_field [OF c1(2), of f_pcp_server_indx p] assms(2) g(1) by simp
  have pl: "c_pcp_servers c1 = c_pcp_servers c" "get_pcp_server i c1 = get_pcp_server i c"
    "w_tod c1 = w_tod c" "w_sendto c1 = w_sendto c" "w_alloc c1 = w_alloc c" "w_alloc_i c1 = w_alloc_i c" for i
    using c1(2) by (simp_all add: same_payload_def get_pcp_server_def)
  let ?upd = "\<lambda>sv. if s_ping_flow_msg sv = Some p then sv\<lparr>s_ping_flow_msg := None\<rparr> else sv"
  let ?c2 = "c1\<lparr>c_pcp_servers := unping p f c\<rparr>"
  have inv: "get_pcp_server (sint PCP_INV_SERVER) c = None" by (simp add: get_pcp_server_def)
  have c2: "(if f_pcp_server_indx g \<noteq> PCP_INV_SERVER
          then case get_pcp_server (sint (f_pcp_server_indx g)) c1 of
                 None \<Rightarrow> Some c1 | Some s \<Rightarrow> upd_server s ?upd c1
          else Some c1) = Some ?c2"
  proof (cases "get_pcp_server (sint (f_pcp_server_indx f)) c")
    case None
    then show ?thesis unfolding idx pl(2) by (simp add: unping_def flip: pl(1))
  next
    case (Some s)
    then have "f_pcp_server_indx f \<noteq> PCP_INV_SERVER" "s < length (c_pcp_servers c)"
      using inv by (auto simp: get_pcp_server_Some)
    then show ?thesis unfolding idx pl(2) Some using pl(1) Some by (simp add: unping_def upd_server_def)
  qed
  let ?d = "?c2\<lparr>c_heap := (c_heap ?c2)(p := None)\<rparr>"
  have "same_db c1 ?c2" by (simp add: same_db_def)
  then obtain B2 where "db_rep ?c2 B2" using same_db_inv [OF _ c1(3)] by (auto simp: db_inv_def)
  then have "db_inv ?d" using free_unlinked_rep [of ?c2 B2 p g] g by (auto simp: db_inv_def)
  moreover have "pcp_delete_flow_intern p c = Some (PCP_ERR_SUCCESS, ?d)"
    unfolding pcp_delete_flow_intern_def c1(1) bind.simps prod.case rd_flow_def g(1) c2 free_flow_cell_def
    using g(1) by simp
  moreover have "db_flows ?d = db_flows c - {p}" using c1(4) g by (auto simp: db_flows_def set_eq_iff)
  moreover have "flow_removed p f c ?d" using c1(2) pl by (auto simp: flow_removed_def)
  ultimately show ?thesis by simp
qed

lemma flow_removed_alloc:
  assumes "flow_removed p f c c'"
  shows "db_alloc c' = db_alloc c - {p}" "\<forall>q\<in>db_alloc c'. db_key c' q = db_key c q"
proof -
  from assms obtain c1 where c1: "same_payload c c1" "c_heap c' = (c_heap c1)(p := None)"
    by (auto simp: flow_removed_def)
  show al: "db_alloc c' = db_alloc c - {p}" using same_payload_alloc [OF c1(1)] c1(2) by (auto simp: db_alloc_def)
  show "\<forall>q\<in>db_alloc c'. db_key c' q = db_key c q"
    using same_payload_key [OF c1(1)] c1(2) al by (auto simp: db_key_def)
qed

lemma delete_flow_frees:
  assumes "db_inv c" "c_heap c p = Some f"
  shows "runs (pcp_delete_flow_intern p c) (\<lambda>(r, c'). r = PCP_ERR_SUCCESS \<and> db_inv c' \<and>
     db_flows c' = db_flows c - {p} \<and> db_alloc c' = db_alloc c - {p} \<and>
     (\<forall>q\<in>db_alloc c'. db_key c' q = db_key c q))"
  by (rule runs_mono [OF delete_flow_effect [OF assms]]) (use flow_removed_alloc in auto)

section \<open>Properties\<close>

text \<open>\<open>pcp_delete_flow_intern\<close> unlinks and frees exactly the given flow: it always succeeds on an
  allocated flow, whether or not the flow is linked into a bucket, keeps the table well formed and
  leaves all other flows and their keys in place.\<close>

theorem delete_flow_intern_correct:
  assumes "db_inv c" "p \<in> db_alloc c"
  shows "\<exists>c'. pcp_delete_flow_intern p c = Some (PCP_ERR_SUCCESS, c') \<and> db_inv c' \<and>
     db_flows c' = db_flows c - {p} \<and> db_alloc c' = db_alloc c - {p} \<and>
     (\<forall>q\<in>db_alloc c'. db_key c' q = db_key c q)"
proof -
  from assms(2) obtain f where "c_heap c p = Some f" by (auto simp: db_alloc_def)
  from delete_flow_frees [OF assms(1) this] show ?thesis by (auto simp: runs_def)
qed

theorem delete_flow_intern_witness:
  "\<exists>c'. pcp_delete_flow_intern 0 ctx_two_flows = Some (PCP_ERR_SUCCESS, c') \<and> db_alloc c' = {1}"
proof -
  have "{0, 1} - {0} = {1 :: nat}" by auto
  then show ?thesis
    using delete_flow_intern_correct [of ctx_two_flows 0] by (auto simp: two_flows_facts)
qed

text \<open>C19: when its allocations succeed, \<open>pcp_new_server\<close> returns the index of an entry that was not in
  use, with the given address, port and version 2 and the index in it; the array is initialised to
  five entries or doubled when it is full, all entries in use keep their contents and their index,
  and the server invariant is preserved.\<close>

theorem pcp_new_server_correct:
  assumes "server_inv c" "\<And>k. w_alloc c k"
  shows "\<exists>i c'. pcp_new_server ip port scope c = Some (int i, c') \<and> server_inv c' \<and>
     i < length (c_pcp_servers c') \<and>
     (i < length (c_pcp_servers c) \<longrightarrow> s_server_state (c_pcp_servers c ! i) = pss_unitialized) \<and>
     s_pcp_ip (c_pcp_servers c' ! i) = ip \<and> s_pcp_port (c_pcp_servers c' ! i) = port \<and>
     s_server_state (c_pcp_servers c' ! i) = pss_allocated \<and> s_index (c_pcp_servers c' ! i) = of_nat i \<and>
     s_pcp_version (c_pcp_servers c' ! i) = PCP_MAX_SUPPORTED_VERSION \<and>
     (\<forall>j<length (c_pcp_servers c). j \<noteq> i \<longrightarrow> c_pcp_servers c' ! j = c_pcp_servers c ! j) \<and>
     c_heap c' = c_heap c \<and> same_db c c'"
proof -
  let ?i = "new_server_index c" and ?A = "new_server_array c"
  obtain c' n where c': "pcp_new_server ip port scope c = Some (int ?i, c')"
      "c_pcp_servers c' = ?A[?i := init_server ip port scope n ?i (?A ! ?i)]" "same_db c c'" "c_heap c' = c_heap c"
    using pcp_new_server_ok [of c ip port scope] assms(2) by blast
  have "length (c_pcp_servers c) \<le> length ?A"
    by (auto simp: new_server_array_def servers_ready_def split: option.splits)
  then show ?thesis
    using c' new_server_inv [OF assms(1) c'(2)] new_server_index_bound [of c] new_server_index_free [of c]
      new_server_array_keeps [of _ c]
    by (intro exI [of _ ?i] exI [of _ c']) (auto simp: init_server_def)
qed

theorem pcp_new_server_witness:
  "\<exists>i c'. pcp_new_server (v4mapped 1) 5351 0 ctx_start = Some (int i, c') \<and> server_inv c' \<and>
     s_pcp_ip (c_pcp_servers c' ! i) = v4mapped 1"
proof -
  have "server_inv ctx_start" "\<And>k. w_alloc ctx_start k" by (simp_all add: server_inv_def ctx_start_def)
  from pcp_new_server_correct [OF this, of "v4mapped 1" 5351 0] show ?thesis by blast
qed

text \<open>When an allocation that it needs fails, \<open>pcp_new_server\<close> returns \<open>PCP_ERR_NO_MEM\<close> and leaves the
  server array and the flow table as they were.\<close>

theorem pcp_new_server_out_of_memory:
  assumes "\<not> w_alloc c (w_alloc_i c)"
    and "\<forall>s\<in>set (c_pcp_servers c). s_server_state s \<noteq> pss_unitialized"
  shows "\<exists>c'. pcp_new_server ip port scope c = Some (errno_code PCP_ERR_NO_MEM, c') \<and>
     c_pcp_servers c' = c_pcp_servers c \<and> same_db c c'"
proof -
  have "first_unused (c_pcp_servers c) = None" using assms(2) by (simp add: first_unused_None)
  then have "0 < new_server_allocs c" by (simp add: new_server_allocs_def)
  from pcp_new_server_no_mem [OF this] assms(1) show ?thesis by simp
qed

theorem pcp_new_server_out_of_memory_witness:
  "\<exists>c'. pcp_new_server (v4mapped 1) 5351 0 (ctx_start\<lparr>w_alloc := \<lambda>_. False\<rparr>) = Some (-7, c') \<and>
     c_pcp_servers c' = []"
  using pcp_new_server_out_of_memory [of "ctx_start\<lparr>w_alloc := \<lambda>_. False\<rparr>" "v4mapped 1" 5351 0]
  by (auto simp: ctx_start_def)

text \<open>\<open>get_pcp_server_by_ip\<close> finds the first server in use with the given address (and, for a link
  local address, the given scope), and nothing when there is none.\<close>

theorem get_pcp_server_by_ip_correct:
  "\<exists>r. get_pcp_server_by_ip ip scope c = Some r \<and>
     r = find (\<lambda>j. s_server_state (c_pcp_servers c ! j) \<noteq> pss_unitialized \<and> s_pcp_ip (c_pcp_servers c ! j) = ip \<and>
                s_pcp_scope_id (c_pcp_servers c ! j) = (if IN6_IS_ADDR_LINKLOCAL ip then scope else 0))
           [0..<length (c_pcp_servers c)]"
  using get_pcp_server_by_ip_find by blast

text \<open>The metadata of a flow as a map.\<close>

definition md_lookup :: "md_val_t list \<Rightarrow> u16 \<Rightarrow> u8 list option" where
  "md_lookup ms i = map_option md_val_buf (find (\<lambda>m. md_id m = i) ms)"

lemma md_index_None: "md_index i ms = None \<longleftrightarrow> i \<notin> md_id ` set ms"
  by (induction ms) auto

lemma md_index_Some: "md_index i ms = Some j \<Longrightarrow> j < length ms \<and> md_id (ms ! j) = i"
  by (induction ms arbitrary: j) (auto split: if_splits)

lemma md_lookup_set:
  "md_index i ms = Some j \<Longrightarrow> md_lookup (ms[j := \<lparr>md_id = i, md_val_buf = v\<rparr>]) = (md_lookup ms)(i \<mapsto> v)"
proof (induction ms arbitrary: j)
  case (Cons m ms)
  show ?case
  proof (cases "md_id m = i")
    case True
    with Cons.prems show ?thesis by (auto simp: md_lookup_def fun_eq_iff)
  next
    case False
    with Cons.prems obtain k where k: "md_index i ms = Some k" "j = Suc k" by auto
    from fun_cong [OF Cons.IH [OF k(1)]] False k(2) show ?thesis
      by (auto simp: md_lookup_def fun_eq_iff split: if_splits)
  qed
qed simp

lemma md_lookup_add:
  "md_index i ms = None \<Longrightarrow> md_lookup (ms @ [\<lparr>md_id = i, md_val_buf = v\<rparr>]) = (md_lookup ms)(i \<mapsto> v)"
  unfolding md_index_None
proof (induction ms)
  case (Cons m ms)
  then have "map_option md_val_buf (find (\<lambda>m. md_id m = x) (ms @ [\<lparr>md_id = i, md_val_buf = v\<rparr>])) =
      (if x = i then Some v else md_lookup ms x)" for x
    by (simp add: md_lookup_def fun_eq_iff)
  with Cons.prems show ?case by (auto simp: md_lookup_def fun_eq_iff simp del: map_option_eq_Some)
qed (simp add: md_lookup_def fun_eq_iff)

lemma md_ids_set: "j < length ms \<Longrightarrow> md_id (ms ! j) = i \<Longrightarrow> map md_id (ms[j := \<lparr>md_id = i, md_val_buf = v\<rparr>]) = map md_id ms"
  by (simp add: map_update list_update_same_conv)

text \<open>C35: the metadata of a flow behave as a map from identifiers to values of at most 24 bytes: after
  \<open>pcp_db_add_md\<close>, with memory available, the identifier has the given value, cut off after 24 bytes, all
  other identifiers have the values they had, and no identifier occurs twice if none did before.\<close>

theorem pcp_db_add_md_correct:
  assumes "c_heap c p = Some f" "w_alloc c (w_alloc_i c)"
  shows "\<exists>c' f'. pcp_db_add_md p i v c = Some c' \<and> c_heap c' = (c_heap c)(p \<mapsto> f') \<and>
     md_lookup (f_md_vals f') = (md_lookup (f_md_vals f))(i \<mapsto> take MD_VAL_MAX_LEN (case v of None \<Rightarrow> [] | Some bs \<Rightarrow> bs)) \<and>
     (distinct (map md_id (f_md_vals f)) \<longrightarrow> distinct (map md_id (f_md_vals f'))) \<and>
     f' = f\<lparr>f_md_vals := f_md_vals f'\<rparr>"
proof -
  let ?v = "take MD_VAL_MAX_LEN (case v of None \<Rightarrow> [] | Some bs \<Rightarrow> bs)"
  have v: "md_value v = ?v" by (auto simp: md_value_def split: option.splits)
  let ?m = "\<lparr>md_id = i, md_val_buf = ?v\<rparr>"
  show ?thesis
  proof (cases "md_index i (f_md_vals f)")
    case None
    let ?f = "f\<lparr>f_md_vals := f_md_vals f @ [?m]\<rparr>"
    have "pcp_db_add_md p i v c = Some (c\<lparr>w_alloc_i := Suc (w_alloc_i c), c_heap := (c_heap c)(p \<mapsto> ?f)\<rparr>)"
      using assms None by (simp add: pcp_db_add_md_def rd_flow_def alloc_next_def upd_flow_def v)
    then show ?thesis
      using md_lookup_add [OF None] None by (simp add: md_index_None) (rule exI [of _ ?f], simp)
  next
    case (Some j)
    let ?f = "f\<lparr>f_md_vals := (f_md_vals f)[j := ?m]\<rparr>"
    have "pcp_db_add_md p i v c = Some (c\<lparr>c_heap := (c_heap c)(p \<mapsto> ?f)\<rparr>)"
      using assms Some by (simp add: pcp_db_add_md_def rd_flow_def upd_flow_def v)
    then show ?thesis
      using md_lookup_set [OF Some] md_ids_set [of j "f_md_vals f" i ?v] md_index_Some [OF Some]
      by simp (rule exI [of _ ?f], simp)
  qed
qed

theorem pcp_db_add_md_witness:
  "\<exists>c' f'. pcp_db_add_md 0 7 (Some [1, 2]) ctx_two_flows = Some c' \<and> c_heap c' 0 = Some f' \<and>
     md_lookup (f_md_vals f') 7 = Some [1, 2]"
  using pcp_db_add_md_correct [of ctx_two_flows 0 "flow_zero\<lparr>f_key_bucket := EMPTY\<rparr>" 7 "Some [1, 2]"]
  by (auto simp: ctx_two_flows_def ctx_start_def)

end
