(* ===== verification/Msg_Build.thy ===== *)
theory Msg_Build
  imports Server_Table
begin

text \<open>
  Building of requests (the first half of \<open>pcp_msg.c\<close>). The buffer of a flow has \<open>PCP_MAX_LEN\<close>
  bytes; every assignment to a member of a packed struct is a \<open>bput\<close> at the member's offset,
  which is \<open>None\<close> when it would leave the buffer. Functions that the C code calls with a pointer
  into the buffer take the offset instead.
\<close>

section \<open>Access to the message buffer\<close>

definition bput :: "nat \<Rightarrow> u8 list \<Rightarrow> pcp_flow \<Rightarrow> pcp_flow option" where
  "bput off bs f = do {
     b \<leftarrow> f_pcp_msg_buffer f;
     b' \<leftarrow> poke off bs b;
     Some (f\<lparr>f_pcp_msg_buffer := Some b'\<rparr>)
   }"

definition bget :: "nat \<Rightarrow> pcp_flow \<Rightarrow> u8 option" where
  "bget off f = do { b \<leftarrow> f_pcp_msg_buffer f; bs \<leftarrow> peek off 1 b; Some (u8_of bs) }"

abbreviation put8 :: "nat \<Rightarrow> u8 \<Rightarrow> pcp_flow \<Rightarrow> pcp_flow option" where
  "put8 off v \<equiv> bput off (u8_bytes v)"
abbreviation put16 :: "nat \<Rightarrow> u16 \<Rightarrow> pcp_flow \<Rightarrow> pcp_flow option" where
  "put16 off v \<equiv> bput off (u16_bytes v)"
abbreviation put32 :: "nat \<Rightarrow> u32 \<Rightarrow> pcp_flow \<Rightarrow> pcp_flow option" where
  "put32 off v \<equiv> bput off (u32_bytes v)"
abbreviation put_in6 :: "nat \<Rightarrow> in6_addr \<Rightarrow> pcp_flow \<Rightarrow> pcp_flow option" where
  "put_in6 off v \<equiv> bput off (in6_bytes v)"
abbreviation put_nonce :: "nat \<Rightarrow> pcp_nonce \<Rightarrow> pcp_flow \<Rightarrow> pcp_flow option" where
  "put_nonce off v \<equiv> bput off (nonce_bytes v)"

text \<open>Sizes of the packed structures.\<close>

abbreviation sz_options_hdr :: nat where "sz_options_hdr \<equiv> 4"
abbreviation sz_filter_option :: nat where "sz_filter_option \<equiv> 24"
abbreviation sz_prefer_fail_option :: nat where "sz_prefer_fail_option \<equiv> 4"
abbreviation sz_3rd_party_option :: nat where "sz_3rd_party_option \<equiv> 20"
abbreviation sz_userid_option :: nat where "sz_userid_option \<equiv> 4 + MAX_USER_ID"
abbreviation sz_location_option :: nat where "sz_location_option \<equiv> 4 + MAX_GEO_STR"
abbreviation sz_deviceid_option :: nat where "sz_deviceid_option \<equiv> 4 + MAX_DEVICE_ID"
abbreviation sz_flow_priority_option :: nat where "sz_flow_priority_option \<equiv> 8"
abbreviation sz_metadata_option :: nat where "sz_metadata_option \<equiv> 8"
abbreviation sz_request :: nat where "sz_request \<equiv> 24"
abbreviation sz_response :: nat where "sz_response \<equiv> 24"
abbreviation sz_map_v1 :: nat where "sz_map_v1 \<equiv> 24"
abbreviation sz_map_v2 :: nat where "sz_map_v2 \<equiv> 36"
abbreviation sz_peer_v1 :: nat where "sz_peer_v1 \<equiv> 44"
abbreviation sz_peer_v2 :: nat where "sz_peer_v2 \<equiv> 56"
abbreviation sz_sadscp_req :: nat where "sz_sadscp_req \<equiv> 14"
abbreviation sz_sadscp_resp :: nat where "sz_sadscp_resp \<equiv> 16"
abbreviation sz_nat_pmp_announce_req :: nat where "sz_nat_pmp_announce_req \<equiv> 2"
abbreviation sz_nat_pmp_announce_resp :: nat where "sz_nat_pmp_announce_resp \<equiv> 12"
abbreviation sz_nat_pmp_map_req :: nat where "sz_nat_pmp_map_req \<equiv> 12"
abbreviation sz_nat_pmp_map_resp :: nat where "sz_nat_pmp_map_resp \<equiv> 16"
abbreviation sz_nat_pmp_inv_version_resp :: nat where "sz_nat_pmp_inv_version_resp \<equiv> 8"

section \<open>Options\<close>

definition add_filter_option :: "pcp_flow \<Rightarrow> nat \<Rightarrow> (nat \<times> pcp_flow) option" where
  "add_filter_option f cur = do {
     f \<leftarrow> put8 cur PCP_OPTION_FILTER f;
     f \<leftarrow> put8 (cur + 1) 0 f;
     f \<leftarrow> put16 (cur + 2) (htons (of_nat (sz_filter_option - sz_options_hdr))) f;
     f \<leftarrow> put8 (cur + 4) 0 f;
     f \<leftarrow> put8 (cur + 5) (f_filter_prefix f) f;
     f \<leftarrow> put16 (cur + 6) (f_filter_port f) f;
     f \<leftarrow> put_in6 (cur + 8) (f_filter_ip f) f;
     Some (cur + sz_filter_option, f)
   }"

definition add_prefer_failure_option :: "pcp_flow \<Rightarrow> nat \<Rightarrow> (nat \<times> pcp_flow) option" where
  "add_prefer_failure_option f cur = do {
     f \<leftarrow> put8 cur PCP_OPTION_PREF_FAIL f;
     f \<leftarrow> put8 (cur + 1) 0 f;
     f \<leftarrow> put16 (cur + 2) (htons (of_nat (sz_prefer_fail_option - sz_options_hdr))) f;
     Some (cur + sz_prefer_fail_option, f)
   }"

definition add_third_party_option :: "pcp_flow \<Rightarrow> nat \<Rightarrow> (nat \<times> pcp_flow) option" where
  "add_third_party_option f cur = do {
     f \<leftarrow> put8 cur PCP_OPTION_3RD_PARTY f;
     f \<leftarrow> put8 (cur + 1) 0 f;
     f \<leftarrow> put_in6 (cur + 4) (f_third_party_ip f) f;
     f \<leftarrow> put16 (cur + 2) (htons (of_nat (sz_3rd_party_option - sz_options_hdr))) f;
     Some (cur + sz_3rd_party_option, f)
   }"

definition add_userid_option :: "pcp_flow \<Rightarrow> nat \<Rightarrow> (nat \<times> pcp_flow) option" where
  "add_userid_option f cur = do {
     f \<leftarrow> put8 cur PCP_OPTION_USERID f;
     f \<leftarrow> put16 (cur + 2) (htons (of_nat (sz_userid_option - sz_options_hdr))) f;
     bs \<leftarrow> peek 0 MAX_USER_ID (f_userid f);
     f \<leftarrow> bput (cur + 4) bs f;
     Some (cur + sz_userid_option, f)
   }"

definition add_location_option :: "pcp_flow \<Rightarrow> nat \<Rightarrow> (nat \<times> pcp_flow) option" where
  "add_location_option f cur = do {
     f \<leftarrow> put8 cur PCP_OPTION_LOCATION f;
     f \<leftarrow> put16 (cur + 2) (htons (of_nat (sz_location_option - sz_options_hdr))) f;
     bs \<leftarrow> peek 0 MAX_GEO_STR (f_location f);
     f \<leftarrow> bput (cur + 4) bs f;
     Some (cur + sz_location_option, f)
   }"

definition add_deviceid_option :: "pcp_flow \<Rightarrow> nat \<Rightarrow> (nat \<times> pcp_flow) option" where
  "add_deviceid_option f cur = do {
     f \<leftarrow> put8 cur PCP_OPTION_DEVICEID f;
     f \<leftarrow> put16 (cur + 2) (htons (of_nat (sz_deviceid_option - sz_options_hdr))) f;
     bs \<leftarrow> peek 0 MAX_DEVICE_ID (f_deviceid f);
     f \<leftarrow> bput (cur + 4) bs f;
     Some (cur + sz_deviceid_option, f)
   }"

definition add_flowp_option :: "pcp_flow \<Rightarrow> nat \<Rightarrow> (nat \<times> pcp_flow) option" where
  "add_flowp_option f cur = do {
     f \<leftarrow> put8 cur PCP_OPTION_FLOW_PRIORITY f;
     f \<leftarrow> put16 (cur + 2) (htons (of_nat (sz_flow_priority_option - sz_options_hdr))) f;
     f \<leftarrow> put8 (cur + 4) (f_flowp_dscp_up f) f;
     f \<leftarrow> put8 (cur + 5) (f_flowp_dscp_down f) f;
     Some (cur + sz_flow_priority_option, f)
   }"

definition add_md_option :: "pcp_flow \<Rightarrow> nat \<Rightarrow> md_val_t \<Rightarrow> (nat \<times> pcp_flow) option" where
  "add_md_option f md_opt md =
     (let len_md = length (md_val_buf md); padding = (4 - len_md mod 4) mod 4 in
      if md_opt + (sz_metadata_option + len_md + padding) > PCP_MAX_LEN then Some (md_opt, f)
      else do {
        f \<leftarrow> put8 md_opt PCP_OPTION_METADATA f;
        f \<leftarrow> put32 (md_opt + 4) (htonl (ucast (md_id md))) f;
        f \<leftarrow> bput (md_opt + 8) (md_val_buf md) f;
        f \<leftarrow> put16 (md_opt + 2)
              (htons (of_nat (sz_metadata_option - sz_options_hdr + len_md + padding))) f;
        Some (md_opt + sz_metadata_option + len_md + padding, f)
      })"

fun add_md_options :: "pcp_flow \<Rightarrow> nat \<Rightarrow> md_val_t list \<Rightarrow> (nat \<times> pcp_flow) option" where
  "add_md_options f cur [] = Some (cur, f)"
| "add_md_options f cur (md # mds) = do {
     (cur, f) \<leftarrow> (if md_val_buf md \<noteq> [] then add_md_option f cur md else Some (cur, f));
     add_md_options f cur mds
   }"

text \<open>\<open>opt_when b add\<close> is \<open>if (b) { cur = add(flow, cur); }\<close>.\<close>

definition opt_when :: "bool \<Rightarrow> (pcp_flow \<Rightarrow> nat \<Rightarrow> (nat \<times> pcp_flow) option) \<Rightarrow>
    nat \<times> pcp_flow \<Rightarrow> (nat \<times> pcp_flow) option" where
  "opt_when b add s = (if b then add (snd s) (fst s) else Some s)"

definition build_pcp_options :: "pcp_flow \<Rightarrow> nat \<Rightarrow> (int \<times> pcp_flow) option" where
  "build_pcp_options f cur = do {
     s \<leftarrow> opt_when (f_flowp_option_present f) add_flowp_option (cur, f);
     s \<leftarrow> opt_when (f_filter_option_present f) add_filter_option s;
     s \<leftarrow> opt_when (f_pfailure_option_present f) add_prefer_failure_option s;
     s \<leftarrow> opt_when (f_third_party_option_present f) add_third_party_option s;
     d \<leftarrow> peek 0 1 (f_deviceid f);
     s \<leftarrow> opt_when (d \<noteq> [0]) add_deviceid_option s;
     u \<leftarrow> peek 0 1 (f_userid f);
     s \<leftarrow> opt_when (u \<noteq> [0]) add_userid_option s;
     l \<leftarrow> peek 0 1 (f_location f);
     s \<leftarrow> opt_when (l \<noteq> [0]) add_location_option s;
     s \<leftarrow> opt_when (length (f_md_vals f) > 0) (\<lambda>f cur. add_md_options f cur (f_md_vals f)) s;
     Some (errno_code PCP_ERR_SUCCESS, (snd s)\<lparr>f_pcp_msg_len := fst s\<rparr>)
   }"

section \<open>Opcode specific data\<close>

definition build_pcp_peer :: "u8 \<Rightarrow> pcp_flow \<Rightarrow> nat \<Rightarrow> (int \<times> pcp_flow) option" where
  "build_pcp_peer version f loc =
     (let mp = k_map_peer (f_kd f) in
      if version = 1 then do {
        f \<leftarrow> put8 loc (mp_protocol mp) f;
        f \<leftarrow> put16 (loc + 4) (mp_src_port mp) f;
        f \<leftarrow> put16 (loc + 6) (f_ext_port f) f;
        f \<leftarrow> put16 (loc + 24) (mp_dst_port mp) f;
        f \<leftarrow> put_in6 (loc + 8) (f_ext_ip f) f;
        f \<leftarrow> put_in6 (loc + 28) (mp_dst_ip mp) f;
        build_pcp_options f (loc + sz_peer_v1)
      }
      else if version = 2 then do {
        f \<leftarrow> put8 (loc + 12) (mp_protocol mp) f;
        f \<leftarrow> put16 (loc + 16) (mp_src_port mp) f;
        f \<leftarrow> put16 (loc + 18) (f_ext_port f) f;
        f \<leftarrow> put16 (loc + 36) (mp_dst_port mp) f;
        f \<leftarrow> put_in6 (loc + 20) (f_ext_ip f) f;
        f \<leftarrow> put_in6 (loc + 40) (mp_dst_ip mp) f;
        f \<leftarrow> put_nonce loc (k_nonce (f_kd f)) f;
        build_pcp_options f (loc + sz_peer_v2)
      }
      else Some (errno_code PCP_ERR_UNSUP_VERSION, f))"

definition build_pcp_map :: "u8 \<Rightarrow> pcp_flow \<Rightarrow> nat \<Rightarrow> (int \<times> pcp_flow) option" where
  "build_pcp_map version f loc =
     (let mp = k_map_peer (f_kd f) in
      if version = 1 then do {
        f \<leftarrow> put8 loc (mp_protocol mp) f;
        f \<leftarrow> put16 (loc + 4) (mp_src_port mp) f;
        f \<leftarrow> put16 (loc + 6) (f_ext_port f) f;
        f \<leftarrow> put_in6 (loc + 8) (f_ext_ip f) f;
        build_pcp_options f (loc + sz_map_v1)
      }
      else if version = 2 then do {
        f \<leftarrow> put8 (loc + 12) (mp_protocol mp) f;
        f \<leftarrow> put16 (loc + 16) (mp_src_port mp) f;
        f \<leftarrow> put16 (loc + 18) (f_ext_port f) f;
        f \<leftarrow> put_in6 (loc + 20) (f_ext_ip f) f;
        f \<leftarrow> put_nonce loc (k_nonce (f_kd f)) f;
        build_pcp_options f (loc + sz_map_v2)
      }
      else Some (errno_code PCP_ERR_UNSUP_VERSION, f))"

text \<open>
  \<open>fill_len\<close> has the type \<open>size_t\<close>, but the sum is stored in a \<open>uint8_t\<close>, and it is that stored
  value that advances \<open>next\<close>.
\<close>

definition build_pcp_sadscp :: "u8 \<Rightarrow> pcp_flow \<Rightarrow> nat \<Rightarrow> (int \<times> pcp_flow) option" where
  "build_pcp_sadscp version f loc =
     (if version = 1 then Some (errno_code PCP_ERR_UNSUP_VERSION, f)
      else if version = 2 then do {
        f \<leftarrow> put_nonce loc (k_nonce (f_kd f)) f;
        f \<leftarrow> put8 (loc + 12) (f_toler_fields f) f;
        let fill_len = (4 - (unat (f_app_name_length f) + 2) mod 4) mod 4;
        let len = f_app_name_length f + of_nat fill_len;
        f \<leftarrow> put8 (loc + 13) len f;
        name \<leftarrow> (case f_sadscp_app_name f of
                   Some s \<Rightarrow> peek 0 (unat (f_app_name_length f)) s
                 | None \<Rightarrow> Some (replicate (unat (f_app_name_length f)) 0));
        f \<leftarrow> bput (loc + sz_sadscp_req) name f;
        build_pcp_options f (loc + sz_sadscp_req + unat len)
      }
      else Some (errno_code PCP_ERR_UNSUP_VERSION, f))"

text \<open>\<open>build_natpmp_msg\<close> is declared to return \<open>pcp_errno\<close> but returns \<open>PCP_RES_*\<close> codes.\<close>

definition build_natpmp_msg :: "pcp_flow \<Rightarrow> (int \<times> pcp_flow) option" where
  "build_natpmp_msg f =
     (if k_operation (f_kd f) = PCP_OPCODE_ANNOUNCE then do {
        f \<leftarrow> put8 0 0 f;
        f \<leftarrow> put8 1 NATPMP_OPCODE_ANNOUNCE f;
        Some (uint PCP_RES_SUCCESS, f\<lparr>f_pcp_msg_len := sz_nat_pmp_announce_req\<rparr>)
      }
      else if k_operation (f_kd f) = PCP_OPCODE_MAP then
        let mp = k_map_peer (f_kd f) in
        if mp_protocol mp \<noteq> IPPROTO_TCP \<and> mp_protocol mp \<noteq> IPPROTO_UDP
        then Some (uint PCP_RES_UNSUPP_PROTOCOL, f)
        else do {
          f \<leftarrow> put8 1 (if mp_protocol mp = IPPROTO_TCP then NATPMP_OPCODE_MAP_TCP
                       else NATPMP_OPCODE_MAP_UDP) f;
          f \<leftarrow> put8 0 0 f;
          f \<leftarrow> put32 8 (htonl (f_lifetime f)) f;
          f \<leftarrow> put16 4 (mp_src_port mp) f;
          f \<leftarrow> put16 6 (f_ext_port f) f;
          Some (uint PCP_RES_SUCCESS, f\<lparr>f_pcp_msg_len := sz_nat_pmp_map_req\<rparr>)
        }
      else Some (uint PCP_RES_UNSUPP_OPCODE, f))"

section \<open>Messages\<close>

definition build_request :: "u8 \<Rightarrow> pcp_flow \<Rightarrow> (int \<times> pcp_flow) option" where
  "build_request version f =
     (if version = 0 then build_natpmp_msg f
      else do {
        f \<leftarrow> put8 0 version f;
        op0 \<leftarrow> bget 1 f;
        f \<leftarrow> put8 1 (op0 OR (k_operation (f_kd f) AND 0x7F)) f;
        f \<leftarrow> put32 4 (htonl (f_lifetime f)) f;
        f \<leftarrow> put_in6 8 (k_src_ip (f_kd f)) f;
        let f = f\<lparr>f_pcp_msg_len := sz_request\<rparr>;
        (if k_operation (f_kd f) = PCP_OPCODE_PEER then build_pcp_peer version f sz_request
         else if k_operation (f_kd f) = PCP_OPCODE_MAP then build_pcp_map version f sz_request
         else if k_operation (f_kd f) = PCP_OPCODE_SADSCP then build_pcp_sadscp version f sz_request
         else if k_operation (f_kd f) = PCP_OPCODE_ANNOUNCE then Some (0, f)
         else Some (-1, f))
      })"

text \<open>
  \<open>build_pcp_msg\<close>: \<open>False\<close> for a null result. \<open>build_request\<close> is the part of its body between the
  allocation of the buffer and the handling of \<open>ret < 0\<close>.
\<close>

definition build_pcp_msg :: "fid option \<Rightarrow> pcp_ctx \<Rightarrow> bool result" where
  "build_pcp_msg fp c =
     (case fp of None \<Rightarrow> Some (False, c)
      | Some p \<Rightarrow> do {
          f \<leftarrow> rd_flow p c;
          (case get_pcp_server (sint (f_pcp_server_indx f)) c of
             None \<Rightarrow> Some (False, c)
           | Some s \<Rightarrow> do {
               sv \<leftarrow> rd_server s c;
               let (ok, c) = (if f_pcp_msg_buffer f = None then alloc_next c else (True, c));
               if \<not> ok then Some (False, c)
               else do {
                 let f = (if f_pcp_msg_buffer f = None
                          then f\<lparr>f_pcp_msg_buffer := Some (replicate PCP_MAX_LEN 0)\<rparr> else f);
                 (ret, f) \<leftarrow> build_request (s_pcp_version sv) f;
                 let f = (if ret < 0 then f\<lparr>f_pcp_msg_buffer := None, f_pcp_msg_len := 0\<rparr> else f);
                 c \<leftarrow> upd_flow p (\<lambda>_. f) c;
                 Some (\<not> ret < 0, c)
               }
             })
        })"

end
