(* ===== verification/Msg_Wire.thy ===== *)
theory Msg_Wire
  imports Msg_Build
begin

text \<open>
  The wire format of requests, written down as RFC 6887 (and RFC 6886 for NAT-PMP) describes it,
  by concatenation of big-endian fields, and the proof that the in-place building of requests
  produces exactly these bytes and never writes outside of the message buffer.
\<close>

section \<open>Wire format\<close>

definition be16 :: "u16 \<Rightarrow> u8 list" where
  "be16 w = rev (u16_bytes w)"

definition be32 :: "u32 \<Rightarrow> u8 list" where
  "be32 w = rev (u32_bytes w)"

definition wire_option :: "u8 \<Rightarrow> u8 list \<Rightarrow> u8 list" where
  "wire_option code payload = [code, 0] @ be16 (of_nat (length payload)) @ payload"

text \<open>Ports and addresses are kept in network byte order by the library: their bytes are copied.\<close>

definition wire_flowp :: "pcp_flow \<Rightarrow> u8 list" where
  "wire_flowp f = wire_option PCP_OPTION_FLOW_PRIORITY [f_flowp_dscp_up f, f_flowp_dscp_down f, 0, 0]"

definition wire_filter :: "pcp_flow \<Rightarrow> u8 list" where
  "wire_filter f = wire_option PCP_OPTION_FILTER
     ([0, f_filter_prefix f] @ u16_bytes (f_filter_port f) @ in6_bytes (f_filter_ip f))"

definition wire_pad :: "nat \<Rightarrow> nat" where
  "wire_pad n = (4 - n mod 4) mod 4"

definition wire_md :: "md_val_t \<Rightarrow> u8 list" where
  "wire_md m = wire_option PCP_OPTION_METADATA
     (be32 (ucast (md_id m)) @ md_val_buf m @ replicate (wire_pad (length (md_val_buf m))) 0)"

text \<open>Metadata options are left out when they are empty or when they do not fit any more.\<close>

fun wire_mds :: "nat \<Rightarrow> md_val_t list \<Rightarrow> u8 list" where
  "wire_mds off [] = []"
| "wire_mds off (m # ms) =
     (if md_val_buf m = [] \<or> off + length (wire_md m) > PCP_MAX_LEN then wire_mds off ms
      else wire_md m @ wire_mds (off + length (wire_md m)) ms)"

definition wire_fixed_options :: "pcp_flow \<Rightarrow> u8 list" where
  "wire_fixed_options f =
     (if f_flowp_option_present f then wire_flowp f else []) @
     (if f_filter_option_present f then wire_filter f else []) @
     (if f_pfailure_option_present f then wire_option PCP_OPTION_PREF_FAIL [] else []) @
     (if f_third_party_option_present f
      then wire_option PCP_OPTION_3RD_PARTY (in6_bytes (f_third_party_ip f)) else []) @
     (if f_deviceid f ! 0 \<noteq> 0 then wire_option PCP_OPTION_DEVICEID (f_deviceid f) else []) @
     (if f_userid f ! 0 \<noteq> 0 then wire_option PCP_OPTION_USERID (f_userid f) else []) @
     (if f_location f ! 0 \<noteq> 0 then wire_option PCP_OPTION_LOCATION (f_location f) else [])"

definition wire_options :: "nat \<Rightarrow> pcp_flow \<Rightarrow> u8 list" where
  "wire_options off f =
     (let xs = wire_fixed_options f in xs @ wire_mds (off + length xs) (f_md_vals f))"

definition wire_header :: "u8 \<Rightarrow> pcp_flow \<Rightarrow> u8 list" where
  "wire_header version f =
     [version, k_operation (f_kd f) AND 0x7F, 0, 0] @ be32 (f_lifetime f) @ in6_bytes (k_src_ip (f_kd f))"

definition wire_map :: "pcp_flow \<Rightarrow> u8 list" where
  "wire_map f = [mp_protocol (k_map_peer (f_kd f)), 0, 0, 0] @
     u16_bytes (mp_src_port (k_map_peer (f_kd f))) @ u16_bytes (f_ext_port f) @ in6_bytes (f_ext_ip f)"

definition wire_peer :: "pcp_flow \<Rightarrow> u8 list" where
  "wire_peer f = wire_map f @ u16_bytes (mp_dst_port (k_map_peer (f_kd f))) @ [0, 0] @
     in6_bytes (mp_dst_ip (k_map_peer (f_kd f)))"

definition wire_sadscp :: "pcp_flow \<Rightarrow> u8 list" where
  "wire_sadscp f =
     (let n = unat (f_app_name_length f); pad = wire_pad (n + 2) in
      nonce_bytes (k_nonce (f_kd f)) @ [f_toler_fields f, of_nat (n + pad)] @
      (case f_sadscp_app_name f of Some s \<Rightarrow> take n s | None \<Rightarrow> replicate n 0) @ replicate pad 0)"

text \<open>Version 2 puts the nonce in front of the opcode specific data of version 1.\<close>

definition wire_opdata :: "u8 \<Rightarrow> pcp_flow \<Rightarrow> u8 list" where
  "wire_opdata version f =
     (let nonce = (if version = 2 then nonce_bytes (k_nonce (f_kd f)) else []) in
      if k_operation (f_kd f) = PCP_OPCODE_MAP then nonce @ wire_map f
      else if k_operation (f_kd f) = PCP_OPCODE_PEER then nonce @ wire_peer f
      else if k_operation (f_kd f) = PCP_OPCODE_SADSCP then wire_sadscp f
      else [])"

definition wire_request :: "u8 \<Rightarrow> pcp_flow \<Rightarrow> u8 list" where
  "wire_request version f =
     (let xs = wire_header version f @ wire_opdata version f in
      xs @ (if k_operation (f_kd f) = PCP_OPCODE_ANNOUNCE then [] else wire_options (length xs) f))"

definition wire_natpmp :: "pcp_flow \<Rightarrow> u8 list" where
  "wire_natpmp f =
     (if k_operation (f_kd f) = PCP_OPCODE_ANNOUNCE then [0, NATPMP_OPCODE_ANNOUNCE]
      else [0, if mp_protocol (k_map_peer (f_kd f)) = IPPROTO_TCP then NATPMP_OPCODE_MAP_TCP
               else NATPMP_OPCODE_MAP_UDP, 0, 0] @
        u16_bytes (mp_src_port (k_map_peer (f_kd f))) @ u16_bytes (f_ext_port f) @ be32 (f_lifetime f))"

section \<open>Writing a block into a zeroed buffer\<close>

definition overwrite :: "nat \<Rightarrow> 'a list \<Rightarrow> 'a list \<Rightarrow> 'a list" where
  "overwrite k bs xs = take k xs @ bs @ drop (k + length bs) xs"

lemma overwrite_length [simp]: "k + length bs \<le> length xs \<Longrightarrow> length (overwrite k bs xs) = length xs"
  by (simp add: overwrite_def)

lemma poke_mid:
  "length pre = cur \<Longrightarrow> k + length bs \<le> length mid \<Longrightarrow>
   poke (cur + k) bs (pre @ mid @ post) = Some (pre @ overwrite k bs mid @ post)"
  by (auto simp: poke_def overwrite_def)

definition with_buf :: "u8 list \<Rightarrow> pcp_flow \<Rightarrow> pcp_flow" where
  "with_buf bs f = f\<lparr>f_pcp_msg_buffer := Some bs\<rparr>"

lemma with_buf_fields [simp]:
  "f_pcp_msg_buffer (with_buf bs f) = Some bs" "with_buf a (with_buf b f) = with_buf a f"
  "f_kd (with_buf bs f) = f_kd f" "f_lifetime (with_buf bs f) = f_lifetime f"
  "f_ext_ip (with_buf bs f) = f_ext_ip f" "f_ext_port (with_buf bs f) = f_ext_port f"
  "f_sadscp_app_name (with_buf bs f) = f_sadscp_app_name f"
  "f_filter_prefix (with_buf bs f) = f_filter_prefix f" "f_filter_port (with_buf bs f) = f_filter_port f"
  "f_filter_ip (with_buf bs f) = f_filter_ip f" "f_third_party_ip (with_buf bs f) = f_third_party_ip f"
  "f_userid (with_buf bs f) = f_userid f" "f_location (with_buf bs f) = f_location f"
  "f_deviceid (with_buf bs f) = f_deviceid f" "f_md_vals (with_buf bs f) = f_md_vals f"
  "f_flowp_dscp_up (with_buf bs f) = f_flowp_dscp_up f"
  "f_flowp_dscp_down (with_buf bs f) = f_flowp_dscp_down f"
  "f_flowp_option_present (with_buf bs f) = f_flowp_option_present f"
  "f_filter_option_present (with_buf bs f) = f_filter_option_present f"
  "f_pfailure_option_present (with_buf bs f) = f_pfailure_option_present f"
  "f_third_party_option_present (with_buf bs f) = f_third_party_option_present f"
  "f_toler_fields (with_buf bs f) = f_toler_fields f"
  "f_app_name_length (with_buf bs f) = f_app_name_length f"
  by (simp_all add: with_buf_def f_toler_fields_def f_app_name_length_def)

lemma bput_mid:
  "length pre \<le> off \<Longrightarrow> off - length pre + length bs \<le> length mid \<Longrightarrow>
   bput off bs (with_buf (pre @ mid @ post) f) =
     Some (with_buf (pre @ overwrite (off - length pre) bs mid @ post) f)"
  using poke_mid [of pre "length pre" "off - length pre" bs mid post]
  by (simp add: bput_def) (simp add: with_buf_def)

text \<open>\<open>zfill xs\<close>: a message buffer that starts with \<open>xs\<close> and is zero behind it.\<close>

definition zfill :: "u8 list \<Rightarrow> u8 list" where
  "zfill xs = xs @ replicate (PCP_MAX_LEN - length xs) 0"

lemma zfill_split:
  "length pre + n \<le> PCP_MAX_LEN \<Longrightarrow>
   zfill pre = pre @ replicate n 0 @ replicate (PCP_MAX_LEN - (length pre + n)) 0"
  by (simp add: zfill_def flip: replicate_add)

lemma zfill_join:
  "length bs = n \<Longrightarrow> pre @ bs @ replicate (PCP_MAX_LEN - (length pre + n)) 0 = zfill (pre @ bs)"
  by (simp add: zfill_def)

lemma be16_htons: "u16_bytes (htons w) = be16 w"
  by (simp add: be16_def htons_bytes)

lemma be32_htonl: "u32_bytes (htonl w) = be32 w"
  by (simp add: be32_def htonl_bytes)

lemma be_length [simp]: "length (be16 w) = 2" "length (be32 v) = 4"
  by (simp_all add: be16_def be32_def)

text \<open>Writes to a block of \<open>n\<close> zero bytes behind \<open>pre\<close>, member by member, give the block.\<close>

lemmas block_write = bput_mid be16_htons be32_htonl u8_bytes_def

lemmas block_done = overwrite_def wire_option_def

lemma replicate_small: "replicate 2 x = [x, x]" "replicate 3 x = [x, x, x]"
  by (simp_all add: eval_nat_numeral)

lemma add_filter_option_wire:
  assumes "length pre = cur" "cur + 24 \<le> PCP_MAX_LEN"
  shows "add_filter_option (with_buf (zfill pre) f) cur =
    Some (cur + 24, with_buf (zfill (pre @ wire_filter f)) f)"
proof -
  have "length (wire_filter f) = 24" by (simp add: wire_filter_def wire_option_def)
  then show ?thesis
    using assms unfolding add_filter_option_def
    by (simp add: zfill_split [of _ 24] block_write flip: zfill_join [of _ 24])
       (simp add: block_done wire_filter_def)
qed

lemma add_flowp_option_wire:
  assumes "length pre = cur" "cur + 8 \<le> PCP_MAX_LEN"
  shows "add_flowp_option (with_buf (zfill pre) f) cur =
    Some (cur + 8, with_buf (zfill (pre @ wire_flowp f)) f)"
proof -
  have "length (wire_flowp f) = 8" by (simp add: wire_flowp_def wire_option_def)
  then show ?thesis
    using assms unfolding add_flowp_option_def
    by (simp add: zfill_split [of _ 8] block_write flip: zfill_join [of _ 8])
       (simp add: block_done wire_flowp_def replicate_small)
qed

lemma add_prefer_failure_option_wire:
  assumes "length pre = cur" "cur + 4 \<le> PCP_MAX_LEN"
  shows "add_prefer_failure_option (with_buf (zfill pre) f) cur =
    Some (cur + 4, with_buf (zfill (pre @ wire_option PCP_OPTION_PREF_FAIL [])) f)"
  using assms unfolding add_prefer_failure_option_def
  by (simp add: zfill_split [of _ 4] block_write wire_option_def flip: zfill_join [of _ 4])
     (simp add: block_done)

lemma add_third_party_option_wire:
  assumes "length pre = cur" "cur + 20 \<le> PCP_MAX_LEN"
  shows "add_third_party_option (with_buf (zfill pre) f) cur =
    Some (cur + 20, with_buf (zfill (pre @ wire_option PCP_OPTION_3RD_PARTY
      (in6_bytes (f_third_party_ip f)))) f)"
  using assms unfolding add_third_party_option_def
  by (simp add: zfill_split [of _ 20] block_write wire_option_def flip: zfill_join [of _ 20])
     (simp add: block_done)

text \<open>The three options that carry a fixed-size string differ in the string's size only.\<close>

lemma string_option_wire:
  assumes "length pre = cur" "cur + (4 + n) \<le> PCP_MAX_LEN" "length bs = n"
  shows "(do { f \<leftarrow> put8 cur code (with_buf (zfill pre) f);
               f \<leftarrow> put16 (cur + 2) (htons (of_nat n)) f;
               bput (cur + 4) bs f }) = Some (with_buf (zfill (pre @ wire_option code bs)) f)"
  using assms
  by (simp add: zfill_split [of _ "4 + n"] block_write wire_option_def flip: zfill_join [of _ "4 + n"])
     (simp add: block_done)

lemma add_deviceid_option_wire:
  assumes "length pre = cur" "cur + 36 \<le> PCP_MAX_LEN" "length (f_deviceid f) = MAX_DEVICE_ID"
  shows "add_deviceid_option (with_buf (zfill pre) f) cur =
    Some (cur + 36, with_buf (zfill (pre @ wire_option PCP_OPTION_DEVICEID (f_deviceid f))) f)"
  using string_option_wire [of pre cur MAX_DEVICE_ID "f_deviceid f" PCP_OPTION_DEVICEID f] assms
  by (auto simp: add_deviceid_option_def peek_def bput_def bind_Some_iff)

lemma add_userid_option_wire:
  assumes "length pre = cur" "cur + 516 \<le> PCP_MAX_LEN" "length (f_userid f) = MAX_USER_ID"
  shows "add_userid_option (with_buf (zfill pre) f) cur =
    Some (cur + 516, with_buf (zfill (pre @ wire_option PCP_OPTION_USERID (f_userid f))) f)"
  using string_option_wire [of pre cur MAX_USER_ID "f_userid f" PCP_OPTION_USERID f] assms
  by (auto simp: add_userid_option_def peek_def bput_def bind_Some_iff)

lemma add_location_option_wire:
  assumes "length pre = cur" "cur + 36 \<le> PCP_MAX_LEN" "length (f_location f) = MAX_GEO_STR"
  shows "add_location_option (with_buf (zfill pre) f) cur =
    Some (cur + 36, with_buf (zfill (pre @ wire_option PCP_OPTION_LOCATION (f_location f))) f)"
  using string_option_wire [of pre cur MAX_GEO_STR "f_location f" PCP_OPTION_LOCATION f] assms
  by (auto simp: add_location_option_def peek_def bput_def bind_Some_iff)

lemma wire_md_length: "length (wire_md m) = 8 + length (md_val_buf m) + wire_pad (length (md_val_buf m))"
  by (simp add: wire_md_def wire_option_def)

lemma add_md_option_wire:
  assumes "length pre = cur" "cur + length (wire_md m) \<le> PCP_MAX_LEN"
  shows "add_md_option (with_buf (zfill pre) f) cur m =
    Some (cur + length (wire_md m), with_buf (zfill (pre @ wire_md m)) f)"
proof -
  let ?n = "length (md_val_buf m)"
  define k where "k = (4 - ?n mod 4) mod 4"
  have len: "length (wire_md m) = 8 + ?n + k" by (simp add: k_def wire_md_length wire_pad_def)
  show ?thesis
    using assms unfolding len add_md_option_def Let_def k_def [symmetric]
    by (simp add: zfill_split [of _ "8 + ?n + k"] block_write)
       (simp add: block_done wire_md_def wire_pad_def k_def [symmetric] zfill_def drop_Cons' add.assoc)
qed

lemma add_md_options_wire:
  "length pre = cur \<Longrightarrow> cur \<le> PCP_MAX_LEN \<Longrightarrow>
   add_md_options (with_buf (zfill pre) f) cur ms =
     Some (cur + length (wire_mds cur ms), with_buf (zfill (pre @ wire_mds cur ms)) f)"
proof (induction ms arbitrary: pre cur)
  case (Cons m ms)
  show ?case
  proof (cases "md_val_buf m = [] \<or> cur + length (wire_md m) > PCP_MAX_LEN")
    case True
    then have "(if md_val_buf m \<noteq> [] then add_md_option (with_buf (zfill pre) f) cur m
                else Some (cur, with_buf (zfill pre) f)) = Some (cur, with_buf (zfill pre) f)"
      by (auto simp: add_md_option_def Let_def wire_md_length wire_pad_def)
    then show ?thesis
      using True Cons.IH [OF Cons.prems] by (simp only: add_md_options.simps bind.simps) auto
  next
    case False
    with Cons.prems Cons.IH [of "pre @ wire_md m" "cur + length (wire_md m)"] show ?thesis
      by (simp add: add_md_option_wire)
  qed
qed simp

lemma wire_mds_fit: "cur \<le> PCP_MAX_LEN \<Longrightarrow> cur + length (wire_mds cur ms) \<le> PCP_MAX_LEN"
proof (induction ms arbitrary: cur)
  case (Cons m ms)
  from Cons.IH [of cur] Cons.IH [of "cur + length (wire_md m)"] Cons.prems show ?case by auto
qed simp

lemma pad_mod4: "4 dvd n + wire_pad n"
proof -
  obtain q r where n: "n = 4 * q + r" and "r < 4" by (metis mult_div_mod_eq mod_less_divisor zero_less_numeral)
  from \<open>r < 4\<close> have "r = 0 \<or> r = 1 \<or> r = 2 \<or> r = 3" by auto
  then have "4 dvd r + (4 - r mod 4) mod 4" by auto
  then show ?thesis by (simp add: n wire_pad_def add.assoc)
qed

lemma wire_mds_mod4: "4 dvd length (wire_mds cur ms)"
proof -
  have "4 dvd length (wire_md m)" for m
    using dvd_add [OF _ pad_mod4 [of "length (md_val_buf m)"], of 8] by (simp add: wire_md_length add.assoc)
  then show ?thesis by (induction cur ms rule: wire_mds.induct) auto
qed

section \<open>Options and opcode data\<close>

text \<open>The sizes of the fixed buffers of a flow, and that the application name is long enough.\<close>

definition flow_wf :: "pcp_flow \<Rightarrow> bool" where
  "flow_wf f \<longleftrightarrow> length (f_userid f) = MAX_USER_ID \<and> length (f_location f) = MAX_GEO_STR \<and>
     length (f_deviceid f) = MAX_DEVICE_ID \<and>
     (\<forall>m\<in>set (f_md_vals f). length (md_val_buf m) \<le> MD_VAL_MAX_LEN) \<and>
     (\<forall>s. f_sadscp_app_name f = Some s \<longrightarrow>
        k_operation (f_kd f) = PCP_OPCODE_SADSCP \<and> unat (f_app_name_length f) \<le> length s)"

lemma wire_option_length [simp]: "length (wire_option code bs) = 4 + length bs"
  by (simp add: wire_option_def)

lemma wire_flowp_length [simp]: "length (wire_flowp f) = 8"
  by (simp add: wire_flowp_def)

lemma wire_filter_length [simp]: "length (wire_filter f) = 24"
  by (simp add: wire_filter_def)

lemma fixed_options_length:
  assumes "flow_wf f"
  shows "length (wire_fixed_options f) \<le> 644" "4 dvd length (wire_fixed_options f)"
  using assms by (auto simp: wire_fixed_options_def flow_wf_def)

lemma peek_first: "xs \<noteq> [] \<Longrightarrow> peek 0 (Suc 0) xs = Some [xs ! 0]"
  by (cases xs) (simp_all add: peek_def)

text \<open>
  \<open>wst pre f\<close> is the state of the building once the bytes \<open>pre\<close> have been laid down; each option
  appends its bytes when its condition holds.
\<close>

definition wst :: "u8 list \<Rightarrow> pcp_flow \<Rightarrow> nat \<times> pcp_flow" where
  "wst pre f = (length pre, with_buf (zfill pre) f)"

definition sel :: "bool \<Rightarrow> u8 list \<Rightarrow> u8 list" where
  "sel b w = (if b then w else [])"

lemma sel_length: "length (sel b w) \<le> length w"
  by (simp add: sel_def)

lemma opt_when_wire:
  assumes "add (with_buf (zfill pre) f) (length pre) =
             Some (length pre + length w, with_buf (zfill (pre @ w)) f)"
  shows "opt_when b add (wst pre f) = Some (wst (pre @ sel b w) f)"
  using assms by (simp add: opt_when_def wst_def sel_def)

lemma opt_plain_wire:
  "length pre + 8 \<le> PCP_MAX_LEN \<Longrightarrow>
     opt_when b add_flowp_option (wst pre f) = Some (wst (pre @ sel b (wire_flowp f)) f)"
  "length pre + 24 \<le> PCP_MAX_LEN \<Longrightarrow>
     opt_when b add_filter_option (wst pre f) = Some (wst (pre @ sel b (wire_filter f)) f)"
  "length pre + 4 \<le> PCP_MAX_LEN \<Longrightarrow>
     opt_when b add_prefer_failure_option (wst pre f) =
       Some (wst (pre @ sel b (wire_option PCP_OPTION_PREF_FAIL [])) f)"
  "length pre + 20 \<le> PCP_MAX_LEN \<Longrightarrow>
     opt_when b add_third_party_option (wst pre f) =
       Some (wst (pre @ sel b (wire_option PCP_OPTION_3RD_PARTY (in6_bytes (f_third_party_ip f)))) f)"
  by (rule opt_when_wire; simp add: add_flowp_option_wire add_filter_option_wire
      add_prefer_failure_option_wire add_third_party_option_wire)+

lemma opt_string_wire:
  assumes "flow_wf f"
  shows "length pre + 36 \<le> PCP_MAX_LEN \<Longrightarrow> opt_when b add_deviceid_option (wst pre f) =
       Some (wst (pre @ sel b (wire_option PCP_OPTION_DEVICEID (f_deviceid f))) f)"
    and "length pre + 516 \<le> PCP_MAX_LEN \<Longrightarrow> opt_when b add_userid_option (wst pre f) =
       Some (wst (pre @ sel b (wire_option PCP_OPTION_USERID (f_userid f))) f)"
    and "length pre + 36 \<le> PCP_MAX_LEN \<Longrightarrow> opt_when b add_location_option (wst pre f) =
       Some (wst (pre @ sel b (wire_option PCP_OPTION_LOCATION (f_location f))) f)"
  using assms
  by (intro opt_when_wire; simp add: flow_wf_def add_deviceid_option_wire add_userid_option_wire
      add_location_option_wire)+

lemma opt_md_wire:
  "length pre \<le> PCP_MAX_LEN \<Longrightarrow>
   opt_when (f_md_vals f \<noteq> []) (\<lambda>f cur. add_md_options f cur (f_md_vals f)) (wst pre f) =
     Some (wst (pre @ wire_mds (length pre) (f_md_vals f)) f)"
  by (simp add: opt_when_def wst_def add_md_options_wire)

lemma build_pcp_options_wire:
  assumes wf: "flow_wf f" and fit: "length pre + 644 \<le> PCP_MAX_LEN"
  shows "build_pcp_options (with_buf (zfill pre) f) (length pre) =
    Some (0, (with_buf (zfill (pre @ wire_options (length pre) f)) f)
               \<lparr>f_pcp_msg_len := length pre + length (wire_options (length pre) f)\<rparr>)"
proof -
  note len = wf [unfolded flow_wf_def]
  have ne: "f_deviceid f \<noteq> []" "f_userid f \<noteq> []" "f_location f \<noteq> []" using len by auto
  note bounds = sel_length [of "f_flowp_option_present f" "wire_flowp f"]
    sel_length [of "f_filter_option_present f" "wire_filter f"]
    sel_length [of "f_pfailure_option_present f" "wire_option PCP_OPTION_PREF_FAIL []"]
    sel_length [of "f_third_party_option_present f"
      "wire_option PCP_OPTION_3RD_PARTY (in6_bytes (f_third_party_ip f))"]
    sel_length [of "f_deviceid f ! 0 \<noteq> 0" "wire_option PCP_OPTION_DEVICEID (f_deviceid f)"]
    sel_length [of "f_userid f ! 0 \<noteq> 0" "wire_option PCP_OPTION_USERID (f_userid f)"]
    sel_length [of "f_location f ! 0 \<noteq> 0" "wire_option PCP_OPTION_LOCATION (f_location f)"]
  have fixed: "wire_fixed_options f =
      sel (f_flowp_option_present f) (wire_flowp f) @ sel (f_filter_option_present f) (wire_filter f) @
      sel (f_pfailure_option_present f) (wire_option PCP_OPTION_PREF_FAIL []) @
      sel (f_third_party_option_present f) (wire_option PCP_OPTION_3RD_PARTY (in6_bytes (f_third_party_ip f))) @
      sel (f_deviceid f ! 0 \<noteq> 0) (wire_option PCP_OPTION_DEVICEID (f_deviceid f)) @
      sel (f_userid f ! 0 \<noteq> 0) (wire_option PCP_OPTION_USERID (f_userid f)) @
      sel (f_location f ! 0 \<noteq> 0) (wire_option PCP_OPTION_LOCATION (f_location f))"
    by (simp add: wire_fixed_options_def sel_def)
  show ?thesis
    unfolding build_pcp_options_def wst_def [symmetric] wire_options_def fixed Let_def
    using fit len bounds
    by (simp add: opt_plain_wire opt_string_wire [OF wf] opt_md_wire peek_first ne add.assoc)
       (simp add: wst_def)
qed

lemma wire_map_length [simp]: "length (wire_map f) = 24"
  by (simp add: wire_map_def)

lemma wire_peer_length [simp]: "length (wire_peer f) = 44"
  by (simp add: wire_peer_def)

lemma build_pcp_map_wire:
  assumes "version = 1 \<or> version = 2" "length pre + 36 \<le> PCP_MAX_LEN"
    and w: "w = (if version = 2 then nonce_bytes (k_nonce (f_kd f)) else []) @ wire_map f"
  shows "build_pcp_map version (with_buf (zfill pre) f) (length pre) =
    build_pcp_options (with_buf (zfill (pre @ w)) f) (length (pre @ w))"
  using assms(1)
proof
  assume v: "version = 1"
  with assms(2) show ?thesis
    unfolding w build_pcp_map_def Let_def
    by (simp add: zfill_split [of _ 24] block_write flip: zfill_join [of _ 24])
       (simp add: overwrite_def wire_map_def replicate_small)
next
  assume v: "version = 2"
  with assms(2) show ?thesis
    unfolding w build_pcp_map_def Let_def
    by (simp add: zfill_split [of _ 36] block_write flip: zfill_join [of _ 36])
       (simp add: overwrite_def wire_map_def replicate_small)
qed

lemma build_pcp_peer_wire:
  assumes "version = 1 \<or> version = 2" "length pre + 56 \<le> PCP_MAX_LEN"
    and w: "w = (if version = 2 then nonce_bytes (k_nonce (f_kd f)) else []) @ wire_peer f"
  shows "build_pcp_peer version (with_buf (zfill pre) f) (length pre) =
    build_pcp_options (with_buf (zfill (pre @ w)) f) (length (pre @ w))"
  using assms(1)
proof
  assume v: "version = 1"
  with assms(2) show ?thesis
    unfolding w build_pcp_peer_def Let_def
    by (simp add: zfill_split [of _ 44] block_write flip: zfill_join [of _ 44])
       (simp add: overwrite_def wire_peer_def wire_map_def replicate_small)
next
  assume v: "version = 2"
  with assms(2) show ?thesis
    unfolding w build_pcp_peer_def Let_def
    by (simp add: zfill_split [of _ 56] block_write flip: zfill_join [of _ 56])
       (simp add: overwrite_def wire_peer_def wire_map_def replicate_small)
qed

text \<open>
  The padded name length fits the 8-bit member unless the name has 255 bytes.
\<close>

lemma sadscp_len:
  assumes "f_app_name_length f \<noteq> 255"
  shows "unat (f_app_name_length f) + wire_pad (unat (f_app_name_length f) + 2) \<le> 254"
    and "unat (f_app_name_length f + of_nat (wire_pad (unat (f_app_name_length f) + 2))) =
           unat (f_app_name_length f) + wire_pad (unat (f_app_name_length f) + 2)"
proof -
  let ?n = "unat (f_app_name_length f)"
  have "?n < 256" using unsigned_less [where ?'a = nat, of "f_app_name_length f"] by simp
  moreover have "?n \<noteq> 255" using assms by (simp add: word_unat_eq_iff)
  moreover have "wire_pad (?n + 2) \<le> 3" by (simp add: wire_pad_def) 
  moreover obtain q where "?n + 2 + wire_pad (?n + 2) = 4 * q" using pad_mod4 [of "?n + 2"] by (auto elim: dvdE)
  ultimately show bd: "?n + wire_pad (?n + 2) \<le> 254" by presburger
  then show "unat (f_app_name_length f + of_nat (wire_pad (?n + 2))) = ?n + wire_pad (?n + 2)"
    by (simp add: unat_word_ariths unat_of_nat)
qed

lemma build_pcp_sadscp_wire:
  assumes "f_app_name_length f \<noteq> 255" "flow_wf f" "length pre + 268 \<le> PCP_MAX_LEN"
  shows "build_pcp_sadscp 2 (with_buf (zfill pre) f) (length pre) =
    build_pcp_options (with_buf (zfill (pre @ wire_sadscp f)) f) (length (pre @ wire_sadscp f))"
proof -
  let ?n = "unat (f_app_name_length f)"
  define k where "k = wire_pad (?n + 2)"
  note len = sadscp_len [OF assms(1), folded k_def]
  define name where "name = (case f_sadscp_app_name f of Some s \<Rightarrow> take ?n s | None \<Rightarrow> replicate ?n 0)"
  have name: "length name = ?n" "f_sadscp_app_name f = Some s \<Longrightarrow> peek 0 ?n s = Some name"
      "f_sadscp_app_name f = None \<Longrightarrow> name = replicate ?n 0" for s
    using assms(2) by (auto simp: name_def flow_wf_def peek_def split: option.splits)
  have w: "wire_sadscp f = nonce_bytes (k_nonce (f_kd f)) @ [f_toler_fields f, of_nat (?n + k)] @ name @ replicate k 0"
    by (simp add: wire_sadscp_def Let_def k_def name_def)
  have k: "(4 - Suc (Suc ?n) mod 4) mod 4 = k" by (simp add: k_def wire_pad_def)
  show ?thesis
    using assms(3) len name unfolding build_pcp_sadscp_def Let_def
    by (cases "f_sadscp_app_name f"; simp add: zfill_split [of _ "14 + ?n + k"] block_write k)
       (simp_all add: overwrite_def w zfill_def add.assoc drop_Cons')
qed

section \<open>Requests\<close>

lemma bput_head:
  "off + length bs \<le> length mid \<Longrightarrow>
   bput off bs (with_buf (mid @ post) f) = Some (with_buf (overwrite off bs mid @ post) f)"
  using bput_mid [of "[]" off bs mid post f] by simp

lemma bget_head: "off < length mid \<Longrightarrow> bget off (with_buf (mid @ post) f) = Some (mid ! off)"
  by (simp add: bget_def peek_def u8_of_def)

lemma wire_header_length [simp]: "length (wire_header version f) = 24"
  by (simp add: wire_header_def)

text \<open>The common header, followed by what the opcode asks for.\<close>

definition build_opdata :: "u8 \<Rightarrow> pcp_flow \<Rightarrow> (int \<times> pcp_flow) option" where
  "build_opdata version f =
     (if k_operation (f_kd f) = PCP_OPCODE_PEER then build_pcp_peer version f sz_request
      else if k_operation (f_kd f) = PCP_OPCODE_MAP then build_pcp_map version f sz_request
      else if k_operation (f_kd f) = PCP_OPCODE_SADSCP then build_pcp_sadscp version f sz_request
      else if k_operation (f_kd f) = PCP_OPCODE_ANNOUNCE then Some (0, f)
      else Some (-1, f))"

lemma with_buf_len: "(with_buf bs f)\<lparr>f_pcp_msg_len := n\<rparr> = with_buf bs (f\<lparr>f_pcp_msg_len := n\<rparr>)"
  by (simp add: with_buf_def)

lemma build_request_header:
  assumes "version \<noteq> 0"
  shows "build_request version (with_buf (replicate PCP_MAX_LEN 0) f) =
    build_opdata version (with_buf (zfill (wire_header version f)) (f\<lparr>f_pcp_msg_len := sz_request\<rparr>))"
proof -
  have z: "replicate PCP_MAX_LEN 0 = replicate 24 (0 :: u8) @ replicate 1076 0"
    by (simp flip: replicate_add)
  have h: "zfill (wire_header version f) = wire_header version f @ replicate 1076 0"
    by (simp add: zfill_def)
  show ?thesis
    using assms unfolding build_request_def z h build_opdata_def [symmetric]
    by (simp add: bput_head bget_head be32_htonl u8_bytes_def with_buf_len)
       (simp add: overwrite_def wire_header_def replicate_small nth_append nth_Cons')
qed

lemma wire_len_update [simp]:
  "wire_options k (f\<lparr>f_pcp_msg_len := n\<rparr>) = wire_options k f"
  "wire_map (f\<lparr>f_pcp_msg_len := n\<rparr>) = wire_map f" "wire_peer (f\<lparr>f_pcp_msg_len := n\<rparr>) = wire_peer f"
  "wire_sadscp (f\<lparr>f_pcp_msg_len := n\<rparr>) = wire_sadscp f" "flow_wf (f\<lparr>f_pcp_msg_len := n\<rparr>) = flow_wf f"
  "f_app_name_length (f\<lparr>f_pcp_msg_len := n\<rparr>) = f_app_name_length f"
  by (simp_all add: wire_options_def wire_fixed_options_def wire_flowp_def wire_filter_def wire_peer_def
      wire_map_def wire_sadscp_def f_toler_fields_def f_app_name_length_def flow_wf_def)

lemma wire_sadscp_length:
  "flow_wf f \<Longrightarrow> length (wire_sadscp f) = 14 + unat (f_app_name_length f) + wire_pad (unat (f_app_name_length f) + 2)"
  by (auto simp: wire_sadscp_def flow_wf_def Let_def split: option.splits)

definition op_buildable :: "u8 \<Rightarrow> pcp_flow \<Rightarrow> bool" where
  "op_buildable version f \<longleftrightarrow>
     k_operation (f_kd f) \<in> {PCP_OPCODE_ANNOUNCE, PCP_OPCODE_MAP, PCP_OPCODE_PEER} \<or>
     k_operation (f_kd f) = PCP_OPCODE_SADSCP \<and> version = 2 \<and> f_app_name_length f \<noteq> 255"

lemma wire_opdata_length:
  assumes "version = 1 \<or> version = 2" "flow_wf f" "op_buildable version f"
  shows "length (wire_opdata version f) \<le> 268" "4 dvd length (wire_opdata version f)"
proof -
  have "4 dvd 14 + n + wire_pad (n + 2)" for n :: nat
    using dvd_add [OF _ pad_mod4 [of "n + 2"], of 12] by (simp add: add.assoc)
  then show "length (wire_opdata version f) \<le> 268" "4 dvd length (wire_opdata version f)"
    using assms sadscp_len(1) [of f]
    by (auto simp: wire_opdata_def op_buildable_def wire_sadscp_length Let_def)
qed

lemma build_request_wire:
  assumes v: "version = 1 \<or> version = 2" and wf: "flow_wf f" and op: "op_buildable version f"
  shows "build_request version (with_buf (replicate PCP_MAX_LEN 0) f) =
    Some (0, (with_buf (zfill (wire_request version f)) f)\<lparr>f_pcp_msg_len := length (wire_request version f)\<rparr>)"
proof -
  let ?f = "f\<lparr>f_pcp_msg_len := sz_request\<rparr>" and ?h = "wire_header version f"
  let ?w = "wire_opdata version f"
  have fit: "length (?h @ ?w) + 644 \<le> PCP_MAX_LEN" using wire_opdata_length [OF assms] by simp
  have "build_opdata version (with_buf (zfill ?h) ?f) =
      (if k_operation (f_kd f) = PCP_OPCODE_ANNOUNCE then Some (0, with_buf (zfill (?h @ ?w)) ?f)
       else build_pcp_options (with_buf (zfill (?h @ ?w)) ?f) (length (?h @ ?w)))"
    using v op wf build_pcp_map_wire [OF v, of ?h _ ?f] build_pcp_peer_wire [OF v, of ?h _ ?f]
      build_pcp_sadscp_wire [of ?f ?h]
    by (auto simp: build_opdata_def op_buildable_def wire_opdata_def Let_def)
  moreover have "wire_request version f =
      (?h @ ?w) @ (if k_operation (f_kd f) = PCP_OPCODE_ANNOUNCE then [] else wire_options (length (?h @ ?w)) f)"
    by (simp add: wire_request_def Let_def)
  moreover have "?w = []" if "k_operation (f_kd f) = PCP_OPCODE_ANNOUNCE"
    using that by (simp add: wire_opdata_def Let_def)
  moreover have "version \<noteq> 0" using v by auto
  ultimately show ?thesis
    using build_pcp_options_wire [OF _ fit, of ?f] wf
    by (simp add: build_request_header with_buf_len add.assoc)
qed

lemma wire_request_length:
  assumes "version = 1 \<or> version = 2" "flow_wf f" "op_buildable version f"
  shows "length (wire_request version f) \<le> PCP_MAX_LEN" "4 dvd length (wire_request version f)"
proof -
  let ?n = "24 + length (wire_opdata version f)"
  note od = wire_opdata_length [OF assms] and fx = fixed_options_length [OF assms(2)]
  have "?n + length (wire_options ?n f) \<le> PCP_MAX_LEN"
    using wire_mds_fit [of "?n + length (wire_fixed_options f)" "f_md_vals f"] od(1) fx(1)
    by (simp add: wire_options_def Let_def)
  moreover have "4 dvd length (wire_options ?n f)"
    using fx(2) wire_mds_mod4 by (simp add: wire_options_def Let_def)
  ultimately show "length (wire_request version f) \<le> PCP_MAX_LEN" "4 dvd length (wire_request version f)"
    using od by (auto simp: wire_request_def Let_def)
qed

section \<open>Building never leaves the buffer\<close>

text \<open>
  \<open>buffered f g\<close>: \<open>g\<close> is \<open>f\<close> with some other contents of its message buffer, and perhaps another
  message length. Whatever the buffer holds, as when it is used again for a retransmission, no
  write of \<open>build_pcp_msg\<close> is out of bounds.
\<close>

definition buffered :: "pcp_flow \<Rightarrow> pcp_flow \<Rightarrow> bool" where
  "buffered f g \<longleftrightarrow> (\<exists>b n. length b = PCP_MAX_LEN \<and> g = (with_buf b f)\<lparr>f_pcp_msg_len := n\<rparr>)"

lemma buffered_with_buf: "length b = PCP_MAX_LEN \<Longrightarrow> buffered f (with_buf b f)"
  unfolding buffered_def by (rule exI [of _ b], rule exI [of _ "f_pcp_msg_len f"]) (cases f, simp add: with_buf_def)

lemma buffered_self: "f_pcp_msg_buffer f = Some b \<Longrightarrow> length b = PCP_MAX_LEN \<Longrightarrow> buffered f f"
  using buffered_with_buf [of b f] by (cases f) (simp add: with_buf_def)

lemma bput_runs [runs_intros]:
  assumes "buffered f g" "off + length bs \<le> PCP_MAX_LEN"
  shows "runs (bput off bs g) (buffered f)"
proof -
  from assms(1) obtain b n where g: "length b = PCP_MAX_LEN" "g = (with_buf b f)\<lparr>f_pcp_msg_len := n\<rparr>"
    by (auto simp: buffered_def)
  from poke_in_bounds [of off bs b] assms(2) g obtain b' where "poke off bs b = Some b'" "length b' = PCP_MAX_LEN"
    by auto
  with g show ?thesis
    by (auto simp: runs_def bput_def buffered_def with_buf_def intro!: exI [of _ b'] exI [of _ n])
qed

lemma buffered_fields:
  assumes "buffered f g"
  shows "f_kd g = f_kd f" "f_lifetime g = f_lifetime f" "f_ext_ip g = f_ext_ip f"
    "f_app_name_length g = f_app_name_length f" "f_sadscp_app_name g = f_sadscp_app_name f"
    "f_userid g = f_userid f" "f_location g = f_location f" "f_deviceid g = f_deviceid f"
    "f_md_vals g = f_md_vals f" "buffered f (g\<lparr>f_pcp_msg_len := n\<rparr>)" "flow_wf g = flow_wf f"
  using assms by (auto simp: buffered_def with_buf_def f_app_name_length_def flow_wf_def) blast

lemma buffered_lengths:
  assumes "buffered f g" "flow_wf f"
  shows "length (f_userid g) = MAX_USER_ID" "length (f_location g) = MAX_GEO_STR"
    "length (f_deviceid g) = MAX_DEVICE_ID"
  using buffered_fields [OF assms(1)] assms(2) by (simp_all add: flow_wf_def)

lemma bput_then:
  "buffered f g \<Longrightarrow> off + length bs \<le> PCP_MAX_LEN \<Longrightarrow> (\<And>g'. buffered f g' \<Longrightarrow> runs (k g') Q) \<Longrightarrow>
     runs (Option.bind (bput off bs g) k) Q"
  by (rule runs_bind [OF bput_runs])

abbreviation advances :: "pcp_flow \<Rightarrow> nat \<Rightarrow> nat \<times> pcp_flow \<Rightarrow> bool" where
  "advances f n s \<equiv> fst s = n \<and> buffered f (snd s)"

lemma add_option_runs:
  assumes "buffered f g" "flow_wf f"
  shows "cur + 24 \<le> PCP_MAX_LEN \<Longrightarrow> runs (add_filter_option g cur) (advances f (cur + 24))"
    and "cur + 8 \<le> PCP_MAX_LEN \<Longrightarrow> runs (add_flowp_option g cur) (advances f (cur + 8))"
    and "cur + 4 \<le> PCP_MAX_LEN \<Longrightarrow> runs (add_prefer_failure_option g cur) (advances f (cur + 4))"
    and "cur + 20 \<le> PCP_MAX_LEN \<Longrightarrow> runs (add_third_party_option g cur) (advances f (cur + 20))"
  using assms(1)
  by (simp_all only: add_filter_option_def add_flowp_option_def add_prefer_failure_option_def
      add_third_party_option_def)
    (intro bput_then [of f]; simp)+

lemma add_string_runs:
  assumes "buffered f g" "flow_wf f"
  shows "cur + 36 \<le> PCP_MAX_LEN \<Longrightarrow> runs (add_deviceid_option g cur) (advances f (cur + 36))"
    and "cur + 516 \<le> PCP_MAX_LEN \<Longrightarrow> runs (add_userid_option g cur) (advances f (cur + 516))"
    and "cur + 36 \<le> PCP_MAX_LEN \<Longrightarrow> runs (add_location_option g cur) (advances f (cur + 36))"
proof -
  have p: "peek 0 n xs = Some xs" if "length xs = n" for n and xs :: "u8 list"
    using that by (simp add: peek_def)
  show "runs (add_deviceid_option g cur) (advances f (cur + 36))" if "cur + 36 \<le> PCP_MAX_LEN"
    unfolding add_deviceid_option_def using that assms(1)
    by (intro bput_then [of f]; (simp add: p buffered_lengths [OF _ assms(2)])?) (rule runs_mono [OF bput_runs]; simp add: buffered_lengths [OF _ assms(2)])
  show "runs (add_userid_option g cur) (advances f (cur + 516))" if "cur + 516 \<le> PCP_MAX_LEN"
    unfolding add_userid_option_def using that assms(1)
    by (intro bput_then [of f]; (simp add: p buffered_lengths [OF _ assms(2)])?) (rule runs_mono [OF bput_runs]; simp add: buffered_lengths [OF _ assms(2)])
  show "runs (add_location_option g cur) (advances f (cur + 36))" if "cur + 36 \<le> PCP_MAX_LEN"
    unfolding add_location_option_def using that assms(1)
    by (intro bput_then [of f]; (simp add: p buffered_lengths [OF _ assms(2)])?) (rule runs_mono [OF bput_runs]; simp add: buffered_lengths [OF _ assms(2)])
qed

lemma add_md_option_runs:
  "buffered f g \<Longrightarrow> cur \<le> PCP_MAX_LEN \<Longrightarrow>
     runs (add_md_option g cur m) (\<lambda>s. fst s \<le> PCP_MAX_LEN \<and> buffered f (snd s))"
  unfolding add_md_option_def Let_def
  by (split if_split, intro conjI impI, simp) (intro bput_then [of f]; simp)

lemma add_md_options_runs:
  "buffered f g \<Longrightarrow> cur \<le> PCP_MAX_LEN \<Longrightarrow>
     runs (add_md_options g cur ms) (\<lambda>s. fst s \<le> PCP_MAX_LEN \<and> buffered f (snd s))"
proof (induction ms arbitrary: g cur)
  case (Cons m ms)
  then show ?case
    by (auto simp: case_prod_unfold intro: runs_mono [OF add_md_option_runs])
qed simp

lemma opt_when_then:
  assumes add: "\<And>g cur. buffered f g \<Longrightarrow> cur + k \<le> PCP_MAX_LEN \<Longrightarrow> runs (add g cur) (advances f (cur + k))"
    and s: "buffered f (snd s)" "fst s + k \<le> PCP_MAX_LEN"
    and K: "\<And>s'. fst s' \<le> fst s + k \<Longrightarrow> buffered f (snd s') \<Longrightarrow> runs (K s') Q"
  shows "runs (Option.bind (opt_when b add s) K) Q"
proof (cases b)
  case True
  have "runs (add (snd s) (fst s)) (\<lambda>s'. runs (K s') Q)"
    using add [OF s] by (rule runs_mono) (use K in simp)
  then show ?thesis using True by (simp add: opt_when_def)
next
  case False
  then show ?thesis using K [of s] s(1) by (simp add: opt_when_def)
qed

lemma build_pcp_options_runs:
  assumes "buffered f g" "flow_wf f" "cur + 644 \<le> PCP_MAX_LEN"
  shows "runs (build_pcp_options g cur) (\<lambda>r. fst r = 0 \<and> buffered f (snd r) \<and> f_pcp_msg_len (snd r) \<le> PCP_MAX_LEN)"
proof -
  note lens = buffered_lengths [OF assms(1,2)]
  have pk: "\<exists>x. peek 0 (Suc 0) xs = Some [x]" if "length xs \<noteq> 0" for xs :: "u8 list"
    using that by (cases xs) (simp_all add: peek_def)
  obtain d u l where pks: "peek 0 1 (f_deviceid g) = Some d" "peek 0 1 (f_userid g) = Some u"
      "peek 0 1 (f_location g) = Some l"
    using pk [of "f_deviceid g"] pk [of "f_userid g"] pk [of "f_location g"] lens by auto
  note opts = opt_when_then [OF add_option_runs(1) [OF _ assms(2)]] opt_when_then [OF add_option_runs(2) [OF _ assms(2)]]
    opt_when_then [OF add_option_runs(3) [OF _ assms(2)]] opt_when_then [OF add_option_runs(4) [OF _ assms(2)]]
    opt_when_then [OF add_string_runs(1) [OF _ assms(2)]] opt_when_then [OF add_string_runs(2) [OF _ assms(2)]]
    opt_when_then [OF add_string_runs(3) [OF _ assms(2)]]
  have md: "runs (opt_when b (\<lambda>f cur. add_md_options f cur (f_md_vals f)) s)
      (\<lambda>s. fst s \<le> PCP_MAX_LEN \<and> buffered f (snd s))"
    if "buffered f (snd s)" "fst s \<le> PCP_MAX_LEN" for s b
    using that by (simp add: opt_when_def add_md_options_runs)
  show ?thesis
    unfolding build_pcp_options_def pks bind.simps
    by (intro opts runs_bind [OF md]) (use assms in \<open>simp_all add: buffered_fields(10)\<close>)
qed

abbreviation built :: "pcp_flow \<Rightarrow> int \<times> pcp_flow \<Rightarrow> bool" where
  "built f r \<equiv> buffered f (snd r) \<and> f_pcp_msg_len (snd r) \<le> PCP_MAX_LEN"

lemma build_options_built:
  "buffered f g \<Longrightarrow> flow_wf f \<Longrightarrow> cur + 644 \<le> PCP_MAX_LEN \<Longrightarrow> runs (build_pcp_options g cur) (built f)"
  using runs_mono [OF build_pcp_options_runs, of f g cur] by simp

lemma build_opcode_built:
  assumes "buffered f g" "flow_wf f" "f_pcp_msg_len g \<le> PCP_MAX_LEN"
  shows "runs (build_pcp_peer v g 24) (built f)" "runs (build_pcp_map v g 24) (built f)"
  unfolding build_pcp_peer_def build_pcp_map_def Let_def
  using assms by (auto intro!: bput_then [of f] build_options_built simp del: runs_simps(3))

lemma build_sadscp_built:
  assumes "buffered f g" "flow_wf f" "f_pcp_msg_len g \<le> PCP_MAX_LEN"
  shows "runs (build_pcp_sadscp v g 24) (built f)"
proof -
  have n: "unat x \<le> 255" for x :: u8
    using unsigned_less [where ?'a = nat, of x] by simp
  have name: "runs (case f_sadscp_app_name h of
        Some s \<Rightarrow> peek 0 (unat (f_app_name_length h)) s
      | None \<Rightarrow> Some (replicate (unat (f_app_name_length h)) 0)) (\<lambda>name. length name \<le> 255)"
    if "buffered f h" for h
    using buffered_fields(4,5) [OF that] assms(2) n
    by (cases "f_sadscp_app_name f") (auto simp: flow_wf_def peek_def)
  have opts: "runs (build_pcp_options h (38 + unat x)) (built f)" if "buffered f h" for h and x :: u8
    using build_options_built [OF that assms(2), of "38 + unat x"] n [of x] by simp
  show ?thesis
  proof (cases "v = 2")
    case True
    show ?thesis
      unfolding build_pcp_sadscp_def Let_def True using assms(1)
      by (simp del: runs_simps(3) add.assoc One_nat_def numeral_plus_numeral)
         (intro bput_then [of f] runs_bind [OF name] opts; simp)
  qed (use assms in \<open>simp add: build_pcp_sadscp_def\<close>)
qed

lemma bget_buffered: "buffered f g \<Longrightarrow> off < PCP_MAX_LEN \<Longrightarrow> \<exists>x. bget off g = Some x"
  by (auto simp: buffered_def with_buf_def bget_def peek_def)

lemma build_request_built:
  assumes "buffered f g" "flow_wf f" "f_pcp_msg_len g \<le> PCP_MAX_LEN"
  shows "runs (build_request v g) (built f)"
proof (cases "v = 0")
  case True
  then show ?thesis
    unfolding build_request_def build_natpmp_msg_def Let_def
    using assms by (auto intro!: bput_then [of f] simp: buffered_fields(10) simp del: runs_simps(3))
next
  case False
  have bget: "runs (bget 1 h) (\<lambda>_. True)" if "buffered f h" for h
    using bget_buffered [OF that, of 1] by auto
  have op: "runs (build_opdata v h) (built f)" if "buffered f h" "f_pcp_msg_len h \<le> PCP_MAX_LEN" for h
    using that assms(2) by (simp add: build_opdata_def build_opcode_built build_sadscp_built)
  show ?thesis
    unfolding build_request_def build_opdata_def [symmetric] Let_def if_not_P [OF False]
    using assms(1) by (intro bput_then [of f] runs_bind [OF bget] op; simp add: buffered_fields(10))
qed

text \<open>The part of a flow's invariant that concerns its message.\<close>

definition msg_ok :: "pcp_flow \<Rightarrow> bool" where
  "msg_ok f \<longleftrightarrow> flow_wf f \<and> f_pcp_msg_len f \<le> PCP_MAX_LEN \<and>
     (case f_pcp_msg_buffer f of None \<Rightarrow> f_pcp_msg_len f = 0 | Some b \<Rightarrow> length b = PCP_MAX_LEN)"

definition same_but_msg :: "pcp_flow \<Rightarrow> pcp_flow \<Rightarrow> bool" where
  "same_but_msg f g \<longleftrightarrow>
     g = f\<lparr>f_pcp_msg_buffer := f_pcp_msg_buffer g, f_pcp_msg_len := f_pcp_msg_len g\<rparr>"

lemma same_but_msg_refl [simp]: "same_but_msg f f"
  by (simp add: same_but_msg_def)

lemma same_but_msg_update:
  "same_but_msg f g \<Longrightarrow> same_but_msg f (g\<lparr>f_pcp_msg_buffer := x, f_pcp_msg_len := n\<rparr>)"
  by (cases f; cases g) (simp add: same_but_msg_def)

lemma same_but_msg_wf: "same_but_msg f g \<Longrightarrow> flow_wf g = flow_wf f"
  by (cases f; cases g) (simp add: same_but_msg_def flow_wf_def f_app_name_length_def)

lemma buffered_same_but_msg: "buffered f g \<Longrightarrow> same_but_msg f g \<and> (\<exists>b. f_pcp_msg_buffer g = Some b \<and> length b = PCP_MAX_LEN)"
  by (auto simp: buffered_def same_but_msg_def with_buf_def)

lemma same_but_msg_links: "same_but_msg f g \<Longrightarrow> flow_links g = flow_links f"
  by (cases f; cases g) (simp add: same_but_msg_def flow_links_def)

lemma ctx_update_id: "c\<lparr>w_alloc_i := w_alloc_i c\<rparr> = (c :: pcp_ctx)" "d\<lparr>c_heap := c_heap d\<rparr> = (d :: pcp_ctx)"
  by (cases c, simp) (cases d, simp)

lemma build_pcp_msg_runs:
  assumes p: "c_heap c p = Some f" and ok: "msg_ok f"
  shows "runs (build_pcp_msg (Some p) c) (\<lambda>(r, c'). \<exists>f' i.
     c' = c\<lparr>c_heap := (c_heap c)(p \<mapsto> f'), w_alloc_i := i\<rparr> \<and>
     msg_ok f' \<and> same_but_msg f f' \<and> (r \<longrightarrow> f_pcp_msg_buffer f' \<noteq> None))"
proof (cases "get_pcp_server (sint (f_pcp_server_indx f)) c")
  case None
  have "c = c\<lparr>c_heap := (c_heap c)(p \<mapsto> f), w_alloc_i := w_alloc_i c\<rparr>"
    using p by (simp add: fun_upd_idem ctx_update_id)
  with None show ?thesis
    using p ok unfolding build_pcp_msg_def
    by (simp only: option.case rd_flow_def bind.simps runs_simps prod.case)
      (blast intro: same_but_msg_refl)
next
  case (Some s)
  define g where "g = (if f_pcp_msg_buffer f = None
    then f\<lparr>f_pcp_msg_buffer := Some (replicate PCP_MAX_LEN 0)\<rparr> else f)"
  have buf: "buffered f g"
    using ok buffered_self [of f] buffered_with_buf [of "replicate PCP_MAX_LEN 0" f]
    by (cases "f_pcp_msg_buffer f") (simp_all add: g_def with_buf_def msg_ok_def)
  have "f_pcp_msg_len g \<le> PCP_MAX_LEN" "flow_wf f" using ok by (simp_all add: g_def msg_ok_def)
  then obtain r f' where b: "build_request (s_pcp_version (c_pcp_servers c ! s)) g = Some (r, f')"
      "buffered f f'" "f_pcp_msg_len f' \<le> PCP_MAX_LEN"
    using build_request_built [OF buf, of "s_pcp_version (c_pcp_servers c ! s)"] by (auto elim!: runsE)
  define f'' where "f'' = (if r < 0 then f'\<lparr>f_pcp_msg_buffer := None, f_pcp_msg_len := 0\<rparr> else f')"
  have good: "msg_ok f''" "same_but_msg f f''" "\<not> r < 0 \<longrightarrow> f_pcp_msg_buffer f'' \<noteq> None"
    using b(3) buffered_same_but_msg [OF b(2)] ok same_but_msg_update [of f f' 0 None]
      same_but_msg_wf [of f f''] by (auto simp: f''_def msg_ok_def)
  have srv: "rd_server s c = Some (c_pcp_servers c ! s)"
    using Some by (simp add: get_pcp_server_Some rd_server_def)
  obtain ok' i where al: "(if f_pcp_msg_buffer f = None then alloc_next c else (True, c)) =
      (ok', c\<lparr>w_alloc_i := i\<rparr>)"
    using ctx_update_id(1) [of c] by (cases "f_pcp_msg_buffer f = None") (simp add: alloc_next_def, metis)
  have eq: "build_pcp_msg (Some p) c = (if \<not> ok' then Some (False, c\<lparr>w_alloc_i := i\<rparr>)
      else Some (\<not> r < 0, c\<lparr>w_alloc_i := i, c_heap := (c_heap c)(p \<mapsto> f'')\<rparr>))"
    unfolding build_pcp_msg_def option.case rd_flow_def p bind.simps Some srv al Let_def prod.case
      g_def [symmetric] b(1) f''_def [symmetric]
    using p by (simp add: upd_flow_def)
  have id: "c\<lparr>c_heap := (c_heap c)(p \<mapsto> f), w_alloc_i := i\<rparr> = c\<lparr>w_alloc_i := i\<rparr>"
    using p ctx_update_id(2) [of c] by (simp add: fun_upd_idem)
  have "build_pcp_msg (Some p) c = Some (ok' \<and> \<not> r < 0,
      c\<lparr>c_heap := (c_heap c)(p \<mapsto> if ok' then f'' else f), w_alloc_i := i\<rparr>)"
    unfolding eq by (cases ok') (simp_all add: id)
  moreover have "msg_ok (if ok' then f'' else f)" "same_but_msg f (if ok' then f'' else f)"
      "ok' \<and> \<not> r < 0 \<longrightarrow> f_pcp_msg_buffer (if ok' then f'' else f) \<noteq> None"
    using good ok by simp_all
  ultimately show ?thesis by (simp only: runs_simps prod.case) blast
qed

section \<open>Properties\<close>

text \<open>A flow that asks for a MAP, as \<open>pcp_create_flow\<close> and \<open>init_flow\<close> would set it up.\<close>

definition map_flow :: pcp_flow where
  "map_flow = flow_zero\<lparr>f_kd := kd_zero\<lparr>k_operation := PCP_OPCODE_MAP\<rparr>, f_lifetime := 3600\<rparr>"

lemma map_flow_wf: "flow_wf map_flow" "op_buildable v map_flow"
  by (simp_all add: map_flow_def flow_wf_def op_buildable_def flow_zero_def)

text \<open>C8: the requests that the field by field assignments of \<open>build_pcp_msg\<close> leave in the zeroed buffer
  of a flow are exactly the messages of the PCP wire format, for versions 1 and 2 and the opcodes
  ANNOUNCE, MAP, PEER and SADSCP with all their options; the message length is that of the wire
  message, a multiple of four and at most 1100.\<close>

theorem request_is_wire_format:
  assumes "version = 1 \<or> version = 2" "flow_wf f" "op_buildable version f"
    and "f_pcp_msg_buffer f = Some (replicate PCP_MAX_LEN 0)"
  shows "\<exists>f'. build_request version f = Some (0, f') \<and>
     f_pcp_msg_buffer f' = Some (wire_request version f @ replicate (PCP_MAX_LEN - length (wire_request version f)) 0) \<and>
     f_pcp_msg_len f' = length (wire_request version f) \<and> f_pcp_msg_len f' \<le> PCP_MAX_LEN \<and>
     f_pcp_msg_len f' mod 4 = 0"
proof -
  have "with_buf (replicate PCP_MAX_LEN 0) f = f" using assms(4) by (cases f) (simp add: with_buf_def)
  with build_request_wire [OF assms(1-3)] wire_request_length [OF assms(1-3)] show ?thesis
    by (simp add: zfill_def)
qed

theorem request_is_wire_format_witness:
  "\<exists>f'. build_request 2 (map_flow\<lparr>f_pcp_msg_buffer := Some (replicate PCP_MAX_LEN 0)\<rparr>) = Some (0, f') \<and>
     f_pcp_msg_len f' = 60"
proof -
  let ?f = "map_flow\<lparr>f_pcp_msg_buffer := Some (replicate PCP_MAX_LEN 0)\<rparr>"
  have "flow_wf ?f" "op_buildable 2 ?f" by (simp_all add: map_flow_def flow_wf_def op_buildable_def flow_zero_def)
  from request_is_wire_format [OF _ this] obtain f' where
    "build_request 2 ?f = Some (0, f')" "f_pcp_msg_len f' = length (wire_request 2 ?f)" by auto
  moreover have "length (wire_request 2 ?f) = 60"
    by (simp add: wire_request_def wire_opdata_def wire_options_def wire_fixed_options_def map_flow_def
        flow_zero_def Let_def)
  ultimately show ?thesis by simp
qed

text \<open>C11: memory safety of building. For every flow whose strings fill their arrays and whose buffer, if
  there is one, has 1100 bytes, \<open>build_pcp_msg\<close> returns without leaving the buffer, whatever the server's
  version and whatever the flow's options and metadata are; it changes the message of that flow only,
  and a flow without a buffer has message length zero.\<close>

theorem build_pcp_msg_in_bounds:
  assumes "c_heap c p = Some f" "msg_ok f"
  shows "\<exists>r f' i. build_pcp_msg (Some p) c = Some (r, c\<lparr>c_heap := (c_heap c)(p \<mapsto> f'), w_alloc_i := i\<rparr>) \<and>
     msg_ok f' \<and> f' = f\<lparr>f_pcp_msg_buffer := f_pcp_msg_buffer f', f_pcp_msg_len := f_pcp_msg_len f'\<rparr>"
  using build_pcp_msg_runs [OF assms] by (auto simp: runs_def same_but_msg_def)

theorem build_pcp_msg_in_bounds_witness:
  "\<exists>r f' i. build_pcp_msg (Some 0) (ctx_start\<lparr>c_heap := [0 \<mapsto> map_flow]\<rparr>) =
     Some (r, ctx_start\<lparr>c_heap := [0 \<mapsto> f'], w_alloc_i := i\<rparr>) \<and> msg_ok f'"
proof -
  have "msg_ok map_flow" using map_flow_wf(1) by (simp add: msg_ok_def map_flow_def flow_zero_def)
  from build_pcp_msg_in_bounds [of "ctx_start\<lparr>c_heap := [0 \<mapsto> map_flow]\<rparr>" 0, OF _ this]
  show ?thesis by (auto simp: ctx_start_def)
qed

text \<open>C40: NAT-PMP has no PEER request and no MAP for protocols other than TCP and UDP, and
  \<open>build_natpmp_msg\<close> means to refuse them. It answers with positive \<open>PCP_RES_*\<close> codes, though, while
  \<open>build_pcp_msg\<close> tests for negative ones: the building of such a request is reported as a success, with
  an empty message.\<close>

theorem natpmp_refusal_reported_as_success:
  assumes "c_heap c p = Some f" "get_pcp_server (sint (f_pcp_server_indx f)) c = Some s"
    and "s_pcp_version (c_pcp_servers c ! s) = 0" "f_pcp_msg_buffer f = None" "f_pcp_msg_len f = 0"
    and "w_alloc c (w_alloc_i c)" "k_operation (f_kd f) = PCP_OPCODE_PEER"
  shows "\<exists>c' f'. build_pcp_msg (Some p) c = Some (True, c') \<and> c_heap c' p = Some f' \<and>
     f_pcp_msg_len f' = 0 \<and> f_pcp_msg_buffer f' \<noteq> None"
proof -
  have "rd_server s c = Some (c_pcp_servers c ! s)"
    using assms(2) by (simp add: get_pcp_server_Some rd_server_def)
  with assms show ?thesis
    by (simp add: build_pcp_msg_def rd_flow_def alloc_next_def build_request_def build_natpmp_msg_def
        upd_flow_def)
qed

theorem natpmp_refusal_reported_as_success_witness:
  "\<exists>c'. build_pcp_msg (Some 0)
     (ctx_start\<lparr>c_pcp_servers := [server_zero\<lparr>s_server_state := pss_wait_io\<rparr>],
        c_heap := [0 \<mapsto> flow_zero\<lparr>f_kd := kd_zero\<lparr>k_operation := PCP_OPCODE_PEER\<rparr>\<rparr>]\<rparr>) = Some (True, c')"
  using natpmp_refusal_reported_as_success [of "ctx_start\<lparr>c_pcp_servers := [server_zero\<lparr>s_server_state := pss_wait_io\<rparr>],
        c_heap := [0 \<mapsto> flow_zero\<lparr>f_kd := kd_zero\<lparr>k_operation := PCP_OPCODE_PEER\<rparr>\<rparr>]\<rparr>" 0
        "flow_zero\<lparr>f_kd := kd_zero\<lparr>k_operation := PCP_OPCODE_PEER\<rparr>\<rparr>" 0]
  by (auto simp: get_pcp_server_def flow_zero_def server_zero_def ctx_start_def)

end
