(* ===== verification/Msg_Parse.thy ===== *)
theory Msg_Parse
  imports Msg_Wire
begin

text \<open>
  Validation and parsing of responses (the second half of \<open>pcp_msg.c\<close>). Members of the packed
  response structures are read at their offsets in the receive buffer; a read outside of it
  would be \<open>None\<close>. The parsed fields are written into the message record, as the C code does,
  also on the paths that end in an error.
\<close>

section \<open>Access to the receive buffer\<close>

definition get8 :: "nat \<Rightarrow> u8 list \<Rightarrow> u8 option" where
  "get8 off b = map_option u8_of (peek off 1 b)"

definition get16 :: "nat \<Rightarrow> u8 list \<Rightarrow> u16 option" where
  "get16 off b = map_option u16_of (peek off 2 b)"

definition get32 :: "nat \<Rightarrow> u8 list \<Rightarrow> u32 option" where
  "get32 off b = map_option u32_of (peek off 4 b)"

definition get_in6 :: "nat \<Rightarrow> u8 list \<Rightarrow> in6_addr option" where
  "get_in6 off b = map_option in6_of (peek off 16 b)"

definition get_nonce :: "nat \<Rightarrow> u8 list \<Rightarrow> pcp_nonce option" where
  "get_nonce off b = map_option nonce_of (peek off 12 b)"

lemmas get_defs = get8_def get16_def get32_def get_in6_def get_nonce_def

abbreviation mget8 :: "nat \<Rightarrow> pcp_recv_msg \<Rightarrow> u8 option" where
  "mget8 off m \<equiv> get8 off (m_pcp_msg_buffer m)"
abbreviation mget16 :: "nat \<Rightarrow> pcp_recv_msg \<Rightarrow> u16 option" where
  "mget16 off m \<equiv> get16 off (m_pcp_msg_buffer m)"
abbreviation mget32 :: "nat \<Rightarrow> pcp_recv_msg \<Rightarrow> u32 option" where
  "mget32 off m \<equiv> get32 off (m_pcp_msg_buffer m)"
abbreviation mget_in6 :: "nat \<Rightarrow> pcp_recv_msg \<Rightarrow> in6_addr option" where
  "mget_in6 off m \<equiv> get_in6 off (m_pcp_msg_buffer m)"
abbreviation mget_nonce :: "nat \<Rightarrow> pcp_recv_msg \<Rightarrow> pcp_nonce option" where
  "mget_nonce off m \<equiv> get_nonce off (m_pcp_msg_buffer m)"

section \<open>Validation\<close>

definition validate_pcp_msg :: "pcp_recv_msg \<Rightarrow> bool option" where
  "validate_pcp_msg m =
     (if m_pcp_msg_len m mod 4 \<noteq> 0 \<or> m_pcp_msg_len m < 4 \<or> m_pcp_msg_len m > PCP_MAX_LEN
      then Some False
      else do {
        ver \<leftarrow> mget8 0 m;
        r_opcode \<leftarrow> mget8 1 m;
        if ver \<noteq> 0 \<and> r_opcode AND 0x80 = 0 then Some False
        else if ver > PCP_MAX_SUPPORTED_VERSION then Some False
        else Some True
      })"

section \<open>Parsing\<close>

definition set_mp :: "(mp_keydata \<Rightarrow> mp_keydata) \<Rightarrow> pcp_recv_msg \<Rightarrow> pcp_recv_msg" where
  "set_mp g m = m\<lparr>m_kd := (m_kd m)\<lparr>k_map_peer := g (k_map_peer (m_kd m))\<rparr>\<rparr>"

definition set_nonce :: "pcp_nonce \<Rightarrow> pcp_recv_msg \<Rightarrow> pcp_recv_msg" where
  "set_nonce n m = m\<lparr>m_kd := (m_kd m)\<lparr>k_nonce := n\<rparr>\<rparr>"

definition set_operation :: "u8 \<Rightarrow> pcp_recv_msg \<Rightarrow> pcp_recv_msg" where
  "set_operation op m = m\<lparr>m_kd := (m_kd m)\<lparr>k_operation := op\<rparr>\<rparr>"

definition parse_options :: "pcp_recv_msg \<Rightarrow> nat \<Rightarrow> (pcp_errno \<times> pcp_recv_msg) option" where
  "parse_options m r = Some (PCP_ERR_SUCCESS, m)"

definition parse_v1_map :: "pcp_recv_msg \<Rightarrow> nat \<Rightarrow> (pcp_errno \<times> pcp_recv_msg) option" where
  "parse_v1_map m r =
     (let rest_size = m_pcp_msg_len m - r in
      if rest_size < sz_map_v1 then Some (PCP_ERR_RECV_FAILED, m)
      else do {
        int_port \<leftarrow> mget16 (r + 4) m;
        protocol \<leftarrow> mget8 r m;
        ext_port \<leftarrow> mget16 (r + 6) m;
        ext_ip \<leftarrow> mget_in6 (r + 8) m;
        let m = set_mp (\<lambda>k. k\<lparr>mp_src_port := int_port, mp_protocol := protocol\<rparr>) m;
        let m = m\<lparr>m_assigned_ext_port := ext_port, m_assigned_ext_ip := ext_ip\<rparr>;
        if rest_size > sz_map_v1 then parse_options m (r + sz_map_v1)
        else Some (PCP_ERR_SUCCESS, m)
      })"

definition parse_v2_map :: "pcp_recv_msg \<Rightarrow> nat \<Rightarrow> (pcp_errno \<times> pcp_recv_msg) option" where
  "parse_v2_map m r =
     (let rest_size = m_pcp_msg_len m - r in
      if rest_size < sz_map_v2 then Some (PCP_ERR_RECV_FAILED, m)
      else do {
        nonce \<leftarrow> mget_nonce r m;
        int_port \<leftarrow> mget16 (r + 16) m;
        protocol \<leftarrow> mget8 (r + 12) m;
        ext_port \<leftarrow> mget16 (r + 18) m;
        ext_ip \<leftarrow> mget_in6 (r + 20) m;
        let m = set_nonce nonce m;
        let m = set_mp (\<lambda>k. k\<lparr>mp_src_port := int_port, mp_protocol := protocol\<rparr>) m;
        let m = m\<lparr>m_assigned_ext_port := ext_port, m_assigned_ext_ip := ext_ip\<rparr>;
        if rest_size > sz_map_v2 then parse_options m (r + sz_map_v2)
        else Some (PCP_ERR_SUCCESS, m)
      })"

definition parse_v1_peer :: "pcp_recv_msg \<Rightarrow> nat \<Rightarrow> (pcp_errno \<times> pcp_recv_msg) option" where
  "parse_v1_peer m r =
     (let rest_size = m_pcp_msg_len m - r in
      if rest_size < sz_peer_v1 then Some (PCP_ERR_RECV_FAILED, m)
      else do {
        int_port \<leftarrow> mget16 (r + 4) m;
        protocol \<leftarrow> mget8 r m;
        peer_port \<leftarrow> mget16 (r + 24) m;
        ext_port \<leftarrow> mget16 (r + 6) m;
        peer_ip \<leftarrow> mget_in6 (r + 28) m;
        ext_ip \<leftarrow> mget_in6 (r + 8) m;
        let m = set_mp (\<lambda>k. k\<lparr>mp_src_port := int_port, mp_protocol := protocol,
                  mp_dst_port := peer_port, mp_dst_ip := peer_ip\<rparr>) m;
        let m = m\<lparr>m_assigned_ext_port := ext_port, m_assigned_ext_ip := ext_ip\<rparr>;
        if rest_size > sz_peer_v1 then parse_options m (r + sz_peer_v1)
        else Some (PCP_ERR_SUCCESS, m)
      })"

definition parse_v2_peer :: "pcp_recv_msg \<Rightarrow> nat \<Rightarrow> (pcp_errno \<times> pcp_recv_msg) option" where
  "parse_v2_peer m r =
     (let rest_size = m_pcp_msg_len m - r in
      if rest_size < sz_peer_v2 then Some (PCP_ERR_RECV_FAILED, m)
      else do {
        nonce \<leftarrow> mget_nonce r m;
        int_port \<leftarrow> mget16 (r + 16) m;
        protocol \<leftarrow> mget8 (r + 12) m;
        peer_port \<leftarrow> mget16 (r + 36) m;
        ext_port \<leftarrow> mget16 (r + 18) m;
        peer_ip \<leftarrow> mget_in6 (r + 40) m;
        ext_ip \<leftarrow> mget_in6 (r + 20) m;
        let m = set_nonce nonce m;
        let m = set_mp (\<lambda>k. k\<lparr>mp_src_port := int_port, mp_protocol := protocol,
                  mp_dst_port := peer_port, mp_dst_ip := peer_ip\<rparr>) m;
        let m = m\<lparr>m_assigned_ext_port := ext_port, m_assigned_ext_ip := ext_ip\<rparr>;
        if rest_size > sz_peer_v2 then parse_options m (r + sz_peer_v2)
        else Some (PCP_ERR_SUCCESS, m)
      })"

definition parse_sadscp :: "pcp_recv_msg \<Rightarrow> nat \<Rightarrow> (pcp_errno \<times> pcp_recv_msg) option" where
  "parse_sadscp m r =
     (let rest_size = m_pcp_msg_len m - r in
      if rest_size < sz_sadscp_resp then Some (PCP_ERR_RECV_FAILED, m)
      else do {
        nonce \<leftarrow> mget_nonce r m;
        a_r_dscp \<leftarrow> mget8 (r + 12) m;
        Some (PCP_ERR_SUCCESS, (set_nonce nonce m)\<lparr>m_recv_dscp := a_r_dscp AND 0x3F\<rparr>)
      })"

text \<open>The end of \<open>parse_v0_resp\<close>, reached when the switch did not return.\<close>

definition parse_v0_other :: "pcp_recv_msg \<Rightarrow> (pcp_errno \<times> pcp_recv_msg) option" where
  "parse_v0_other m =
     (if m_pcp_msg_len m = sz_nat_pmp_inv_version_resp then do {
        result \<leftarrow> mget16 2 m;
        epoch \<leftarrow> mget32 4 m;
        Some (PCP_ERR_SUCCESS, m\<lparr>m_recv_result := ucast (ntohs result), m_recv_epoch := ntohl epoch\<rparr>)
      }
      else Some (PCP_ERR_RECV_FAILED, m))"

definition parse_v0_resp :: "pcp_recv_msg \<Rightarrow> (pcp_errno \<times> pcp_recv_msg) option" where
  "parse_v0_resp m =
     (let op = k_operation (m_kd m) in
      if op = PCP_OPCODE_ANNOUNCE \<and> m_pcp_msg_len m = sz_nat_pmp_announce_resp then do {
        epoch \<leftarrow> mget32 4 m;
        ext_ip \<leftarrow> mget32 8 m;
        Some (PCP_ERR_SUCCESS,
          m\<lparr>m_recv_epoch := ntohl epoch, m_assigned_ext_ip := In6 0 0 (htonl 0xFFFF) ext_ip\<rparr>)
      }
      else if (op = NATPMP_OPCODE_MAP_TCP \<or> op = NATPMP_OPCODE_MAP_UDP) \<and>
              m_pcp_msg_len m = sz_nat_pmp_map_resp then do {
        ext_port \<leftarrow> mget16 10 m;
        int_port \<leftarrow> mget16 8 m;
        epoch \<leftarrow> mget32 4 m;
        lifetime \<leftarrow> mget32 12 m;
        result \<leftarrow> mget16 2 m;
        let m = m\<lparr>m_assigned_ext_port := ext_port, m_recv_epoch := ntohl epoch,
                  m_recv_lifetime := ntohl lifetime, m_recv_result := ucast (ntohs result)\<rparr>;
        let m = set_mp (\<lambda>k. k\<lparr>mp_src_port := int_port,
                  mp_protocol := (if op = NATPMP_OPCODE_MAP_TCP then IPPROTO_TCP else IPPROTO_UDP)\<rparr>) m;
        Some (PCP_ERR_SUCCESS, set_operation PCP_OPCODE_MAP m)
      }
      else parse_v0_other m)"

definition parse_v1_resp :: "pcp_recv_msg \<Rightarrow> (pcp_errno \<times> pcp_recv_msg) option" where
  "parse_v1_resp m =
     (if m_pcp_msg_len m < sz_response then Some (PCP_ERR_RECV_FAILED, m)
      else do {
        lifetime \<leftarrow> mget32 4 m;
        epochtime \<leftarrow> mget32 8 m;
        let m = m\<lparr>m_recv_lifetime := ntohl lifetime, m_recv_epoch := ntohl epochtime\<rparr>;
        let op = k_operation (m_kd m);
        if op = PCP_OPCODE_ANNOUNCE then Some (PCP_ERR_SUCCESS, m)
        else if op = PCP_OPCODE_MAP then parse_v1_map m sz_response
        else if op = PCP_OPCODE_PEER then parse_v1_peer m sz_response
        else Some (PCP_ERR_RECV_FAILED, m)
      })"

definition parse_v2_resp :: "pcp_recv_msg \<Rightarrow> (pcp_errno \<times> pcp_recv_msg) option" where
  "parse_v2_resp m =
     (if m_pcp_msg_len m < sz_response then Some (PCP_ERR_RECV_FAILED, m)
      else do {
        lifetime \<leftarrow> mget32 4 m;
        epochtime \<leftarrow> mget32 8 m;
        let m = m\<lparr>m_recv_lifetime := ntohl lifetime, m_recv_epoch := ntohl epochtime\<rparr>;
        let op = k_operation (m_kd m);
        if op = PCP_OPCODE_ANNOUNCE then Some (PCP_ERR_SUCCESS, m)
        else if op = PCP_OPCODE_MAP then parse_v2_map m sz_response
        else if op = PCP_OPCODE_PEER then parse_v2_peer m sz_response
        else if op = PCP_OPCODE_SADSCP then parse_sadscp m sz_response
        else Some (PCP_ERR_RECV_FAILED, m)
      })"

definition parse_response :: "pcp_recv_msg \<Rightarrow> (pcp_errno \<times> pcp_recv_msg) option" where
  "parse_response m = do {
     ver \<leftarrow> mget8 0 m;
     result_code \<leftarrow> mget8 3 m;
     r_opcode \<leftarrow> mget8 1 m;
     let m = m\<lparr>m_recv_version := ucast ver, m_recv_result := ucast result_code, m_kd := kd_zero\<rparr>;
     let m = set_operation (r_opcode AND 0x7F) m;
     if m_recv_version m = 0 then parse_v0_resp m
     else if m_recv_version m = 1 then parse_v1_resp m
     else if m_recv_version m = 2 then parse_v2_resp m
     else Some (PCP_ERR_UNSUP_VERSION, m)
   }"

section \<open>Every read is inside the buffer\<close>

definition rmsg_ok :: "pcp_recv_msg \<Rightarrow> bool" where
  "rmsg_ok m \<longleftrightarrow> length (m_pcp_msg_buffer m) = PCP_MAX_LEN \<and> m_pcp_msg_len m \<le> PCP_MAX_LEN"

text \<open>
  What parsing may change: the parsed fields, not the buffer, its length, the peers' addresses or
  the arrival time.
\<close>

definition same_input :: "pcp_recv_msg \<Rightarrow> pcp_recv_msg \<Rightarrow> bool" where
  "same_input m m' \<longleftrightarrow> m_pcp_msg_buffer m' = m_pcp_msg_buffer m \<and> m_pcp_msg_len m' = m_pcp_msg_len m \<and>
     m_rcvd_from_addr m' = m_rcvd_from_addr m \<and> m_rcvd_to_addr m' = m_rcvd_to_addr m \<and>
     m_received_time m' = m_received_time m \<and> m_pcp_server_indx m' = m_pcp_server_indx m"

lemma get_runs:
  assumes "length b = PCP_MAX_LEN"
  shows "off < PCP_MAX_LEN \<Longrightarrow> runs (get8 off b) P \<longleftrightarrow> P (the (get8 off b))"
    "off + 2 \<le> PCP_MAX_LEN \<Longrightarrow> runs (get16 off b) P2 \<longleftrightarrow> P2 (the (get16 off b))"
    "off + 4 \<le> PCP_MAX_LEN \<Longrightarrow> runs (get32 off b) P4 \<longleftrightarrow> P4 (the (get32 off b))"
    "off + 16 \<le> PCP_MAX_LEN \<Longrightarrow> runs (get_in6 off b) P6 \<longleftrightarrow> P6 (the (get_in6 off b))"
    "off + 12 \<le> PCP_MAX_LEN \<Longrightarrow> runs (get_nonce off b) Pn \<longleftrightarrow> Pn (the (get_nonce off b))"
  using assms by (simp_all add: get_defs peek_def)

lemmas parse_defs = parse_response_def parse_v0_resp_def parse_v0_other_def parse_v1_resp_def
  parse_v2_resp_def parse_v1_map_def parse_v2_map_def parse_v1_peer_def parse_v2_peer_def
  parse_sadscp_def parse_options_def set_mp_def set_nonce_def set_operation_def Let_def

lemma parse_response_runs:
  assumes "rmsg_ok m"
  shows "runs (parse_response m) (\<lambda>r. same_input m (snd r))"
  using assms
  by (simp add: rmsg_ok_def parse_defs get_runs same_input_def)

lemma validate_pcp_msg_runs: "rmsg_ok m \<Longrightarrow> runs (validate_pcp_msg m) (\<lambda>_. True)"
  by (simp add: validate_pcp_msg_def rmsg_ok_def get_runs)

section \<open>Responses on the wire\<close>

definition wire_resp_header :: "u8 \<Rightarrow> u8 \<Rightarrow> u8 \<Rightarrow> u32 \<Rightarrow> u32 \<Rightarrow> u8 list" where
  "wire_resp_header ver op result lifetime epoch =
     [ver, op OR 0x80, 0, result] @ be32 lifetime @ be32 epoch @ replicate 12 0"

text \<open>
  The answer of a server to the request of flow \<open>f\<close>: it repeats the opcode specific data of the
  request with the assigned external address and port in place of the suggested ones.
\<close>

definition wire_response ::
    "u8 \<Rightarrow> pcp_flow \<Rightarrow> u8 \<Rightarrow> u32 \<Rightarrow> u32 \<Rightarrow> in6_addr \<Rightarrow> u16 \<Rightarrow> u8 list" where
  "wire_response ver f result lifetime epoch ip port =
     wire_resp_header ver (k_operation (f_kd f)) result lifetime epoch @
     wire_opdata ver (f\<lparr>f_ext_ip := ip, f_ext_port := port\<rparr>)"

text \<open>The key data that a response to \<open>f\<close> carries.\<close>

definition resp_key :: "u8 \<Rightarrow> pcp_flow \<Rightarrow> flow_key_data" where
  "resp_key ver f =
     kd_zero\<lparr>k_operation := k_operation (f_kd f),
       k_nonce := (if ver = 2 then k_nonce (f_kd f) else Nonce 0 0 0),
       k_map_peer := \<lparr>mp_protocol = mp_protocol (k_map_peer (f_kd f)),
         mp_src_port = mp_src_port (k_map_peer (f_kd f)),
         mp_dst_ip = (if k_operation (f_kd f) = PCP_OPCODE_PEER then mp_dst_ip (k_map_peer (f_kd f)) else in6_zero),
         mp_dst_port = (if k_operation (f_kd f) = PCP_OPCODE_PEER then mp_dst_port (k_map_peer (f_kd f)) else 0)\<rparr>\<rparr>"

lemma resp_opcode_mask: "(op OR 0x80) AND 0x7F = (op :: u8)" if "op \<in> {PCP_OPCODE_MAP, PCP_OPCODE_PEER}"
  using that by auto

lemma be32_of [simp]: "ntohl (u32_of (be32 w)) = w"
  by (metis be32_htonl ntohl_htonl u32c.dec_enc)

lemma be32_host: "u32_of (be32 w) = ntohl w"
  by (metis be32_of ntohl_htonl)

lemma header_reads:
  assumes "b = wire_resp_header ver op result lifetime epoch @ rest"
  shows "get8 0 b = Some ver" "get8 (Suc 0) b = Some (op OR 0x80)" "get8 3 b = Some result"
    "get32 4 b = Some (ntohl lifetime)" "get32 8 b = Some (ntohl epoch)"
  using assms by (simp_all add: wire_resp_header_def get_defs peek_def u8_of_def be32_host)

lemma resp_header_length [simp]: "length (wire_resp_header ver op result lifetime epoch) = 24"
  by (simp add: wire_resp_header_def)

lemma peek_skip: "length h \<le> off \<Longrightarrow> peek off n (h @ d) = peek (off - length h) n d"
  by (auto simp: peek_def)

lemma map_reads:
  assumes "b = pre @ wire_map f @ rest" "length pre = r"
  shows "get8 r b = Some (mp_protocol (k_map_peer (f_kd f)))"
    "get16 (r + 4) b = Some (mp_src_port (k_map_peer (f_kd f)))"
    "get16 (r + 6) b = Some (f_ext_port f)" "get_in6 (r + 8) b = Some (f_ext_ip f)"
  using assms by (simp_all add: get_defs peek_skip) (simp_all add: peek_def wire_map_def u8_of_def)

lemma peer_reads:
  assumes "b = pre @ wire_peer f @ rest" "length pre = r"
  shows "get8 r b = Some (mp_protocol (k_map_peer (f_kd f)))"
    "get16 (r + 4) b = Some (mp_src_port (k_map_peer (f_kd f)))"
    "get16 (r + 6) b = Some (f_ext_port f)" "get_in6 (r + 8) b = Some (f_ext_ip f)"
    "get16 (r + 24) b = Some (mp_dst_port (k_map_peer (f_kd f)))"
    "get_in6 (r + 28) b = Some (mp_dst_ip (k_map_peer (f_kd f)))"
  using assms by (simp_all add: get_defs peek_skip)
    (simp_all add: peek_def wire_peer_def wire_map_def u8_of_def)

lemma nonce_read:
  "b = pre @ nonce_bytes n @ rest \<Longrightarrow> length pre = r \<Longrightarrow> get_nonce r b = Some n"
  by (simp add: get_nonce_def peek_skip) (simp add: peek_def)

lemma parse_wire_response_v1:
  assumes "k_operation (f_kd f) \<in> {PCP_OPCODE_MAP, PCP_OPCODE_PEER}"
    and buf: "m_pcp_msg_buffer m = wire_response 1 f result lifetime epoch ip port @ rest"
    and "m_pcp_msg_len m \<ge> length (wire_response 1 f result lifetime epoch ip port)"
  shows "parse_response m = Some (PCP_ERR_SUCCESS,
    m\<lparr>m_kd := resp_key 1 f, m_assigned_ext_ip := ip, m_assigned_ext_port := port,
      m_recv_version := 1, m_recv_epoch := epoch, m_recv_lifetime := lifetime,
      m_recv_result := ucast result\<rparr>)"
proof -
  let ?g = "f\<lparr>f_ext_ip := ip, f_ext_port := port\<rparr>"
  let ?h = "wire_resp_header 1 (k_operation (f_kd f)) result lifetime epoch"
  from assms(1) consider "k_operation (f_kd f) = PCP_OPCODE_MAP" | "k_operation (f_kd f) = PCP_OPCODE_PEER"
    by auto
  then show ?thesis
  proof cases
    case 1
    then have b: "m_pcp_msg_buffer m = ?h @ wire_map ?g @ rest" and l: "m_pcp_msg_len m \<ge> 48"
      using assms by (simp_all add: wire_response_def wire_opdata_def)
    show ?thesis
      using header_reads [OF b] map_reads [OF b resp_header_length] l 1
      by (simp add: parse_defs resp_key_def kd_zero_def; arith)
  next
    case 2
    then have b: "m_pcp_msg_buffer m = ?h @ wire_peer ?g @ rest" and l: "m_pcp_msg_len m \<ge> 68"
      using assms by (simp_all add: wire_response_def wire_opdata_def)
    show ?thesis
      using header_reads [OF b] peer_reads [OF b resp_header_length] l 2
      by (simp add: parse_defs resp_key_def kd_zero_def; arith)
  qed
qed

lemma parse_wire_response_v2:
  assumes "k_operation (f_kd f) \<in> {PCP_OPCODE_MAP, PCP_OPCODE_PEER}"
    and buf: "m_pcp_msg_buffer m = wire_response 2 f result lifetime epoch ip port @ rest"
    and "m_pcp_msg_len m \<ge> length (wire_response 2 f result lifetime epoch ip port)"
  shows "parse_response m = Some (PCP_ERR_SUCCESS,
    m\<lparr>m_kd := resp_key 2 f, m_assigned_ext_ip := ip, m_assigned_ext_port := port,
      m_recv_version := 2, m_recv_epoch := epoch, m_recv_lifetime := lifetime,
      m_recv_result := ucast result\<rparr>)"
proof -
  let ?g = "f\<lparr>f_ext_ip := ip, f_ext_port := port\<rparr>" and ?n = "nonce_bytes (k_nonce (f_kd f))"
  let ?h = "wire_resp_header 2 (k_operation (f_kd f)) result lifetime epoch"
  have len: "length (?h @ ?n) = 36" by simp
  from assms(1) consider "k_operation (f_kd f) = PCP_OPCODE_MAP" | "k_operation (f_kd f) = PCP_OPCODE_PEER"
    by auto
  then show ?thesis
  proof cases
    case 1
    then have b: "m_pcp_msg_buffer m = ?h @ ?n @ wire_map ?g @ rest" and l: "m_pcp_msg_len m \<ge> 60"
      using assms by (simp_all add: wire_response_def wire_opdata_def)
    then have b': "m_pcp_msg_buffer m = (?h @ ?n) @ wire_map ?g @ rest" by simp
    show ?thesis
      using header_reads [OF b] nonce_read [OF b resp_header_length] map_reads [OF b' len] l 1
      by (simp add: parse_defs resp_key_def kd_zero_def; arith)
  next
    case 2
    then have b: "m_pcp_msg_buffer m = ?h @ ?n @ wire_peer ?g @ rest" and l: "m_pcp_msg_len m \<ge> 80"
      using assms by (simp_all add: wire_response_def wire_opdata_def)
    then have b': "m_pcp_msg_buffer m = (?h @ ?n) @ wire_peer ?g @ rest" by simp
    show ?thesis
      using header_reads [OF b] nonce_read [OF b resp_header_length] peer_reads [OF b' len] l 2
      by (simp add: parse_defs resp_key_def kd_zero_def; arith)
  qed
qed

section \<open>Properties\<close>

text \<open>C10: parsing a response gives back what the server put into it. For versions 1 and 2 and the
  opcodes MAP and PEER, a received message that starts with the wire form of the answer to a flow
  (options may follow) is parsed successfully into the result code, lifetime, epoch and external
  address of the answer and the key data of the flow, as far as they travel.\<close>

theorem parse_response_round_trip:
  assumes "ver = 1 \<or> ver = 2" "k_operation (f_kd f) \<in> {PCP_OPCODE_MAP, PCP_OPCODE_PEER}"
    and "m_pcp_msg_buffer m = wire_response ver f result lifetime epoch ip port @ rest"
    and "length (wire_response ver f result lifetime epoch ip port) \<le> m_pcp_msg_len m"
  shows "parse_response m = Some (PCP_ERR_SUCCESS,
    m\<lparr>m_kd := resp_key ver f, m_assigned_ext_ip := ip, m_assigned_ext_port := port,
      m_recv_version := ucast ver, m_recv_epoch := epoch, m_recv_lifetime := lifetime,
      m_recv_result := ucast result\<rparr>)"
  using assms parse_wire_response_v1 parse_wire_response_v2 by auto

theorem parse_response_round_trip_witness:
  "\<exists>m'. parse_response (msg_zero\<lparr>m_pcp_msg_len := 60,
      m_pcp_msg_buffer := wire_response 2 map_flow 0 120 77 (v4mapped 5) 99 @ []\<rparr>) = Some (PCP_ERR_SUCCESS, m') \<and>
     m_recv_lifetime m' = 120 \<and> m_assigned_ext_ip m' = v4mapped 5"
proof -
  let ?m = "msg_zero\<lparr>m_pcp_msg_len := 60, m_pcp_msg_buffer := wire_response 2 map_flow 0 120 77 (v4mapped 5) 99 @ []\<rparr>"
  have "length (wire_response 2 map_flow 0 120 77 (v4mapped 5) 99) \<le> 60"
    by (simp add: wire_response_def wire_opdata_def map_flow_def)
  moreover have "k_operation (f_kd map_flow) \<in> {PCP_OPCODE_MAP, PCP_OPCODE_PEER}" by (simp add: map_flow_def)
  ultimately show ?thesis
    using parse_response_round_trip [of 2 map_flow ?m 0 120 77 "v4mapped 5" 99 "[]"] by auto
qed





end
