(* ===== verification/Flow_Machine.thy ===== *)
theory Flow_Machine
  imports Msg_Parse
begin

text \<open>
  The flow state machine of \<open>pcp_event_handler.c\<close>: sending of a flow's message, the handlers of
  the transitions, the two tables that drive them, and \<open>handle_flow_event\<close>, which follows the
  tables until a handler returns \<open>fev_none\<close>.

  A handler's \<open>pcp_recv_msg_t *msg\<close> is \<open>None\<close> for the null pointer; using a null message is
  undefined and hence \<open>None\<close>. The application's change callback is a log entry: it is taken not to
  call back into the library.
\<close>

section \<open>Evaluation of a flow and its children\<close>

text \<open>The loop of \<open>pcp_eval_flow_state\<close>, with its four local variables.\<close>

record eval_data =
  e_nexit_states :: nat
  e_no_exit_state :: bool
  e_success :: bool
  e_failed :: bool

definition eval_step :: "pcp_flow_state_e \<Rightarrow> eval_data \<Rightarrow> eval_data" where
  "eval_step st e =
     (case st of
        pfs_wait_for_lifetime_renew \<Rightarrow> e\<lparr>e_success := True, e_nexit_states := e_nexit_states e + 1\<rparr>
      | pfs_failed \<Rightarrow> e\<lparr>e_failed := True, e_nexit_states := e_nexit_states e + 1\<rparr>
      | pfs_wait_after_short_life_error \<Rightarrow> e\<lparr>e_nexit_states := e_nexit_states e + 1\<rparr>
      | _ \<Rightarrow> e\<lparr>e_no_exit_state := True\<rparr>)"

partial_function (option) eval_children :: "fid option \<Rightarrow> pcp_ctx \<Rightarrow> eval_data \<Rightarrow> eval_data option" where
  "eval_children fiter c e =
     (case fiter of None \<Rightarrow> Some e
      | Some p \<Rightarrow> Option.bind (rd_flow p c)
          (\<lambda>f. eval_children (f_next_child f) c (eval_step (f_state f) e)))"

definition eval_result :: "eval_data \<Rightarrow> pcp_fstate_e" where
  "eval_result e =
     (if e_no_exit_state e then
        if e_success e then pcp_state_partial_result else pcp_state_processing
      else if e_success e then pcp_state_succeeded
      else if e_failed e then pcp_state_failed
      else pcp_state_short_lifetime_error)"

definition pcp_eval_flow_state :: "fid option \<Rightarrow> pcp_ctx \<Rightarrow> (nat \<times> pcp_fstate_e) option" where
  "pcp_eval_flow_state flow c = do {
     e \<leftarrow> eval_children flow c \<lparr>e_nexit_states = 0, e_no_exit_state = False, e_success = False,
                              e_failed = False\<rparr>;
     Some (e_nexit_states e, eval_result e)
   }"

section \<open>Sending\<close>

text \<open>
  \<open>pcp_socket_sendto\<close> calls the socket's virtual table: the answer is an oracle's, the packet is
  logged.
\<close>

definition pcp_socket_sendto :: "u8 list \<Rightarrow> sockaddr \<Rightarrow> sockaddr \<Rightarrow> pcp_ctx \<Rightarrow> int \<times> pcp_ctx" where
  "pcp_socket_sendto buf src dst c =
     (let ret = w_sendto c (w_sendto_i c) buf in
      (ret, c\<lparr>w_sendto_i := Suc (w_sendto_i c),
              w_sent := \<lparr>sp_data = buf, sp_src = src, sp_dst = dst, sp_ret = ret\<rparr> # w_sent c\<rparr>))"

text \<open>
  The loop of \<open>pcp_flow_send_msg\<close>. A return value larger than the rest of the message would make
  the unsigned counter wrap; it contradicts the contract of \<open>sendto\<close> and is \<open>None\<close>.
\<close>

function send_loop :: "u8 list \<Rightarrow> nat \<Rightarrow> sockaddr \<Rightarrow> sockaddr \<Rightarrow> nat \<Rightarrow> pcp_ctx \<Rightarrow> pcp_errno result" where
  "send_loop buf len src dst to_send_count c =
     (if to_send_count = 0 then Some (PCP_ERR_SUCCESS, c)
      else case peek (len - to_send_count) to_send_count buf of
        None \<Rightarrow> None
      | Some bs \<Rightarrow>
          let (ret, c) = pcp_socket_sendto bs src dst c in
          if ret \<le> 0 then Some (PCP_ERR_SEND_FAILED, c)
          else if nat ret > to_send_count then None
          else send_loop buf len src dst (to_send_count - nat ret) c)"
  by pat_completeness auto

termination
  by (relation "measure (\<lambda>(buf, len, src, dst, n, c). n)") auto

declare send_loop.simps [simp del]

definition pcp_flow_send_msg :: "fid \<Rightarrow> nat \<Rightarrow> pcp_ctx \<Rightarrow> pcp_errno result" where
  "pcp_flow_send_msg p s c = do {
     f \<leftarrow> rd_flow p c;
     c \<leftarrow> (if f_pcp_msg_buffer f = None \<or> f_pcp_msg_len f = 0
          then map_option snd (build_pcp_msg (Some p) c) else Some c);
     f \<leftarrow> rd_flow p c;
     (case f_pcp_msg_buffer f of
        None \<Rightarrow> Some (PCP_ERR_SEND_FAILED, c)
      | Some buf \<Rightarrow> do {
          sv \<leftarrow> rd_server s c;
          let src = pcp_fill_sockaddr (k_src_ip (f_kd f)) 0 True (s_pcp_scope_id sv);
          (ret, c) \<leftarrow> send_loop buf (f_pcp_msg_len f) src (s_pcp_server_saddr sv) (f_pcp_msg_len f) c;
          if ret \<noteq> PCP_ERR_SUCCESS then Some (ret, c)
          else do {
            c \<leftarrow> pcp_flow_clear_msg_buf (Some p) c;
            Some (PCP_ERR_SUCCESS, c)
          }
        })
   }"

section \<open>Transition handlers\<close>

text \<open>
  \<open>PCP_RT\<close>: the doubled timeout, bounded by the initial and the maximal one and multiplied by a
  random factor between 7169/8192 and 9216/8192, in 32-bit arithmetic.
\<close>

definition PCP_RT :: "u32 \<Rightarrow> u32 \<Rightarrow> u32" where
  "PCP_RT rnd rtprev =
     (let rt = push_bit 1 rtprev;
          m = (if rt > PCP_RETX_IRT then rt else PCP_RETX_IRT);
          m = (if m < PCP_RETX_MRT then m else PCP_RETX_MRT)
      in drop_bit 13 ((8192 + (1024 - (rnd AND 2047))) * m))"

definition set_resend_timeout :: "fid \<Rightarrow> u32 \<Rightarrow> pcp_ctx \<Rightarrow> pcp_ctx option" where
  "set_resend_timeout p rt c = do {
     let (ctv, c) = gettimeofday c;
     upd_flow p (\<lambda>f. f\<lparr>f_resend_timeout := rt,
       f_timeout := Timeval (tv_sec ctv + int (unat (rt div 1000)))
                            (tv_usec ctv + int (unat (rt mod 1000)) * 1000)\<rparr>) c
   }"

definition fhndl_send :: "fid \<Rightarrow> pcp_ctx \<Rightarrow> pcp_flow_event_e result" where
  "fhndl_send p c = do {
     f \<leftarrow> rd_flow p c;
     (case get_pcp_server (sint (f_pcp_server_indx f)) c of
        None \<Rightarrow> Some (fev_failed, c)
      | Some s \<Rightarrow> do {
          sv \<leftarrow> rd_server s c;
          if s_restart_flow_msg sv = Some p then Some (fev_ignored, c)
          else do {
            (ret, c) \<leftarrow> pcp_flow_send_msg p s c;
            if ret \<noteq> PCP_ERR_SUCCESS then Some (fev_failed, c)
            else do { c \<leftarrow> set_resend_timeout p PCP_RETX_IRT c; Some (fev_msg_sent, c) }
          }
        })
   }"

definition fhndl_resend :: "fid \<Rightarrow> pcp_ctx \<Rightarrow> pcp_flow_event_e result" where
  "fhndl_resend p c = do {
     f \<leftarrow> rd_flow p c;
     (case get_pcp_server (sint (f_pcp_server_indx f)) c of
        None \<Rightarrow> Some (fev_failed, c)
      | Some s \<Rightarrow> do {
          c \<leftarrow> upd_flow p (\<lambda>f. f\<lparr>f_retry_count := f_retry_count f + 1\<rparr>) c;
          if f_retry_count f + 1 \<ge> PCP_RETX_MRC then Some (fev_failed, c)
          else do {
            (ret, c) \<leftarrow> pcp_flow_send_msg p s c;
            if ret \<noteq> PCP_ERR_SUCCESS then Some (fev_failed, c)
            else do {
              f \<leftarrow> rd_flow p c;
              let (rnd, c) = random_next c;
              c \<leftarrow> set_resend_timeout p (PCP_RT rnd (f_resend_timeout f)) c;
              Some (fev_msg_sent, c)
            }
          }
        })
   }"

definition fhndl_shortlifeerror :: "fid \<Rightarrow> pcp_recv_msg option \<Rightarrow> pcp_ctx \<Rightarrow> pcp_flow_event_e result" where
  "fhndl_shortlifeerror p msg c = do {
     m \<leftarrow> msg;
     let (ctv, c) = gettimeofday c;
     c \<leftarrow> upd_flow p (\<lambda>f. f\<lparr>f_recv_result := m_recv_result m,
            f_timeout := Timeval (tv_sec ctv + uint (m_recv_lifetime m)) (tv_usec ctv)\<rparr>) c;
     Some (fev_none, c)
   }"

definition lifetime_end :: "pcp_recv_msg \<Rightarrow> int" where
  "lifetime_end m =
     (if uint (m_recv_lifetime m) > LONG_MAX - m_received_time m then LONG_MAX
      else m_received_time m + uint (m_recv_lifetime m))"

definition store_response :: "pcp_recv_msg \<Rightarrow> pcp_flow \<Rightarrow> pcp_flow" where
  "store_response m f =
     (let f = f\<lparr>f_recv_lifetime := lifetime_end m\<rparr>;
          op = k_operation (f_kd f);
          f = (if op = PCP_OPCODE_MAP \<or> op = PCP_OPCODE_PEER
               then f\<lparr>f_ext_ip := m_assigned_ext_ip m, f_ext_port := m_assigned_ext_port m\<rparr>
               else if op = PCP_OPCODE_SADSCP
               then f\<lparr>f_ext_ip := set_ext_byte 2 (m_recv_dscp m) (f_ext_ip f)\<rparr>
               else f)
      in f\<lparr>f_recv_result := m_recv_result m\<rparr>)"

definition fhndl_received_success :: "fid \<Rightarrow> pcp_recv_msg option \<Rightarrow> pcp_ctx \<Rightarrow> pcp_flow_event_e result" where
  "fhndl_received_success p msg c = do {
     m \<leftarrow> msg;
     c \<leftarrow> upd_flow p (store_response m) c;
     let (ctv, c) = gettimeofday c;
     c \<leftarrow> upd_flow p (\<lambda>f. f\<lparr>f_timeout :=
            (if m_recv_lifetime m = 0 then Timeval 0 0
             else Timeval (tv_sec ctv + (f_recv_lifetime f - tv_sec ctv) div 2) (tv_usec ctv))\<rparr>) c;
     Some (fev_none, c)
   }"

definition fhndl_send_renew :: "fid \<Rightarrow> pcp_ctx \<Rightarrow> pcp_flow_event_e result" where
  "fhndl_send_renew p c = do {
     f \<leftarrow> rd_flow p c;
     (case get_pcp_server (sint (f_pcp_server_indx f)) c of
        None \<Rightarrow> Some (fev_failed, c)
      | Some s \<Rightarrow> do {
          (ret, c) \<leftarrow> pcp_flow_send_msg p s c;
          if ret \<noteq> PCP_ERR_SUCCESS then Some (fev_failed, c)
          else do {
            let (ctv, c) = gettimeofday c;
            f \<leftarrow> rd_flow p c;
            let timeout_add = (f_recv_lifetime f - tv_sec ctv) div 2;
            c \<leftarrow> upd_flow p (\<lambda>f. f\<lparr>f_timeout := Timeval (tv_sec ctv + timeout_add) (tv_usec ctv)\<rparr>) c;
            Some (if timeout_add = 0 then fev_failed else fev_msg_sent, c)
          }
        })
   }"

definition fhndl_clear_timeouts :: "fid \<Rightarrow> pcp_recv_msg option \<Rightarrow> pcp_ctx \<Rightarrow> pcp_flow_event_e result" where
  "fhndl_clear_timeouts p msg c = do {
     c \<leftarrow> (case msg of None \<Rightarrow> Some c
          | Some m \<Rightarrow> upd_flow p (\<lambda>f. f\<lparr>f_recv_result := m_recv_result m\<rparr>) c);
     c \<leftarrow> pcp_flow_clear_msg_buf (Some p) c;
     c \<leftarrow> upd_flow p (\<lambda>f. f\<lparr>f_timeout := Timeval 0 0\<rparr>) c;
     Some (fev_none, c)
   }"

definition fhndl_waitresp :: "fid \<Rightarrow> pcp_ctx \<Rightarrow> pcp_flow_event_e result" where
  "fhndl_waitresp p c = do {
     let (ctv, c) = gettimeofday c;
     f \<leftarrow> rd_flow p c;
     let (r, tout, ctv) = timeval_comp (f_timeout f) ctv;
     c \<leftarrow> upd_flow p (\<lambda>f. f\<lparr>f_timeout := tout\<rparr>) c;
     Some (if r < 0 then fev_failed else fev_none, c)
   }"

section \<open>The tables\<close>

datatype flow_handler =
    Fhndl_send | Fhndl_resend | Fhndl_send_renew | Fhndl_shortlifeerror
  | Fhndl_received_success | Fhndl_clear_timeouts | Fhndl_waitresp

fun run_flow_handler ::
    "flow_handler \<Rightarrow> fid \<Rightarrow> pcp_recv_msg option \<Rightarrow> pcp_ctx \<Rightarrow> pcp_flow_event_e result" where
  "run_flow_handler Fhndl_send p msg c = fhndl_send p c"
| "run_flow_handler Fhndl_resend p msg c = fhndl_resend p c"
| "run_flow_handler Fhndl_send_renew p msg c = fhndl_send_renew p c"
| "run_flow_handler Fhndl_shortlifeerror p msg c = fhndl_shortlifeerror p msg c"
| "run_flow_handler Fhndl_received_success p msg c = fhndl_received_success p msg c"
| "run_flow_handler Fhndl_clear_timeouts p msg c = fhndl_clear_timeouts p msg c"
| "run_flow_handler Fhndl_waitresp p msg c = fhndl_waitresp p c"

definition flow_transitions :: "(pcp_flow_state_e \<times> pcp_flow_state_e \<times> flow_handler) list" where
  "flow_transitions =
   [(pfs_any, pfs_wait_resp, Fhndl_waitresp),
    (pfs_wait_resp, pfs_send, Fhndl_resend),
    (pfs_any, pfs_send, Fhndl_send),
    (pfs_any, pfs_wait_after_short_life_error, Fhndl_shortlifeerror),
    (pfs_wait_resp, pfs_wait_for_lifetime_renew, Fhndl_received_success),
    (pfs_any, pfs_send_renew, Fhndl_send_renew),
    (pfs_wait_for_lifetime_renew, pfs_wait_for_lifetime_renew, Fhndl_received_success),
    (pfs_any, pfs_wait_for_server_init, Fhndl_clear_timeouts),
    (pfs_any, pfs_failed, Fhndl_clear_timeouts)]"

definition flow_events_sm :: "(pcp_flow_state_e \<times> pcp_flow_event_e \<times> pcp_flow_state_e) list" where
  "flow_events_sm =
   [(pfs_any, fev_send, pfs_send),
    (pfs_wait_for_server_init, fev_server_initialized, pfs_send),
    (pfs_wait_resp, fev_res_success, pfs_wait_for_lifetime_renew),
    (pfs_wait_resp, fev_res_unsupp_version, pfs_wait_for_server_init),
    (pfs_wait_resp, fev_res_network_failure, pfs_wait_after_short_life_error),
    (pfs_wait_resp, fev_res_no_resources, pfs_wait_after_short_life_error),
    (pfs_wait_resp, fev_res_exc_remote_peers, pfs_wait_after_short_life_error),
    (pfs_wait_resp, fev_res_user_ex_quota, pfs_wait_after_short_life_error),
    (pfs_wait_resp, fev_flow_timedout, pfs_send),
    (pfs_wait_resp, fev_server_initialized, pfs_send),
    (pfs_send, fev_server_initialized, pfs_send),
    (pfs_send, fev_msg_sent, pfs_wait_resp),
    (pfs_send, fev_flow_timedout, pfs_send),
    (pfs_wait_after_short_life_error, fev_flow_timedout, pfs_send),
    (pfs_wait_for_lifetime_renew, fev_flow_timedout, pfs_send_renew),
    (pfs_wait_for_lifetime_renew, fev_res_success, pfs_wait_for_lifetime_renew),
    (pfs_wait_for_lifetime_renew, fev_res_unsupp_version, pfs_wait_for_server_init),
    (pfs_wait_for_lifetime_renew, fev_res_network_failure, pfs_send_renew),
    (pfs_wait_for_lifetime_renew, fev_res_no_resources, pfs_send_renew),
    (pfs_wait_for_lifetime_renew, fev_res_exc_remote_peers, pfs_send_renew),
    (pfs_wait_for_lifetime_renew, fev_failed, pfs_send),
    (pfs_wait_for_lifetime_renew, fev_res_user_ex_quota, pfs_send_renew),
    (pfs_send_renew, fev_msg_sent, pfs_wait_for_lifetime_renew),
    (pfs_send_renew, fev_flow_timedout, pfs_send_renew),
    (pfs_send_renew, fev_failed, pfs_send),
    (pfs_send, fev_ignored, pfs_wait_for_lifetime_renew),
    (pfs_any, fev_server_restarted, pfs_send),
    (pfs_any, fev_failed, pfs_failed),
    (pfs_wait_resp, fev_res_not_authorized, pfs_failed),
    (pfs_wait_resp, fev_res_malformed_request, pfs_failed),
    (pfs_wait_resp, fev_res_unsupp_opcode, pfs_failed),
    (pfs_wait_resp, fev_res_unsupp_option, pfs_failed),
    (pfs_wait_resp, fev_res_unsupp_protocol, pfs_failed),
    (pfs_wait_resp, fev_res_cant_provide_ext, pfs_failed),
    (pfs_wait_resp, fev_res_address_mismatch, pfs_failed),
    (pfs_wait_for_lifetime_renew, fev_res_not_authorized, pfs_failed),
    (pfs_wait_for_lifetime_renew, fev_res_malformed_request, pfs_failed),
    (pfs_wait_for_lifetime_renew, fev_res_unsupp_opcode, pfs_failed),
    (pfs_wait_for_lifetime_renew, fev_res_unsupp_option, pfs_failed),
    (pfs_wait_for_lifetime_renew, fev_res_unsupp_protocol, pfs_failed),
    (pfs_wait_for_lifetime_renew, fev_res_cant_provide_ext, pfs_failed),
    (pfs_wait_for_lifetime_renew, fev_res_address_mismatch, pfs_failed)]"

text \<open>The two searches of \<open>handle_flow_event\<close>: the first entry that matches.\<close>

definition flow_next_state :: "pcp_flow_state_e \<Rightarrow> pcp_flow_event_e \<Rightarrow> pcp_flow_state_e option" where
  "flow_next_state cur ev =
     map_option (\<lambda>(s, e, n). n)
       (find (\<lambda>(s, e, n). (s = cur \<or> s = pfs_any) \<and> e = ev) flow_events_sm)"

definition flow_trans_handler :: "pcp_flow_state_e \<Rightarrow> pcp_flow_state_e \<Rightarrow> flow_handler option" where
  "flow_trans_handler cur next =
     map_option (\<lambda>(s, t, h). h)
       (find (\<lambda>(s, t, h). (s = cur \<or> s = pfs_any) \<and> t = next) flow_transitions)"

section \<open>Events\<close>

partial_function (option) flow_event_loop ::
    "fid \<Rightarrow> pcp_recv_msg option \<Rightarrow> pcp_flow_state_e \<Rightarrow> pcp_flow_event_e \<Rightarrow> pcp_ctx \<Rightarrow> pcp_ctx option" where
  "flow_event_loop p r cur_state ev c =
     (case flow_next_state cur_state ev of
        None \<Rightarrow> Some c
      | Some next_state \<Rightarrow>
          Option.bind (upd_flow p (\<lambda>f. f\<lparr>f_state := next_state\<rparr>) c)
            (\<lambda>c. case flow_trans_handler cur_state next_state of
               None \<Rightarrow> Some c
             | Some h \<Rightarrow> Option.bind (run_flow_handler h p r c)
                 (\<lambda>(ev, c). if ev = fev_none then Some c
                            else flow_event_loop p r next_state ev c)))"

definition flow_change_notify :: "fid \<Rightarrow> pcp_fstate_e \<Rightarrow> pcp_ctx \<Rightarrow> pcp_ctx option" where
  "flow_change_notify p state c =
     (if \<not> c_flow_change_cb c then Some c
      else do {
        f \<leftarrow> rd_flow p c;
        let src = pcp_fill_sockaddr (k_src_ip (f_kd f)) (mp_src_port (k_map_peer (f_kd f))) False
                    (k_scope_id (f_kd f));
        let ext = (if state = pcp_state_succeeded
                   then pcp_fill_sockaddr (f_ext_ip f) (f_ext_port f) False 0 else SA_in 0 0);
        Some (c\<lparr>w_notified :=
          \<lparr>nt_flow = p, nt_src = src, nt_ext = ext, nt_state = state\<rparr> # w_notified c\<rparr>)
      })"

definition handle_flow_event ::
    "fid \<Rightarrow> pcp_flow_event_e \<Rightarrow> pcp_recv_msg option \<Rightarrow> pcp_ctx \<Rightarrow> pcp_flow_state_e result" where
  "handle_flow_event p ev r c = do {
     f \<leftarrow> rd_flow p c;
     (_, before) \<leftarrow> pcp_eval_flow_state (Some p) c;
     c \<leftarrow> flow_event_loop p r (f_state f) ev c;
     f' \<leftarrow> rd_flow p c;
     (_, after) \<leftarrow> pcp_eval_flow_state (Some p) c;
     c \<leftarrow> (if before \<noteq> after \<or> f_ext_ip f \<noteq> f_ext_ip f' \<or> f_ext_port f \<noteq> f_ext_port f'
          then flow_change_notify p after c else Some c);
     Some (f_state f', c)
   }"

section \<open>What a flow operation may change\<close>

text \<open>
  The members of a flow that no transition handler touches, and \<open>fstep p\<close>: the effect of an
  operation on the flow \<open>p\<close> is confined to that flow and to the oracles' counters and logs.
\<close>

definition flow_ident :: "pcp_flow \<Rightarrow>
    (fid option \<times> u32 \<times> flow_key_data) \<times> fid option \<times> u32 \<times> u32" where
  "flow_ident f = (flow_links f, f_next_child f, f_pcp_server_indx f, f_lifetime f)"

definition same_rest :: "pcp_ctx \<Rightarrow> pcp_ctx \<Rightarrow> bool" where
  "same_rest c c' \<longleftrightarrow> c_pcp_servers c' = c_pcp_servers c \<and> c_flows c' = c_flows c \<and>
     c_flow_cnt c' = c_flow_cnt c \<and> c_brk c' = c_brk c \<and> c_msg c' = c_msg c \<and>
     c_flow_change_cb c' = c_flow_change_cb c \<and> w_tod c' = w_tod c \<and> w_tod_i c \<le> w_tod_i c' \<and>
     w_recvfrom c' = w_recvfrom c \<and> w_sendto c' = w_sendto c"

definition fstep :: "fid \<Rightarrow> pcp_ctx \<Rightarrow> pcp_ctx \<Rightarrow> bool" where
  "fstep p c c' \<longleftrightarrow> same_rest c c' \<and>
     (\<exists>f f'. c_heap c p = Some f \<and> c_heap c' = (c_heap c)(p \<mapsto> f') \<and>
        flow_ident f' = flow_ident f \<and> msg_ok f')"

text \<open>The contract of \<open>sendto\<close>: it does not claim to have sent more than it was given.\<close>

definition world_ok :: "pcp_ctx \<Rightarrow> bool" where
  "world_ok c \<longleftrightarrow> (\<forall>i bs. w_sendto c i bs \<le> int (length bs))"

definition flow_good :: "fid \<Rightarrow> pcp_ctx \<Rightarrow> bool" where
  "flow_good p c \<longleftrightarrow> world_ok c \<and> (\<exists>f. c_heap c p = Some f \<and> msg_ok f)"

lemma same_rest_refl [simp]: "same_rest c c"
  by (simp add: same_rest_def)

lemma same_rest_trans: "same_rest a b \<Longrightarrow> same_rest b c \<Longrightarrow> same_rest a c"
  by (auto simp: same_rest_def)

lemma fstep_trans: "fstep p a b \<Longrightarrow> fstep p b c \<Longrightarrow> fstep p a c"
  unfolding fstep_def using same_rest_trans [of a b c] by auto

lemma fstep_good: "fstep p c c' \<Longrightarrow> world_ok c \<Longrightarrow> flow_good p c'"
  by (auto simp: fstep_def flow_good_def world_ok_def same_rest_def)

lemma fstep_upd:
  "same_rest c c' \<Longrightarrow> c_heap c p = Some f \<Longrightarrow> c_heap c' = (c_heap c)(p \<mapsto> f') \<Longrightarrow>
     flow_ident f' = flow_ident f \<Longrightarrow> msg_ok f' \<Longrightarrow> fstep p c c'"
  unfolding fstep_def by blast

lemma fstep_refl: "flow_good p c \<Longrightarrow> fstep p c c"
  by (auto simp: flow_good_def fun_upd_idem intro: fstep_upd [of c c p f f for f])

lemma fstep_same_db: "fstep p c c' \<Longrightarrow> same_db c c'"
  by (auto simp: fstep_def same_db_def same_rest_def flow_ident_def)

lemma fstep_world:
  "fstep p c c' \<Longrightarrow> c_heap d = c_heap c' \<Longrightarrow> same_rest c' d \<Longrightarrow> fstep p c d"
  unfolding fstep_def using same_rest_trans [of c c' d] by auto

text \<open>Sequencing: after a step the flow is good again and the rest of the computation goes on.\<close>

lemma fstep_bind:
  assumes "runs m (\<lambda>(x, c'). fstep p c c' \<and> P x c')" "world_ok c"
    and "\<And>x c'. flow_good p c' \<Longrightarrow> P x c' \<Longrightarrow> runs (k x c') (\<lambda>(y, c''). fstep p c' c'' \<and> Q y c'')"
  shows "runs (Option.bind m (\<lambda>(x, c'). k x c')) (\<lambda>(y, c''). fstep p c c'' \<and> Q y c'')"
proof -
  from assms(1) obtain x c' where m: "m = Some (x, c')" "fstep p c c'" "P x c'"
    by (auto elim!: runsE)
  have "runs (k x c') (\<lambda>(y, c''). fstep p c' c'' \<and> Q y c'')"
    using assms(3) fstep_good [OF m(2) assms(2)] m(3) by blast
  then have "runs (k x c') (\<lambda>(y, c''). fstep p c c'' \<and> Q y c'')"
    by (rule runs_mono) (use fstep_trans [OF m(2)] in auto)
  with m(1) show ?thesis by simp
qed

lemma upd_flow_fstep:
  assumes "flow_good p c" "\<And>f. flow_ident (g f) = flow_ident f" "\<And>f. msg_ok f \<Longrightarrow> msg_ok (g f)"
  shows "runs (upd_flow p g c) (fstep p c)"
proof -
  from assms(1) obtain f where f: "c_heap c p = Some f" "msg_ok f" by (auto simp: flow_good_def)
  then show ?thesis
    using assms(2,3) [of f] by (auto simp: upd_flow_def same_rest_def intro: fstep_upd)
qed

lemma upd_flow_bind:
  assumes "flow_good p c" "\<And>f. flow_ident (g f) = flow_ident f" "\<And>f. msg_ok f \<Longrightarrow> msg_ok (g f)"
    and "\<And>c'. flow_good p c' \<Longrightarrow> fstep p c c' \<Longrightarrow> runs (k c') (\<lambda>(y, c''). fstep p c' c'' \<and> Q y c'')"
  shows "runs (Option.bind (upd_flow p g c) k) (\<lambda>(y, c''). fstep p c c'' \<and> Q y c'')"
proof -
  from upd_flow_fstep [OF assms(1-3)] obtain c' where c': "upd_flow p g c = Some c'" "fstep p c c'"
    by (auto elim!: runsE)
  with assms(1) have "flow_good p c'" using fstep_good by (auto simp: flow_good_def)
  from assms(4) [OF this c'(2)] have "runs (k c') (\<lambda>(y, c''). fstep p c c'' \<and> Q y c'')"
    by (rule runs_mono) (use fstep_trans [OF c'(2)] in auto)
  with c'(1) show ?thesis by simp
qed

lemma flow_good_world: "flow_good p c \<Longrightarrow> c_heap d = c_heap c \<Longrightarrow> same_rest c d \<Longrightarrow> flow_good p d"
  by (simp add: flow_good_def world_ok_def same_rest_def)

lemma world_step:
  assumes "flow_good p c" "c_heap d = c_heap c" "same_rest c d"
  shows "fstep p c d"
  using fstep_world [OF fstep_refl [OF assms(1)] assms(2,3)] .

section \<open>Handlers are total and local\<close>

lemma send_loop_runs:
  "world_ok c \<Longrightarrow> len \<le> length buf \<Longrightarrow> n \<le> len \<Longrightarrow>
   runs (send_loop buf len src dst n c) (\<lambda>(r, c'). c_heap c' = c_heap c \<and> same_rest c c')"
proof (induction buf len src dst n c rule: send_loop.induct)
  case (1 buf len src dst n c)
  show ?case
  proof (cases "n = 0")
    case False
    then obtain bs where bs: "peek (len - n) n buf = Some bs" "length bs = n"
      using 1 by (auto simp: peek_def)
    let ?r = "w_sendto c (w_sendto_i c) bs"
    obtain c1 where c1: "pcp_socket_sendto bs src dst c = (?r, c1)" "c_heap c1 = c_heap c" "same_rest c c1"
      by (simp add: pcp_socket_sendto_def same_rest_def Let_def)
    have le: "?r \<le> int n" using 1(2) bs(2) by (auto simp: world_ok_def)
    have w: "world_ok c1" using c1 1(2) by (simp add: world_ok_def same_rest_def)
    show ?thesis
    proof (cases "?r \<le> 0")
      case True
      then show ?thesis using c1 bs False by (subst send_loop.simps) simp
    next
      case pos: False
      have "runs (send_loop buf len src dst (n - nat ?r) c1) (\<lambda>(r, c'). c_heap c' = c_heap c1 \<and> same_rest c1 c')"
        using 1(1) [OF False bs(1) refl _ pos _ w] c1 le 1(3,4) by (simp add: nat_le_iff)
      then have "runs (send_loop buf len src dst (n - nat ?r) c1) (\<lambda>(r, c'). c_heap c' = c_heap c \<and> same_rest c c')"
        by (rule runs_mono) (use c1 same_rest_trans in auto)
      then show ?thesis using c1 bs False pos le by (subst send_loop.simps) simp
    qed
  qed (simp add: send_loop.simps)
qed

lemma flow_good_rd: "flow_good p c \<Longrightarrow> \<exists>f. rd_flow p c = Some f \<and> c_heap c p = Some f \<and> msg_ok f"
  by (auto simp: flow_good_def rd_flow_def)

lemma same_but_msg_ident: "same_but_msg f g \<Longrightarrow> flow_ident g = flow_ident f"
  by (cases f; cases g) (simp add: same_but_msg_def flow_ident_def flow_links_def)

text \<open>Updates of members that the message invariant does not depend on.\<close>

lemma msg_ok_simps [simp]:
  "msg_ok (f\<lparr>f_state := s\<rparr>) = msg_ok f" "msg_ok (f\<lparr>f_timeout := t\<rparr>) = msg_ok f"
  "msg_ok (f\<lparr>f_resend_timeout := r\<rparr>) = msg_ok f" "msg_ok (f\<lparr>f_retry_count := n\<rparr>) = msg_ok f"
  "msg_ok (f\<lparr>f_recv_result := x\<rparr>) = msg_ok f" "msg_ok (f\<lparr>f_recv_lifetime := l\<rparr>) = msg_ok f"
  by (simp_all add: msg_ok_def flow_wf_def f_app_name_length_def split: option.split)

lemma flow_ident_simps [simp]:
  "flow_ident (f\<lparr>f_state := s\<rparr>) = flow_ident f" "flow_ident (f\<lparr>f_timeout := t\<rparr>) = flow_ident f"
  "flow_ident (f\<lparr>f_resend_timeout := r\<rparr>) = flow_ident f"
  "flow_ident (f\<lparr>f_retry_count := n\<rparr>) = flow_ident f"
  "flow_ident (f\<lparr>f_recv_result := x\<rparr>) = flow_ident f"
  "flow_ident (f\<lparr>f_recv_lifetime := l\<rparr>) = flow_ident f"
  "flow_ident (f\<lparr>f_pcp_msg_buffer := b, f_pcp_msg_len := m\<rparr>) = flow_ident f"
  by (simp_all add: flow_ident_def flow_links_def)

lemma msg_ok_cleared: "msg_ok f \<Longrightarrow> msg_ok (f\<lparr>f_pcp_msg_buffer := None, f_pcp_msg_len := 0\<rparr>)"
  by (simp add: msg_ok_def flow_wf_def f_app_name_length_def)

lemma clear_msg_buf_fstep: "flow_good p c \<Longrightarrow> runs (pcp_flow_clear_msg_buf (Some p) c) (fstep p c)"
  by (simp add: pcp_flow_clear_msg_buf_def upd_flow_fstep msg_ok_cleared)

lemma tod_good:
  assumes "flow_good p c" "gettimeofday c = (t, d)"
  shows "flow_good p d" "fstep p c d"
  using assms flow_good_world [of p c d] world_step [of p c d]
  by (auto simp: gettimeofday_def same_rest_def)

lemma random_good:
  assumes "flow_good p c" "random_next c = (t, d)"
  shows "flow_good p d" "fstep p c d"
  using assms flow_good_world [of p c d] world_step [of p c d]
  by (auto simp: random_next_def same_rest_def)

lemma set_resend_timeout_fstep: "flow_good p c \<Longrightarrow> runs (set_resend_timeout p rt c) (fstep p c)"
proof -
  assume good: "flow_good p c"
  obtain t d where td: "gettimeofday c = (t, d)" by fastforce
  from tod_good [OF good td] have d: "flow_good p d" "fstep p c d" .
  show ?thesis
    using td runs_mono [OF upd_flow_fstep [OF d(1)]] fstep_trans [OF d(2)]
    by (simp add: set_resend_timeout_def)
qed

text \<open>The first part of \<open>pcp_flow_send_msg\<close>: there is a message, or it cannot be built.\<close>

lemma build_fstep: "flow_good p c \<Longrightarrow> runs (map_option snd (build_pcp_msg (Some p) c)) (fstep p c)"
proof -
  assume good: "flow_good p c"
  then obtain f where f: "c_heap c p = Some f" "msg_ok f" by (auto simp: flow_good_def)
  from build_pcp_msg_runs [OF this] obtain r f' i where
    "build_pcp_msg (Some p) c = Some (r, c\<lparr>c_heap := (c_heap c)(p \<mapsto> f'), w_alloc_i := i\<rparr>)"
    "msg_ok f'" "same_but_msg f f'" by (auto elim!: runsE)
  with f show ?thesis
    by (auto simp: same_rest_def same_but_msg_ident intro!: fstep_upd)
qed

lemma send_loop_result:
  "yields (send_loop buf len src dst n c) (\<lambda>(r, c'). r \<in> {PCP_ERR_SUCCESS, PCP_ERR_SEND_FAILED})"
proof (induction buf len src dst n c rule: send_loop.induct)
  case (1 buf len src dst n c)
  then show ?case
    by (subst send_loop.simps) (auto simp: Let_def split: option.splits prod.splits)
qed

lemma send_msg_fstep:
  assumes good: "flow_good p c" and s: "s < length (c_pcp_servers c)"
  shows "runs (pcp_flow_send_msg p s c) (\<lambda>(r, c'). fstep p c c' \<and> r \<in> {PCP_ERR_SUCCESS, PCP_ERR_SEND_FAILED})"
proof -
  obtain f0 where f0: "rd_flow p c = Some f0" using flow_good_rd [OF good] by blast
  have "runs (if f_pcp_msg_buffer f0 = None \<or> f_pcp_msg_len f0 = 0
          then map_option snd (build_pcp_msg (Some p) c) else Some c) (fstep p c)"
    using build_fstep [OF good] fstep_refl [OF good] by simp
  then obtain c1 where c1: "(if f_pcp_msg_buffer f0 = None \<or> f_pcp_msg_len f0 = 0
          then map_option snd (build_pcp_msg (Some p) c) else Some c) = Some c1" "fstep p c c1"
    by (auto elim!: runsE)
  have good1: "flow_good p c1" using fstep_good [OF c1(2)] good by (simp add: flow_good_def)
  then obtain f where f: "rd_flow p c1 = Some f" "msg_ok f" using flow_good_rd by blast
  have srv: "rd_server s c1 = Some (c_pcp_servers c ! s)"
    using c1(2) s by (auto simp: fstep_def same_rest_def rd_server_def)
  show ?thesis
  proof (cases "f_pcp_msg_buffer f")
    case None
    then show ?thesis using c1 f0 f by (simp add: pcp_flow_send_msg_def)
  next
    case (Some buf)
    let ?send = "send_loop buf (f_pcp_msg_len f) (pcp_fill_sockaddr (k_src_ip (f_kd f)) 0 True
        (s_pcp_scope_id (c_pcp_servers c ! s))) (s_pcp_server_saddr (c_pcp_servers c ! s)) (f_pcp_msg_len f) c1"
    have "runs ?send (\<lambda>(r, c'). c_heap c' = c_heap c1 \<and> same_rest c1 c')"
      using good1 f(2) Some by (intro send_loop_runs) (auto simp: flow_good_def msg_ok_def)
    then obtain r c2 where c2: "?send = Some (r, c2)" "c_heap c2 = c_heap c1" "same_rest c1 c2"
      by (auto elim!: runsE)
    then have st: "fstep p c c2" "flow_good p c2"
      using fstep_world [OF c1(2)] flow_good_world [OF good1] by auto
    have "r \<in> {PCP_ERR_SUCCESS, PCP_ERR_SEND_FAILED}"
      using yieldsD [OF send_loop_result c2(1)] by simp
    then show ?thesis
      using clear_msg_buf_fstep [OF st(2)] fstep_trans [OF st(1)] c1 f0 f srv Some c2(1) st
      by (auto simp: pcp_flow_send_msg_def elim!: runs_mono)
  qed
qed

lemma app_name_length_byte: "f_app_name_length f = u32_bytes (w0 (f_ext_ip f)) ! 1"
  by (simp add: f_app_name_length_def u32_bytes_def)

lemma learned_dscp_byte: "f_learned_dscp f = u32_bytes (w0 (f_ext_ip f)) ! 2"
  by (simp add: f_learned_dscp_def u32_bytes_def)

lemma set_ext_byte_bytes: "u32_bytes (w0 (set_ext_byte i b a)) = (u32_bytes (w0 a))[i := b]"
  by (simp add: set_ext_byte_def u32c.enc_dec)

lemma store_response_ident: "flow_ident (store_response m f) = flow_ident f"
  by (simp add: store_response_def Let_def flow_ident_def flow_links_def)

lemma store_response_msg_ok:
  assumes "msg_ok f" shows "msg_ok (store_response m f)"
proof -
  have "flow_wf (store_response m f)"
    using assms
    by (auto simp: msg_ok_def flow_wf_def store_response_def Let_def app_name_length_byte set_ext_byte_bytes)
  with assms show ?thesis
    by (auto simp: msg_ok_def store_response_def Let_def split: option.splits)
qed

fun handler_events :: "flow_handler \<Rightarrow> pcp_flow_event_e set" where
  "handler_events Fhndl_send = {fev_failed, fev_ignored, fev_msg_sent}"
| "handler_events Fhndl_resend = {fev_failed, fev_msg_sent}"
| "handler_events Fhndl_send_renew = {fev_failed, fev_msg_sent}"
| "handler_events Fhndl_waitresp = {fev_failed, fev_none}"
| "handler_events _ = {fev_none}"

abbreviation hpost :: "fid \<Rightarrow> pcp_ctx \<Rightarrow> flow_handler \<Rightarrow> pcp_flow_event_e \<times> pcp_ctx \<Rightarrow> bool" where
  "hpost p c h r \<equiv> fstep p c (snd r) \<and> fst r \<in> handler_events h"

lemma fstep_then:
  assumes "runs m (fstep p c)" "flow_good p c"
    and "\<And>c'. fstep p c c' \<Longrightarrow> flow_good p c' \<Longrightarrow> runs (k c') Q"
  shows "runs (Option.bind m k) Q"
proof -
  from assms(1) obtain c' where "m = Some c'" "fstep p c c'" by (auto elim!: runsE)
  moreover from this have "flow_good p c'" using fstep_good assms(2) by (auto simp: flow_good_def)
  ultimately show ?thesis using assms(3) by simp
qed

lemma send_then:
  assumes "flow_good p c" "s < length (c_pcp_servers c)"
    and "\<And>r c'. fstep p c c' \<Longrightarrow> flow_good p c' \<Longrightarrow> runs (k r c') Q"
  shows "runs (Option.bind (pcp_flow_send_msg p s c) (\<lambda>(r, c'). k r c')) Q"
proof -
  from send_msg_fstep [OF assms(1,2)] obtain r c' where "pcp_flow_send_msg p s c = Some (r, c')" "fstep p c c'"
    by (auto elim!: runsE)
  moreover from this have "flow_good p c'" using fstep_good assms(1) by (auto simp: flow_good_def)
  ultimately show ?thesis using assms(3) by simp
qed

lemma fhndl_send_runs:
  assumes good: "flow_good p c"
  shows "runs (fhndl_send p c) (hpost p c Fhndl_send)"
proof -
  obtain f where f: "rd_flow p c = Some f" using flow_good_rd [OF good] by blast
  show ?thesis
  proof (cases "get_pcp_server (sint (f_pcp_server_indx f)) c")
    case None
    then show ?thesis using f fstep_refl [OF good] by (simp add: fhndl_send_def)
  next
    case (Some s)
    then have s: "s < length (c_pcp_servers c)" by (simp add: get_pcp_server_Some)
    then have srv: "rd_server s c = Some (c_pcp_servers c ! s)" by (simp add: rd_server_def)
    show ?thesis
    proof (cases "s_restart_flow_msg (c_pcp_servers c ! s) = Some p")
      case True
      then show ?thesis using f Some srv fstep_refl [OF good] by (simp add: fhndl_send_def)
    next
      case False
      have "runs (Option.bind (pcp_flow_send_msg p s c) (\<lambda>(ret, c'). if ret \<noteq> PCP_ERR_SUCCESS
          then Some (fev_failed, c')
          else Option.bind (set_resend_timeout p PCP_RETX_IRT c') (\<lambda>c. Some (fev_msg_sent, c))))
        (hpost p c Fhndl_send)"
      proof (rule send_then [OF good s])
        fix r c' assume c': "fstep p c c'" "flow_good p c'"
        show "runs (if r \<noteq> PCP_ERR_SUCCESS then Some (fev_failed, c')
            else Option.bind (set_resend_timeout p PCP_RETX_IRT c') (\<lambda>c. Some (fev_msg_sent, c)))
          (hpost p c Fhndl_send)"
          using c'(1) runs_mono [OF set_resend_timeout_fstep [OF c'(2)]] fstep_trans [OF c'(1)] by simp
      qed
      then show ?thesis using f Some srv False by (simp add: fhndl_send_def)
    qed
  qed
qed

text \<open>The tail of a resend: the new timeout is computed from the old one and a random number.\<close>

lemma resend_tail_runs:
  assumes "flow_good p c"
  shows "runs (do { f \<leftarrow> rd_flow p c;
                    let (rnd, c) = random_next c;
                    c \<leftarrow> set_resend_timeout p (PCP_RT rnd (f_resend_timeout f)) c;
                    Some (fev_msg_sent, c) }) (hpost p c Fhndl_resend)"
proof -
  obtain f where f: "rd_flow p c = Some f" using flow_good_rd [OF assms] by blast
  obtain rnd d where d: "random_next c = (rnd, d)" by fastforce
  note gd = random_good [OF assms d]
  show ?thesis
    using f d runs_mono [OF set_resend_timeout_fstep [OF gd(1)]] fstep_trans [OF gd(2)] by simp
qed

lemma fhndl_resend_runs:
  assumes good: "flow_good p c"
  shows "runs (fhndl_resend p c) (hpost p c Fhndl_resend)"
proof -
  obtain f where f: "rd_flow p c = Some f" using flow_good_rd [OF good] by blast
  show ?thesis
  proof (cases "get_pcp_server (sint (f_pcp_server_indx f)) c")
    case None
    then show ?thesis using f fstep_refl [OF good] by (simp add: fhndl_resend_def)
  next
    case (Some s)
    then have s: "s < length (c_pcp_servers c)" by (simp add: get_pcp_server_Some)
    show ?thesis
      unfolding fhndl_resend_def f bind.simps Some option.case
    proof (rule fstep_then [OF upd_flow_fstep [OF good]])
      fix c1 assume c1: "fstep p c c1" "flow_good p c1"
      then have s1: "s < length (c_pcp_servers c1)" using s by (simp add: fstep_def same_rest_def)
      show "runs (if f_retry_count f + 1 \<ge> PCP_RETX_MRC then Some (fev_failed, c1)
          else Option.bind (pcp_flow_send_msg p s c1) (\<lambda>(ret, c). if ret \<noteq> PCP_ERR_SUCCESS then Some (fev_failed, c)
            else do { f \<leftarrow> rd_flow p c; let (rnd, c) = random_next c;
                      c \<leftarrow> set_resend_timeout p (PCP_RT rnd (f_resend_timeout f)) c; Some (fev_msg_sent, c) }))
        (hpost p c Fhndl_resend)"
      proof (split if_split, intro conjI impI)
        show "runs (Option.bind (pcp_flow_send_msg p s c1) (\<lambda>(ret, c). if ret \<noteq> PCP_ERR_SUCCESS then Some (fev_failed, c)
            else do { f \<leftarrow> rd_flow p c; let (rnd, c) = random_next c;
                      c \<leftarrow> set_resend_timeout p (PCP_RT rnd (f_resend_timeout f)) c; Some (fev_msg_sent, c) }))
          (hpost p c Fhndl_resend)"
        proof (rule send_then [OF c1(2) s1])
          fix r c2 assume c2: "fstep p c1 c2" "flow_good p c2"
          note step = fstep_trans [OF c1(1) c2(1)]
          show "runs (if r \<noteq> PCP_ERR_SUCCESS then Some (fev_failed, c2)
              else do { f \<leftarrow> rd_flow p c2; let (rnd, c) = random_next c2;
                      c \<leftarrow> set_resend_timeout p (PCP_RT rnd (f_resend_timeout f)) c; Some (fev_msg_sent, c) })
            (hpost p c Fhndl_resend)"
            using step runs_mono [OF resend_tail_runs [OF c2(2)]] fstep_trans [OF step] by simp
        qed
      qed (use c1 in simp)
    qed (use good in simp_all)
  qed
qed

lemma fhndl_send_renew_runs:
  assumes good: "flow_good p c"
  shows "runs (fhndl_send_renew p c) (hpost p c Fhndl_send_renew)"
proof -
  obtain f where f: "rd_flow p c = Some f" using flow_good_rd [OF good] by blast
  show ?thesis
  proof (cases "get_pcp_server (sint (f_pcp_server_indx f)) c")
    case None
    then show ?thesis using f fstep_refl [OF good] by (simp add: fhndl_send_renew_def)
  next
    case (Some s)
    then have s: "s < length (c_pcp_servers c)" by (simp add: get_pcp_server_Some)
    show ?thesis
      unfolding fhndl_send_renew_def f bind.simps Some option.case
    proof (rule send_then [OF good s])
      fix r c1 assume c1: "fstep p c c1" "flow_good p c1"
      obtain t d where d: "gettimeofday c1 = (t, d)" by fastforce
      note gd = tod_good [OF c1(2) d]
      obtain g where g: "rd_flow p d = Some g" using flow_good_rd [OF gd(1)] by blast
      note step = fstep_trans [OF c1(1) gd(2)]
      have "runs (upd_flow p (\<lambda>f. f\<lparr>f_timeout := Timeval (tv_sec t + (f_recv_lifetime g - tv_sec t) div 2) (tv_usec t)\<rparr>) d)
          (fstep p c)"
        by (rule runs_mono [OF upd_flow_fstep [OF gd(1)]]) (use fstep_trans [OF step] in simp_all)
      then show "runs (if r \<noteq> PCP_ERR_SUCCESS then Some (fev_failed, c1)
          else let (ctv, c) = gettimeofday c1 in
            Option.bind (rd_flow p c) (\<lambda>f.
              let timeout_add = (f_recv_lifetime f - tv_sec ctv) div 2 in
              Option.bind (upd_flow p (\<lambda>f. f\<lparr>f_timeout := Timeval (tv_sec ctv + timeout_add) (tv_usec ctv)\<rparr>) c)
                (\<lambda>c. Some (if timeout_add = 0 then fev_failed else fev_msg_sent, c))))
        (hpost p c Fhndl_send_renew)"
        using c1(1) d g by (auto simp: Let_def elim!: runs_mono)
    qed
  qed
qed

lemma fhndl_shortlifeerror_runs:
  "flow_good p c \<Longrightarrow> runs (fhndl_shortlifeerror p (Some m) c) (hpost p c Fhndl_shortlifeerror)"
  by (auto simp: flow_good_def fhndl_shortlifeerror_def gettimeofday_def upd_flow_def same_rest_def
      intro!: fstep_upd)

lemma fhndl_received_success_runs:
  "flow_good p c \<Longrightarrow> runs (fhndl_received_success p (Some m) c) (hpost p c Fhndl_received_success)"
  by (auto simp: flow_good_def fhndl_received_success_def gettimeofday_def upd_flow_def same_rest_def
      store_response_ident store_response_msg_ok intro!: fstep_upd)

lemma fhndl_clear_timeouts_runs:
  "flow_good p c \<Longrightarrow> runs (fhndl_clear_timeouts p msg c) (hpost p c Fhndl_clear_timeouts)"
  by (cases msg) (auto simp: flow_good_def fhndl_clear_timeouts_def pcp_flow_clear_msg_buf_def
      upd_flow_def same_rest_def msg_ok_cleared intro!: fstep_upd)

lemma fhndl_waitresp_runs:
  "flow_good p c \<Longrightarrow> runs (fhndl_waitresp p c) (hpost p c Fhndl_waitresp)"
  by (auto simp: flow_good_def fhndl_waitresp_def gettimeofday_def rd_flow_def upd_flow_def same_rest_def
      split: prod.splits intro!: fstep_upd)

text \<open>Handlers that look into the received message.\<close>

definition needs_msg :: "flow_handler \<Rightarrow> bool" where
  "needs_msg h \<longleftrightarrow> h = Fhndl_shortlifeerror \<or> h = Fhndl_received_success"

lemma run_flow_handler_runs:
  assumes "flow_good p c" "needs_msg h \<Longrightarrow> msg \<noteq> None"
  shows "runs (run_flow_handler h p msg c) (hpost p c h)"
  using assms fhndl_send_runs [OF assms(1)] fhndl_resend_runs [OF assms(1)] fhndl_send_renew_runs [OF assms(1)]
    fhndl_shortlifeerror_runs [OF assms(1)] fhndl_received_success_runs [OF assms(1)]
    fhndl_clear_timeouts_runs [OF assms(1)] fhndl_waitresp_runs [OF assms(1)]
  by (cases h) (auto simp: needs_msg_def)

section \<open>The tables as searches\<close>

interpretation fev: first_match "\<lambda>(cur, ev). flow_next_state cur ev" flow_events_sm
  "\<lambda>(cur, ev) (s, e, n). (s = cur \<or> s = pfs_any) \<and> e = ev" "\<lambda>(s, e, n). n"
  by unfold_locales (auto simp: flow_next_state_def)

interpretation ftr: first_match "\<lambda>(cur, next). flow_trans_handler cur next" flow_transitions
  "\<lambda>(cur, next) (s, t, h). (s = cur \<or> s = pfs_any) \<and> t = next" "\<lambda>(s, t, h). h"
  by unfold_locales (auto simp: flow_trans_handler_def)

section \<open>Every event is processed in finitely many steps\<close>

text \<open>
  A bound on the handlers that still run when a handler has left the flow in a state with a
  pending event.
\<close>

definition pending_rank :: "pcp_flow_state_e \<Rightarrow> pcp_flow_event_e \<Rightarrow> nat" where
  "pending_rank st ev =
     (if ev = fev_failed then if st \<in> {pfs_send_renew, pfs_wait_for_lifetime_renew} then 4 else 2
      else if ev = fev_msg_sent then if st = pfs_send then 3 else 1
      else if ev = fev_ignored then 1
      else 5)"

text \<open>A response's event comes with the response; the others do not need it.\<close>

definition event_has_msg :: "pcp_flow_event_e \<Rightarrow> pcp_recv_msg option \<Rightarrow> bool" where
  "event_has_msg ev msg \<longleftrightarrow> (case ev of fev_res r \<Rightarrow> msg \<noteq> None | _ \<Rightarrow> True)"

lemma next_state_entry:
  "flow_next_state cur ev = Some n \<Longrightarrow> \<exists>s. (s, ev, n) \<in> set flow_events_sm \<and> (s = cur \<or> s = pfs_any)"
  using fev.look_in_table [of "(cur, ev)" n] by auto

lemma trans_handler_entry:
  "flow_trans_handler cur n = Some h \<Longrightarrow> \<exists>s. (s, n, h) \<in> set flow_transitions \<and> (s = cur \<or> s = pfs_any)"
  using ftr.look_in_table [of "(cur, n)" h] by auto

lemma trans_needs_msg:
  assumes "flow_next_state cur ev = Some n" "flow_trans_handler cur n = Some h" "event_has_msg ev msg"
    and "needs_msg h"
  shows "msg \<noteq> None"
proof -
  have "n = pfs_wait_after_short_life_error \<or>
      n = pfs_wait_for_lifetime_renew \<and> (cur = pfs_wait_resp \<or> cur = pfs_wait_for_lifetime_renew)"
    using trans_handler_entry [OF assms(2)] assms(4) by (auto simp: flow_transitions_def needs_msg_def)
  then have "\<exists>r. ev = fev_res r"
    using next_state_entry [OF assms(1)] by (auto simp: flow_events_sm_def)
  with assms(3) show ?thesis by (auto simp: event_has_msg_def)
qed

lemma rank_decreases:
  assumes "flow_next_state cur ev = Some n" "flow_trans_handler cur n = Some h"
    and "ev' \<in> handler_events h" "ev' \<noteq> fev_none"
  shows "pending_rank n ev' < pending_rank cur ev"
proof -
  have "h \<in> {Fhndl_send, Fhndl_resend, Fhndl_send_renew, Fhndl_waitresp}"
    using assms(3,4) by (cases h) auto
  then have n: "n = pfs_send \<and> h \<in> {Fhndl_send, Fhndl_resend} \<or> n = pfs_send_renew \<and> h = Fhndl_send_renew
      \<or> n = pfs_wait_resp \<and> h = Fhndl_waitresp"
    using trans_handler_entry [OF assms(2)] by (auto simp: flow_transitions_def)
  obtain s where s: "(s, ev, n) \<in> set flow_events_sm" "s = cur \<or> s = pfs_any"
    using next_state_entry [OF assms(1)] by blast
  then have "n = pfs_wait_resp \<Longrightarrow> cur = pfs_send \<and> ev = fev_msg_sent"
      "n = pfs_send \<Longrightarrow> pending_rank cur ev \<ge> 4" "n = pfs_send_renew \<Longrightarrow> pending_rank cur ev = 5"
    by (auto simp: flow_events_sm_def pending_rank_def)
  with n assms(3,4) show ?thesis by (auto simp: pending_rank_def split: if_splits)
qed

lemma flow_event_loop_runs:
  "flow_good p c \<Longrightarrow> event_has_msg ev r \<Longrightarrow> runs (flow_event_loop p r cur ev c) (fstep p c)"
proof (induction "pending_rank cur ev" arbitrary: cur ev c rule: less_induct)
  case less
  note good = less.prems(1)
  show ?case
  proof (cases "flow_next_state cur ev")
    case None
    then show ?thesis using fstep_refl [OF good] by (subst flow_event_loop.simps) simp
  next
    case (Some n)
    have "runs (upd_flow p (\<lambda>f. f\<lparr>f_state := n\<rparr>) c) (fstep p c)" by (rule upd_flow_fstep [OF good]) simp_all
    then obtain c1 where c1: "upd_flow p (\<lambda>f. f\<lparr>f_state := n\<rparr>) c = Some c1" "fstep p c c1"
      by (auto elim!: runsE)
    then have good1: "flow_good p c1" using fstep_good good by (auto simp: flow_good_def)
    show ?thesis
    proof (cases "flow_trans_handler cur n")
      case None
      then show ?thesis using Some c1 by (subst flow_event_loop.simps) simp
    next
      case h: (Some h)
      have "runs (run_flow_handler h p r c1) (hpost p c1 h)"
        using trans_needs_msg [OF Some h less.prems(2)] by (intro run_flow_handler_runs [OF good1])
      then obtain ev' c2 where c2: "run_flow_handler h p r c1 = Some (ev', c2)" "fstep p c1 c2"
          "ev' \<in> handler_events h" by (auto elim!: runsE)
      have good2: "flow_good p c2" using fstep_good [OF c2(2)] good1 by (simp add: flow_good_def)
      note step = fstep_trans [OF c1(2) c2(2)]
      have "runs (flow_event_loop p r n ev' c2) (fstep p c)" if "ev' \<noteq> fev_none"
      proof -
        have "event_has_msg ev' r" using c2(3) by (cases h) (auto simp: event_has_msg_def)
        from less.hyps [OF rank_decreases [OF Some h c2(3) that] good2 this]
        show ?thesis by (rule runs_mono) (rule fstep_trans [OF step])
      qed
      then show ?thesis
        using Some h c1 c2 step by (subst flow_event_loop.simps) auto
    qed
  qed
qed

section \<open>A flow and its children\<close>

fun kids :: "(fid \<Rightarrow> pcp_flow option) \<Rightarrow> fid option \<Rightarrow> fid list \<Rightarrow> bool" where
  "kids h p [] \<longleftrightarrow> p = None"
| "kids h p (x # xs) \<longleftrightarrow> p = Some x \<and> (\<exists>f. h x = Some f \<and> kids h (f_next_child f) xs)"

lemma kids_cong:
  "\<forall>x\<in>set xs. map_option f_next_child (h' x) = map_option f_next_child (h x) \<Longrightarrow> kids h' p xs = kids h p xs"
proof (induction xs arbitrary: p)
  case (Cons x xs)
  from Cons.prems have "map_option f_next_child (h' x) = map_option f_next_child (h x)" by simp
  with Cons show ?case by (cases "h x"; cases "h' x") auto
qed simp

lemma fstep_kids: "fstep p c c' \<Longrightarrow> kids (c_heap c') q xs = kids (c_heap c) q xs"
  by (rule kids_cong) (auto simp: fstep_def flow_ident_def)

abbreviation state_of :: "pcp_ctx \<Rightarrow> fid \<Rightarrow> pcp_flow_state_e" where
  "state_of c p \<equiv> f_state (the (c_heap c p))"

lemma eval_children_fold:
  "kids (c_heap c) p xs \<Longrightarrow> eval_children p c e = Some (fold (\<lambda>x. eval_step (state_of c x)) xs e)"
proof (induction xs arbitrary: p e)
  case Nil
  then show ?case by (subst eval_children.simps) simp
next
  case (Cons x xs)
  then obtain f where f: "p = Some x" "c_heap c x = Some f" "kids (c_heap c) (f_next_child f) xs" by auto
  with Cons.IH [OF f(3)] show ?case by (subst eval_children.simps) (simp add: rd_flow_def)
qed

text \<open>The states in which a flow has a result.\<close>

definition exit_state :: "pcp_flow_state_e \<Rightarrow> bool" where
  "exit_state st \<longleftrightarrow> st \<in> {pfs_wait_for_lifetime_renew, pfs_failed, pfs_wait_after_short_life_error}"

lemma exit_state_simps [simp]:
  "exit_state pfs_wait_for_lifetime_renew" "exit_state pfs_failed"
  "exit_state pfs_wait_after_short_life_error" "\<not> exit_state pfs_any" "\<not> exit_state pfs_idle"
  "\<not> exit_state pfs_wait_for_server_init" "\<not> exit_state pfs_send" "\<not> exit_state pfs_wait_resp"
  "\<not> exit_state pfs_send_renew"
  by (simp_all add: exit_state_def)

lemma eval_fold:
  "fold eval_step ss e = \<lparr>e_nexit_states = e_nexit_states e + length (filter exit_state ss),
     e_no_exit_state = (e_no_exit_state e \<or> (\<exists>s\<in>set ss. \<not> exit_state s)),
     e_success = (e_success e \<or> pfs_wait_for_lifetime_renew \<in> set ss),
     e_failed = (e_failed e \<or> pfs_failed \<in> set ss)\<rparr>"
proof (induction ss arbitrary: e)
  case (Cons s ss)
  show ?case unfolding fold_simps comp_apply Cons.IH by (cases s) (auto simp: eval_step_def)
qed simp

text \<open>What a set of flow states amounts to.\<close>

definition result_spec :: "pcp_flow_state_e set \<Rightarrow> pcp_fstate_e" where
  "result_spec S =
     (if \<exists>s\<in>S. \<not> exit_state s
      then if pfs_wait_for_lifetime_renew \<in> S then pcp_state_partial_result else pcp_state_processing
      else if pfs_wait_for_lifetime_renew \<in> S then pcp_state_succeeded
      else if pfs_failed \<in> S then pcp_state_failed
      else pcp_state_short_lifetime_error)"

lemma eval_flow_state_list:
  assumes "kids (c_heap c) p xs"
  shows "pcp_eval_flow_state p c =
    Some (length (filter exit_state (map (state_of c) xs)), result_spec (set (map (state_of c) xs)))"
proof -
  have "fold (\<lambda>x. eval_step (state_of c x)) xs e = fold eval_step (map (state_of c) xs) e" for e
    by (induction xs arbitrary: e) simp_all
  then show ?thesis
    by (simp add: pcp_eval_flow_state_def eval_children_fold [OF assms] eval_fold eval_result_def result_spec_def)
qed

lemma notify_same:
  "flow_good p c \<Longrightarrow> runs (flow_change_notify p st c) (\<lambda>c'. c_heap c' = c_heap c \<and> same_rest c c')"
  by (auto simp: flow_good_def flow_change_notify_def rd_flow_def same_rest_def)

lemma handle_flow_event_runs:
  assumes good: "flow_good p c" and kd: "kids (c_heap c) (Some p) xs" and ev: "event_has_msg ev r"
  shows "runs (handle_flow_event p ev r c) (\<lambda>(st, c'). fstep p c c' \<and> st = state_of c' p)"
proof -
  obtain f where f: "rd_flow p c = Some f" using flow_good_rd [OF good] by blast
  from flow_event_loop_runs [OF good ev] obtain c1 where
    c1: "flow_event_loop p r (f_state f) ev c = Some c1" "fstep p c c1" by (auto elim!: runsE)
  have good1: "flow_good p c1" using fstep_good [OF c1(2)] good by (simp add: flow_good_def)
  then obtain f1 where f1: "rd_flow p c1 = Some f1" "c_heap c1 p = Some f1" using flow_good_rd by blast
  have ev0: "pcp_eval_flow_state (Some p) c = Some
      (length (filter exit_state (map (state_of c) xs)), result_spec (set (map (state_of c) xs)))"
    by (rule eval_flow_state_list [OF kd])
  have ev1: "pcp_eval_flow_state (Some p) c1 = Some
      (length (filter exit_state (map (state_of c1) xs)), result_spec (set (map (state_of c1) xs)))"
    using kd fstep_kids [OF c1(2)] by (intro eval_flow_state_list) simp
  have "runs (if b then flow_change_notify p st c1 else Some c1)
      (\<lambda>c'. c_heap c' = c_heap c1 \<and> same_rest c1 c')" for b st
    using notify_same [OF good1] by simp
  then have "runs (if b then flow_change_notify p st c1 else Some c1)
      (\<lambda>c'. fstep p c c' \<and> f_state f1 = state_of c' p)" for b st
    by (rule runs_mono) (use fstep_world [OF c1(2)] f1(2) in auto)
  then show ?thesis
    by (simp add: handle_flow_event_def f c1(1) f1(1) ev0 ev1)
qed

section \<open>What is sent\<close>

text \<open>The bytes that the socket took from a list of packets, newest first.\<close>

definition taken :: "sent_packet list \<Rightarrow> u8 list" where
  "taken ps = concat (map (\<lambda>q. take (nat (sp_ret q)) (sp_data q)) (rev ps))"

lemma taken_append: "taken (ps @ qs) = taken qs @ taken ps"
  by (simp add: taken_def)

lemma send_loop_taken:
  "len \<le> length buf \<Longrightarrow> n \<le> len \<Longrightarrow>
   yields (send_loop buf len src dst n c) (\<lambda>(r, c'). \<exists>ps. w_sent c' = ps @ w_sent c \<and>
     (r = PCP_ERR_SUCCESS \<longrightarrow> taken ps = take n (drop (len - n) buf)))"
proof (induction buf len src dst n c rule: send_loop.induct)
  case (1 buf len src dst n c)
  show ?case
  proof (cases "n = 0")
    case True
    then show ?thesis by (subst send_loop.simps) (simp add: taken_def)
  next
    case False
    obtain bs where bs: "bs = take n (drop (len - n) buf)" by blast
    have pk: "peek (len - n) n buf = Some bs" "length bs = n"
      using 1(2,3) by (simp_all add: peek_def bs)
    define r where "r = w_sendto c (w_sendto_i c) bs"
    obtain c1 q where c1: "pcp_socket_sendto bs src dst c = (r, c1)" "w_sent c1 = q # w_sent c"
        "sp_ret q = r" "sp_data q = bs"
      by (simp add: pcp_socket_sendto_def Let_def r_def)
    note step = send_loop.simps [of buf len src dst n c]
    show ?thesis
    proof (cases "r \<le> 0 \<or> nat r > n")
      case True
      have "\<exists>ps. q # w_sent c = ps @ w_sent c" by (rule exI [of _ "[q]"]) simp
      then show ?thesis using True False pk c1 by (subst step) auto
    next
      case go: False
      let ?m = "n - nat r"
      have IH: "yields (send_loop buf len src dst ?m c1) (\<lambda>(r, c'). \<exists>ps. w_sent c' = ps @ w_sent c1 \<and>
          (r = PCP_ERR_SUCCESS \<longrightarrow> taken ps = take ?m (drop (len - ?m) buf)))"
        using 1(1) [OF False pk(1) c1(1) [symmetric] refl] go 1(2,3) by simp
      have "take (nat r) bs @ take ?m (drop (len - ?m) buf) = bs"
      proof -
        have "drop (nat r) bs = take ?m (drop (len - ?m) buf)"
          using go 1(2,3) by (simp add: bs drop_take add.commute)
        then show ?thesis by (metis append_take_drop_id)
      qed
      then have all: "taken (ps @ [q]) = bs" if "taken ps = take ?m (drop (len - ?m) buf)" for ps
        using that c1 by (simp add: taken_append) (simp add: taken_def)
      have "yields (send_loop buf len src dst ?m c1) (\<lambda>(r, c'). \<exists>ps. w_sent c' = ps @ w_sent c \<and>
          (r = PCP_ERR_SUCCESS \<longrightarrow> taken ps = bs))"
      proof (rule yields_mono [OF IH])
        fix x :: "pcp_errno \<times> pcp_ctx"
        assume "case x of (r, c') \<Rightarrow> \<exists>ps. w_sent c' = ps @ w_sent c1 \<and>
          (r = PCP_ERR_SUCCESS \<longrightarrow> taken ps = take ?m (drop (len - ?m) buf))"
        then obtain ps where ps: "w_sent (snd x) = ps @ w_sent c1"
            "fst x = PCP_ERR_SUCCESS \<longrightarrow> taken ps = take ?m (drop (len - ?m) buf)"
          unfolding case_prod_unfold by blast
        have "w_sent (snd x) = (ps @ [q]) @ w_sent c" using ps(1) c1(2) by simp
        with ps(2) all [of ps] show "case x of (r, c') \<Rightarrow> \<exists>ps. w_sent c' = ps @ w_sent c \<and>
          (r = PCP_ERR_SUCCESS \<longrightarrow> taken ps = bs)"
          unfolding case_prod_unfold by blast
      qed
      then show ?thesis using go False pk c1(1) by (subst step) (simp add: bs)
    qed
  qed
qed

section \<open>Properties\<close>

text \<open>A context with one MAP flow, assigned to the server 0.\<close>

definition ctx_one_flow :: pcp_ctx where
  "ctx_one_flow = ctx_start\<lparr>c_brk := 1, c_heap := [0 \<mapsto> map_flow\<lparr>f_key_bucket := EMPTY\<rparr>],
     c_pcp_servers := [server_zero\<lparr>s_server_state := pss_wait_io, s_pcp_version := 2\<rparr>]\<rparr>"

lemma one_flow_good: "flow_good 0 ctx_one_flow" "kids (c_heap ctx_one_flow) (Some 0) [0]"
  by (simp_all add: flow_good_def world_ok_def ctx_one_flow_def ctx_start_def msg_ok_def flow_wf_def
      map_flow_def flow_zero_def)

text \<open>C6: \<open>handle_flow_event\<close> always returns. On a flow whose message is well formed, with children that
  form a finite list, and a socket that does not claim to have sent more than it was given, every
  event in every state is processed in finitely many steps; only the given flow changes, and in it
  neither its place in the flow table, its key, its server nor its requested lifetime; its message
  stays well formed, and the returned state is the state of the flow.\<close>

theorem handle_flow_event_total:
  assumes "world_ok c" "c_heap c p = Some f" "msg_ok f" "kids (c_heap c) (Some p) xs"
    and "event_has_msg ev r"
  shows "\<exists>c' f'. handle_flow_event p ev r c = Some (f_state f', c') \<and> c_heap c' = (c_heap c)(p \<mapsto> f') \<and>
     flow_ident f' = flow_ident f \<and> msg_ok f' \<and> same_rest c c'"
proof -
  have good: "flow_good p c" using assms by (simp add: flow_good_def)
  from handle_flow_event_runs [OF good assms(4,5)] obtain st c' where
    "handle_flow_event p ev r c = Some (st, c')" "fstep p c c'" "st = state_of c' p" by (auto elim!: runsE)
  then show ?thesis using assms(2) by (auto simp: fstep_def)
qed

theorem handle_flow_event_total_witness:
  "\<exists>c' f'. handle_flow_event 0 fev_send None ctx_one_flow = Some (f_state f', c') \<and> c_heap c' 0 = Some f' \<and> msg_ok f'"
proof -
  obtain f where f: "c_heap ctx_one_flow 0 = Some f" "msg_ok f" "world_ok ctx_one_flow"
    using one_flow_good(1) by (auto simp: flow_good_def)
  have "event_has_msg fev_send None" by (simp add: event_has_msg_def)
  from handle_flow_event_total [OF f(3,1,2) one_flow_good(2) this] show ?thesis by auto
qed

text \<open>C15: \<open>pcp_eval_flow_state\<close> of a flow with its children is determined by the set of their states: a
  flow that still works makes the result \<open>processing\<close>, or \<open>partial_result\<close> when another one has
  succeeded; otherwise one success is a success, else one failure is a failure, else the result is a
  short lifetime error. The returned count is the number of the flows with a final state.\<close>

theorem pcp_eval_flow_state_correct:
  assumes "kids (c_heap c) p xs"
  shows "pcp_eval_flow_state p c =
    Some (length (filter exit_state (map (state_of c) xs)), result_spec (set (map (state_of c) xs)))"
  by (rule eval_flow_state_list [OF assms])

theorem pcp_eval_flow_state_witness:
  "pcp_eval_flow_state (Some 0) ctx_one_flow = Some (0, pcp_state_processing)"
  using pcp_eval_flow_state_correct [OF one_flow_good(2)]
  by (simp add: ctx_one_flow_def map_flow_def flow_zero_def result_spec_def)

text \<open>C16: a successful \<open>send_loop\<close> has handed the whole message to the socket: the parts that the socket
  took of the packets, in the order they were sent, are the message, however the socket splits it.\<close>

theorem send_loop_sends_all:
  assumes "len \<le> length buf" "send_loop buf len src dst len c = Some (PCP_ERR_SUCCESS, c')"
  shows "\<exists>ps. w_sent c' = ps @ w_sent c \<and> taken ps = take len buf"
  using yieldsD [OF send_loop_taken [OF assms(1) order_refl] assms(2)] by auto

theorem send_loop_sends_all_witness:
  "\<exists>c' ps. send_loop [1, 2, 3, 4] 3 (SA_in 0 0) (SA_in 0 0) 3 ctx_start = Some (PCP_ERR_SUCCESS, c') \<and>
     w_sent c' = ps \<and> taken ps = [1, 2, 3]"
proof -
  obtain c' where c': "send_loop [1, 2, 3, 4] 3 (SA_in 0 0) (SA_in 0 0) 3 ctx_start = Some (PCP_ERR_SUCCESS, c')"
    by (simp add: send_loop.simps peek_def pcp_socket_sendto_def ctx_start_def)
  with send_loop_sends_all [OF _ c'] show ?thesis by (auto simp: ctx_start_def)
qed

text \<open>The retransmission timeout in natural numbers.\<close>

lemma and_2047: "unat (w AND 2047 :: u32) = unat w mod 2048"
proof -
  have "w AND 2047 = take_bit 11 w" by (simp add: take_bit_eq_mask mask_eq_exp_minus_1)
  then show ?thesis by (simp add: take_bit_eq_mod unat_mod)
qed

definition rt_base :: "nat \<Rightarrow> nat" where
  "rt_base prev = min (max (2 * prev) 3000) 1024000"

lemma PCP_RT_nat:
  assumes "unat prev \<le> 233016"
  shows "unat (PCP_RT rnd prev) = (9216 - unat rnd mod 2048) * rt_base (unat prev) div 8192"
proof -
  let ?x = "unat rnd mod 2048"
  have x: "?x \<le> 2047" using mod_less_divisor [of 2048 "unat rnd"] by linarith
  have dbl: "unat (push_bit 1 prev) = 2 * unat prev"
    using assms by (simp add: push_bit_eq_mult unat_mult_lem [THEN iffD1] mult.commute)
  define m :: u32 where "m = (let rt = push_bit 1 prev; m = (if rt > PCP_RETX_IRT then rt else PCP_RETX_IRT)
      in if m < PCP_RETX_MRT then m else PCP_RETX_MRT)"
  have m: "unat m = rt_base (unat prev)"
    using dbl assms by (auto simp: m_def rt_base_def word_less_nat_alt Let_def)
  have f: "(8192 :: u32) + (1024 - (rnd AND 2047)) = of_nat (9216 - ?x)"
  proof -
    have "rnd AND 2047 = of_nat (unat (rnd AND 2047))" by simp
    then have "rnd AND 2047 = of_nat ?x" by (simp only: and_2047)
    then show ?thesis using x by (simp add: of_nat_diff)
  qed
  have "rt_base (unat prev) \<le> 466032" using assms by (auto simp: rt_base_def)
  then have "(9216 - ?x) * rt_base (unat prev) \<le> 9216 * 466032" by (intro mult_le_mono) simp_all
  moreover have "unat (of_nat (9216 - ?x) :: u32) = 9216 - ?x"
    by (simp only: unat_of_nat) (use x in simp)
  ultimately have "unat (of_nat (9216 - ?x) * m :: u32) = (9216 - ?x) * rt_base (unat prev)"
    using m by (simp only: unat_word_ariths) simp
  then have "unat (drop_bit 13 (of_nat (9216 - ?x) * m :: u32)) = (9216 - ?x) * rt_base (unat prev) div 8192"
    by (simp add: unsigned_drop_bit_eq drop_bit_eq_div unat_div)
  then show ?thesis by (simp add: PCP_RT_def f m_def Let_def)
qed

text \<open>C38: the retransmission timeout. As long as the previous timeout is at most 233 seconds, the 32-bit
  computation of \<open>PCP_RT\<close> does not overflow: the next timeout is the doubled one, and at least three
  seconds, times a factor between 7169/8192 and 9216/8192; so it is at least 2.6 seconds.\<close>

theorem PCP_RT_bounds:
  assumes "unat prev \<le> 233016"
  shows "7169 * rt_base (unat prev) div 8192 \<le> unat (PCP_RT rnd prev) \<and>
     unat (PCP_RT rnd prev) \<le> 9216 * rt_base (unat prev) div 8192 \<and> 2625 \<le> unat (PCP_RT rnd prev)"
proof -
  let ?k = "9216 - unat rnd mod 2048" and ?b = "rt_base (unat prev)"
  have k: "7169 \<le> ?k" "?k \<le> 9216" using mod_less_divisor [of 2048 "unat rnd"] by linarith+
  have "7169 * 3000 div 8192 \<le> 7169 * ?b div 8192"
    by (intro div_le_mono mult_le_mono) (simp_all add: rt_base_def)
  moreover have "7169 * ?b div 8192 \<le> ?k * ?b div 8192" using k(1) by (intro div_le_mono mult_le_mono) simp_all
  moreover have "?k * ?b div 8192 \<le> 9216 * ?b div 8192" using k(2) by (intro div_le_mono mult_le_mono order_refl)
  ultimately show ?thesis using PCP_RT_nat [OF assms, of rnd] by simp
qed

theorem PCP_RT_bounds_witness: "2625 \<le> unat (PCP_RT 17 3000)"
  using PCP_RT_bounds [of 3000 17] by simp


text \<open>After the third retransmission attempt has been counted nothing is sent any more: a resend
  of a flow with two or more earlier attempts ends in \<open>fev_failed\<close>, with no packet sent.\<close>

theorem resend_gives_up:
  assumes "c_heap c p = Some f" "2 \<le> unat (f_retry_count f)" "f_retry_count f \<noteq> 0xFFFFFFFF"
  shows "\<exists>c'. fhndl_resend p c = Some (fev_failed, c') \<and> w_sent c' = w_sent c"
proof -
  have "unat (f_retry_count f) \<noteq> unat (0xFFFFFFFF :: u32)"
    using assms(3) by (simp only: word_unat_eq_iff not_False_eq_True)
  then have "unat (f_retry_count f + 1) = unat (f_retry_count f) + 1"
    using unsigned_less [where ?'a = nat, of "f_retry_count f"] by (simp add: unat_word_ariths)
  then have "f_retry_count f + 1 \<ge> PCP_RETX_MRC" using assms(2) by (simp add: word_le_nat_alt)
  then show ?thesis
    using assms(1) by (auto simp: fhndl_resend_def rd_flow_def upd_flow_def split: option.splits)
qed

theorem resend_gives_up_witness:
  "\<exists>c'. fhndl_resend 0 (ctx_start\<lparr>c_heap := [0 \<mapsto> map_flow\<lparr>f_retry_count := 2\<rparr>]\<rparr>) = Some (fev_failed, c')"
  using resend_gives_up [of "ctx_start\<lparr>c_heap := [0 \<mapsto> map_flow\<lparr>f_retry_count := 2\<rparr>]\<rparr>" 0
      "map_flow\<lparr>f_retry_count := 2\<rparr>"] by auto

text \<open>The end of the lifetime of a mapping never exceeds the range of \<open>time_t\<close>, and for all arrival
  times that leave room for the lifetime it is the sum of the two.\<close>

theorem lifetime_end_bounds:
  assumes "0 \<le> m_received_time m" "m_received_time m \<le> LONG_MAX"
  shows "m_received_time m \<le> lifetime_end m \<and> lifetime_end m \<le> LONG_MAX \<and>
     lifetime_end m = min LONG_MAX (m_received_time m + uint (m_recv_lifetime m))"
  using assms by (auto simp: lifetime_end_def min_def)

theorem lifetime_end_bounds_witness:
  "lifetime_end (msg_zero\<lparr>m_received_time := 1000, m_recv_lifetime := 60\<rparr>) = 1060"
  using lifetime_end_bounds [of "msg_zero\<lparr>m_received_time := 1000, m_recv_lifetime := 60\<rparr>"] by simp

text \<open>A response with the result \<open>MALFORMED_OPTION\<close> is the only error response of RFC 6887 that the
  event table has no entry for: in every state it leaves the flow as it is, so that a flow that waits
  for its response goes on resending the rejected request.\<close>

theorem malformed_option_ignored:
  "flow_event_loop p r st (fev_res PCP_RES_MALFORMED_OPTION) c = Some c \<and>
   filter (\<lambda>code. flow_next_state pfs_wait_resp (fev_res code) = None)
     [PCP_RES_SUCCESS, PCP_RES_UNSUPP_VERSION, PCP_RES_NOT_AUTHORIZED, PCP_RES_MALFORMED_REQUEST,
      PCP_RES_UNSUPP_OPCODE, PCP_RES_UNSUPP_OPTION, PCP_RES_MALFORMED_OPTION, PCP_RES_NETWORK_FAILURE,
      PCP_RES_NO_RESOURCES, PCP_RES_UNSUPP_PROTOCOL, PCP_RES_USER_EX_QUOTA, PCP_RES_CANNOT_PROVIDE_EXTERNAL,
      PCP_RES_ADDRESS_MISMATCH, PCP_RES_EXCESSIVE_REMOTE_PEERS] = [PCP_RES_MALFORMED_OPTION]"
proof -
  have "flow_next_state st (fev_res PCP_RES_MALFORMED_OPTION) = None"
    using fev.look_None_iff [of "(st, fev_res PCP_RES_MALFORMED_OPTION)"]
    by (simp add: flow_events_sm_def)
  then have "flow_event_loop p r st (fev_res PCP_RES_MALFORMED_OPTION) c = Some c"
    by (subst flow_event_loop.simps) simp
  then show ?thesis by (simp add: flow_next_state_def flow_events_sm_def)
qed

end
