(* ===== verification/Server_Machine.thy ===== *)
theory Server_Machine
  imports Flow_Machine
begin

text \<open>
  The server state machine of \<open>pcp_event_handler.c\<close>: processing of received messages, the callbacks
  that are run over all flows, the handlers of the machine's table, and \<open>pcp_pulse\<close>, the function that
  drives everything.

  A server is its index in the server array, as everywhere. A \<open>struct timeval *\<close> that a callback
  updates is the iteration's data, passed in and out.
\<close>

section \<open>Helper functions for the state handlers\<close>

text \<open>
  Both callers of \<open>server_process_rcvd_pcp_msg\<close> pass \<open>&s->ctx->msg\<close> as the message.
  \<open>find_rcvd_flow\<close> is its first part, up to the test \<open>if (!f)\<close>.
\<close>

definition find_rcvd_flow :: "nat \<Rightarrow> pcp_ctx \<Rightarrow> fid option result" where
  "find_rcvd_flow s c = do {
     sv \<leftarrow> rd_server s c;
     let m = c_msg c;
     if m_recv_version m = 0 then
       if k_operation (m_kd m) = NATPMP_OPCODE_ANNOUNCE then do {
         c \<leftarrow> upd_server s (\<lambda>v. v\<lparr>s_natpmp_ext_addr := w3 (m_assigned_ext_ip m)\<rparr>) c;
         (case s_ping_flow_msg sv of
            None \<Rightarrow> Some (None, c)
          | Some p \<Rightarrow>
              if s_pcp_version sv = 0 then do {
                pf \<leftarrow> rd_flow p c;
                Some (if k_operation (f_kd pf) = PCP_OPCODE_ANNOUNCE then Some p else None, c)
              } else Some (None, c))
       }
       else do {
         let c = c\<lparr>c_msg := m\<lparr>m_assigned_ext_ip := In6 0 0 (htonl 0xFFFF) (s_natpmp_ext_addr sv)\<rparr>\<rparr>;
         f \<leftarrow> pcp_get_flow (m_kd m) (Some s) c;
         Some (f, c)
       }
     else do { f \<leftarrow> pcp_get_flow (m_kd m) (Some s) c; Some (f, c) }
   }"

definition server_process_rcvd_pcp_msg :: "nat \<Rightarrow> pcp_ctx \<Rightarrow> fid option result" where
  "server_process_rcvd_pcp_msg s c = do {
     (f, c) \<leftarrow> find_rcvd_flow s c;
     (case f of
        None \<Rightarrow> Some (None, c)
      | Some p \<Rightarrow> do {
          (_, c) \<leftarrow> handle_flow_event p (fev_res (m_recv_result (c_msg c))) (Some (c_msg c)) c;
          Some (Some p, c)
        })
   }"

definition check_flow_timeout :: "fid \<Rightarrow> timeval \<Rightarrow> pcp_ctx \<Rightarrow> (bool \<times> timeval \<times> pcp_ctx) option" where
  "check_flow_timeout p tout c = do {
     f \<leftarrow> rd_flow p c;
     if f_timeout f = tv_zero then Some (False, tout, c)
     else do {
       let (ctv, c) = gettimeofday c;
       let (r, ft, ctv) = timeval_comp (f_timeout f) ctv;
       c \<leftarrow> upd_flow p (\<lambda>f. f\<lparr>f_timeout := ft\<rparr>) c;
       c \<leftarrow> (if r \<le> 0 then map_option snd (handle_flow_event p fev_flow_timedout None c) else Some c);
       f \<leftarrow> rd_flow p c;
       if f_timeout f = tv_zero then Some (False, tout, c)
       else do {
         let (_, ctv, ft, _) = timeval_subtract (f_timeout f) ctv;
         c \<leftarrow> upd_flow p (\<lambda>f. f\<lparr>f_timeout := ft\<rparr>) c;
         if tout = tv_zero then Some (False, ctv, c)
         else let (r, ctv, tout) = timeval_comp ctv tout
              in Some (False, if r < 0 then ctv else tout, c)
       }
     }
   }"

definition get_first_flow_iter ::
    "nat \<Rightarrow> fid \<Rightarrow> fid option \<Rightarrow> pcp_ctx \<Rightarrow> (bool \<times> fid option \<times> pcp_ctx) option" where
  "get_first_flow_iter s p msg c = do {
     f \<leftarrow> rd_flow p c;
     sv \<leftarrow> rd_server s c;
     if f_pcp_server_indx f \<noteq> s_index sv then Some (False, msg, c)
     else if f_state f \<in> {pfs_idle, pfs_wait_for_server_init, pfs_send} then Some (True, Some p, c)
     else Some (False, msg, c)
   }"

definition create_natpmp_ann_msg :: "nat \<Rightarrow> pcp_ctx \<Rightarrow> fid option result" where
  "create_natpmp_ann_msg s c = do {
     sv \<leftarrow> rd_server s c;
     let kd = kd_zero\<lparr>k_src_ip := s_src_ip sv, k_pcp_server_ip := s_pcp_ip sv, k_nonce := s_nonce sv,
                k_operation := NATPMP_OPCODE_ANNOUNCE\<rparr>;
     (fp, c) \<leftarrow> pcp_create_flow s kd c;
     c \<leftarrow> upd_server s (\<lambda>v. v\<lparr>s_ping_flow_msg := fp\<rparr>) c;
     (_, c) \<leftarrow> pcp_db_add_flow fp c;
     Some (fp, c)
   }"

definition get_ping_msg :: "nat \<Rightarrow> pcp_ctx \<Rightarrow> fid option result" where
  "get_ping_msg s c = do {
     (_, msg, c) \<leftarrow> pcp_db_foreach_flow (get_first_flow_iter s) None c;
     c \<leftarrow> upd_server s (\<lambda>v. v\<lparr>s_ping_flow_msg := msg\<rparr>) c;
     Some (msg, c)
   }"

definition flow_send_event_iter ::
    "nat \<Rightarrow> pcp_flow_event_e \<Rightarrow> fid \<Rightarrow> unit \<Rightarrow> pcp_ctx \<Rightarrow> (bool \<times> unit \<times> pcp_ctx) option" where
  "flow_send_event_iter s ev p d c = do {
     f \<leftarrow> rd_flow p c;
     sv \<leftarrow> rd_server s c;
     if f_pcp_server_indx f = s_index sv then do {
       (_, c) \<leftarrow> handle_flow_event p ev None c;
       sv \<leftarrow> rd_server s c;
       (_, t, c) \<leftarrow> check_flow_timeout p (s_next_timeout sv) c;
       c \<leftarrow> upd_server s (\<lambda>v. v\<lparr>s_next_timeout := t\<rparr>) c;
       Some (False, d, c)
     } else Some (False, d, c)
   }"

section \<open>State handlers\<close>

abbreviation set_next_timeout :: "nat \<Rightarrow> timeval \<Rightarrow> pcp_ctx \<Rightarrow> pcp_ctx option" where
  "set_next_timeout s t \<equiv> upd_server s (\<lambda>v. v\<lparr>s_next_timeout := t\<rparr>)"

text \<open>\<open>gettimeofday(&s->next_timeout, NULL)\<close>\<close>

definition stamp_next_timeout :: "nat \<Rightarrow> pcp_ctx \<Rightarrow> pcp_ctx option" where
  "stamp_next_timeout s c = (let (t, c) = gettimeofday c in set_next_timeout s t c)"

text \<open>The \<open>while\<close> loop of \<open>handle_server_ping\<close> with what follows it.\<close>

partial_function (option) server_ping_loop :: "nat \<Rightarrow> pcp_ctx \<Rightarrow> pcp_server_state_e result" where
  "server_ping_loop s c = Option.bind (get_ping_msg s c)
     (\<lambda>(msg, c). case msg of
        None \<Rightarrow> Option.bind (set_next_timeout s tv_zero c) (\<lambda>c. Some (pss_ping, c))
      | Some p \<Rightarrow> Option.bind (upd_flow p (\<lambda>f. f\<lparr>f_retry_count := 0\<rparr>) c)
          (\<lambda>c. Option.bind (handle_flow_event p fev_send None c)
            (\<lambda>(st, c). if st \<noteq> pfs_failed
               then Option.bind (rd_flow p c)
                 (\<lambda>f. Option.bind (set_next_timeout s (f_timeout f) c)
                   (\<lambda>c. Some (pss_wait_ping_resp, c)))
               else server_ping_loop s c)))"

definition handle_server_ping :: "nat \<Rightarrow> pcp_ctx \<Rightarrow> pcp_server_state_e result" where
  "handle_server_ping s c = do {
     c \<leftarrow> upd_server s (\<lambda>v. v\<lparr>s_ping_count := 0\<rparr>) c;
     server_ping_loop s c
   }"

definition handle_wait_ping_resp_timeout :: "nat \<Rightarrow> pcp_ctx \<Rightarrow> pcp_server_state_e result" where
  "handle_wait_ping_resp_timeout s c = do {
     c \<leftarrow> upd_server s (\<lambda>v. v\<lparr>s_ping_count := s_ping_count v + 1\<rparr>) c;
     sv \<leftarrow> rd_server s c;
     if s_ping_count sv \<ge> PCP_MAX_PING_COUNT
     then do { c \<leftarrow> stamp_next_timeout s c; Some (pss_set_not_working, c) }
     else case s_ping_flow_msg sv of
       None \<Rightarrow> do { c \<leftarrow> stamp_next_timeout s c; Some (pss_ping, c) }
     | Some p \<Rightarrow> do {
         (st, c) \<leftarrow> handle_flow_event p fev_flow_timedout None c;
         if st = pfs_failed
         then do { c \<leftarrow> stamp_next_timeout s c; Some (pss_set_not_working, c) }
         else do {
           sv \<leftarrow> rd_server s c;
           (case s_ping_flow_msg sv of
              Some q \<Rightarrow> do {
                f \<leftarrow> rd_flow q c;
                c \<leftarrow> set_next_timeout s (f_timeout f) c;
                Some (pss_wait_ping_resp, c)
              }
            | None \<Rightarrow> do { c \<leftarrow> set_next_timeout s tv_zero c; Some (pss_ping, c) })
         }
       }
   }"

definition handle_wait_io_receive_msg :: "nat \<Rightarrow> pcp_ctx \<Rightarrow> pcp_server_state_e result" where
  "handle_wait_io_receive_msg s c =
     (if m_recv_result (c_msg c) = PCP_RES_UNSUPP_VERSION then do {
        c \<leftarrow> stamp_next_timeout s c;
        c \<leftarrow> upd_server s (\<lambda>v. v\<lparr>s_next_version := ucast (m_recv_version (c_msg c))\<rparr>) c;
        Some (pss_version_negotiation, c)
      }
      else if m_recv_result (c_msg c) = PCP_RES_ADDRESS_MISMATCH then do {
        c \<leftarrow> stamp_next_timeout s c;
        Some (pss_set_not_working, c)
      }
      else do {
        (f, c) \<leftarrow> server_process_rcvd_pcp_msg s c;
        sv \<leftarrow> rd_server s c;
        let msg = c_msg c;
        let (restarted, sv) = compare_epochs msg sv;
        c \<leftarrow> upd_server s (\<lambda>_. sv) c;
        if restarted then do {
          c \<leftarrow> upd_server s (\<lambda>v. v\<lparr>s_epoch := m_recv_epoch msg, s_cepoch := m_received_time msg\<rparr>) c;
          c \<leftarrow> stamp_next_timeout s c;
          c \<leftarrow> upd_server s (\<lambda>v. v\<lparr>s_restart_flow_msg := f\<rparr>) c;
          Some (pss_server_restart, c)
        }
        else do {
          c \<leftarrow> stamp_next_timeout s c;
          Some (pss_wait_io_calc_nearest_timeout, c)
        }
      })"

definition handle_wait_ping_resp_recv :: "nat \<Rightarrow> pcp_ctx \<Rightarrow> pcp_server_state_e result" where
  "handle_wait_ping_resp_recv s c = do {
     (res, c) \<leftarrow> handle_wait_io_receive_msg s c;
     Some (case res of
             pss_wait_io_calc_nearest_timeout \<Rightarrow> pss_send_all_msgs
           | pss_wait_io \<Rightarrow> pss_wait_ping_resp
           | _ \<Rightarrow> res, c)
   }"

text \<open>
  \<open>handle_version_negotiation\<close> in three parts: the choice of the flow to ping with, the sending of it,
  and the function itself. \<open>PCP_MIN_SUPPORTED_VERSION\<close> is 0, so that only the test
  \<open>s->pcp_version == 0\<close> is compiled in.
\<close>

definition negotiation_flow :: "nat \<Rightarrow> pcp_ctx \<Rightarrow> fid option result" where
  "negotiation_flow s c = do {
     sv \<leftarrow> rd_server s c;
     (ping_msg, c) \<leftarrow>
       (if s_pcp_version sv = 0 then do {
          c \<leftarrow> (case s_ping_flow_msg sv of
                  None \<Rightarrow> Some c
                | Some p \<Rightarrow> upd_flow p (\<lambda>f. f\<lparr>f_state := pfs_wait_for_server_init, f_timeout := tv_zero\<rparr>) c);
          create_natpmp_ann_msg s c
        }
        else Some (s_ping_flow_msg sv, c));
     if ping_msg = None then get_ping_msg s c else Some (ping_msg, c)
   }"

definition negotiation_send :: "nat \<Rightarrow> fid option \<Rightarrow> pcp_ctx \<Rightarrow> pcp_server_state_e result" where
  "negotiation_send s ping_msg c =
     (case ping_msg of
        None \<Rightarrow> do { c \<leftarrow> set_next_timeout s tv_zero c; Some (pss_ping, c) }
      | Some p \<Rightarrow> do {
          c \<leftarrow> upd_flow p (\<lambda>f. f\<lparr>f_retry_count := 0, f_resend_timeout := 0\<rparr>) c;
          (_, c) \<leftarrow> handle_flow_event p fev_send None c;
          f \<leftarrow> rd_flow p c;
          if f_state f = pfs_failed then Some (pss_set_not_working, c)
          else do {
            c \<leftarrow> set_next_timeout s (f_timeout f) c;
            Some (pss_wait_ping_resp, c)
          }
        })"

definition handle_version_negotiation :: "nat \<Rightarrow> pcp_ctx \<Rightarrow> pcp_server_state_e result" where
  "handle_version_negotiation s c = do {
     c \<leftarrow> upd_server s (\<lambda>v. if s_next_version v = s_pcp_version v
                             then v\<lparr>s_next_version := s_next_version v - 1\<rparr> else v) c;
     sv \<leftarrow> rd_server s c;
     if s_pcp_version sv = 0 then Some (pss_set_not_working, c)
     else do {
       c \<leftarrow> upd_server s (\<lambda>v. v\<lparr>s_pcp_version := s_next_version v\<rparr>) c;
       (ping_msg, c) \<leftarrow> negotiation_flow s c;
       negotiation_send s ping_msg c
     }
   }"

definition handle_send_all_msgs :: "nat \<Rightarrow> pcp_ctx \<Rightarrow> pcp_server_state_e result" where
  "handle_send_all_msgs s c = do {
     (_, _, c) \<leftarrow> pcp_db_foreach_flow (flow_send_event_iter s fev_server_initialized) () c;
     c \<leftarrow> stamp_next_timeout s c;
     Some (pss_wait_io_calc_nearest_timeout, c)
   }"

definition handle_server_restart :: "nat \<Rightarrow> pcp_ctx \<Rightarrow> pcp_server_state_e result" where
  "handle_server_restart s c = do {
     (_, _, c) \<leftarrow> pcp_db_foreach_flow (flow_send_event_iter s fev_server_restarted) () c;
     c \<leftarrow> upd_server s (\<lambda>v. v\<lparr>s_restart_flow_msg := None\<rparr>) c;
     c \<leftarrow> stamp_next_timeout s c;
     Some (pss_wait_io_calc_nearest_timeout, c)
   }"

definition handle_wait_io_timeout :: "nat \<Rightarrow> pcp_ctx \<Rightarrow> pcp_server_state_e result" where
  "handle_wait_io_timeout s c = do {
     (_, t, c) \<leftarrow> pcp_db_foreach_flow check_flow_timeout tv_zero c;
     c \<leftarrow> set_next_timeout s t c;
     c \<leftarrow> (if t \<noteq> tv_zero then
             let (ctv, c) = gettimeofday c
             in set_next_timeout s (timeval_align (Timeval (tv_sec t + tv_sec ctv) (tv_usec t + tv_usec ctv))) c
           else Some c);
     Some (pss_wait_io, c)
   }"

definition handle_server_set_not_working :: "nat \<Rightarrow> pcp_ctx \<Rightarrow> pcp_server_state_e result" where
  "handle_server_set_not_working s c = do {
     (_, _, c) \<leftarrow> pcp_db_foreach_flow (flow_send_event_iter s fev_failed) () c;
     let (t, c) = gettimeofday c;
     c \<leftarrow> set_next_timeout s (Timeval (tv_sec t + PCP_SERVER_DISCOVERY_RETRY_DELAY) (tv_usec t)) c;
     Some (pss_not_working, c)
   }"

definition handle_server_not_working :: "nat \<Rightarrow> pcp_ctx \<Rightarrow> pcp_server_state_e result" where
  "handle_server_not_working s c = do {
     let (ctv, c) = gettimeofday c;
     sv \<leftarrow> rd_server s c;
     let (r, ctv, nt) = timeval_comp ctv (s_next_timeout sv);
     c \<leftarrow> set_next_timeout s nt c;
     if r < 0 then
       if m_recv_result (c_msg c) = PCP_RES_UNSUPP_VERSION then Some (pss_not_working, c)
       else if m_recv_result (c_msg c) = PCP_RES_ADDRESS_MISMATCH then Some (pss_not_working, c)
       else do {
         (f, c) \<leftarrow> server_process_rcvd_pcp_msg s c;
         c \<leftarrow> upd_server s (\<lambda>v. v\<lparr>s_epoch := m_recv_epoch (c_msg c),
                                    s_cepoch := m_received_time (c_msg c)\<rparr>) c;
         c \<leftarrow> stamp_next_timeout s c;
         c \<leftarrow> upd_server s (\<lambda>v. v\<lparr>s_restart_flow_msg := f\<rparr>) c;
         Some (pss_server_restart, c)
       }
     else do {
       c \<leftarrow> set_next_timeout s ctv c;
       Some (pss_server_reping, c)
     }
   }"

definition handle_server_reping :: "nat \<Rightarrow> pcp_ctx \<Rightarrow> pcp_server_state_e result" where
  "handle_server_reping s c = do {
     c \<leftarrow> upd_server s (\<lambda>v. v\<lparr>s_pcp_version := PCP_MAX_SUPPORTED_VERSION\<rparr>) c;
     c \<leftarrow> stamp_next_timeout s c;
     Some (pss_ping, c)
   }"

definition pcp_terminate_server :: "nat \<Rightarrow> pcp_ctx \<Rightarrow> pcp_server_state_e result" where
  "pcp_terminate_server s c = do {
     c \<leftarrow> set_next_timeout s tv_zero c;
     Some (pss_allocated, c)
   }"

definition ignore_events :: "nat \<Rightarrow> pcp_ctx \<Rightarrow> pcp_server_state_e result" where
  "ignore_events s c = do {
     c \<leftarrow> set_next_timeout s tv_zero c;
     sv \<leftarrow> rd_server s c;
     Some (s_server_state sv, c)
   }"

definition log_unexepected_state_event :: "nat \<Rightarrow> pcp_ctx \<Rightarrow> pcp_server_state_e result" where
  "log_unexepected_state_event s c = do {
     c \<leftarrow> stamp_next_timeout s c;
     Some (pss_set_not_working, c)
   }"

section \<open>The table\<close>

datatype server_handler =
    Pcp_terminate_server | Handle_server_ping | Handle_wait_ping_resp_timeout
  | Handle_wait_ping_resp_recv | Handle_version_negotiation | Handle_send_all_msgs
  | Handle_wait_io_receive_msg | Handle_wait_io_timeout | Handle_server_restart
  | Handle_server_reping | Handle_server_set_not_working | Handle_server_not_working
  | Ignore_events | Log_unexepected_state_event

fun run_server_handler :: "server_handler \<Rightarrow> nat \<Rightarrow> pcp_ctx \<Rightarrow> pcp_server_state_e result" where
  "run_server_handler Pcp_terminate_server = pcp_terminate_server"
| "run_server_handler Handle_server_ping = handle_server_ping"
| "run_server_handler Handle_wait_ping_resp_timeout = handle_wait_ping_resp_timeout"
| "run_server_handler Handle_wait_ping_resp_recv = handle_wait_ping_resp_recv"
| "run_server_handler Handle_version_negotiation = handle_version_negotiation"
| "run_server_handler Handle_send_all_msgs = handle_send_all_msgs"
| "run_server_handler Handle_wait_io_receive_msg = handle_wait_io_receive_msg"
| "run_server_handler Handle_wait_io_timeout = handle_wait_io_timeout"
| "run_server_handler Handle_server_restart = handle_server_restart"
| "run_server_handler Handle_server_reping = handle_server_reping"
| "run_server_handler Handle_server_set_not_working = handle_server_set_not_working"
| "run_server_handler Handle_server_not_working = handle_server_not_working"
| "run_server_handler Ignore_events = ignore_events"
| "run_server_handler Log_unexepected_state_event = log_unexepected_state_event"

definition server_sm :: "(pcp_server_state_e \<times> pcp_event_e \<times> server_handler) list" where
  "server_sm =
   [(pss_any, pcpe_terminate, Pcp_terminate_server),
    (pss_ping, pcpe_any, Handle_server_ping),
    (pss_wait_ping_resp, pcpe_timeout, Handle_wait_ping_resp_timeout),
    (pss_wait_ping_resp, pcpe_io_event, Handle_wait_ping_resp_recv),
    (pss_version_negotiation, pcpe_any, Handle_version_negotiation),
    (pss_send_all_msgs, pcpe_any, Handle_send_all_msgs),
    (pss_wait_io, pcpe_io_event, Handle_wait_io_receive_msg),
    (pss_wait_io, pcpe_timeout, Handle_wait_io_timeout),
    (pss_wait_io_calc_nearest_timeout, pcpe_any, Handle_wait_io_timeout),
    (pss_server_restart, pcpe_any, Handle_server_restart),
    (pss_server_reping, pcpe_any, Handle_server_reping),
    (pss_set_not_working, pcpe_any, Handle_server_set_not_working),
    (pss_not_working, pcpe_any, Handle_server_not_working),
    (pss_allocated, pcpe_any, Ignore_events),
    (pss_any, pcpe_any, Log_unexepected_state_event)]"

definition server_handler_for :: "pcp_server_state_e \<Rightarrow> pcp_event_e \<Rightarrow> server_handler option" where
  "server_handler_for st ev =
     map_option (\<lambda>(s, e, h). h)
       (find (\<lambda>(s, e, h). (s = st \<or> s = pss_any) \<and> (e = pcpe_any \<or> e = ev)) server_sm)"

definition run_server_state_machine :: "nat option \<Rightarrow> pcp_event_e \<Rightarrow> pcp_ctx \<Rightarrow> pcp_errno result" where
  "run_server_state_machine sp ev c =
     (case sp of None \<Rightarrow> Some (PCP_ERR_BAD_ARGS, c)
      | Some s \<Rightarrow> do {
          sv \<leftarrow> rd_server s c;
          (case server_handler_for (s_server_state sv) ev of
             None \<Rightarrow> Some (PCP_ERR_SUCCESS, c)
           | Some h \<Rightarrow> do {
               (st, c) \<leftarrow> run_server_handler h s c;
               c \<leftarrow> upd_server s (\<lambda>v. v\<lparr>s_server_state := st\<rparr>) c;
               Some (PCP_ERR_SUCCESS, c)
             })
        })"

section \<open>The pulse\<close>

record hserver_iter_data =
  hi_res_timeout :: "timeval option"
  hi_ev :: pcp_event_e

text \<open>The \<open>while (1)\<close> loop of \<open>hserver_iter\<close>; its result is the local \<open>ctv\<close>.\<close>

partial_function (option) hserver_loop :: "nat \<Rightarrow> pcp_ctx \<Rightarrow> timeval result" where
  "hserver_loop s c0 =
     (let now = fst (gettimeofday c0); c1 = snd (gettimeofday c0) in
      Option.bind (rd_server s c1)
        (\<lambda>sv. if s_next_timeout sv = tv_zero then Some (now, c1)
              else Option.bind (set_next_timeout s (fst (snd (snd (timeval_subtract (s_next_timeout sv) now)))) c1)
                (\<lambda>c. if \<not> fst (timeval_subtract (s_next_timeout sv) now)
                     then Some (fst (snd (timeval_subtract (s_next_timeout sv) now)), c)
                     else Option.bind (run_server_state_machine (Some s) pcpe_timeout c)
                       (\<lambda>(r, c). hserver_loop s c))))"

definition hserver_iter ::
    "nat \<Rightarrow> hserver_iter_data \<Rightarrow> pcp_ctx \<Rightarrow> (bool \<times> hserver_iter_data \<times> pcp_ctx) option" where
  "hserver_iter s d c = do {
     sv \<leftarrow> rd_server s c;
     if s_server_state sv = pss_unitialized then Some (False, d, c)
     else do {
       (_, c) \<leftarrow> (if hi_ev d \<noteq> pcpe_timeout then run_server_state_machine (Some s) (hi_ev d) c
                   else Some (PCP_ERR_SUCCESS, c));
       (ctv, c) \<leftarrow> hserver_loop s c;
       sv \<leftarrow> rd_server s c;
       (case hi_res_timeout d of
          None \<Rightarrow> Some (False, d, c)
        | Some res \<Rightarrow>
            if s_next_timeout sv = tv_zero then Some (False, d, c)
            else if res = tv_zero then Some (False, d\<lparr>hi_res_timeout := Some ctv\<rparr>, c)
            else let (r, ctv, res) = timeval_comp ctv res
                 in Some (False, d\<lparr>hi_res_timeout := Some (if r < 0 then ctv else res)\<rparr>, c))
     }
   }"

text \<open>
  \<open>read_msg\<close>: a packet longer than the buffer contradicts the contract of \<open>recvfrom\<close>, and so does a
  failure with a return value that is not negative.
\<close>

definition read_msg :: "pcp_ctx \<Rightarrow> int result" where
  "read_msg c =
     (let c' = c\<lparr>c_msg := msg_zero, w_recvfrom_i := Suc (w_recvfrom_i c)\<rparr> in
      case w_recvfrom c (w_recvfrom_i c) of
        Recv_fail e \<Rightarrow> if e < 0 then Some (e, c') else None
      | Recv_ok bs from to \<Rightarrow>
          if length bs > PCP_MAX_LEN then None
          else Some (errno_code PCP_ERR_SUCCESS,
                 c'\<lparr>c_msg := msg_zero\<lparr>m_pcp_msg_buffer := bs @ replicate (PCP_MAX_LEN - length bs) 0,
                     m_pcp_msg_len := length bs, m_rcvd_from_addr := from, m_rcvd_to_addr := to\<rparr>\<rparr>))"

text \<open>
  The completion of the key of a received message from the server it came from and the address it
  was sent to.
\<close>

definition complete_msg :: "pcp_server \<Rightarrow> u32 \<Rightarrow> pcp_recv_msg \<Rightarrow> pcp_recv_msg" where
  "complete_msg sv scope_id m =
     (let m = m\<lparr>m_pcp_server_indx := s_index sv, m_kd := (m_kd m)\<lparr>k_pcp_server_ip := s_pcp_ip sv\<rparr>\<rparr>;
          (src, _, scope) = pcp_fill_in6_addr (k_src_ip (m_kd m), 0, k_scope_id (m_kd m)) (m_rcvd_to_addr m);
          m = m\<lparr>m_kd := (m_kd m)\<lparr>k_src_ip := src, k_scope_id := scope\<rparr>\<rparr>;
          m = (if IPV6_IS_ADDR_ANY (k_src_ip (m_kd m))
               then m\<lparr>m_kd := (m_kd m)\<lparr>k_src_ip := s_src_ip sv, k_scope_id := scope_id\<rparr>\<rparr> else m)
      in if m_recv_version m < 2 then m\<lparr>m_kd := (m_kd m)\<lparr>k_nonce := s_nonce sv\<rparr>\<rparr> else m)"

text \<open>
  What \<open>pcp_pulse\<close> does with a packet that was parsed, given the address and scope it came from; before
  that, with a packet that was read. A source address that is neither IPv4 nor IPv6 would leave
  \<open>ip6\<close> uninitialised.
\<close>

definition pulse_deliver :: "in6_addr \<Rightarrow> u32 \<Rightarrow> pcp_ctx \<Rightarrow> pcp_ctx option" where
  "pulse_deliver ip6 scope_id c = do {
     sp \<leftarrow> get_pcp_server_by_ip ip6 scope_id c;
     (case sp of
        None \<Rightarrow> Some c
      | Some s \<Rightarrow> do {
          sv \<leftarrow> rd_server s c;
          let c = c\<lparr>c_msg := complete_msg sv scope_id (c_msg c)\<rparr>;
          (_, _, c) \<leftarrow> hserver_iter s \<lparr>hi_res_timeout = None, hi_ev = pcpe_io_event\<rparr> c;
          Some c
        })
   }"

definition pulse_receive :: "pcp_ctx \<Rightarrow> pcp_ctx option" where
  "pulse_receive c = do {
     let (t, c) = time_now c;
     let c = c\<lparr>c_msg := (c_msg c)\<lparr>m_received_time := t\<rparr>\<rparr>;
     valid \<leftarrow> validate_pcp_msg (c_msg c);
     if \<not> valid then Some c
     else do {
       (r, m) \<leftarrow> parse_response (c_msg c);
       let c = c\<lparr>c_msg := m\<rparr>;
       if r \<noteq> PCP_ERR_SUCCESS then Some c
       else case m_rcvd_from_addr m of
         SA_other fam \<Rightarrow> None
       | from \<Rightarrow> (let (ip6, _, scope_id) = pcp_fill_in6_addr (in6_zero, 0, 0) from in pulse_deliver ip6 scope_id c)
     }
   }"

text \<open>
  \<open>pcp_pulse\<close> for a context that exists. The caller's timeout, if there is one, is passed in and
  out. The result in milliseconds is a \<open>long\<close> that is converted to \<open>int\<close>.
\<close>

definition pcp_pulse :: "timeval option \<Rightarrow> pcp_ctx \<Rightarrow> (int \<times> timeval option) result" where
  "pcp_pulse next_timeout c = do {
     let nt = (case next_timeout of None \<Rightarrow> tv_zero | Some t \<Rightarrow> t);
     (ret, c) \<leftarrow> read_msg c;
     c \<leftarrow> (if ret = errno_code PCP_ERR_SUCCESS then pulse_receive c else Some c);
     (_, d, c) \<leftarrow> pcp_db_foreach_server hserver_iter \<lparr>hi_res_timeout = Some nt, hi_ev = pcpe_timeout\<rparr> c;
     nt \<leftarrow> hi_res_timeout d;
     Some ((sint (word_of_int (tv_sec nt * 1000 + tv_usec nt sdiv 1000) :: u32),
            if next_timeout = None then None else Some nt), c)
   }"

section \<open>Other exported functions\<close>

definition pcp_flow_updated :: "fid option \<Rightarrow> pcp_ctx \<Rightarrow> pcp_ctx option" where
  "pcp_flow_updated fp c =
     (case fp of None \<Rightarrow> Some c
      | Some p \<Rightarrow> do {
          let (curtime, c) = gettimeofday c;
          f \<leftarrow> rd_flow p c;
          c \<leftarrow> (case get_pcp_server (sint (f_pcp_server_indx f)) c of
                  None \<Rightarrow> Some c
                | Some s \<Rightarrow> set_next_timeout s curtime c);
          c \<leftarrow> pcp_flow_clear_msg_buf (Some p) c;
          upd_flow p (\<lambda>f. f\<lparr>f_timeout := curtime,
            f_state := (if f_state f \<notin> {pfs_wait_for_server_init, pfs_idle, pfs_failed}
                        then pfs_send else f_state f)\<rparr>) c
        })"

definition pcp_set_flow_change_cb :: "bool \<Rightarrow> pcp_ctx \<Rightarrow> pcp_ctx" where
  "pcp_set_flow_change_cb cb c = c\<lparr>c_flow_change_cb := cb\<rparr>"

end
