(* ===== verification/Server_Inv.thy ===== *)
theory Server_Inv
  imports Server_Machine
begin

text \<open>
  The invariant of a context and its preservation by the server state machine: every handler of the
  machine returns, whatever the state of the servers and flows is, and leaves the invariant intact.
\<close>

section \<open>The invariant\<close>

text \<open>
  Every flow has a well-formed message and finitely many children; the ping flow of a server is a
  flow that exists and is assigned to that server.
\<close>

definition flows_ok :: "pcp_ctx \<Rightarrow> bool" where
  "flows_ok c \<longleftrightarrow> (\<forall>p f. c_heap c p = Some f \<longrightarrow> msg_ok f \<and> (\<exists>xs. kids (c_heap c) (Some p) xs))"

definition ping_ok :: "pcp_ctx \<Rightarrow> bool" where
  "ping_ok c \<longleftrightarrow> (\<forall>sv\<in>set (c_pcp_servers c). \<forall>p. s_ping_flow_msg sv = Some p \<longrightarrow>
     (\<exists>f. c_heap c p = Some f \<and> f_pcp_server_indx f = s_index sv))"

definition ctx_inv :: "pcp_ctx \<Rightarrow> bool" where
  "ctx_inv c \<longleftrightarrow> world_ok c \<and> db_inv c \<and> server_inv c \<and> flows_ok c \<and> ping_ok c"

definition in_use :: "nat \<Rightarrow> pcp_ctx \<Rightarrow> bool" where
  "in_use s c \<longleftrightarrow> s < length (c_pcp_servers c) \<and> s_server_state (c_pcp_servers c ! s) \<noteq> pss_unitialized"

lemma in_use_length: "in_use s c \<Longrightarrow> s < length (c_pcp_servers c)"
  by (simp add: in_use_def)

text \<open>
  \<open>steady c c'\<close>: no flow came or went, the table is the same, flows keep their identity and servers
  their number, index and state, and entries that are not in use their ping flow; the clock and the
  socket are the same oracles.
\<close>

definition spare_ping :: "pcp_server \<Rightarrow> fid option" where
  "spare_ping v = (if s_server_state v = pss_unitialized then s_ping_flow_msg v else None)"

definition server_ident :: "pcp_server \<Rightarrow> u32 \<times> pcp_server_state_e \<times> fid option" where
  "server_ident v = (s_index v, s_server_state v, spare_ping v)"

lemma server_ident_eqI:
  "s_index w = s_index v \<Longrightarrow> s_server_state w = s_server_state v \<Longrightarrow> s_ping_flow_msg w = s_ping_flow_msg v \<Longrightarrow>
     server_ident w = server_ident v"
  by (simp add: server_ident_def spare_ping_def)

lemmas ident_defs = server_ident_def spare_ping_def

definition steady :: "pcp_ctx \<Rightarrow> pcp_ctx \<Rightarrow> bool" where
  "steady c c' \<longleftrightarrow> c_flows c' = c_flows c \<and> c_flow_cnt c' = c_flow_cnt c \<and> c_brk c' = c_brk c \<and>
     (\<forall>p. map_option flow_ident (c_heap c' p) = map_option flow_ident (c_heap c p)) \<and>
     map server_ident (c_pcp_servers c') = map server_ident (c_pcp_servers c) \<and>
     w_tod c' = w_tod c \<and> w_tod_i c \<le> w_tod_i c' \<and> w_recvfrom c' = w_recvfrom c \<and> w_sendto c' = w_sendto c"

lemma steady_refl [simp]: "steady c c"
  by (simp add: steady_def)

lemma steady_trans: "steady a b \<Longrightarrow> steady b c \<Longrightarrow> steady a c"
  by (auto simp: steady_def)

lemma steady_heap:
  assumes "steady c c'"
  shows "c_heap c p = Some f \<Longrightarrow> \<exists>f'. c_heap c' p = Some f' \<and> flow_ident f' = flow_ident f"
    and "c_heap c' p = Some f' \<Longrightarrow> \<exists>f. c_heap c p = Some f \<and> flow_ident f' = flow_ident f"
proof -
  from assms have eq: "map_option flow_ident (c_heap c' p) = map_option flow_ident (c_heap c p)"
    by (simp add: steady_def)
  show "\<exists>f'. c_heap c' p = Some f' \<and> flow_ident f' = flow_ident f" if "c_heap c p = Some f"
    using eq that by (cases "c_heap c' p") auto
  show "\<exists>f. c_heap c p = Some f \<and> flow_ident f' = flow_ident f" if "c_heap c' p = Some f'"
    using eq that by (cases "c_heap c p") auto
qed

lemma steady_same_db:
  assumes "steady c c'" shows "same_db c c'"
proof -
  have "map_option flow_links (c_heap c' p) = map_option flow_links (c_heap c p)" for p
    using steady_heap [OF assms, of p]
    by (cases "c_heap c p"; cases "c_heap c' p") (auto simp: flow_ident_def)
  with assms show ?thesis by (simp add: steady_def same_db_def)
qed

lemma steady_kids:
  assumes "steady c c'" shows "kids (c_heap c') p xs = kids (c_heap c) p xs"
proof (rule kids_cong, rule ballI)
  fix q
  show "map_option f_next_child (c_heap c' q) = map_option f_next_child (c_heap c q)"
    using steady_heap [OF assms, of q]
    by (cases "c_heap c q"; cases "c_heap c' q") (auto simp: flow_ident_def)
qed

lemma steady_alloc: "steady c c' \<Longrightarrow> (c_heap c' p = None) = (c_heap c p = None)"
  using steady_same_db same_db_heap(1) by blast

lemma steady_servers:
  assumes "steady c c'"
  shows "length (c_pcp_servers c') = length (c_pcp_servers c)"
    and "i < length (c_pcp_servers c) \<Longrightarrow> s_index (c_pcp_servers c' ! i) = s_index (c_pcp_servers c ! i)"
    and "i < length (c_pcp_servers c) \<Longrightarrow>
      s_server_state (c_pcp_servers c' ! i) = s_server_state (c_pcp_servers c ! i)"
proof -
  from assms have eq: "map server_ident (c_pcp_servers c') = map server_ident (c_pcp_servers c)"
    by (simp add: steady_def)
  then show len: "length (c_pcp_servers c') = length (c_pcp_servers c)" by (rule map_eq_imp_length_eq)
  have "server_ident (c_pcp_servers c' ! i) = server_ident (c_pcp_servers c ! i)"
    if "i < length (c_pcp_servers c)"
    using arg_cong [OF eq, of "\<lambda>xs. xs ! i"] that len by simp
  then show "i < length (c_pcp_servers c) \<Longrightarrow> s_index (c_pcp_servers c' ! i) = s_index (c_pcp_servers c ! i)"
    "i < length (c_pcp_servers c) \<Longrightarrow>
      s_server_state (c_pcp_servers c' ! i) = s_server_state (c_pcp_servers c ! i)"
    by (auto simp: ident_defs)
qed

lemma steady_server_inv: "steady c c' \<Longrightarrow> server_inv c \<Longrightarrow> server_inv c'"
  by (simp add: server_inv_def steady_servers)

text \<open>A step that is steady preserves the invariant, given what it does to messages and ping flows.\<close>

lemma steady_inv:
  assumes "ctx_inv c" "steady c c'" "\<And>p f. c_heap c' p = Some f \<Longrightarrow> msg_ok f" "ping_ok c'"
  shows "ctx_inv c'"
proof -
  have "flows_ok c'"
    using assms(1,3) steady_kids [OF assms(2)] steady_heap(2) [OF assms(2)]
    by (fastforce simp: flows_ok_def ctx_inv_def)
  moreover have "world_ok c'" using assms(1,2) by (simp add: ctx_inv_def world_ok_def steady_def)
  ultimately show ?thesis
    using assms(1,4) same_db_inv [OF steady_same_db [OF assms(2)]] steady_server_inv [OF assms(2)]
    by (simp add: ctx_inv_def)
qed

lemma fstep_steady: "fstep p c c' \<Longrightarrow> steady c c'"
  by (auto simp: fstep_def steady_def same_rest_def)

lemma steady_ping:
  assumes "steady c c'" "c_pcp_servers c' = c_pcp_servers c" "ping_ok c"
  shows "ping_ok c'"
  using assms(2,3) steady_heap(1) [OF assms(1)] by (fastforce simp: ping_ok_def flow_ident_def)

lemma fstep_inv:
  assumes "ctx_inv c" "fstep p c c'"
  shows "ctx_inv c'"
proof (rule steady_inv [OF assms(1) fstep_steady [OF assms(2)]])
  show "msg_ok f" if "c_heap c' q = Some f" for q f
    using that assms by (auto simp: fstep_def ctx_inv_def flows_ok_def split: if_splits)
  show "ping_ok c'"
    using steady_ping [OF fstep_steady [OF assms(2)]] assms by (auto simp: fstep_def same_rest_def ctx_inv_def)
qed

text \<open>Updates of a server that keep its index and its state.\<close>

lemma upd_server_steady:
  assumes "s < length (c_pcp_servers c)" "server_ident (g (c_pcp_servers c ! s)) = server_ident (c_pcp_servers c ! s)"
  shows "runs (upd_server s g c) (\<lambda>c'. steady c c' \<and> c_heap c' = c_heap c \<and>
     c_pcp_servers c' = (c_pcp_servers c)[s := g (c_pcp_servers c ! s)])"
proof -
  have "map server_ident ((c_pcp_servers c)[s := g (c_pcp_servers c ! s)]) = map server_ident (c_pcp_servers c)"
    using assms by (simp add: map_update list_update_same_conv)
  then show ?thesis using assms(1) by (simp add: upd_server_def steady_def)
qed

lemma upd_server_inv:
  assumes inv: "ctx_inv c" and s: "s < length (c_pcp_servers c)"
    and g: "server_ident (g (c_pcp_servers c ! s)) = server_ident (c_pcp_servers c ! s)"
    and ping: "\<And>p. s_ping_flow_msg (g (c_pcp_servers c ! s)) = Some p \<Longrightarrow>
      s_ping_flow_msg (c_pcp_servers c ! s) = Some p \<or>
      (\<exists>f. c_heap c p = Some f \<and> f_pcp_server_indx f = s_index (c_pcp_servers c ! s))"
  shows "runs (upd_server s g c) (\<lambda>c'. ctx_inv c' \<and> steady c c' \<and> c_heap c' = c_heap c \<and>
     c_pcp_servers c' = (c_pcp_servers c)[s := g (c_pcp_servers c ! s)] \<and> c_msg c' = c_msg c)"
proof -
  from upd_server_steady [where g = g, OF s g] obtain c' where
    c': "upd_server s g c = Some c'" "steady c c'" "c_heap c' = c_heap c"
      "c_pcp_servers c' = (c_pcp_servers c)[s := g (c_pcp_servers c ! s)]" by (auto elim!: runsE)
  have idx: "s_index (g (c_pcp_servers c ! s)) = s_index (c_pcp_servers c ! s)" using g by (simp add: ident_defs)
  have old: "\<exists>f. c_heap c p = Some f \<and> f_pcp_server_indx f = s_index v"
    if "v \<in> set (c_pcp_servers c)" "s_ping_flow_msg v = Some p" for v p
    using that inv by (auto simp: ctx_inv_def ping_ok_def)
  have "ping_ok c'"
    unfolding ping_ok_def c'(3,4)
  proof (intro ballI allI impI)
    fix v p assume v: "v \<in> set ((c_pcp_servers c)[s := g (c_pcp_servers c ! s)])" "s_ping_flow_msg v = Some p"
    show "\<exists>f. c_heap c p = Some f \<and> f_pcp_server_indx f = s_index v"
    proof (cases "v \<in> set (c_pcp_servers c)")
      case False
      then have "v = g (c_pcp_servers c ! s)" using v(1) set_update_subset_insert by fastforce
      then show ?thesis using v(2) ping [of p] old [of "c_pcp_servers c ! s" p] s idx by auto
    qed (use old v(2) in blast)
  qed
  moreover have "msg_ok f" if "c_heap c' p = Some f" for p f
    using that inv c'(3) by (auto simp: ctx_inv_def flows_ok_def)
  ultimately have "ctx_inv c'" using steady_inv [OF inv c'(2)] by blast
  moreover have "c_msg c' = c_msg c" using c'(1) s by (auto simp: upd_server_def)
  ultimately show ?thesis using c' by simp
qed

section \<open>Sequences of operations\<close>

text \<open>
  \<open>grows c c'\<close>: servers keep their identity, flows stay allocated and keep their children, but new flows
  (without children) may come.
  \<open>reach c0 c\<close>: the context \<open>c\<close>, reached from \<open>c0\<close> in the course of a handler, is in order. The rules
  below have the form of a rule of Hoare logic for \<open>x \<leftarrow> m; k x\<close>.
\<close>

definition kid_of :: "pcp_ctx \<Rightarrow> fid \<Rightarrow> fid option" where
  "kid_of c p = Option.bind (c_heap c p) f_next_child"

lemma kid_of_world [simp]:
  "kid_of (c\<lparr>w_tod_i := n\<rparr>) = kid_of c" "kid_of (c\<lparr>w_time_i := n\<rparr>) = kid_of c"
  "kid_of (c\<lparr>c_msg := m\<rparr>) = kid_of c" "kid_of (c\<lparr>w_recvfrom_i := n\<rparr>) = kid_of c"
  "kid_of (c\<lparr>w_alloc_i := n\<rparr>) = kid_of c" "kid_of (c\<lparr>c_pcp_servers := vs\<rparr>) = kid_of c"
  by (simp_all add: kid_of_def fun_eq_iff)

definition grows :: "pcp_ctx \<Rightarrow> pcp_ctx \<Rightarrow> bool" where
  "grows c c' \<longleftrightarrow> map server_ident (c_pcp_servers c') = map server_ident (c_pcp_servers c) \<and>
     w_tod c' = w_tod c \<and> w_tod_i c \<le> w_tod_i c' \<and> w_recvfrom c' = w_recvfrom c \<and> w_sendto c' = w_sendto c \<and>
     (\<forall>p. (c_heap c p \<noteq> None \<longrightarrow> c_heap c' p \<noteq> None) \<and> kid_of c' p = kid_of c p)"

definition reach :: "pcp_ctx \<Rightarrow> pcp_ctx \<Rightarrow> bool" where
  "reach c0 c \<longleftrightarrow> ctx_inv c \<and> grows c0 c"

lemma steady_kid_of:
  assumes "steady c c'" shows "kid_of c' p = kid_of c p"
  using steady_heap [OF assms, of p]
  by (cases "c_heap c p"; cases "c_heap c' p") (auto simp: kid_of_def flow_ident_def)

lemma steady_grows: "steady c c' \<Longrightarrow> grows c c'"
  unfolding grows_def by (simp only: steady_alloc steady_kid_of) (simp add: steady_def)

lemma grows_refl [simp]: "grows c c"
  by (simp add: grows_def)

lemma grows_trans: "grows a b \<Longrightarrow> grows b c \<Longrightarrow> grows a c"
  by (auto simp: grows_def)

lemma reach_refl: "ctx_inv c \<Longrightarrow> reach c c"
  by (simp add: reach_def)

lemma reach_steady: "reach c0 c \<Longrightarrow> ctx_inv c' \<Longrightarrow> steady c c' \<Longrightarrow> reach c0 c'"
  using grows_trans steady_grows by (auto simp: reach_def)

lemma reach_length: "reach c0 c \<Longrightarrow> length (c_pcp_servers c) = length (c_pcp_servers c0)"
  unfolding reach_def grows_def by (metis map_eq_imp_length_eq)

lemma reach_in_use:
  assumes "reach c0 c" "in_use s c0"
  shows "in_use s c"
proof -
  from assms(1) have "map server_ident (c_pcp_servers c) = map server_ident (c_pcp_servers c0)"
    by (simp add: reach_def grows_def)
  moreover have "s < length (c_pcp_servers c0)" "s < length (c_pcp_servers c)"
    using assms reach_length [OF assms(1)] by (simp_all add: in_use_def)
  ultimately have "server_ident (c_pcp_servers c ! s) = server_ident (c_pcp_servers c0 ! s)"
    by (metis nth_map)
  then show ?thesis using assms(2) \<open>s < length (c_pcp_servers c)\<close> by (simp add: in_use_def ident_defs)
qed

lemmas reach_server_length = in_use_length [OF reach_in_use]

lemma reach_rd_server:
  assumes "reach c0 c" "in_use s c0"
  shows "rd_server s c = Some (c_pcp_servers c ! s)"
  using reach_server_length [OF assms] by (simp add: rd_server_def)

lemma reach_ping:
  assumes "reach c0 c" "in_use s c0" "s_ping_flow_msg (c_pcp_servers c ! s) = Some p"
  shows "\<exists>f. c_heap c p = Some f \<and> f_pcp_server_indx f = s_index (c_pcp_servers c ! s)"
  using assms reach_server_length [OF assms(1,2)] by (auto simp: reach_def ctx_inv_def ping_ok_def)

text \<open>The counters of the oracles do not matter.\<close>

lemma reach_world [simp]:
  "reach c0 c \<Longrightarrow> reach c0 (c\<lparr>w_tod_i := Suc (w_tod_i c)\<rparr>)" "reach c0 (c\<lparr>w_time_i := n\<rparr>) = reach c0 c"
  "reach c0 (c\<lparr>c_msg := m\<rparr>) = reach c0 c" "reach c0 (c\<lparr>w_recvfrom_i := n\<rparr>) = reach c0 c"
proof -
  have "db_rep (c\<lparr>w_tod_i := Suc (w_tod_i c)\<rparr>) B = db_rep c B" "db_rep (c\<lparr>w_time_i := n\<rparr>) B = db_rep c B"
    "db_rep (c\<lparr>c_msg := m\<rparr>) B = db_rep c B" "db_rep (c\<lparr>w_recvfrom_i := n\<rparr>) B = db_rep c B" for B
    by (simp_all add: db_rep_def in_bucket_def [abs_def])
  then have inv: "ctx_inv (c\<lparr>w_tod_i := Suc (w_tod_i c)\<rparr>) = ctx_inv c" and
    rest: "reach c0 (c\<lparr>w_time_i := n\<rparr>) = reach c0 c"
    "reach c0 (c\<lparr>c_msg := m\<rparr>) = reach c0 c" "reach c0 (c\<lparr>w_recvfrom_i := n\<rparr>) = reach c0 c"
    by (simp_all add: reach_def grows_def ctx_inv_def world_ok_def db_inv_def server_inv_def flows_ok_def
        ping_ok_def)
  have "grows c (c\<lparr>w_tod_i := Suc (w_tod_i c)\<rparr>)" by (simp add: grows_def)
  then show "reach c0 (c\<lparr>w_tod_i := Suc (w_tod_i c)\<rparr>)" if "reach c0 c"
    using that inv grows_trans by (auto simp: reach_def)
  show "reach c0 (c\<lparr>w_time_i := n\<rparr>) = reach c0 c" "reach c0 (c\<lparr>c_msg := m\<rparr>) = reach c0 c"
    "reach c0 (c\<lparr>w_recvfrom_i := n\<rparr>) = reach c0 c" by (rule rest)+
qed

lemma upd_server_then:
  assumes "reach c0 c" "in_use s c0" "\<And>v. server_ident (g v) = server_ident v"
    and "\<And>v. s_ping_flow_msg (g v) = s_ping_flow_msg v"
    and "\<And>c'. reach c0 c' \<Longrightarrow> steady c c' \<Longrightarrow> c_heap c' = c_heap c \<Longrightarrow> c_msg c' = c_msg c \<Longrightarrow>
      c_pcp_servers c' = (c_pcp_servers c)[s := g (c_pcp_servers c ! s)] \<Longrightarrow> runs (k c') Q"
  shows "runs (Option.bind (upd_server s g c) k) Q"
proof (rule runs_bind)
  show "runs (upd_server s g c) (\<lambda>c'. ctx_inv c' \<and> steady c c' \<and> c_heap c' = c_heap c \<and>
     c_pcp_servers c' = (c_pcp_servers c)[s := g (c_pcp_servers c ! s)] \<and> c_msg c' = c_msg c)"
    using assms(1-4) reach_server_length [OF assms(1,2)] by (intro upd_server_inv) (auto simp: reach_def)
  show "runs (k c') Q" if "ctx_inv c' \<and> steady c c' \<and> c_heap c' = c_heap c \<and>
     c_pcp_servers c' = (c_pcp_servers c)[s := g (c_pcp_servers c ! s)] \<and> c_msg c' = c_msg c" for c'
    using that assms(5) [of c'] reach_steady [OF assms(1)] by blast
qed

lemma set_ping_then:
  assumes "reach c0 c" "in_use s c0"
    and "\<And>p. msg = Some p \<Longrightarrow> \<exists>f. c_heap c p = Some f \<and> f_pcp_server_indx f = s_index (c_pcp_servers c ! s)"
    and "\<And>c'. reach c0 c' \<Longrightarrow> steady c c' \<Longrightarrow> c_heap c' = c_heap c \<Longrightarrow>
      c_pcp_servers c' = (c_pcp_servers c)[s := (c_pcp_servers c ! s)\<lparr>s_ping_flow_msg := msg\<rparr>] \<Longrightarrow> runs (k c') Q"
  shows "runs (Option.bind (upd_server s (\<lambda>v. v\<lparr>s_ping_flow_msg := msg\<rparr>) c) k) Q"
proof (rule runs_bind)
  show "runs (upd_server s (\<lambda>v. v\<lparr>s_ping_flow_msg := msg\<rparr>) c) (\<lambda>c'. ctx_inv c' \<and> steady c c' \<and> c_heap c' = c_heap c \<and>
     c_pcp_servers c' = (c_pcp_servers c)[s := (c_pcp_servers c ! s)\<lparr>s_ping_flow_msg := msg\<rparr>] \<and> c_msg c' = c_msg c)"
    using assms(1-3) reach_in_use [OF assms(1,2)]
    by (intro upd_server_inv) (auto simp: reach_def ident_defs in_use_def)
qed (use assms(4) reach_steady [OF assms(1)] in blast)

lemma stamp_then:
  assumes "reach c0 c" "in_use s c0"
    and "\<And>c'. reach c0 c' \<Longrightarrow> c_heap c' = c_heap c \<Longrightarrow> c_msg c' = c_msg c \<Longrightarrow> runs (k c') Q"
  shows "runs (Option.bind (stamp_next_timeout s c) k) Q"
  unfolding stamp_next_timeout_def gettimeofday_def Let_def prod.case
  by (rule upd_server_then [of c0]) (use assms in \<open>auto simp: ident_defs\<close>)

lemma reach_fstep: "reach c0 c \<Longrightarrow> fstep p c c' \<Longrightarrow> reach c0 c'"
  using reach_steady fstep_inv fstep_steady by (auto simp: reach_def)

lemma reach_good: "reach c0 c \<Longrightarrow> c_heap c p = Some f \<Longrightarrow> flow_good p c"
  by (auto simp: reach_def ctx_inv_def flow_good_def flows_ok_def)

lemma upd_flow_then:
  assumes "reach c0 c" "c_heap c p \<noteq> None" "\<And>f. flow_ident (g f) = flow_ident f"
    and "\<And>f. msg_ok f \<Longrightarrow> msg_ok (g f)"
    and "\<And>c'. reach c0 c' \<Longrightarrow> fstep p c c' \<Longrightarrow> runs (k c') Q"
  shows "runs (Option.bind (upd_flow p g c) k) Q"
proof (rule runs_bind)
  show "runs (upd_flow p g c) (fstep p c)"
    using assms(1-4) reach_good by (intro upd_flow_fstep) auto
qed (use assms(5) reach_fstep [OF assms(1)] in blast)

lemma event_then:
  assumes "reach c0 c" "c_heap c p \<noteq> None" "event_has_msg ev r"
    and "\<And>st c'. reach c0 c' \<Longrightarrow> fstep p c c' \<Longrightarrow> st = state_of c' p \<Longrightarrow> runs (k (st, c')) Q"
  shows "runs (Option.bind (handle_flow_event p ev r c) k) Q"
proof -
  from assms(1,2) obtain f xs where f: "c_heap c p = Some f" "kids (c_heap c) (Some p) xs"
    by (fastforce simp: reach_def ctx_inv_def flows_ok_def)
  show ?thesis
  proof (rule runs_bind [OF handle_flow_event_runs [OF reach_good [OF assms(1) f(1)] f(2) assms(3)]])
    fix x assume "case x of (st, c') \<Rightarrow> fstep p c c' \<and> st = state_of c' p"
    then show "runs (k x) Q" using assms(4) reach_fstep [OF assms(1)] by (cases x) auto
  qed
qed

lemma map_option_bind: "map_option g m = Option.bind m (\<lambda>x. Some (g x))"
  by (cases m) simp_all

lemma fstep_alloc: "fstep p c c' \<Longrightarrow> (c_heap c' q = None) = (c_heap c q = None)"
  using steady_alloc fstep_steady by blast

lemma fstep_servers: "fstep p c c' \<Longrightarrow> c_pcp_servers c' = c_pcp_servers c"
  by (simp add: fstep_def same_rest_def)

lemma fstep_msg: "fstep p c c' \<Longrightarrow> c_msg c' = c_msg c"
  by (simp add: fstep_def same_rest_def)

section \<open>Callbacks\<close>

lemma check_flow_timeout_runs:
  assumes r: "reach c0 c" and p: "c_heap c p \<noteq> None"
  shows "runs (check_flow_timeout p t c) (\<lambda>(stop, t', c'). \<not> stop \<and> reach c0 c' \<and> fstep p c c')"
proof -
  obtain f where f: "c_heap c p = Some f" "rd_flow p c = Some f" using p by (auto simp: rd_flow_def)
  show ?thesis
  proof (cases "f_timeout f = tv_zero")
    case True
    then show ?thesis using f r fstep_refl [OF reach_good [OF r f(1)]] by (simp add: check_flow_timeout_def)
  next
    case False
    obtain now d where d: "gettimeofday c = (now, d)" by fastforce
    obtain rr ft ctv where cmp: "timeval_comp (f_timeout f) now = (rr, ft, ctv)" by (metis prod_cases3)
    have gd: "fstep p c d" using tod_good [OF reach_good [OF r f(1)] d] by simp
    have rd: "reach c0 d" "c_heap d p \<noteq> None" using d r p by (auto simp: gettimeofday_def)
    show ?thesis
      unfolding check_flow_timeout_def f(2) bind.simps if_not_P [OF False] d prod.case Let_def cmp
    proof (rule upd_flow_then [OF rd], simp_all only: flow_ident_simps msg_ok_simps)
      fix c1 assume c1: "reach c0 c1" "fstep p d c1"
      have al1: "c_heap c1 p \<noteq> None" using fstep_alloc [OF c1(2)] rd(2) by simp
      have "runs (if rr \<le> 0 then map_option snd (handle_flow_event p fev_flow_timedout None c1) else Some c1)
          (\<lambda>c'. reach c0 c' \<and> fstep p c1 c')"
      proof (cases "rr \<le> 0")
        case True
        have "runs (Option.bind (handle_flow_event p fev_flow_timedout None c1) (\<lambda>x. Some (snd x)))
            (\<lambda>c'. reach c0 c' \<and> fstep p c1 c')"
          by (rule event_then [OF c1(1) al1]) (simp_all add: event_has_msg_def)
        then show ?thesis using True by (simp only: if_True map_option_bind)
      next
        case False
        then show ?thesis using c1 al1 fstep_refl reach_good by auto
      qed
      then obtain c2 where c2: "(if rr \<le> 0 then map_option snd (handle_flow_event p fev_flow_timedout None c1)
          else Some c1) = Some c2" "reach c0 c2" "fstep p c1 c2" by (auto elim!: runsE)
      have st: "fstep p c c2" using fstep_trans [OF gd fstep_trans [OF c1(2) c2(3)]] .
      have al2: "c_heap c2 p \<noteq> None" using fstep_alloc [OF c2(3)] al1 by simp
      then obtain g where g: "rd_flow p c2 = Some g" by (auto simp: rd_flow_def)
      obtain x1 x2 x3 x4 where sub: "timeval_subtract (f_timeout g) ctv = (x1, x2, x3, x4)" by (metis prod_cases4)
      have "runs (Option.bind (upd_flow p (\<lambda>f. f\<lparr>f_timeout := x3\<rparr>) c2) (\<lambda>c. k c)) Q"
        if "\<And>c3. reach c0 c3 \<Longrightarrow> fstep p c c3 \<Longrightarrow> runs (k c3) Q" for k and Q :: "bool \<times> timeval \<times> pcp_ctx \<Rightarrow> bool"
        by (rule upd_flow_then [OF c2(2) al2]) (use that fstep_trans [OF st] in simp_all)
      then show "runs (Option.bind (if rr \<le> 0 then map_option snd (handle_flow_event p fev_flow_timedout None c1) else Some c1)
          (\<lambda>c. Option.bind (rd_flow p c) (\<lambda>f. if f_timeout f = tv_zero then Some (False, t, c)
            else case timeval_subtract (f_timeout f) ctv of (_, ctv, ft, _) \<Rightarrow>
              Option.bind (upd_flow p (\<lambda>f. f\<lparr>f_timeout := ft\<rparr>) c) (\<lambda>c.
                if t = tv_zero then Some (False, ctv, c)
                else case timeval_comp ctv t of (r, ctv, tout) \<Rightarrow> Some (False, if r < 0 then ctv else tout, c)))))
          (\<lambda>(stop, t', c'). \<not> stop \<and> reach c0 c' \<and> fstep p c c')"
        unfolding c2(1) bind.simps g sub prod.case using c2(2) st
        by (auto split: prod.splits)
    qed
  qed
qed

lemma flow_send_event_iter_runs:
  assumes r: "reach c0 c" and p: "c_heap c p \<noteq> None" and s: "in_use s c0"
    and ev: "event_has_msg ev None"
  shows "runs (flow_send_event_iter s ev p d c) (\<lambda>(stop, d', c'). reach c0 c' \<and> steady c c')"
proof -
  obtain f where f: "rd_flow p c = Some f" using p by (auto simp: rd_flow_def)
  show ?thesis
  proof (cases "f_pcp_server_indx f = s_index (c_pcp_servers c ! s)")
    case True
    show ?thesis
      unfolding flow_send_event_iter_def f bind.simps reach_rd_server [OF r s] if_P [OF True]
    proof (rule event_then [OF r p ev], unfold prod.case)
      fix st c1 assume c1: "reach c0 c1" "fstep p c c1"
      have al: "c_heap c1 p \<noteq> None" using fstep_alloc [OF c1(2)] p by simp
      show "runs (Option.bind (rd_server s c1) (\<lambda>sv. Option.bind (check_flow_timeout p (s_next_timeout sv) c1)
          (\<lambda>(_, t, c). Option.bind (set_next_timeout s t c) (\<lambda>c. Some (False, d, c)))))
          (\<lambda>(stop, d', c'). reach c0 c' \<and> steady c c')"
        unfolding reach_rd_server [OF c1(1) s] bind.simps
      proof (rule runs_bind [OF check_flow_timeout_runs [OF c1(1) al]])
        fix x :: "bool \<times> timeval \<times> pcp_ctx"
        assume "case x of (stop, t', c') \<Rightarrow> \<not> stop \<and> reach c0 c' \<and> fstep p c1 c'"
        then obtain t c2 where x: "x = (False, t, c2)" and c2: "reach c0 c2" "fstep p c1 c2" by (cases x) auto
        have st: "steady c c2" using steady_trans [OF fstep_steady [OF c1(2)] fstep_steady [OF c2(2)]] .
        show "runs (case x of (_, t, c) \<Rightarrow> Option.bind (set_next_timeout s t c) (\<lambda>c. Some (False, d, c)))
            (\<lambda>(stop, d', c'). reach c0 c' \<and> steady c c')"
          unfolding x prod.case
          by (rule upd_server_then [OF c2(1) s]) (use steady_trans [OF st] in \<open>auto simp: ident_defs\<close>)
      qed
    qed
  next
    case False
    then show ?thesis using f r s by (simp add: flow_send_event_iter_def reach_rd_server)
  qed
qed

text \<open>The flow that is pinged with: the first one that has not been sent.\<close>

definition pingable :: "nat \<Rightarrow> pcp_ctx \<Rightarrow> fid \<Rightarrow> bool" where
  "pingable s c p \<longleftrightarrow> f_pcp_server_indx (the (c_heap c p)) = s_index (c_pcp_servers c ! s) \<and>
     state_of c p \<in> {pfs_idle, pfs_wait_for_server_init, pfs_send}"

lemma get_first_flow_iter_eq:
  assumes "c_heap c p \<noteq> None" "s < length (c_pcp_servers c)"
  shows "get_first_flow_iter s p msg c = Some (pingable s c p, if pingable s c p then Some p else msg, c)"
  using assms by (auto simp: get_first_flow_iter_def rd_flow_def rd_server_def pingable_def)

section \<open>The callbacks keep the contract of the iteration\<close>

abbreviation visiting :: "pcp_ctx \<Rightarrow> fid list \<Rightarrow> pcp_ctx \<Rightarrow> bool" where
  "visiting c0 ps c \<equiv> reach c0 c \<and> (\<forall>p\<in>set ps. c_heap c p \<noteq> None)"

lemma visiting_steady:
  assumes "visiting c0 (p # ps) c" "reach c0 c'" "steady c c'"
  shows "visiting c0 ps c' \<and> links_kept (set ps) c c' \<and> heads_kept {p} c c'"
  using assms steady_alloc [OF assms(3)] same_db_kept [OF steady_same_db [OF assms(3)]] by auto

lemma check_flow_timeout_visit:
  assumes "visiting c0 (p # ps) c"
  shows "\<exists>stop t' c'. check_flow_timeout p t c = Some (stop, t', c') \<and> reach c0 c' \<and> steady c c'"
  using check_flow_timeout_runs [of c0 c p t] assms fstep_steady by (auto elim!: runsE)

interpretation timeouts: flow_visitor_total "\<lambda>_. visiting c0" check_flow_timeout for c0
proof unfold_locales
  fix p ps c d stop d' c'
  assume v: "visiting c0 (p # ps) c"
  note c' = check_flow_timeout_visit [OF v, of d]
  then show "\<exists>stop d' c'. check_flow_timeout p d c = Some (stop, d', c')" by blast
  show "visiting c0 ps c' \<and> links_kept (set ps) c c' \<and> heads_kept {p} c c'"
    if "check_flow_timeout p d c = Some (stop, d', c')"
    using c' that by (intro visiting_steady [OF v]) auto
qed

lemma flow_send_event_visit:
  assumes "visiting c0 (p # ps) c" "in_use s c0" "event_has_msg ev None"
  shows "\<exists>stop t' c'. flow_send_event_iter s ev p d c = Some (stop, t', c') \<and> reach c0 c' \<and> steady c c'"
  using flow_send_event_iter_runs [of c0 c p s ev d] assms by (auto elim!: runsE)

interpretation events: flow_visitor_total
  "\<lambda>_ ps c. visiting c0 ps c \<and> in_use s c0 \<and> event_has_msg ev None"
  "flow_send_event_iter s ev" for c0 s ev
proof unfold_locales
  fix p ps c d stop d' c'
  assume v: "visiting c0 (p # ps) c \<and> in_use s c0 \<and> event_has_msg ev None"
  then have c': "\<exists>stop t' c'. flow_send_event_iter s ev p d c = Some (stop, t', c') \<and> reach c0 c' \<and> steady c c'"
    by (intro flow_send_event_visit) auto
  then show "\<exists>stop d' c'. flow_send_event_iter s ev p d c = Some (stop, d', c')" by blast
  show "(visiting c0 ps c' \<and> in_use s c0 \<and> event_has_msg ev None) \<and>
      links_kept (set ps) c c' \<and> heads_kept {p} c c'"
    if "flow_send_event_iter s ev p d c = Some (stop, d', c')"
  proof -
    have "visiting c0 (p # ps) c" "reach c0 c'" "steady c c'" using v c' that by auto
    from visiting_steady [OF this] v show ?thesis by blast
  qed
qed

interpretation pings: flow_visitor_total
  "\<lambda>_ ps c. c = c0 \<and> (\<forall>p\<in>set ps. c_heap c p \<noteq> None) \<and> s < length (c_pcp_servers c)"
  "get_first_flow_iter s" for c0 s
proof unfold_locales
  fix p ps c d stop d' c'
  assume v: "c = c0 \<and> (\<forall>p\<in>set (p # ps). c_heap c p \<noteq> None) \<and> s < length (c_pcp_servers c)"
  then have e: "get_first_flow_iter s p d c = Some (pingable s c p, if pingable s c p then Some p else d, c)"
    by (intro get_first_flow_iter_eq) auto
  then show "\<exists>stop d' c'. get_first_flow_iter s p d c = Some (stop, d', c')" by blast
  show "(c' = c0 \<and> (\<forall>p\<in>set ps. c_heap c' p \<noteq> None) \<and> s < length (c_pcp_servers c')) \<and>
      links_kept (set ps) c c' \<and> heads_kept {p} c c'"
    if "get_first_flow_iter s p d c = Some (stop, d', c')"
    using e that v by (auto simp: links_kept_def heads_kept_def)
qed

section \<open>Iterations\<close>

lemma reach_table:
  assumes "reach c0 c"
  obtains B where "db_rep c B" "set (concat B) = db_flows c" "\<forall>p\<in>set (concat B). c_heap c p \<noteq> None"
proof -
  from assms obtain B where B: "db_rep c B" by (auto simp: reach_def ctx_inv_def db_inv_def)
  show ?thesis
    by (rule that [OF B db_rep_flows [OF B]]) (simp only: db_rep_flows [OF B], auto simp: db_flows_def)
qed

text \<open>What every call of the callback keeps of its data holds of the result.\<close>

lemma foreach_chain_data:
  assumes "foreach_flow_chain visit v d c = Some r" "P d"
    and "\<And>p d c. P d \<Longrightarrow> yields (visit p d c) (\<lambda>(stop, d', c'). P d')"
  shows "P (fst (snd r))"
  using assms
proof (induction visit v d c r rule: foreach_flow_chain.raw_induct [rotated, consumes 1, case_names loop])
  case (loop walk visit v d c r)
  show ?case
  proof (cases v)
    case None
    then show ?thesis using loop(2,3) by auto
  next
    case (Some p)
    from loop(2) obtain fl :: pcp_flow and x where x: "visit p d c = Some x"
        "(case x of (stop, d, c) \<Rightarrow> if stop then Some (True, d, c) else walk visit (f_next fl) d c) = Some r"
      unfolding Some option.case bind_eq_Some_conv by blast
    obtain stop d1 c1 where 1: "x = (stop, d1, c1)" by (metis prod_cases3)
    have P: "P d1" using yieldsD [OF loop(4) [OF loop(3)] x(1)] 1 by simp
    show ?thesis
    proof (cases stop)
      case True
      then have "r = (True, d1, c1)" using x(2) 1 by simp
      then show ?thesis using P by simp
    next
      case False
      then have "walk visit (f_next fl) d1 c1 = Some r" using x(2) 1 by simp
      from loop(1) [OF this P loop(4)] show ?thesis .
    qed
  qed
qed

lemma foreach_data:
  assumes "\<And>p d c. P d \<Longrightarrow> yields (visit p d c) (\<lambda>(stop, d', c'). P d')" "P d"
  shows "yields (pcp_db_foreach_flow visit d c) (\<lambda>(e, d', c'). P d')"
proof -
  have "P (fst (snd r))" if "foreach_flow_buckets visit bs d c = Some r" "P d" for bs d c r
    using that
  proof (induction bs arbitrary: d c)
    case (Cons i bs)
    from Cons.prems(1) obtain fdb stop d1 c1 where 1: "foreach_flow_chain visit fdb d c = Some (stop, d1, c1)"
        "(if stop then Some (PCP_ERR_SUCCESS, d1, c1) else foreach_flow_buckets visit bs d1 c1) = Some r"
      by (auto simp: bind_eq_Some_conv)
    have "P d1" using foreach_chain_data [OF 1(1), of P] Cons.prems(2) assms(1) by simp
    with 1(2) Cons.IH [of d1 c1] show ?case by (cases stop) auto
  qed auto
  with assms(2) show ?thesis by (auto simp: pcp_db_foreach_flow_def yields_def)
qed

lemma check_flow_timeout_data:
  assumes "tv_normal t" "0 \<le> tv_us t"
  shows "yields (check_flow_timeout p t c) (\<lambda>(stop, t', c'). tv_normal t' \<and> 0 \<le> tv_us t')"
proof -
  have "tv_normal (fst (snd (timeval_subtract x y))) \<and> 0 \<le> tv_us (fst (snd (timeval_subtract x y)))" for x y
    using timeval_subtract_normal timeval_subtract_diff by simp
  then show ?thesis
    using assms by (auto simp: check_flow_timeout_def Let_def timeval_comp_sgn case_prod_unfold)
qed

lemma foreach_timeout_then:
  assumes r: "reach c0 c" and t0: "tv_normal t0" "0 \<le> tv_us t0"
    and k: "\<And>x t c'. reach c0 c' \<Longrightarrow> tv_normal t \<Longrightarrow> 0 \<le> tv_us t \<Longrightarrow> runs (k (x, t, c')) Q"
  shows "runs (Option.bind (pcp_db_foreach_flow check_flow_timeout t0 c) k) Q"
proof -
  have data: "yields (pcp_db_foreach_flow check_flow_timeout t0 c) (\<lambda>(e, t, c'). tv_normal t \<and> 0 \<le> tv_us t)"
    by (rule foreach_data) (use check_flow_timeout_data t0 in auto)
  obtain B where B: "db_rep c B" "\<forall>p\<in>set (concat B). c_heap c p \<noteq> None" using reach_table [OF r] by metis
  show ?thesis
  proof (rule runs_bind [OF runs_conj [OF timeouts.foreach_total [OF B(1)] data]])
    show "visiting c0 (concat B) c" using r B(2) by blast
  qed (use k in auto)
qed

lemma foreach_event_then:
  assumes r: "reach c0 c" and s: "in_use s c0" "event_has_msg ev None"
    and k: "\<And>x d c'. reach c0 c' \<Longrightarrow> runs (k (x, d, c')) Q"
  shows "runs (Option.bind (pcp_db_foreach_flow (flow_send_event_iter s ev) () c) k) Q"
proof -
  obtain B where B: "db_rep c B" "\<forall>p\<in>set (concat B). c_heap c p \<noteq> None" using reach_table [OF r] by metis
  show ?thesis
  proof (rule runs_bind [OF events.foreach_total [OF B(1)]])
    show "visiting c0 (concat B) c \<and> in_use s c0 \<and> event_has_msg ev None" using r s B(2) by blast
  qed (use k in auto)
qed

lemma iter_first:
  assumes "\<forall>p\<in>set ps. c_heap c p \<noteq> None" "s < length (c_pcp_servers c)"
  shows "iter_flows (get_first_flow_iter s) ps None c =
    Some (find (pingable s c) ps \<noteq> None, find (pingable s c) ps, c)"
  using assms(1)
proof (induction ps)
  case (Cons p ps)
  then show ?case using get_first_flow_iter_eq [OF _ assms(2), of p None] by auto
qed simp

lemma get_ping_msg_then:
  assumes r: "reach c0 c" and s: "in_use s c0"
    and k: "\<And>msg c'. reach c0 c' \<Longrightarrow> steady c c' \<Longrightarrow> c_heap c' = c_heap c \<Longrightarrow>
      s_ping_flow_msg (c_pcp_servers c' ! s) = msg \<Longrightarrow>
      (\<And>p. msg = Some p \<Longrightarrow> p \<in> db_flows c \<and> pingable s c p) \<Longrightarrow> runs (k (msg, c')) Q"
  shows "runs (Option.bind (get_ping_msg s c) k) Q"
proof -
  obtain B where B: "db_rep c B" "set (concat B) = db_flows c" "\<forall>p\<in>set (concat B). c_heap c p \<noteq> None"
    using reach_table [OF r] by metis
  have len: "s < length (c_pcp_servers c)" using reach_server_length [OF r s] .
  define msg where "msg = find (pingable s c) (concat B)"
  have it: "pcp_db_foreach_flow (get_first_flow_iter s) None c =
      Some (if msg \<noteq> None then PCP_ERR_SUCCESS else PCP_ERR_NOT_FOUND, msg, c)"
    using pings.foreach_iter [OF B(1), of c s None] iter_first [OF B(3) len] B(3) len by (simp add: msg_def)
  have m: "p \<in> db_flows c \<and> pingable s c p \<and> c_heap c p \<noteq> None" if "msg = Some p" for p
    using that B unfolding msg_def find_Some_iff by (metis nth_mem)
  have "runs (Option.bind (upd_server s (\<lambda>v. v\<lparr>s_ping_flow_msg := msg\<rparr>) c) (\<lambda>c. Option.bind (Some (msg, c)) k)) Q"
  proof (rule set_ping_then [OF r s])
    show "\<exists>f. c_heap c p = Some f \<and> f_pcp_server_indx f = s_index (c_pcp_servers c ! s)" if "msg = Some p" for p
      using m [OF that] by (auto simp: pingable_def)
  qed (use k m len in auto)
  then show ?thesis unfolding get_ping_msg_def it by simp
qed

section \<open>New flows\<close>

lemma payload_inv:
  assumes inv: "ctx_inv c" and pl: "same_payload c c'" and "db_inv c'" "w_sendto c' = w_sendto c"
  shows "ctx_inv c'"
proof -
  have ok: "map_option msg_ok (c_heap c' q) = map_option msg_ok (c_heap c q)" for q
    by (rule same_payload_field [OF pl]) (simp add: msg_ok_def flow_wf_def f_app_name_length_def split: option.split)
  have ch: "map_option f_next_child (c_heap c' q) = map_option f_next_child (c_heap c q)" for q
    by (rule same_payload_field [OF pl]) simp
  have ix: "map_option f_pcp_server_indx (c_heap c' q) = map_option f_pcp_server_indx (c_heap c q)" for q
    by (rule same_payload_field [OF pl]) simp
  have kd: "kids (c_heap c') p xs = kids (c_heap c) p xs" for p xs by (rule kids_cong) (simp add: ch)
  have "flows_ok c'"
    unfolding flows_ok_def kd
  proof (intro allI impI)
    fix q f assume q: "c_heap c' q = Some f"
    with ok [of q] obtain g where "c_heap c q = Some g" "msg_ok g = msg_ok f" by (cases "c_heap c q") auto
    with inv show "msg_ok f \<and> (\<exists>xs. kids (c_heap c) (Some q) xs)" by (auto simp: ctx_inv_def flows_ok_def)
  qed
  moreover have "ping_ok c'"
    unfolding ping_ok_def
  proof (intro ballI allI impI)
    fix v q assume "v \<in> set (c_pcp_servers c')" "s_ping_flow_msg v = Some q"
    then have "v \<in> set (c_pcp_servers c)" "s_ping_flow_msg v = Some q" using pl by (simp_all add: same_payload_def)
    with inv obtain f where "c_heap c q = Some f" "f_pcp_server_indx f = s_index v"
      unfolding ctx_inv_def ping_ok_def by blast
    with ix [of q] show "\<exists>f. c_heap c' q = Some f \<and> f_pcp_server_indx f = s_index v"
      by (cases "c_heap c' q") auto
  qed
  moreover have "server_inv c'" using inv pl by (simp add: ctx_inv_def server_inv_def same_payload_def)
  ultimately show ?thesis using assms by (simp add: ctx_inv_def world_ok_def)
qed

lemma kids_alloc: "kids h p xs \<Longrightarrow> x \<in> set xs \<Longrightarrow> h x \<noteq> None"
  by (induction xs arbitrary: p) auto

lemma new_cell_rep:
  assumes "db_rep c B" "f_key_bucket f = EMPTY"
  shows "db_rep (c\<lparr>c_heap := (c_heap c)(c_brk c \<mapsto> f), c_brk := Suc (c_brk c)\<rparr>) B"
proof -
  have free: "c_heap c (c_brk c) = None" using assms(1) by (simp add: db_rep_def)
  have nin: "c_brk c \<notin> set (B ! i)" if "i < FLOW_HASH_SIZE" for i
    using db_rep_bucket(3) [OF assms(1) that] free by (auto simp: in_bucket_def)
  have "in_bucket (c\<lparr>c_heap := (c_heap c)(c_brk c \<mapsto> f), c_brk := Suc (c_brk c)\<rparr>) i = in_bucket c i" for i
    using free assms(2) by (auto simp: in_bucket_def fun_eq_iff)
  with nin assms show ?thesis by (auto simp: db_rep_def)
qed

lemma new_cell_inv:
  assumes inv: "ctx_inv c" and f: "msg_ok f" "f_key_bucket f = EMPTY" "f_next_child f = None"
    and c': "c' = c\<lparr>c_heap := (c_heap c)(c_brk c \<mapsto> f), c_brk := Suc (c_brk c)\<rparr>"
  shows "ctx_inv c'"
proof -
  let ?p = "c_brk c"
  from inv obtain B where B: "db_rep c B" by (auto simp: ctx_inv_def db_inv_def)
  then have free: "c_heap c ?p = None" by (simp add: db_rep_def)
  have kd: "kids (c_heap c') q xs" if "kids (c_heap c) q xs" for q xs
  proof -
    have "?p \<notin> set xs" using kids_alloc [OF that, of ?p] free by auto
    then have "kids (c_heap c') q xs = kids (c_heap c) q xs" by (intro kids_cong) (auto simp: c')
    with that show ?thesis by simp
  qed
  have new: "kids (c_heap c') (Some ?p) [?p]" using f(3) by (simp add: c')
  have "flows_ok c'"
    unfolding flows_ok_def
  proof (intro allI impI)
    fix q g assume q: "c_heap c' q = Some g"
    show "msg_ok g \<and> (\<exists>xs. kids (c_heap c') (Some q) xs)"
    proof (cases "q = ?p")
      case True
      then have "g = f" using q by (simp add: c')
      with True new f(1) show ?thesis by blast
    next
      case False
      then have "c_heap c q = Some g" using q by (simp add: c')
      with inv obtain xs where "msg_ok g" "kids (c_heap c) (Some q) xs" unfolding ctx_inv_def flows_ok_def by blast
      with kd show ?thesis by blast
    qed
  qed
  moreover have "ping_ok c'" using inv free by (fastforce simp: ctx_inv_def ping_ok_def c')
  moreover have "db_inv c'" using new_cell_rep [OF B f(2)] by (auto simp: db_inv_def c')
  ultimately show ?thesis using inv by (simp add: ctx_inv_def world_ok_def server_inv_def c')
qed

lemma flow_zero_ok:
  "msg_ok (flow_zero\<lparr>f_pcp_msg_len := 0, f_pcp_server_indx := i, f_kd := kd, f_key_bucket := EMPTY\<rparr>)"
  by (simp add: msg_ok_def flow_wf_def flow_zero_def)

lemma reach_alloc_i [simp]: "reach c0 (c\<lparr>w_alloc_i := n\<rparr>) = reach c0 c"
proof -
  have "db_rep (c\<lparr>w_alloc_i := n\<rparr>) B = db_rep c B" for B by (simp add: db_rep_def in_bucket_def [abs_def])
  then show ?thesis
    by (simp add: reach_def grows_def ctx_inv_def world_ok_def db_inv_def server_inv_def flows_ok_def ping_ok_def)
qed

lemma create_flow_then:
  assumes r: "reach c0 c" and s: "in_use s c0"
    and k: "\<And>fp c'. reach c0 c' \<Longrightarrow> c_pcp_servers c' = c_pcp_servers c \<Longrightarrow>
      (\<And>p. fp = Some p \<Longrightarrow> \<exists>f. c_heap c' p = Some f \<and> f_key_bucket f = EMPTY \<and>
         f_pcp_server_indx f = s_index (c_pcp_servers c' ! s)) \<Longrightarrow> runs (k (fp, c')) Q"
  shows "runs (Option.bind (pcp_create_flow s kd c) k) Q"
proof -
  define f where "f = flow_zero\<lparr>f_pcp_msg_len := 0, f_pcp_server_indx := s_index (c_pcp_servers c ! s), f_kd := kd,
     f_key_bucket := EMPTY\<rparr>"
  define a where "a = c\<lparr>w_alloc_i := Suc (w_alloc_i c)\<rparr>"
  define d where "d = a\<lparr>c_heap := (c_heap a)(c_brk a \<mapsto> f), c_brk := Suc (c_brk a)\<rparr>"
  have f: "msg_ok f" "f_key_bucket f = EMPTY" "f_next_child f = None"
      "f_pcp_server_indx f = s_index (c_pcp_servers c ! s)"
    by (simp_all add: f_def flow_zero_ok) (simp add: flow_zero_def)
  have ra: "reach c0 a" "c_pcp_servers a = c_pcp_servers c" using r by (simp_all add: a_def)
  have "ctx_inv d" using ra new_cell_inv [OF _ f(1-3) d_def] by (simp add: reach_def)
  moreover have "c_heap a (c_brk a) = None" using ra(1) by (auto simp: reach_def ctx_inv_def db_inv_def db_rep_def)
  then have "kid_of d p = kid_of a p" for p using f(3) by (simp add: kid_of_def d_def)
  then have "grows c0 d" using ra by (auto simp: reach_def grows_def d_def)
  ultimately have rd: "reach c0 d" "c_pcp_servers d = c_pcp_servers c" "c_heap d (c_brk c) = Some f"
    using ra(2) by (simp_all add: reach_def d_def a_def)
  have "pcp_create_flow s kd c = Some (if w_alloc c (w_alloc_i c) then (Some (c_brk c), d) else (None, a))"
    using reach_rd_server [OF r s]
    by (simp add: pcp_create_flow_def alloc_next_def new_flow_cell_def d_def a_def f_def)
  moreover have "runs (k (None, a)) Q" using ra by (intro k) auto
  moreover have "runs (k (Some (c_brk c), d)) Q" using rd f by (intro k) auto
  ultimately show ?thesis by simp
qed

lemma add_flow_then:
  assumes r: "reach c0 c" and fp: "\<And>p. fp = Some p \<Longrightarrow> \<exists>f. c_heap c p = Some f \<and> f_key_bucket f = EMPTY"
    and k: "\<And>e c'. reach c0 c' \<Longrightarrow> (\<And>p. c_heap c p \<noteq> None \<Longrightarrow> c_heap c' p \<noteq> None) \<Longrightarrow> runs (k (e, c')) Q"
  shows "runs (Option.bind (pcp_db_add_flow fp c) k) Q"
proof (cases fp)
  case None
  then show ?thesis using k r by (simp add: pcp_db_add_flow_def)
next
  case (Some p)
  obtain f where f: "c_heap c p = Some f" "f_key_bucket f = EMPTY" using fp Some by blast
  obtain B where B: "db_rep c B" using r by (auto simp: reach_def ctx_inv_def db_inv_def)
  from add_flow_refines [OF B f] obtain c' where
    c': "pcp_db_add_flow (Some p) c = Some (PCP_ERR_SUCCESS, c')" "same_payload c c'" "db_inv c'"
    by (auto simp: db_inv_def)
  have w: "w_sendto c' = w_sendto c" "w_tod c' = w_tod c" "w_tod_i c' = w_tod_i c" "w_recvfrom c' = w_recvfrom c"
    "c_pcp_servers c' = c_pcp_servers c" using c'(1) unfolding pcp_db_add_flow_eq [OF B f] by auto
  have "ctx_inv c'" using r payload_inv [OF _ c'(2,3) w(1)] by (simp add: reach_def)
  moreover have al: "c_heap c' q \<noteq> None" if "c_heap c q \<noteq> None" for q
    using same_payload_alloc [OF c'(2)] that by (auto simp: db_alloc_def)
  moreover have "kid_of c' q = kid_of c q" for q
    using same_payload_field [OF c'(2), of f_next_child q]
    by (cases "c_heap c q"; cases "c_heap c' q") (auto simp: kid_of_def)
  ultimately have "reach c0 c'" using r w by (auto simp: reach_def grows_def)
  then show ?thesis using k al c'(1) Some by simp
qed

lemma create_natpmp_then:
  assumes r: "reach c0 c" and s: "in_use s c0"
    and k: "\<And>fp c'. reach c0 c' \<Longrightarrow> (\<And>p. fp = Some p \<Longrightarrow> c_heap c' p \<noteq> None) \<Longrightarrow> runs (k (fp, c')) Q"
  shows "runs (Option.bind (create_natpmp_ann_msg s c) k) Q"
proof -
  let ?sv = "c_pcp_servers c ! s"
  let ?kd = "kd_zero\<lparr>k_src_ip := s_src_ip ?sv, k_pcp_server_ip := s_pcp_ip ?sv, k_nonce := s_nonce ?sv,
      k_operation := NATPMP_OPCODE_ANNOUNCE\<rparr>"
  have "runs (Option.bind (pcp_create_flow s ?kd c) (\<lambda>(fp, c).
      Option.bind (upd_server s (\<lambda>v. v\<lparr>s_ping_flow_msg := fp\<rparr>) c) (\<lambda>c.
        Option.bind (pcp_db_add_flow fp c) (\<lambda>(_, c). Option.bind (Some (fp, c)) k)))) Q"
  proof (rule create_flow_then [OF r s], unfold prod.case)
    fix fp c1 assume c1: "reach c0 c1" and
      fp: "\<And>p. fp = Some p \<Longrightarrow> \<exists>f. c_heap c1 p = Some f \<and> f_key_bucket f = EMPTY \<and>
         f_pcp_server_indx f = s_index (c_pcp_servers c1 ! s)"
    show "runs (Option.bind (upd_server s (\<lambda>v. v\<lparr>s_ping_flow_msg := fp\<rparr>) c1) (\<lambda>c.
        Option.bind (pcp_db_add_flow fp c) (\<lambda>(_, c). Option.bind (Some (fp, c)) k))) Q"
    proof (rule set_ping_then [OF c1 s])
      fix c2 assume c2: "reach c0 c2" "c_heap c2 = c_heap c1"
      show "runs (Option.bind (pcp_db_add_flow fp c2) (\<lambda>(_, c). Option.bind (Some (fp, c)) k)) Q"
      proof (rule add_flow_then [OF c2(1)])
        show "\<exists>f. c_heap c2 p = Some f \<and> f_key_bucket f = EMPTY" if "fp = Some p" for p
          using fp [OF that] c2(2) by auto
        fix e c3 assume c3: "reach c0 c3" "\<And>p. c_heap c2 p \<noteq> None \<Longrightarrow> c_heap c3 p \<noteq> None"
        have "runs (k (fp, c3)) Q" using c3 fp c2(2) by (intro k) fastforce+
        then show "runs (case (e, c3) of (_, c) \<Rightarrow> Option.bind (Some (fp, c)) k) Q" by simp
      qed
    qed (use fp in blast)
  qed
  then show ?thesis
    unfolding create_natpmp_ann_msg_def reach_rd_server [OF r s] bind.simps Let_def
    by (simp only: bind_assoc case_prod_unfold bind.simps)
qed

section \<open>Handlers of the server state machine\<close>

text \<open>
  What is shown of every handler: it returns, in a context that is in order, and the next state is
  not the one of an entry that is not in use.
\<close>

abbreviation handled :: "pcp_ctx \<Rightarrow> pcp_server_state_e \<times> pcp_ctx \<Rightarrow> bool" where
  "handled c0 r \<equiv> reach c0 (snd r) \<and> fst r \<noteq> pss_unitialized"

lemma get_flow_then:
  assumes r: "reach c0 c" and s: "in_use s c0"
    and k: "\<And>fp. (\<And>p. fp = Some p \<Longrightarrow> c_heap c p \<noteq> None) \<Longrightarrow> runs (k fp) Q"
  shows "runs (Option.bind (pcp_get_flow kd (Some s) c) k) Q"
proof -
  have "db_inv c" using r by (simp add: reach_def ctx_inv_def)
  from db.look_law [OF this, of "(s_index (c_pcp_servers c ! s), kd)"]
  obtain fp where fp: "lookup_flow (s_index (c_pcp_servers c ! s), kd) c = Some fp" "\<And>p. fp = Some p \<Longrightarrow> p \<in> db_flows c"
    by auto
  have "runs (k fp) Q" using fp(2) by (intro k) (auto simp: db_flows_def)
  with fp(1) show ?thesis by (simp add: pcp_get_flow_lookup reach_rd_server [OF r s])
qed

lemma find_rcvd_flow_runs:
  assumes r: "reach c0 c" and s: "in_use s c0"
  shows "runs (find_rcvd_flow s c) (\<lambda>(fp, c'). reach c0 c' \<and> (\<forall>p. fp = Some p \<longrightarrow> c_heap c' p \<noteq> None))"
proof -
  let ?m = "c_msg c" and ?sv = "c_pcp_servers c ! s"
  let ?Q = "\<lambda>(fp, c'). reach c0 c' \<and> (\<forall>p. fp = Some p \<longrightarrow> c_heap c' p \<noteq> None)"
  let ?d = "c\<lparr>c_msg := ?m\<lparr>m_assigned_ext_ip := In6 0 0 (htonl 0xFFFF) (s_natpmp_ext_addr ?sv)\<rparr>\<rparr>"
  have rd: "reach c0 ?d" using r by simp
  have 1: "runs (Option.bind (pcp_get_flow (m_kd ?m) (Some s) c) (\<lambda>f. Some (f, c))) ?Q"
    by (rule get_flow_then [OF r s]) (use r in auto)
  have 2: "runs (Option.bind (pcp_get_flow (m_kd ?m) (Some s) ?d) (\<lambda>f. Some (f, ?d))) ?Q"
    by (rule get_flow_then [OF rd s]) (use r in auto)
  have 3: "runs (Option.bind (upd_server s (\<lambda>v. v\<lparr>s_natpmp_ext_addr := w3 (m_assigned_ext_ip ?m)\<rparr>) c)
       (\<lambda>c. case s_ping_flow_msg ?sv of None \<Rightarrow> Some (None, c)
             | Some p \<Rightarrow> if s_pcp_version ?sv = 0 then Option.bind (rd_flow p c)
                 (\<lambda>pf. Some (if k_operation (f_kd pf) = PCP_OPCODE_ANNOUNCE then Some p else None, c))
               else Some (None, c))) ?Q"
    by (rule upd_server_then [OF r s])
      (use reach_ping [OF r s] in \<open>auto simp: ident_defs rd_flow_def split: option.splits\<close>)
  show ?thesis
    unfolding find_rcvd_flow_def reach_rd_server [OF r s] bind.simps Let_def
    by (simp only: 1 2 3 split: if_split) simp
qed

lemma server_process_then:
  assumes r: "reach c0 c" and s: "in_use s c0"
    and k: "\<And>f c'. reach c0 c' \<Longrightarrow> runs (k (f, c')) Q"
  shows "runs (Option.bind (server_process_rcvd_pcp_msg s c) k) Q"
proof -
  obtain fp d where d: "find_rcvd_flow s c = Some (fp, d)" "reach c0 d" "\<And>p. fp = Some p \<Longrightarrow> c_heap d p \<noteq> None"
    using find_rcvd_flow_runs [OF r s] by (auto elim!: runsE)
  show ?thesis
  proof (cases fp)
    case None
    then show ?thesis using k d by (simp add: server_process_rcvd_pcp_msg_def)
  next
    case (Some p)
    have "runs (Option.bind (handle_flow_event p (fev_res (m_recv_result (c_msg d))) (Some (c_msg d)) d)
        (\<lambda>x. k (Some p, snd x))) Q"
      by (rule event_then [OF d(2,3)]) (use Some k in \<open>simp_all add: event_has_msg_def\<close>)
    then show ?thesis using Some d(1) by (simp add: server_process_rcvd_pcp_msg_def case_prod_unfold)
  qed
qed

lemma set_next_timeout_then:
  assumes "reach c0 c" "in_use s c0"
    and "\<And>c'. reach c0 c' \<Longrightarrow>
      c_pcp_servers c' = (c_pcp_servers c)[s := (c_pcp_servers c ! s)\<lparr>s_next_timeout := t\<rparr>] \<Longrightarrow> runs (k c') Q"
  shows "runs (Option.bind (set_next_timeout s t c) k) Q"
  by (rule upd_server_then [OF assms(1,2)]) (use assms(3) in \<open>auto simp: ident_defs\<close>)

subsection \<open>Pinging\<close>

text \<open>A flow that failed to be sent is no candidate for the next round of the loop.\<close>

lemma pingable_decreases:
  assumes st: "steady c c'" and p: "p \<in> db_flows c" "pingable s c p" "state_of c' p = pfs_failed"
    and other: "\<And>q. q \<noteq> p \<Longrightarrow> c_heap c' q = c_heap c q"
    and s: "s < length (c_pcp_servers c)" and fin: "finite (db_flows c)"
  shows "card {q \<in> db_flows c'. pingable s c' q} < card {q \<in> db_flows c. pingable s c q}"
proof (rule psubset_card_mono)
  have fl: "db_flows c' = db_flows c" using same_db_flows [OF steady_same_db [OF st]] .
  have same: "pingable s c' q \<longleftrightarrow> pingable s c q" if "q \<noteq> p" for q
    using other [OF that] steady_servers(2) [OF st s] by (simp add: pingable_def)
  have out: "\<not> pingable s c' p" using p(3) by (simp add: pingable_def)
  have "{q \<in> db_flows c'. pingable s c' q} \<subseteq> {q \<in> db_flows c. pingable s c q}"
    using fl same out p(2) by (metis (mono_tags, lifting) Collect_mono)
  with fl p(1,2) out show "{q \<in> db_flows c'. pingable s c' q} \<subset> {q \<in> db_flows c. pingable s c q}"
    by blast
qed (use fin in simp)

lemma fstep_other: "fstep p c c' \<Longrightarrow> q \<noteq> p \<Longrightarrow> c_heap c' q = c_heap c q"
  by (auto simp: fstep_def)

text \<open>Either there was nothing to ping with, or the server waits for the answer to its ping flow.\<close>

abbreviation pinged :: "nat \<Rightarrow> pcp_server_state_e \<times> pcp_ctx \<Rightarrow> bool" where
  "pinged s r \<equiv> fst r = pss_ping \<and> s_next_timeout (c_pcp_servers (snd r) ! s) = tv_zero \<or>
     fst r = pss_wait_ping_resp \<and> s_ping_flow_msg (c_pcp_servers (snd r) ! s) \<noteq> None"

lemma server_ping_loop_runs:
  "reach c0 c \<Longrightarrow> in_use s c0 \<Longrightarrow> runs (server_ping_loop s c) (\<lambda>r. handled c0 r \<and> pinged s r)"
proof (induction "card {p \<in> db_flows c. pingable s c p}" arbitrary: c rule: less_induct)
  case less
  note r = less.prems(1) and s = less.prems(2)
  let ?R = "\<lambda>r. handled c0 r \<and> pinged s r"
  have fin: "finite (db_flows c)" using reach_table [OF r] by (metis List.finite_set)
  show ?case
  proof (subst server_ping_loop.simps, rule get_ping_msg_then [OF r s], unfold prod.case)
    fix msg c1
    assume c1: "reach c0 c1" "steady c c1" "c_heap c1 = c_heap c" "s_ping_flow_msg (c_pcp_servers c1 ! s) = msg"
      and msg: "\<And>p. msg = Some p \<Longrightarrow> p \<in> db_flows c \<and> pingable s c p"
    show "runs (case msg of None \<Rightarrow> Option.bind (set_next_timeout s tv_zero c1) (\<lambda>c. Some (pss_ping, c))
      | Some p \<Rightarrow> Option.bind (upd_flow p (\<lambda>f. f\<lparr>f_retry_count := 0\<rparr>) c1)
          (\<lambda>c. Option.bind (handle_flow_event p fev_send None c)
            (\<lambda>(st, c). if st \<noteq> pfs_failed
               then Option.bind (rd_flow p c) (\<lambda>f. Option.bind (set_next_timeout s (f_timeout f) c)
                   (\<lambda>c. Some (pss_wait_ping_resp, c)))
               else server_ping_loop s c))) (\<lambda>r. handled c0 r \<and> pinged s r)"
    proof (cases msg)
      case None
      then show ?thesis using set_next_timeout_then [OF c1(1) s, where k = "\<lambda>c. Some (pss_ping, c)" and Q = ?R and t = tv_zero] s
          reach_server_length [OF c1(1) s] by simp
    next
      case (Some p)
      have al: "c_heap c1 p \<noteq> None" using msg [OF Some] c1(3) by (auto simp: db_flows_def)
      show ?thesis
        unfolding Some option.case
      proof (rule upd_flow_then [OF c1(1) al], simp_all only: flow_ident_simps msg_ok_simps)
        fix c2 assume c2: "reach c0 c2" "fstep p c1 c2"
        have al2: "c_heap c2 p \<noteq> None" using fstep_alloc [OF c2(2)] al by simp
        show "runs (Option.bind (handle_flow_event p fev_send None c2)
            (\<lambda>(st, c). if st \<noteq> pfs_failed
               then Option.bind (rd_flow p c) (\<lambda>f. Option.bind (set_next_timeout s (f_timeout f) c)
                   (\<lambda>c. Some (pss_wait_ping_resp, c)))
               else server_ping_loop s c)) (\<lambda>r. handled c0 r \<and> pinged s r)"
        proof (rule event_then [OF c2(1) al2], simp add: event_has_msg_def, unfold prod.case)
          fix st c3 assume c3: "reach c0 c3" "fstep p c2 c3" "st = state_of c3 p"
          have st: "steady c c3" using steady_trans [OF c1(2) fstep_steady [OF fstep_trans [OF c2(2) c3(2)]]] .
          have other: "q \<noteq> p \<Longrightarrow> c_heap c3 q = c_heap c q" for q
            using fstep_other [OF c3(2)] fstep_other [OF c2(2)] c1(3) by simp
          have ping: "s_ping_flow_msg (c_pcp_servers c3 ! s) = Some p"
            using c1(4) Some fstep_servers [OF c2(2)] fstep_servers [OF c3(2)] by simp
          obtain f where f: "rd_flow p c3 = Some f"
            using fstep_alloc [OF c3(2), of p] al2 by (auto simp: rd_flow_def)
          have "runs (server_ping_loop s c3) (\<lambda>r. handled c0 r \<and> pinged s r)" if "st = pfs_failed"
            using less.hyps [OF pingable_decreases [OF st _ _ _ other _ fin] c3(1) s] msg [OF Some] that c3(3)
              reach_server_length [OF r s] by auto
          moreover have "runs (Option.bind (set_next_timeout s (f_timeout f) c3) (\<lambda>c. Some (pss_wait_ping_resp, c))) (\<lambda>r. handled c0 r \<and> pinged s r)"
            by (rule set_next_timeout_then [OF c3(1) s]) (use ping reach_server_length [OF c3(1) s] in simp)
          ultimately show "runs (if st \<noteq> pfs_failed
               then Option.bind (rd_flow p c3) (\<lambda>f. Option.bind (set_next_timeout s (f_timeout f) c3)
                   (\<lambda>c. Some (pss_wait_ping_resp, c)))
               else server_ping_loop s c3) (\<lambda>r. handled c0 r \<and> pinged s r)"
            using f by (simp del: runs_simps(3))
        qed
      qed
    qed
  qed
qed

lemma handle_server_ping_runs:
  assumes "reach c0 c" "in_use s c0"
  shows "runs (handle_server_ping s c) (\<lambda>r. handled c0 r \<and> pinged s r)"
  unfolding handle_server_ping_def
  by (rule upd_server_then [OF assms])
    (use server_ping_loop_runs assms(2) in \<open>simp_all add: ident_defs\<close>)

lemma stamped_runs:
  "reach c0 c \<Longrightarrow> in_use s c0 \<Longrightarrow> st \<noteq> pss_unitialized \<Longrightarrow>
     runs (Option.bind (stamp_next_timeout s c) (\<lambda>c. Some (st, c))) (handled c0)"
  by (rule stamp_then) simp_all

lemma timed_runs:
  "reach c0 c \<Longrightarrow> in_use s c0 \<Longrightarrow> st \<noteq> pss_unitialized \<Longrightarrow>
     runs (Option.bind (set_next_timeout s t c) (\<lambda>c. Some (st, c))) (handled c0)"
  by (rule set_next_timeout_then) simp_all

text \<open>A step towards giving up: the server is pinged anew, or with one more attempt counted.\<close>

abbreviation repinged :: "pcp_server \<Rightarrow> nat \<Rightarrow> pcp_server_state_e \<times> pcp_ctx \<Rightarrow> bool" where
  "repinged v s r \<equiv> fst r = pss_set_not_working \<or> fst r = pss_ping \<and> s_ping_flow_msg v = None \<or>
     fst r = pss_wait_ping_resp \<and> s_ping_flow_msg v \<noteq> None \<and> s_ping_flow_msg (c_pcp_servers (snd r) ! s) \<noteq> None \<and>
     s_ping_count (c_pcp_servers (snd r) ! s) = s_ping_count v + 1 \<and> s_ping_count v + 1 < PCP_MAX_PING_COUNT"

lemma handle_wait_ping_resp_timeout_runs:
  assumes r: "reach c0 c" and s: "in_use s c0"
  shows "runs (handle_wait_ping_resp_timeout s c) (\<lambda>r. handled c0 r \<and> repinged (c_pcp_servers c ! s) s r)"
    (is "runs _ ?R")
  unfolding handle_wait_ping_resp_timeout_def
proof (rule upd_server_then [OF r s])
  fix c1 assume c1: "reach c0 c1" and
    eq: "c_pcp_servers c1 = (c_pcp_servers c)[s := (c_pcp_servers c ! s)\<lparr>s_ping_count := s_ping_count (c_pcp_servers c ! s) + 1\<rparr>]"
  let ?sv = "c_pcp_servers c1 ! s"
  have sv: "?sv = (c_pcp_servers c ! s)\<lparr>s_ping_count := s_ping_count (c_pcp_servers c ! s) + 1\<rparr>"
    using eq reach_server_length [OF r s] by simp
  have set: "runs (Option.bind (stamp_next_timeout s d) (\<lambda>c. Some (pss_set_not_working, c))) ?R" if "reach c0 d" for d
    by (rule stamp_then [OF that s]) simp
  have again: "runs (Option.bind (stamp_next_timeout s c1) (\<lambda>c. Some (pss_ping, c))) ?R" if "s_ping_flow_msg ?sv = None"
    by (rule stamp_then [OF c1 s]) (use that sv in simp)
  have wait: "runs (Option.bind (set_next_timeout s t d) (\<lambda>c. Some (pss_wait_ping_resp, c))) ?R"
    if "reach c0 d" "c_pcp_servers d = c_pcp_servers c1" "s_ping_flow_msg ?sv = Some p"
      "s_ping_count ?sv < PCP_MAX_PING_COUNT" for d p t
    by (rule set_next_timeout_then [OF that(1) s])
      (use that(2-4) sv reach_server_length [OF that(1) s] in simp)
  have ev: "runs (Option.bind (handle_flow_event p fev_flow_timedout None c1)
      (\<lambda>(st, c). if st = pfs_failed then Option.bind (stamp_next_timeout s c) (\<lambda>c. Some (pss_set_not_working, c))
         else Option.bind (rd_server s c) (\<lambda>sv. case s_ping_flow_msg sv of
              Some q \<Rightarrow> Option.bind (rd_flow q c) (\<lambda>f. Option.bind (set_next_timeout s (f_timeout f) c)
                  (\<lambda>c. Some (pss_wait_ping_resp, c)))
            | None \<Rightarrow> Option.bind (set_next_timeout s tv_zero c) (\<lambda>c. Some (pss_ping, c))))) ?R"
    if p: "s_ping_flow_msg ?sv = Some p" and n: "s_ping_count ?sv < PCP_MAX_PING_COUNT" for p
  proof (rule event_then [OF c1], use reach_ping [OF c1 s p] in force, simp add: event_has_msg_def, unfold prod.case)
    fix st c2 assume c2: "reach c0 c2" "fstep p c1 c2"
    have eq2: "c_pcp_servers c2 = c_pcp_servers c1" using fstep_servers [OF c2(2)] .
    with p have p2: "s_ping_flow_msg (c_pcp_servers c2 ! s) = Some p" by simp
    obtain f where f: "rd_flow p c2 = Some f" using reach_ping [OF c2(1) s p2] by (auto simp: rd_flow_def)
    show "runs (if st = pfs_failed then Option.bind (stamp_next_timeout s c2) (\<lambda>c. Some (pss_set_not_working, c))
         else Option.bind (rd_server s c2) (\<lambda>sv. case s_ping_flow_msg sv of
              Some q \<Rightarrow> Option.bind (rd_flow q c2) (\<lambda>f. Option.bind (set_next_timeout s (f_timeout f) c2)
                  (\<lambda>c. Some (pss_wait_ping_resp, c)))
            | None \<Rightarrow> Option.bind (set_next_timeout s tv_zero c2) (\<lambda>c. Some (pss_ping, c)))) ?R"
      unfolding reach_rd_server [OF c2(1) s] bind.simps p2 option.case f
      using set [OF c2(1)] wait [OF c2(1) eq2 p n] by (simp del: runs_simps(3))
  qed
  show "runs (Option.bind (rd_server s c1) (\<lambda>sv. if s_ping_count sv \<ge> PCP_MAX_PING_COUNT
       then Option.bind (stamp_next_timeout s c1) (\<lambda>c. Some (pss_set_not_working, c))
       else case s_ping_flow_msg sv of
         None \<Rightarrow> Option.bind (stamp_next_timeout s c1) (\<lambda>c. Some (pss_ping, c))
       | Some p \<Rightarrow> Option.bind (handle_flow_event p fev_flow_timedout None c1)
      (\<lambda>(st, c). if st = pfs_failed then Option.bind (stamp_next_timeout s c) (\<lambda>c. Some (pss_set_not_working, c))
         else Option.bind (rd_server s c) (\<lambda>sv. case s_ping_flow_msg sv of
              Some q \<Rightarrow> Option.bind (rd_flow q c) (\<lambda>f. Option.bind (set_next_timeout s (f_timeout f) c)
                  (\<lambda>c. Some (pss_wait_ping_resp, c)))
            | None \<Rightarrow> Option.bind (set_next_timeout s tv_zero c) (\<lambda>c. Some (pss_ping, c)))))) ?R"
    unfolding reach_rd_server [OF c1 s] bind.simps
    using set [OF c1] again ev
    by (cases "s_ping_flow_msg ?sv") (simp_all add: not_le del: runs_simps(3))
qed (simp_all add: ident_defs)

subsection \<open>Receiving\<close>

lemma compare_epochs_ident:
  "server_ident (snd (compare_epochs m v)) = server_ident v"
  "s_ping_flow_msg (snd (compare_epochs m v)) = s_ping_flow_msg v"
  by (simp_all add: compare_epochs_def Let_def ident_defs)

text \<open>Storing a modified copy of a server that was just read.\<close>

lemma write_back_then:
  assumes "reach c0 c" "in_use s c0" "server_ident v = server_ident (c_pcp_servers c ! s)"
    and "s_ping_flow_msg v = s_ping_flow_msg (c_pcp_servers c ! s)"
    and "\<And>c'. reach c0 c' \<Longrightarrow> c_msg c' = c_msg c \<Longrightarrow> runs (k c') Q"
  shows "runs (Option.bind (upd_server s (\<lambda>_. v) c) k) Q"
proof -
  define g where "g = (\<lambda>w. if w = c_pcp_servers c ! s then v else w)"
  have "upd_server s (\<lambda>_. v) c = upd_server s g c" by (simp add: upd_server_def g_def)
  moreover have "runs (Option.bind (upd_server s g c) k) Q"
    by (rule upd_server_then [OF assms(1,2)]) (use assms(3-5) in \<open>auto simp: g_def\<close>)
  ultimately show ?thesis by simp
qed

lemma handle_wait_io_receive_msg_runs:
  assumes r: "reach c0 c" and s: "in_use s c0"
  shows "runs (handle_wait_io_receive_msg s c) (handled c0)"
proof -
  have 1: "runs (Option.bind (stamp_next_timeout s c)
      (\<lambda>c. Option.bind (upd_server s (\<lambda>v. v\<lparr>s_next_version := ucast (m_recv_version (c_msg c))\<rparr>) c)
         (\<lambda>c. Some (pss_version_negotiation, c)))) (handled c0)"
  proof (rule stamp_then [OF r s])
    fix c1 assume c1: "reach c0 c1"
    show "runs (Option.bind (upd_server s (\<lambda>v. v\<lparr>s_next_version := ucast (m_recv_version (c_msg c1))\<rparr>) c1)
         (\<lambda>c. Some (pss_version_negotiation, c))) (handled c0)"
      by (rule upd_server_then [OF c1 s]) (simp_all add: ident_defs)
  qed
  have 2: "runs (Option.bind (server_process_rcvd_pcp_msg s c) (\<lambda>(f, c). Option.bind (rd_server s c) (\<lambda>sv.
      case compare_epochs (c_msg c) sv of (restarted, sv) \<Rightarrow> Option.bind (upd_server s (\<lambda>_. sv) c) (\<lambda>d.
        if restarted then
          Option.bind (upd_server s (\<lambda>v. v\<lparr>s_epoch := m_recv_epoch (c_msg c), s_cepoch := m_received_time (c_msg c)\<rparr>) d)
            (\<lambda>c. Option.bind (stamp_next_timeout s c) (\<lambda>c.
               Option.bind (upd_server s (\<lambda>v. v\<lparr>s_restart_flow_msg := f\<rparr>) c) (\<lambda>c. Some (pss_server_restart, c))))
        else Option.bind (stamp_next_timeout s d) (\<lambda>c. Some (pss_wait_io_calc_nearest_timeout, c))))))
      (handled c0)"
  proof (rule server_process_then [OF r s], unfold prod.case)
    fix f c1 assume c1: "reach c0 c1"
    obtain b w where cmp: "compare_epochs (c_msg c1) (c_pcp_servers c1 ! s) = (b, w)" by fastforce
    note w = compare_epochs_ident [of "c_msg c1" "c_pcp_servers c1 ! s", unfolded cmp snd_conv]
    have restart: "runs (Option.bind (upd_server s (\<lambda>v. v\<lparr>s_epoch := m_recv_epoch (c_msg c1), s_cepoch := m_received_time (c_msg c1)\<rparr>) d)
            (\<lambda>c. Option.bind (stamp_next_timeout s c) (\<lambda>c.
               Option.bind (upd_server s (\<lambda>v. v\<lparr>s_restart_flow_msg := f\<rparr>) c) (\<lambda>c. Some (pss_server_restart, c))))) (handled c0)"
      if d: "reach c0 d" for d
      by (rule upd_server_then [OF d s], simp_all add: ident_defs del: runs_simps(3),
          erule stamp_then [OF _ s], erule upd_server_then [OF _ s]) (simp_all add: ident_defs)
    show "runs (Option.bind (rd_server s c1) (\<lambda>sv.
      case compare_epochs (c_msg c1) sv of (restarted, sv) \<Rightarrow> Option.bind (upd_server s (\<lambda>_. sv) c1) (\<lambda>d.
        if restarted then
          Option.bind (upd_server s (\<lambda>v. v\<lparr>s_epoch := m_recv_epoch (c_msg c1), s_cepoch := m_received_time (c_msg c1)\<rparr>) d)
            (\<lambda>c. Option.bind (stamp_next_timeout s c) (\<lambda>c.
               Option.bind (upd_server s (\<lambda>v. v\<lparr>s_restart_flow_msg := f\<rparr>) c) (\<lambda>c. Some (pss_server_restart, c))))
        else Option.bind (stamp_next_timeout s d) (\<lambda>c. Some (pss_wait_io_calc_nearest_timeout, c)))))
      (handled c0)"
      unfolding reach_rd_server [OF c1 s] bind.simps cmp prod.case
      by (rule write_back_then [OF c1 s w]) (use restart stamped_runs s in \<open>simp del: runs_simps(3)\<close>)
  qed
  show ?thesis
    unfolding handle_wait_io_receive_msg_def Let_def
    using 1 2 stamped_runs [OF r s, of pss_set_not_working] by (simp del: runs_simps(3))
qed

lemma handle_wait_ping_resp_recv_runs:
  assumes "reach c0 c" "in_use s c0"
  shows "runs (handle_wait_ping_resp_recv s c) (handled c0)"
  unfolding handle_wait_ping_resp_recv_def
  by (rule runs_bind [OF handle_wait_io_receive_msg_runs [OF assms]])
    (auto split: pcp_server_state_e.splits)

subsection \<open>Version negotiation\<close>

lemma resend_ping_runs:
  assumes r: "reach c0 c" and s: "in_use s c0" and p: "c_heap c p \<noteq> None"
  shows "runs (Option.bind (upd_flow p (\<lambda>f. f\<lparr>f_retry_count := 0, f_resend_timeout := 0\<rparr>) c)
      (\<lambda>c. Option.bind (handle_flow_event p fev_send None c) (\<lambda>(_, c). Option.bind (rd_flow p c)
        (\<lambda>f. if f_state f = pfs_failed then Some (pss_set_not_working, c)
             else Option.bind (set_next_timeout s (f_timeout f) c) (\<lambda>c. Some (pss_wait_ping_resp, c))))))
    (handled c0)"
proof (rule upd_flow_then [OF r p])
  fix c1 assume c1: "reach c0 c1" "fstep p c c1"
  have al: "c_heap c1 p \<noteq> None" using fstep_alloc [OF c1(2)] p by simp
  show "runs (Option.bind (handle_flow_event p fev_send None c1) (\<lambda>(_, c). Option.bind (rd_flow p c)
        (\<lambda>f. if f_state f = pfs_failed then Some (pss_set_not_working, c)
             else Option.bind (set_next_timeout s (f_timeout f) c) (\<lambda>c. Some (pss_wait_ping_resp, c)))))
    (handled c0)"
  proof (rule event_then [OF c1(1) al], simp add: event_has_msg_def, unfold prod.case)
    fix st c2 assume c2: "reach c0 c2" "fstep p c1 c2"
    obtain f where f: "rd_flow p c2 = Some f" using fstep_alloc [OF c2(2), of p] al by (auto simp: rd_flow_def)
    show "runs (Option.bind (rd_flow p c2) (\<lambda>f. if f_state f = pfs_failed then Some (pss_set_not_working, c2)
             else Option.bind (set_next_timeout s (f_timeout f) c2) (\<lambda>c. Some (pss_wait_ping_resp, c)))) (handled c0)"
      unfolding f bind.simps using timed_runs [OF c2(1) s, of pss_wait_ping_resp] c2(1) by (simp del: runs_simps(3))
  qed
qed simp_all

lemma negotiation_send_runs:
  assumes r: "reach c0 c" and s: "in_use s c0" and p: "\<And>p. fp = Some p \<Longrightarrow> c_heap c p \<noteq> None"
  shows "runs (negotiation_send s fp c) (handled c0)"
  unfolding negotiation_send_def
  using timed_runs [OF r s, of pss_ping] resend_ping_runs [OF r s] p
  by (cases fp) (simp_all del: runs_simps(3))

abbreviation flow_found :: "pcp_ctx \<Rightarrow> fid option \<times> pcp_ctx \<Rightarrow> bool" where
  "flow_found c0 r \<equiv> reach c0 (snd r) \<and> (\<forall>p. fst r = Some p \<longrightarrow> c_heap (snd r) p \<noteq> None)"

lemma ping_flow_found:
  assumes "reach c0 c" "in_use s c0"
  shows "runs (get_ping_msg s c) (flow_found c0)"
  using get_ping_msg_then [OF assms, of Some "flow_found c0"] by (auto simp: db_flows_def)

lemma negotiation_flow_runs:
  assumes r: "reach c0 c" and s: "in_use s c0"
  shows "runs (negotiation_flow s c) (flow_found c0)"
proof -
  have ann: "runs (create_natpmp_ann_msg s d) (flow_found c0)" if "reach c0 d" for d
    using create_natpmp_then [OF that s, of Some "flow_found c0"] by simp
  have "runs (Option.bind (upd_flow p (\<lambda>f. f\<lparr>f_state := pfs_wait_for_server_init, f_timeout := tv_zero\<rparr>) c)
         (create_natpmp_ann_msg s)) (flow_found c0)" if "s_ping_flow_msg (c_pcp_servers c ! s) = Some p" for p
    by (rule upd_flow_then [OF r]) (use reach_ping [OF r s that] ann in auto)
  then have first: "runs (if s_pcp_version (c_pcp_servers c ! s) = 0 then
       Option.bind (case s_ping_flow_msg (c_pcp_servers c ! s) of None \<Rightarrow> Some c
           | Some p \<Rightarrow> upd_flow p (\<lambda>f. f\<lparr>f_state := pfs_wait_for_server_init, f_timeout := tv_zero\<rparr>) c)
         (create_natpmp_ann_msg s)
     else Some (s_ping_flow_msg (c_pcp_servers c ! s), c)) (flow_found c0)"
    using ann [OF r] r reach_ping [OF r s]
    by (cases "s_ping_flow_msg (c_pcp_servers c ! s)") (auto simp del: runs_simps(3))
  show ?thesis
    unfolding negotiation_flow_def reach_rd_server [OF r s] bind.simps
    by (rule runs_bind [OF first]) (use ping_flow_found s in \<open>auto simp del: runs_simps(3)\<close>)
qed

lemma handle_version_negotiation_runs:
  assumes r: "reach c0 c" and s: "in_use s c0"
  shows "runs (handle_version_negotiation s c) (handled c0)"
  unfolding handle_version_negotiation_def
proof (rule upd_server_then [OF r s], simp_all only: ident_defs split: if_split, simp_all del: runs_simps(3))
  fix c1 assume c1: "reach c0 c1"
  have "runs (Option.bind (upd_server s (\<lambda>v. v\<lparr>s_pcp_version := s_next_version v\<rparr>) c1)
      (\<lambda>c. Option.bind (negotiation_flow s c) (\<lambda>(ping_msg, c). negotiation_send s ping_msg c))) (handled c0)"
  proof (rule upd_server_then [OF c1 s], simp add: ident_defs, simp)
    fix c2 assume c2: "reach c0 c2"
    show "runs (Option.bind (negotiation_flow s c2) (\<lambda>(ping_msg, c). negotiation_send s ping_msg c)) (handled c0)"
      by (rule runs_bind [OF negotiation_flow_runs [OF c2 s]]) (use negotiation_send_runs [OF _ s] in auto)
  qed
  then show "runs (Option.bind (rd_server s c1) (\<lambda>sv. if s_pcp_version sv = 0 then Some (pss_set_not_working, c1)
     else Option.bind (upd_server s (\<lambda>v. v\<lparr>s_pcp_version := s_next_version v\<rparr>) c1)
      (\<lambda>c. Option.bind (negotiation_flow s c) (\<lambda>(ping_msg, c). negotiation_send s ping_msg c)))) (handled c0)"
    unfolding reach_rd_server [OF c1 s] bind.simps using c1 by (simp del: runs_simps(3))
qed

subsection \<open>Handlers that run over all flows\<close>

lemma handle_send_all_msgs_runs:
  assumes "reach c0 c" "in_use s c0"
  shows "runs (handle_send_all_msgs s c) (handled c0)"
  unfolding handle_send_all_msgs_def
  by (rule foreach_event_then [OF assms])
    (simp_all add: event_has_msg_def stamped_runs assms(2) del: runs_simps(3))

lemma handle_server_restart_runs:
  assumes "reach c0 c" "in_use s c0"
  shows "runs (handle_server_restart s c) (handled c0)"
  unfolding handle_server_restart_def
proof (rule foreach_event_then [OF assms], simp add: event_has_msg_def, unfold prod.case)
  fix c1 assume c1: "reach c0 c1"
  show "runs (Option.bind (upd_server s (\<lambda>v. v\<lparr>s_restart_flow_msg := None\<rparr>) c1)
      (\<lambda>c. Option.bind (stamp_next_timeout s c) (\<lambda>c. Some (pss_wait_io_calc_nearest_timeout, c)))) (handled c0)"
    by (rule upd_server_then [OF c1 assms(2)])
      (simp_all add: ident_defs stamped_runs assms(2) del: runs_simps(3))
qed

lemma handle_server_set_not_working_runs:
  assumes "reach c0 c" "in_use s c0"
  shows "runs (handle_server_set_not_working s c) (\<lambda>r. handled c0 r \<and>
     (\<exists>i\<ge>w_tod_i c0. s_next_timeout (c_pcp_servers (snd r) ! s) =
        Timeval (tv_sec (w_tod c0 i) + PCP_SERVER_DISCOVERY_RETRY_DELAY) (tv_usec (w_tod c0 i))))"
  unfolding handle_server_set_not_working_def gettimeofday_def Let_def
proof (rule foreach_event_then [OF assms], simp add: event_has_msg_def, unfold prod.case)
  fix c1 assume c1: "reach c0 c1"
  have "w_tod c1 = w_tod c0" "w_tod_i c0 \<le> w_tod_i c1" using c1 by (simp_all add: reach_def grows_def)
  then show "runs (Option.bind (set_next_timeout s (Timeval (tv_sec (w_tod c1 (w_tod_i c1)) + PCP_SERVER_DISCOVERY_RETRY_DELAY)
      (tv_usec (w_tod c1 (w_tod_i c1)))) (c1\<lparr>w_tod_i := Suc (w_tod_i c1)\<rparr>)) (\<lambda>c. Some (pss_not_working, c)))
    (\<lambda>r. handled c0 r \<and> (\<exists>i\<ge>w_tod_i c0. s_next_timeout (c_pcp_servers (snd r) ! s) =
        Timeval (tv_sec (w_tod c0 i) + PCP_SERVER_DISCOVERY_RETRY_DELAY) (tv_usec (w_tod c0 i))))"
    by (intro set_next_timeout_then [of c0]) (use c1 assms(2) reach_server_length [OF c1 assms(2)] in auto)
qed

lemma handle_wait_io_timeout_runs:
  assumes "reach c0 c" "in_use s c0"
  shows "runs (handle_wait_io_timeout s c) (\<lambda>r. handled c0 r \<and> fst r = pss_wait_io \<and>
    (s_next_timeout (c_pcp_servers (snd r) ! s) = tv_zero \<or>
      (\<exists>i\<ge>w_tod_i c0. tv_us (w_tod c0 i) < tv_us (s_next_timeout (c_pcp_servers (snd r) ! s)))))" (is "runs _ ?R")
  unfolding handle_wait_io_timeout_def gettimeofday_def Let_def
proof (rule foreach_timeout_then [OF assms(1)], simp add: tv_normal_def, simp add: tv_us_def, unfold prod.case)
  fix t c1 assume c1: "reach c0 c1" and t: "tv_normal t" "0 \<le> tv_us t"
  show "runs (Option.bind (set_next_timeout s t c1) (\<lambda>c. Option.bind
      (if t \<noteq> tv_zero then set_next_timeout s (timeval_align (Timeval (tv_sec t + tv_sec (w_tod c (w_tod_i c)))
            (tv_usec t + tv_usec (w_tod c (w_tod_i c))))) (c\<lparr>w_tod_i := Suc (w_tod_i c)\<rparr>) else Some c)
      (\<lambda>c. Some (pss_wait_io, c)))) ?R"
  proof (rule set_next_timeout_then [OF c1 assms(2)])
    fix c2 assume c2: "reach c0 c2" and
      sv: "c_pcp_servers c2 = (c_pcp_servers c1)[s := (c_pcp_servers c1 ! s)\<lparr>s_next_timeout := t\<rparr>]"
    then have d: "reach c0 (c2\<lparr>w_tod_i := Suc (w_tod_i c2)\<rparr>)" by simp
    have tod: "w_tod c2 = w_tod c0" "w_tod_i c0 \<le> w_tod_i c2" using c2 by (simp_all add: reach_def grows_def)
    note len = reach_server_length [OF c1 assms(2)]
    let ?now = "w_tod c2 (w_tod_i c2)"
    let ?t = "timeval_align (Timeval (tv_sec t + tv_sec ?now) (tv_usec t + tv_usec ?now))"
    have later: "tv_us ?now < tv_us ?t" if "t \<noteq> tv_zero"
    proof -
      have "tv_us t \<noteq> tv_us tv_zero" using that t(1) tv_normal_eq [of t tv_zero] by (simp add: tv_normal_def)
      then show ?thesis using t(2) by simp (simp add: tv_us_def)
    qed
    have "runs (Option.bind (set_next_timeout s ?t (c2\<lparr>w_tod_i := Suc (w_tod_i c2)\<rparr>)) (\<lambda>c. Some (pss_wait_io, c))) ?R"
      if "t \<noteq> tv_zero"
      by (rule set_next_timeout_then [OF d assms(2)]) (use later [OF that] tod sv len in auto)
    then show "runs (Option.bind (if t \<noteq> tv_zero then set_next_timeout s ?t (c2\<lparr>w_tod_i := Suc (w_tod_i c2)\<rparr>) else Some c2)
      (\<lambda>c. Some (pss_wait_io, c))) ?R"
      using c2 sv len by (cases "t = tv_zero") (simp_all del: runs_simps(3))
  qed
qed

subsection \<open>Servers that do not answer\<close>

lemma revive_runs:
  assumes r: "reach c0 c" and s: "in_use s c0"
  shows "runs (Option.bind (server_process_rcvd_pcp_msg s c) (\<lambda>(f, c).
      Option.bind (upd_server s (\<lambda>v. v\<lparr>s_epoch := m_recv_epoch (c_msg c), s_cepoch := m_received_time (c_msg c)\<rparr>) c)
        (\<lambda>c. Option.bind (stamp_next_timeout s c)
          (\<lambda>c. Option.bind (upd_server s (\<lambda>v. v\<lparr>s_restart_flow_msg := f\<rparr>) c) (\<lambda>c. Some (pss_server_restart, c))))))
    (handled c0)"
  by (rule server_process_then [OF r s], unfold prod.case, erule upd_server_then [OF _ s],
      simp_all add: ident_defs del: runs_simps(3),
      erule stamp_then [OF _ s], erule upd_server_then [OF _ s]) (simp_all add: ident_defs)

lemma handle_server_not_working_runs:
  assumes r: "reach c0 c" and s: "in_use s c0"
  shows "runs (handle_server_not_working s c) (handled c0)"
proof -
  obtain now d where d: "gettimeofday c = (now, d)" by fastforce
  then have rd: "reach c0 d" using r by (auto simp: gettimeofday_def)
  obtain b ctv nt where cmp: "timeval_comp now (s_next_timeout (c_pcp_servers d ! s)) = (b, ctv, nt)"
    by (metis prod_cases3)
  show ?thesis
    unfolding handle_server_not_working_def d Let_def prod.case reach_rd_server [OF rd s] bind.simps cmp
    by (rule set_next_timeout_then [OF rd s])
      (use revive_runs [OF _ s] timed_runs [OF _ s, of _ pss_server_reping] in \<open>simp del: runs_simps(3)\<close>)
qed

lemma handle_server_reping_runs:
  assumes "reach c0 c" "in_use s c0"
  shows "runs (handle_server_reping s c) (handled c0)"
  unfolding handle_server_reping_def
  by (rule upd_server_then [OF assms])
    (simp_all add: ident_defs stamped_runs assms(2) del: runs_simps(3))

lemma ignore_events_runs:
  assumes r: "reach c0 c" and s: "in_use s c0"
  shows "runs (ignore_events s c) (handled c0)"
  unfolding ignore_events_def
proof (rule upd_server_then [OF r s], simp_all add: ident_defs del: runs_simps(3))
  fix c' assume c': "reach c0 c'" "c_pcp_servers c' = (c_pcp_servers c)[s := (c_pcp_servers c ! s)\<lparr>s_next_timeout := tv_zero\<rparr>]"
  then show "runs (Option.bind (rd_server s c') (\<lambda>sv. Some (s_server_state sv, c'))) (handled c0)"
    using s reach_in_use [OF r s] by (simp add: reach_rd_server in_use_def)
qed

lemma run_server_handler_runs:
  assumes r: "reach c0 c" and s: "in_use s c0"
  shows "runs (run_server_handler h s c) (handled c0)"
  using runs_conjunct1 [OF handle_server_ping_runs [OF r s]]
    runs_conjunct1 [OF handle_wait_ping_resp_timeout_runs [OF r s]]
    handle_wait_ping_resp_recv_runs [OF r s] handle_version_negotiation_runs [OF r s]
    handle_send_all_msgs_runs [OF r s] handle_wait_io_receive_msg_runs [OF r s]
    runs_conjunct1 [OF handle_wait_io_timeout_runs [OF r s]] handle_server_restart_runs [OF r s]
    handle_server_reping_runs [OF r s] runs_conjunct1 [OF handle_server_set_not_working_runs [OF r s]]
    handle_server_not_working_runs [OF r s] ignore_events_runs [OF r s]
    timed_runs [OF r s, of pss_allocated tv_zero] stamped_runs [OF r s, of pss_set_not_working]
  by (cases h) (simp_all add: pcp_terminate_server_def log_unexepected_state_event_def del: runs_simps(3))

section \<open>The state machine\<close>

interpretation ssm: first_match "\<lambda>(st, ev). server_handler_for st ev" server_sm
  "\<lambda>(st, ev) (s, e, h). (s = st \<or> s = pss_any) \<and> (e = pcpe_any \<or> e = ev)" "\<lambda>(s, e, h). h"
  by unfold_locales (auto simp: server_handler_for_def)

text \<open>The last entry of the table matches everything.\<close>

lemma server_handler_total: "\<exists>h. server_handler_for st ev = Some h"
  using ssm.look_catch_all [of "(pss_any, pcpe_any, Log_unexepected_state_event)" "(st, ev)"]
  by (simp add: server_sm_def)

text \<open>
  \<open>evolves c c'\<close>: what a run of the machine keeps of the servers is their number, their indices and
  whether they are in use; flows stay allocated, and the oracles are the same.
\<close>

definition server_use :: "pcp_server \<Rightarrow> u32 \<times> bool \<times> fid option" where
  "server_use v = (s_index v, s_server_state v = pss_unitialized, spare_ping v)"

definition evolves :: "pcp_ctx \<Rightarrow> pcp_ctx \<Rightarrow> bool" where
  "evolves c c' \<longleftrightarrow> map server_use (c_pcp_servers c') = map server_use (c_pcp_servers c) \<and>
     w_tod c' = w_tod c \<and> w_tod_i c \<le> w_tod_i c' \<and> w_recvfrom c' = w_recvfrom c \<and> w_sendto c' = w_sendto c \<and>
     (\<forall>p. (c_heap c p \<noteq> None \<longrightarrow> c_heap c' p \<noteq> None) \<and> kid_of c' p = kid_of c p)"

lemma evolves_refl [simp]: "evolves c c"
  by (simp add: evolves_def)

lemma evolves_trans: "evolves a b \<Longrightarrow> evolves b c \<Longrightarrow> evolves a c"
  by (auto simp: evolves_def)

lemma grows_evolves:
  assumes "grows c c'" shows "evolves c c'"
proof -
  have eq: "map server_use xs = map (\<lambda>(i, st, sp). (i, st = pss_unitialized, sp)) (map server_ident xs)" for xs
    by (simp add: server_use_def ident_defs)
  from assms have "map server_ident (c_pcp_servers c') = map server_ident (c_pcp_servers c)" by (simp add: grows_def)
  then have "map server_use (c_pcp_servers c') = map server_use (c_pcp_servers c)" by (simp only: eq)
  with assms show ?thesis by (simp add: grows_def evolves_def)
qed

lemma evolves_server:
  assumes "evolves c c'"
  shows "length (c_pcp_servers c') = length (c_pcp_servers c)"
    and "s < length (c_pcp_servers c) \<Longrightarrow> server_use (c_pcp_servers c' ! s) = server_use (c_pcp_servers c ! s)"
proof -
  from assms have eq: "map server_use (c_pcp_servers c') = map server_use (c_pcp_servers c)" by (simp add: evolves_def)
  then show len: "length (c_pcp_servers c') = length (c_pcp_servers c)" by (rule map_eq_imp_length_eq)
  show "server_use (c_pcp_servers c' ! s) = server_use (c_pcp_servers c ! s)" if "s < length (c_pcp_servers c)"
    using arg_cong [OF eq, of "\<lambda>xs. xs ! s"] that len by simp
qed

lemma evolves_in_use: "evolves c c' \<Longrightarrow> in_use s c' = in_use s c"
  using evolves_server(1) [of c c'] evolves_server(2) [of c c' s] by (auto simp: in_use_def server_use_def)

lemma set_state_inv:
  assumes inv: "ctx_inv c" and u: "in_use s c" and st: "st \<noteq> pss_unitialized"
  shows "runs (upd_server s (\<lambda>v. v\<lparr>s_server_state := st\<rparr>) c) (\<lambda>c'. ctx_inv c' \<and> evolves c c' \<and>
    c_pcp_servers c' = (c_pcp_servers c)[s := (c_pcp_servers c ! s)\<lparr>s_server_state := st\<rparr>] \<and> c_heap c' = c_heap c)"
proof -
  let ?v = "(c_pcp_servers c ! s)\<lparr>s_server_state := st\<rparr>"
  let ?c = "c\<lparr>c_pcp_servers := (c_pcp_servers c)[s := ?v]\<rparr>"
  have s: "s < length (c_pcp_servers c)" using u by (simp add: in_use_def)
  have "map server_use ((c_pcp_servers c)[s := ?v]) = map server_use (c_pcp_servers c)"
    using u st by (simp add: map_update list_update_same_conv server_use_def spare_ping_def in_use_def)
  then have ev: "evolves c ?c" by (simp add: evolves_def)
  have "server_inv ?c"
    using inv u by (auto simp: ctx_inv_def server_inv_def in_use_def nth_list_update)
  moreover have "ping_ok ?c"
    unfolding ping_ok_def
  proof (intro ballI allI impI)
    fix v p assume v: "v \<in> set (c_pcp_servers ?c)" "s_ping_flow_msg v = Some p"
    then obtain w where "w \<in> set (c_pcp_servers c)" "s_ping_flow_msg w = Some p" "s_index w = s_index v"
      using s set_update_subset_insert [of "c_pcp_servers c" s ?v] nth_mem [OF s] by fastforce
    with inv show "\<exists>f. c_heap ?c p = Some f \<and> f_pcp_server_indx f = s_index v"
      by (fastforce simp: ctx_inv_def ping_ok_def)
  qed
  moreover have "db_inv ?c" using inv same_db_inv [of c ?c] by (auto simp: ctx_inv_def same_db_def)
  ultimately have "ctx_inv ?c" using inv by (simp add: ctx_inv_def world_ok_def flows_ok_def)
  with ev s show ?thesis by (simp add: upd_server_def)
qed

lemma run_server_state_machine_runs:
  assumes inv: "ctx_inv c" and u: "in_use s c"
  shows "runs (run_server_state_machine (Some s) ev c)
     (\<lambda>(r, c'). r = PCP_ERR_SUCCESS \<and> ctx_inv c' \<and> evolves c c')"
proof -
  have s: "s < length (c_pcp_servers c)" using u by (simp add: in_use_def)
  obtain h where h: "server_handler_for (s_server_state (c_pcp_servers c ! s)) ev = Some h"
    using server_handler_total by blast
  from run_server_handler_runs [OF reach_refl [OF inv] u, of h] obtain st c1 where
    c1: "run_server_handler h s c = Some (st, c1)" "reach c c1" "st \<noteq> pss_unitialized"
    by (auto elim!: runsE)
  have e1: "evolves c c1" "ctx_inv c1" using c1(2) grows_evolves by (simp_all add: reach_def)
  from set_state_inv [OF e1(2) _ c1(3)] evolves_in_use [OF e1(1)] u obtain c2 where
    "upd_server s (\<lambda>v. v\<lparr>s_server_state := st\<rparr>) c1 = Some c2" "ctx_inv c2" "evolves c1 c2"
    by (auto elim!: runsE)
  then show ?thesis
    using h c1(1) evolves_trans [OF e1(1)] s by (simp add: run_server_state_machine_def rd_server_def)
qed

end
