(* ===== verification/Pulse.thy ===== *)
theory Pulse
  imports Server_Inv
begin

text \<open>
  Correctness of \<open>pcp_pulse\<close>: whatever packet arrives and whatever the clock says, a pulse that
  returns has preserved the invariant of the context; and it does return when the clock settles
  while it runs. A response that answers a flow's request reaches that flow.
\<close>

section \<open>The loop over timeouts\<close>

lemma inv_world [simp]:
  "ctx_inv (c\<lparr>c_msg := m\<rparr>) = ctx_inv c"
  "ctx_inv (c\<lparr>w_time_i := n\<rparr>) = ctx_inv c" "ctx_inv (c\<lparr>w_recvfrom_i := n\<rparr>) = ctx_inv c"
proof -
  have "ctx_inv d = reach d d" for d by (simp add: reach_def)
  then have *: "ctx_inv d = reach c d" if "grows c d" for d using that by (simp add: reach_def)
  have "grows c (c\<lparr>c_msg := m\<rparr>)" "grows c (c\<lparr>w_time_i := n\<rparr>)"
    "grows c (c\<lparr>w_recvfrom_i := n\<rparr>)" by (simp_all add: grows_def)
  from this [THEN *] show "ctx_inv (c\<lparr>c_msg := m\<rparr>) = ctx_inv c"
    "ctx_inv (c\<lparr>w_time_i := n\<rparr>) = ctx_inv c" "ctx_inv (c\<lparr>w_recvfrom_i := n\<rparr>) = ctx_inv c"
    by (simp_all add: * [OF grows_refl])
qed

lemma evolves_world [simp]:
  "evolves c d \<Longrightarrow> evolves c (d\<lparr>w_tod_i := Suc (w_tod_i d)\<rparr>)" "evolves c (d\<lparr>c_msg := m\<rparr>) = evolves c d"
  "evolves c (d\<lparr>w_time_i := n\<rparr>) = evolves c d" "evolves c (d\<lparr>w_recvfrom_i := n\<rparr>) = evolves c d"
  by (simp_all add: evolves_def)

lemma inv_oracles [simp]:
  "ctx_inv (c\<lparr>w_alloc_i := n\<rparr>) = ctx_inv c" "ctx_inv (c\<lparr>w_route_i := n\<rparr>) = ctx_inv c"
  "ctx_inv (c\<lparr>w_random_i := n\<rparr>) = ctx_inv c" "ctx_inv (c\<lparr>w_tod_i := n\<rparr>) = ctx_inv c"
  "evolves d (c\<lparr>w_alloc_i := n\<rparr>) = evolves d c" "evolves d (c\<lparr>w_route_i := n\<rparr>) = evolves d c"
  "evolves d (c\<lparr>w_random_i := n\<rparr>) = evolves d c"
proof -
  have "db_rep (c\<lparr>w_alloc_i := n\<rparr>) B = db_rep c B" "db_rep (c\<lparr>w_route_i := n\<rparr>) B = db_rep c B"
    "db_rep (c\<lparr>w_random_i := n\<rparr>) B = db_rep c B" "db_rep (c\<lparr>w_tod_i := n\<rparr>) B = db_rep c B" for B
    by (simp_all add: db_rep_def in_bucket_def [abs_def])
  then show "ctx_inv (c\<lparr>w_alloc_i := n\<rparr>) = ctx_inv c" "ctx_inv (c\<lparr>w_route_i := n\<rparr>) = ctx_inv c"
    "ctx_inv (c\<lparr>w_random_i := n\<rparr>) = ctx_inv c" "ctx_inv (c\<lparr>w_tod_i := n\<rparr>) = ctx_inv c"
    by (simp_all add: ctx_inv_def world_ok_def db_inv_def server_inv_def flows_ok_def ping_ok_def)
  show "evolves d (c\<lparr>w_alloc_i := n\<rparr>) = evolves d c" "evolves d (c\<lparr>w_route_i := n\<rparr>) = evolves d c"
    "evolves d (c\<lparr>w_random_i := n\<rparr>) = evolves d c"
    by (simp_all add: evolves_def kid_of_def)
qed

lemma set_next_timeout_inv:
  assumes "ctx_inv c" "s < length (c_pcp_servers c)"
  shows "runs (set_next_timeout s t c) (\<lambda>c'. ctx_inv c' \<and> evolves c c' \<and>
    c_pcp_servers c' = (c_pcp_servers c)[s := (c_pcp_servers c ! s)\<lparr>s_next_timeout := t\<rparr>] \<and>
    c_heap c' = c_heap c \<and> w_tod_i c' = w_tod_i c)"
proof -
  have "runs (set_next_timeout s t c) (\<lambda>c'. ctx_inv c' \<and> steady c c' \<and> c_heap c' = c_heap c \<and>
      c_pcp_servers c' = (c_pcp_servers c)[s := (c_pcp_servers c ! s)\<lparr>s_next_timeout := t\<rparr>] \<and> c_msg c' = c_msg c)"
    by (rule upd_server_inv [OF assms]) (simp_all add: ident_defs)
  then obtain c' where c': "set_next_timeout s t c = Some c'" "ctx_inv c'" "steady c c'" "c_heap c' = c_heap c"
      "c_pcp_servers c' = (c_pcp_servers c)[s := (c_pcp_servers c ! s)\<lparr>s_next_timeout := t\<rparr>]"
    by (auto elim!: runsE)
  moreover have "w_tod_i c' = w_tod_i c" using c'(1) by (auto simp: upd_server_def split: if_splits)
  ultimately show ?thesis using grows_evolves [OF steady_grows [OF c'(3)]] by simp
qed

lemma hserver_loop_inv:
  assumes "hserver_loop s c = Some r" "ctx_inv c" "in_use s c"
  shows "ctx_inv (snd r) \<and> evolves c (snd r)"
  using assms
proof (induction s c r rule: hserver_loop.raw_induct [rotated, consumes 1, case_names loop])
  case (loop loop s c r)
  note IH = loop(1) and body = loop(2) and inv = loop(3) and use = loop(4)
  define now d where "now = fst (gettimeofday c)" and "d = snd (gettimeofday c)"
  have d: "ctx_inv d" "evolves c d" "in_use s d" using inv use by (simp_all add: d_def gettimeofday_def in_use_def)
  let ?sv = "c_pcp_servers d ! s"
  have sv: "rd_server s d = Some ?sv" "s < length (c_pcp_servers d)" using d(3) by (simp_all add: in_use_def rd_server_def)
  let ?nt = "fst (snd (snd (timeval_subtract (s_next_timeout ?sv) now)))"
  from set_next_timeout_inv [OF d(1) sv(2), of ?nt] obtain c1 where
    c1: "set_next_timeout s ?nt d = Some c1" "ctx_inv c1" "evolves d c1" by (auto elim!: runsE)
  have u1: "in_use s c1" using evolves_in_use [OF c1(3)] d(3) by simp
  from run_server_state_machine_runs [OF c1(2) u1, of pcpe_timeout] obtain c2 where
    c2: "run_server_state_machine (Some s) pcpe_timeout c1 = Some (PCP_ERR_SUCCESS, c2)" "ctx_inv c2" "evolves c1 c2"
    by (auto elim!: runsE)
  have u2: "in_use s c2" using evolves_in_use [OF c2(3)] u1 by simp
  note e1 = evolves_trans [OF d(2) c1(3)] and e2 = evolves_trans [OF evolves_trans [OF d(2) c1(3)] c2(3)]
  have "(if s_next_timeout ?sv = tv_zero then Some (now, d)
      else if \<not> fst (timeval_subtract (s_next_timeout ?sv) now)
      then Some (fst (snd (timeval_subtract (s_next_timeout ?sv) now)), c1) else loop s c2) = Some r"
    using body unfolding Let_def now_def [symmetric] d_def [symmetric] sv(1) bind.simps c1(1) c2(1) prod.case .
  then consider "r = (now, d)"
    | "r = (fst (snd (timeval_subtract (s_next_timeout ?sv) now)), c1)" | "loop s c2 = Some r"
    by (metis option.inject)
  then show ?case
  proof cases
    case 3
    from IH [OF this c2(2) u2] show ?thesis using evolves_trans [OF e2] by blast
  qed (use d c1 e1 in auto)
qed

lemma hserver_iter_inv:
  assumes "hserver_iter s d c = Some (stop, d', c')" "ctx_inv c" "in_use s c"
  shows "ctx_inv c' \<and> evolves c c' \<and> \<not> stop"
proof -
  have "\<exists>r c1. (if hi_ev d \<noteq> pcpe_timeout then run_server_state_machine (Some s) (hi_ev d) c
      else Some (PCP_ERR_SUCCESS, c)) = Some (r, c1) \<and> ctx_inv c1 \<and> evolves c c1"
    using run_server_state_machine_runs [OF assms(2,3), of "hi_ev d"] assms(2) by (auto elim!: runsE)
  then obtain r c1 where c1: "(if hi_ev d \<noteq> pcpe_timeout then run_server_state_machine (Some s) (hi_ev d) c
      else Some (PCP_ERR_SUCCESS, c)) = Some (r, c1)" "ctx_inv c1" "evolves c c1" by blast
  have u1: "in_use s c1" using evolves_in_use [OF c1(3)] assms(3) by simp
  have sv: "rd_server s c = Some (c_pcp_servers c ! s)" "s_server_state (c_pcp_servers c ! s) \<noteq> pss_unitialized"
    using assms(3) by (simp_all add: rd_server_def in_use_def)
  from assms(1) obtain ctv c2 where c2: "hserver_loop s c1 = Some (ctv, c2)"
    by (auto simp: hserver_iter_def sv c1(1) bind_eq_Some_conv)
  from hserver_loop_inv [OF c2 c1(2) u1] have e2: "ctx_inv c2" "evolves c1 c2" by simp_all
  then have "rd_server s c2 = Some (c_pcp_servers c2 ! s)"
    using evolves_in_use [OF e2(2), of s] u1 by (simp add: rd_server_def in_use_def)
  then have "c' = c2 \<and> \<not> stop"
    using assms(1) by (simp add: hserver_iter_def sv c1(1) c2 split: option.splits if_splits prod.splits)
  with e2 evolves_trans [OF c1(3)] show ?thesis by simp
qed

section \<open>The loop ends when the clock stands still\<close>

text \<open>
  A server is at rest when its timeout is cleared or lies ahead. With the clock standing still, every
  run of the machine on a timeout brings the server to rest or to a state of a smaller rank; the
  greatest ranks are those of the states from which the server is pinged again.
\<close>

definition still_at :: "timeval \<Rightarrow> pcp_ctx \<Rightarrow> bool" where
  "still_at now c \<longleftrightarrow> (\<forall>i\<ge>w_tod_i c. w_tod c i = now)"

lemma still_evolves: "still_at now c \<Longrightarrow> evolves c c' \<Longrightarrow> still_at now c'"
  by (simp add: still_at_def evolves_def)

lemma still_world [simp]: "still_at now c \<Longrightarrow> still_at now (c\<lparr>w_tod_i := Suc (w_tod_i c)\<rparr>)"
  "still_at now (c\<lparr>c_msg := m\<rparr>) = still_at now c" "still_at now (c\<lparr>w_time_i := n\<rparr>) = still_at now c"
  by (simp_all add: still_at_def)

definition at_rest :: "timeval \<Rightarrow> pcp_server \<Rightarrow> bool" where
  "at_rest now v \<longleftrightarrow> s_next_timeout v = tv_zero \<or> tv_us now < tv_us (s_next_timeout v)"

definition srv_rank :: "pcp_server \<Rightarrow> nat" where
  "srv_rank v =
     (case s_server_state v of
        pss_wait_io \<Rightarrow> 0 | pss_allocated \<Rightarrow> 0
      | pss_set_not_working \<Rightarrow> 1 | pss_wait_io_calc_nearest_timeout \<Rightarrow> 1
      | pss_send_all_msgs \<Rightarrow> 2 | pss_server_restart \<Rightarrow> 2 | pss_any \<Rightarrow> 2 | pss_unitialized \<Rightarrow> 2
      | pss_wait_ping_resp \<Rightarrow>
          (if s_ping_flow_msg v = None then 10
           else if s_ping_count v < PCP_MAX_PING_COUNT then 7 - unat (s_ping_count v) else 8)
      | pss_ping \<Rightarrow> 9 | pss_server_reping \<Rightarrow> 10
      | pss_version_negotiation \<Rightarrow> 11 | pss_not_working \<Rightarrow> 11)"

lemma srv_rank_simps:
  "s_server_state v = pss_set_not_working \<Longrightarrow> srv_rank v = 1"
  "s_server_state v = pss_ping \<Longrightarrow> srv_rank v = 9"
  "s_server_state v = pss_wait_ping_resp \<Longrightarrow> srv_rank v =
     (if s_ping_flow_msg v = None then 10
      else if s_ping_count v < PCP_MAX_PING_COUNT then 7 - unat (s_ping_count v) else 8)"
  by (simp_all add: srv_rank_def)

lemma srv_rank_timeout: "srv_rank (v\<lparr>s_next_timeout := t\<rparr>) = srv_rank v"
  by (cases "s_server_state v") (simp_all add: srv_rank_def)

lemma version_negotiation_next:
  "yields (handle_version_negotiation s c) (\<lambda>r. fst r \<in> {pss_set_not_working, pss_ping, pss_wait_ping_resp})"
  by (auto simp: handle_version_negotiation_def negotiation_send_def yields_def bind_eq_Some_conv
      split: option.splits if_splits)

lemma fixed_next:
  "yields (handle_send_all_msgs s c) (\<lambda>r. fst r = pss_wait_io_calc_nearest_timeout)"
  "yields (handle_server_restart s c) (\<lambda>r. fst r = pss_wait_io_calc_nearest_timeout)"
  "yields (handle_server_reping s c) (\<lambda>r. fst r = pss_ping)"
  "yields (log_unexepected_state_event s c) (\<lambda>r. fst r = pss_set_not_working)"
  by (auto simp: handle_send_all_msgs_def handle_server_restart_def handle_server_reping_def
      log_unexepected_state_event_def case_prod_unfold)

lemma not_working_next:
  assumes "still_at now c" "tv_us (s_next_timeout (c_pcp_servers c ! s)) \<le> tv_us now"
  shows "yields (handle_server_not_working s c) (\<lambda>r. fst r = pss_server_reping)"
  using assms
  by (simp add: handle_server_not_working_def gettimeofday_def timeval_comp_sgn rd_server_def sgn_if still_at_def)

lemma ignore_events_rest:
  "yields (ignore_events s c) (\<lambda>r. s_next_timeout (c_pcp_servers (snd r) ! s) = tv_zero)"
  by (auto simp: ignore_events_def upd_server_def rd_server_def)

lemma ping_count_rank:
  "(n :: u32) + 1 < PCP_MAX_PING_COUNT \<Longrightarrow>
     7 - unat (n + 1) < (if n < PCP_MAX_PING_COUNT then 7 - unat n else 8)"
  by (cases "n < PCP_MAX_PING_COUNT") (simp_all add: word_less_nat_alt unat_word_ariths)

lemma machine_handler:
  "server_handler_for st pcpe_timeout = Some (case st of
     pss_ping \<Rightarrow> Handle_server_ping | pss_wait_ping_resp \<Rightarrow> Handle_wait_ping_resp_timeout
   | pss_version_negotiation \<Rightarrow> Handle_version_negotiation | pss_send_all_msgs \<Rightarrow> Handle_send_all_msgs
   | pss_wait_io \<Rightarrow> Handle_wait_io_timeout | pss_wait_io_calc_nearest_timeout \<Rightarrow> Handle_wait_io_timeout
   | pss_server_restart \<Rightarrow> Handle_server_restart | pss_server_reping \<Rightarrow> Handle_server_reping
   | pss_set_not_working \<Rightarrow> Handle_server_set_not_working | pss_not_working \<Rightarrow> Handle_server_not_working
   | pss_allocated \<Rightarrow> Ignore_events | _ \<Rightarrow> Log_unexepected_state_event)"
  by (cases st) (simp_all add: server_handler_for_def server_sm_def)

definition progress :: "timeval \<Rightarrow> nat \<Rightarrow> pcp_server \<Rightarrow> pcp_server_state_e \<times> pcp_ctx \<Rightarrow> bool" where
  "progress now s v r \<longleftrightarrow> at_rest now (c_pcp_servers (snd r) ! s) \<or>
     srv_rank ((c_pcp_servers (snd r) ! s)\<lparr>s_server_state := fst r\<rparr>) < srv_rank v"

fun next_states :: "pcp_server_state_e \<Rightarrow> pcp_server_state_e set" where
  "next_states pss_send_all_msgs = {pss_wait_io_calc_nearest_timeout}"
| "next_states pss_server_restart = {pss_wait_io_calc_nearest_timeout}"
| "next_states pss_server_reping = {pss_ping}"
| "next_states pss_not_working = {pss_server_reping}"
| "next_states pss_version_negotiation = {pss_set_not_working, pss_ping, pss_wait_ping_resp}"
| "next_states pss_any = {pss_set_not_working}"
| "next_states _ = {}"

lemma progress_state:
  assumes "yields m (\<lambda>r. fst r \<in> next_states (s_server_state v))"
  shows "yields m (progress now s v)"
  by (rule yields_mono [OF assms]) (cases "s_server_state v"; auto simp: progress_def srv_rank_def)

lemma progress_pinged: "pinged s r \<Longrightarrow> s_server_state v = pss_ping \<Longrightarrow> progress now s v r"
  by (auto simp: progress_def at_rest_def srv_rank_def)

lemma progress_repinged:
  assumes "repinged v s r" "s_server_state v = pss_wait_ping_resp"
  shows "progress now s v r"
proof -
  let ?n = "\<lambda>k :: u32. if k < PCP_MAX_PING_COUNT then 7 - unat k else 8"
  have v: "srv_rank v = (if s_ping_flow_msg v = None then 10 else ?n (s_ping_count v))"
    using assms(2) by (simp add: srv_rank_def)
  have n: "1 < ?n k" for k by (auto simp: word_less_nat_alt)
  consider "fst r = pss_set_not_working" | "fst r = pss_ping" "s_ping_flow_msg v = None"
    | "fst r = pss_wait_ping_resp" "s_ping_flow_msg v \<noteq> None" "s_ping_flow_msg (c_pcp_servers (snd r) ! s) \<noteq> None"
      "s_ping_count (c_pcp_servers (snd r) ! s) = s_ping_count v + 1" "s_ping_count v + 1 < PCP_MAX_PING_COUNT"
    using assms(1) by (elim disjE conjE) simp_all
  then show ?thesis
  proof cases
    case 1
    then show ?thesis using v n [of "s_ping_count v"] by (auto simp: progress_def srv_rank_simps)
  next
    case 2
    then show ?thesis using v by (auto simp: progress_def srv_rank_simps)
  next
    case 3
    then show ?thesis
      using v ping_count_rank [OF 3(5)] by (auto simp: progress_def srv_rank_simps)
  qed
qed

lemma handler_progress:
  assumes inv: "ctx_inv c" and u: "in_use s c" and clock: "still_at now c"
    and due: "tv_us (s_next_timeout (c_pcp_servers c ! s)) \<le> tv_us now"
    and h: "server_handler_for (s_server_state (c_pcp_servers c ! s)) pcpe_timeout = Some h"
  shows "runs (run_server_handler h s c) (\<lambda>r. handled c r \<and> progress now s (c_pcp_servers c ! s) r)"
proof -
  let ?v = "c_pcp_servers c ! s"
  note r = reach_refl [OF inv]
  have wait: "runs (handle_wait_io_timeout s c) (\<lambda>r. handled c r \<and> progress now s ?v r)"
    by (rule runs_mono [OF handle_wait_io_timeout_runs [OF r u]])
      (use clock in \<open>auto simp: progress_def at_rest_def still_at_def\<close>)
  have set: "runs (handle_server_set_not_working s c) (\<lambda>r. handled c r \<and> progress now s ?v r)"
    by (rule runs_mono [OF handle_server_set_not_working_runs [OF r u]])
      (use clock in \<open>auto simp: progress_def at_rest_def still_at_def tv_us_def\<close>)
  have ping: "runs (handle_server_ping s c) (\<lambda>r. handled c r \<and> progress now s ?v r)" if "s_server_state ?v = pss_ping"
    by (rule runs_mono [OF handle_server_ping_runs [OF r u]]) (use progress_pinged that in blast)
  have reping: "runs (handle_wait_ping_resp_timeout s c) (\<lambda>r. handled c r \<and> progress now s ?v r)"
    if "s_server_state ?v = pss_wait_ping_resp"
    by (rule runs_mono [OF handle_wait_ping_resp_timeout_runs [OF r u]]) (use progress_repinged that in blast)
  have step: "runs (run_server_handler h s c) (handled c)" by (rule run_server_handler_runs [OF r u])
  have rest: "yields (ignore_events s c) (progress now s ?v)"
    by (rule yields_mono [OF ignore_events_rest]) (simp add: progress_def at_rest_def)
  have other: ?thesis if "yields (run_server_handler h s c) (\<lambda>r. fst r \<in> next_states (s_server_state ?v))"
    using runs_conj [OF step progress_state [OF that]] .
  show ?thesis
    using h u wait set ping reping other runs_conj [OF step] rest version_negotiation_next [of s c] fixed_next [of s c]
      not_working_next [OF clock due]
    by (cases "s_server_state ?v") (simp_all add: machine_handler in_use_def)
qed


lemma machine_progress:
  assumes inv: "ctx_inv c" and u: "in_use s c" and clock: "still_at now c"
    and due: "tv_us (s_next_timeout (c_pcp_servers c ! s)) \<le> tv_us now"
  shows "runs (run_server_state_machine (Some s) pcpe_timeout c) (\<lambda>(r, c'). ctx_inv c' \<and> evolves c c' \<and>
    (at_rest now (c_pcp_servers c' ! s) \<or> srv_rank (c_pcp_servers c' ! s) < srv_rank (c_pcp_servers c ! s)))"
proof -
  have s: "s < length (c_pcp_servers c)" using u by (simp add: in_use_def)
  obtain h where h: "server_handler_for (s_server_state (c_pcp_servers c ! s)) pcpe_timeout = Some h"
    using server_handler_total by blast
  from handler_progress [OF inv u clock due h] obtain st c1 where
    c1: "run_server_handler h s c = Some (st, c1)" "reach c c1" "st \<noteq> pss_unitialized"
      "progress now s (c_pcp_servers c ! s) (st, c1)"
    by (auto elim!: runsE)
  have e1: "evolves c c1" "ctx_inv c1" using c1(2) grows_evolves by (simp_all add: reach_def)
  have u1: "in_use s c1" using evolves_in_use [OF e1(1)] u by simp
  from set_state_inv [OF e1(2) u1 c1(3)] obtain c2 where
    c2: "upd_server s (\<lambda>v. v\<lparr>s_server_state := st\<rparr>) c1 = Some c2" "ctx_inv c2" "evolves c1 c2"
      "c_pcp_servers c2 = (c_pcp_servers c1)[s := (c_pcp_servers c1 ! s)\<lparr>s_server_state := st\<rparr>]"
    by (auto elim!: runsE)
  have "c_pcp_servers c2 ! s = (c_pcp_servers c1 ! s)\<lparr>s_server_state := st\<rparr>"
    using c2(4) in_use_length [OF u1] by simp
  with c1(4) have "at_rest now (c_pcp_servers c2 ! s) \<or> srv_rank (c_pcp_servers c2 ! s) < srv_rank (c_pcp_servers c ! s)"
    by (auto simp: progress_def at_rest_def)
  then show ?thesis
    using h c1(1) c2 evolves_trans [OF e1(1) c2(3)] s by (simp add: run_server_state_machine_def rd_server_def)
qed

lemma hserver_loop_rest:
  assumes "ctx_inv c" "in_use s c" "still_at now c" "at_rest now (c_pcp_servers c ! s)"
  shows "\<exists>r. hserver_loop s c = Some r"
proof -
  have "rd_server s (snd (gettimeofday c)) = Some (c_pcp_servers c ! s)" "fst (gettimeofday c) = now"
    "s < length (c_pcp_servers (snd (gettimeofday c)))"
    using assms(2,3) by (simp_all add: gettimeofday_def rd_server_def in_use_def still_at_def)
  with assms(4) show ?thesis
    by (subst hserver_loop.simps) (auto simp: Let_def at_rest_def timeval_subtract_flag upd_server_def)
qed

lemma hserver_loop_total:
  "ctx_inv c \<Longrightarrow> in_use s c \<Longrightarrow> still_at now c \<Longrightarrow> \<exists>r. hserver_loop s c = Some r"
proof (induction "srv_rank (c_pcp_servers c ! s)" arbitrary: c rule: less_induct)
  case less
  note inv = less.prems(1) and use = less.prems(2) and clock = less.prems(3)
  let ?d = "snd (gettimeofday c)" and ?sv = "c_pcp_servers c ! s"
  have d: "ctx_inv ?d" "in_use s ?d" "c_pcp_servers ?d = c_pcp_servers c" "still_at now ?d" "fst (gettimeofday c) = now"
    using inv use clock by (simp_all add: gettimeofday_def in_use_def) (simp add: still_at_def)
  let ?sub = "timeval_subtract (s_next_timeout ?sv) now"
  have rd: "rd_server s ?d = Some ?sv" "s < length (c_pcp_servers ?d)" using d(2,3) by (simp_all add: in_use_def rd_server_def)
  from set_next_timeout_inv [OF d(1) rd(2), of "fst (snd (snd ?sub))"] obtain c1 where
    c1: "set_next_timeout s (fst (snd (snd ?sub))) ?d = Some c1" "ctx_inv c1" "evolves ?d c1"
      "c_pcp_servers c1 = (c_pcp_servers c)[s := ?sv\<lparr>s_next_timeout := fst (snd (snd ?sub))\<rparr>]"
    by (auto simp: d(3) elim!: runsE)
  have u1: "in_use s c1" using evolves_in_use [OF c1(3)] d(2) by simp
  have t1: "still_at now c1" using still_evolves [OF d(4) c1(3)] .
  have sv1: "c_pcp_servers c1 ! s = ?sv\<lparr>s_next_timeout := fst (snd (snd ?sub))\<rparr>" using c1(4) rd(2) d(3) by simp
  have us: "tv_us (fst (snd (snd ?sub))) = tv_us (s_next_timeout ?sv)" by (rule timeval_subtract_arg)
  have rank: "srv_rank (c_pcp_servers c1 ! s) = srv_rank ?sv" by (simp only: sv1 srv_rank_timeout)
  have go: "\<exists>r. Option.bind (run_server_state_machine (Some s) pcpe_timeout c1) (\<lambda>(r, c). hserver_loop s c) = Some r"
    if due: "tv_us (s_next_timeout ?sv) \<le> tv_us now"
  proof -
    have due1: "tv_us (s_next_timeout (c_pcp_servers c1 ! s)) \<le> tv_us now" using due us sv1 by simp
    from machine_progress [OF c1(2) u1 t1 due1] obtain r c2 where
      c2: "run_server_state_machine (Some s) pcpe_timeout c1 = Some (r, c2)" "ctx_inv c2" "evolves c1 c2"
        "at_rest now (c_pcp_servers c2 ! s) \<or> srv_rank (c_pcp_servers c2 ! s) < srv_rank ?sv"
      unfolding rank by (auto elim!: runsE)
    have u2: "in_use s c2" and t2: "still_at now c2"
      using evolves_in_use [OF c2(3)] u1 still_evolves [OF t1 c2(3)] by simp_all
    have "\<exists>r. hserver_loop s c2 = Some r"
      using c2(4) hserver_loop_rest [OF c2(2) u2 t2] less.hyps [of c2] c2(2) u2 t2 by blast
    with c2(1) show ?thesis by simp
  qed
  show ?case
    unfolding hserver_loop.simps [of s c] Let_def d(5) rd(1) bind.simps c1(1)
    using go by (simp add: timeval_subtract_flag)
qed

text \<open>
  A clock that settles may go on in any way at first, and even jump, but finally shows \<open>now\<close>. Every round reads the clock, so that
  the loop ends also then.
\<close>

definition settles :: "timeval \<Rightarrow> pcp_ctx \<Rightarrow> bool" where
  "settles now c \<longleftrightarrow> (\<exists>N. \<forall>i\<ge>N. w_tod c i = now)"

lemma settles_evolves: "settles now c \<Longrightarrow> evolves c c' \<Longrightarrow> settles now c'"
  by (simp add: settles_def evolves_def)

lemma settles_world [simp]: "settles now (c\<lparr>w_tod_i := n\<rparr>) = settles now c"
  "settles now (c\<lparr>c_msg := m\<rparr>) = settles now c" "settles now (c\<lparr>w_time_i := n\<rparr>) = settles now c"
  by (simp_all add: settles_def)

lemma hserver_loop_until:
  "ctx_inv c \<Longrightarrow> in_use s c \<Longrightarrow> \<forall>i\<ge>N. w_tod c i = now \<Longrightarrow> \<exists>r. hserver_loop s c = Some r"
proof (induction "N - w_tod_i c" arbitrary: c rule: less_induct)
  case less
  note inv = less.prems(1) and use = less.prems(2) and clock = less.prems(3)
  show ?case
  proof (cases "N \<le> w_tod_i c")
    case True
    then have "still_at now c" using clock by (simp add: still_at_def)
    then show ?thesis using hserver_loop_total inv use by blast
  next
    case False
    let ?d = "snd (gettimeofday c)" and ?now = "fst (gettimeofday c)"
    let ?sub = "timeval_subtract (s_next_timeout (c_pcp_servers c ! s)) ?now"
    have d: "ctx_inv ?d" "in_use s ?d" "c_pcp_servers ?d = c_pcp_servers c" "w_tod ?d = w_tod c" "w_tod_i ?d = Suc (w_tod_i c)"
      using inv use by (simp_all add: gettimeofday_def in_use_def)
    have rd: "rd_server s ?d = Some (c_pcp_servers c ! s)" "s < length (c_pcp_servers ?d)"
      using d(2,3) by (simp_all add: in_use_def rd_server_def)
    from set_next_timeout_inv [OF d(1) rd(2), of "fst (snd (snd ?sub))"] obtain c1 where
      c1: "set_next_timeout s (fst (snd (snd ?sub))) ?d = Some c1" "ctx_inv c1" "evolves ?d c1" by (auto elim!: runsE)
    have u1: "in_use s c1" using evolves_in_use [OF c1(3)] d(2) by simp
    from run_server_state_machine_runs [OF c1(2) u1, of pcpe_timeout] obtain c2 where
      c2: "run_server_state_machine (Some s) pcpe_timeout c1 = Some (PCP_ERR_SUCCESS, c2)" "ctx_inv c2" "evolves c1 c2"
      by (auto elim!: runsE)
    have "in_use s c2" using evolves_in_use [OF c2(3)] u1 by simp
    moreover have "w_tod_i c < w_tod_i c2" "w_tod c2 = w_tod c"
      using c1(3) c2(3) d(4,5) by (auto simp: evolves_def)
    moreover have "N - w_tod_i c2 < N - w_tod_i c" using calculation(2) False by simp
    ultimately have "\<exists>r. hserver_loop s c2 = Some r" using less.hyps c2(2) clock by metis
    then show ?thesis
      unfolding hserver_loop.simps [of s c] Let_def rd(1) bind.simps c1(1) using c2(1) by simp
  qed
qed

lemma hserver_loop_settles: "ctx_inv c \<Longrightarrow> in_use s c \<Longrightarrow> settles now c \<Longrightarrow> \<exists>r. hserver_loop s c = Some r"
  using hserver_loop_until by (auto simp: settles_def)

section \<open>Iterating over servers\<close>

text \<open>
  The contract of the callbacks of \<open>pcp_db_foreach_server\<close>: \<open>I s d c\<close> holds before the entry \<open>s\<close> is reached.
  A callback is called with entries that are in use only; it keeps the length of the array and makes
  \<open>I\<close> true for the next entry, or stops the iteration with \<open>J\<close>.
\<close>

locale server_visitor =
  fixes I :: "nat \<Rightarrow> 'd \<Rightarrow> pcp_ctx \<Rightarrow> bool"
    and J :: "'d \<Rightarrow> pcp_ctx \<Rightarrow> bool"
    and visit :: "nat \<Rightarrow> 'd \<Rightarrow> pcp_ctx \<Rightarrow> (bool \<times> 'd \<times> pcp_ctx) option"
  assumes visit_step: "I s d c \<Longrightarrow> in_use s c \<Longrightarrow> visit s d c = Some (stop, d', c') \<Longrightarrow>
      (if stop then J d' c' else I (Suc s) d' c') \<and> length (c_pcp_servers c') = length (c_pcp_servers c)"
    and visit_skip: "I s d c \<Longrightarrow> s < length (c_pcp_servers c) \<Longrightarrow> \<not> in_use s c \<Longrightarrow> I (Suc s) d c"
begin

abbreviation visited :: "pcp_errno \<times> 'd \<times> pcp_ctx \<Rightarrow> bool" where
  "visited \<equiv> \<lambda>(e, d, c). e = PCP_ERR_MAX_SIZE \<and> I (length (c_pcp_servers c)) d c \<or> e = PCP_ERR_SUCCESS \<and> J d c"

lemma loop_keeps: "I i d c \<Longrightarrow> i \<le> length (c_pcp_servers c) \<Longrightarrow> yields (foreach_server_loop visit i d c) visited"
proof (induction "length (c_pcp_servers c) - i" arbitrary: i d c)
  case 0
  then show ?case by (subst foreach_server_loop.simps) simp
next
  case (Suc n)
  then have i: "i < length (c_pcp_servers c)" by simp
  show ?case
  proof (cases "s_server_state (c_pcp_servers c ! i) = pss_unitialized")
    case True
    then have "I (Suc i) d c" using visit_skip [OF Suc.prems(1) i] by (simp add: in_use_def)
    with True Suc.hyps(1) [of c "Suc i" d] Suc.hyps(2) i show ?thesis by (subst foreach_server_loop.simps) simp
  next
    case False
    then have u: "in_use i c" using i by (simp add: in_use_def)
    have "if stop then J d1 c1 else yields (foreach_server_loop visit (i + 1) d1 c1) visited"
      if "visit i d c = Some (stop, d1, c1)" for stop d1 c1
      using visit_step [OF Suc.prems(1) u that] Suc.hyps(1) [of c1 "Suc i" d1] Suc.hyps(2) i by simp
    with False i show ?thesis
      by (subst foreach_server_loop.simps)
        (fastforce simp: yields_def bind_eq_Some_conv split: if_splits)
  qed
qed

lemma foreach_keeps: "I 0 d c \<Longrightarrow> pcp_db_foreach_server visit d c = Some r \<Longrightarrow> visited r"
  using loop_keeps [of 0 d c] by (auto simp: pcp_db_foreach_server_def yields_def)

end

locale server_visitor_total = server_visitor +
  assumes visit_total: "I s d c \<Longrightarrow> in_use s c \<Longrightarrow> \<exists>stop d' c'. visit s d c = Some (stop, d', c')"
begin

lemma loop_total: "I i d c \<Longrightarrow> \<exists>r. foreach_server_loop visit i d c = Some r"
proof (induction "length (c_pcp_servers c) - i" arbitrary: i d c)
  case 0
  then show ?case by (subst foreach_server_loop.simps) simp
next
  case (Suc n)
  then have i: "i < length (c_pcp_servers c)" by simp
  show ?case
  proof (cases "s_server_state (c_pcp_servers c ! i) = pss_unitialized")
    case True
    then have "I (Suc i) d c" using visit_skip [OF Suc.prems i] by (simp add: in_use_def)
    with True Suc.hyps(1) [of c "Suc i" d] Suc.hyps(2) i show ?thesis by (subst foreach_server_loop.simps) simp
  next
    case False
    then have u: "in_use i c" using i by (simp add: in_use_def)
    from visit_total [OF Suc.prems u] obtain stop d1 c1 where v: "visit i d c = Some (stop, d1, c1)" by blast
    show ?thesis
    proof (cases stop)
      case True
      then show ?thesis using v False i by (subst foreach_server_loop.simps) (simp add: in_use_def)
    next
      case go: False
      from visit_step [OF Suc.prems u v] Suc.hyps(1) [of c1 "Suc i" d1] Suc.hyps(2) i go
      have "\<exists>r. foreach_server_loop visit (Suc i) d1 c1 = Some r" by simp
      with v False i go show ?thesis by (subst foreach_server_loop.simps) simp
    qed
  qed
qed

lemma foreach_server_total: "I 0 d c \<Longrightarrow> runs (pcp_db_foreach_server visit d c) visited"
  using loop_total [of 0 d c] loop_keeps [of 0 d c] by (auto simp: pcp_db_foreach_server_def runs_def yields_def)

end

text \<open>The callback of \<open>pcp_pulse\<close>, with any clock and with one that settles.\<close>

lemma hserver_iter_total:
  assumes inv: "ctx_inv c" and u: "in_use s c" and clock: "settles now c"
  shows "\<exists>d' c'. hserver_iter s d c = Some (False, d', c') \<and> (hi_res_timeout d \<noteq> None \<longrightarrow> hi_res_timeout d' \<noteq> None)"
proof -
  have "\<exists>r c1. (if hi_ev d \<noteq> pcpe_timeout then run_server_state_machine (Some s) (hi_ev d) c
      else Some (PCP_ERR_SUCCESS, c)) = Some (r, c1) \<and> ctx_inv c1 \<and> evolves c c1"
    using run_server_state_machine_runs [OF inv u, of "hi_ev d"] inv by (auto elim!: runsE)
  then obtain r c1 where c1: "(if hi_ev d \<noteq> pcpe_timeout then run_server_state_machine (Some s) (hi_ev d) c
      else Some (PCP_ERR_SUCCESS, c)) = Some (r, c1)" "ctx_inv c1" "evolves c c1" by blast
  have u1: "in_use s c1" and t1: "settles now c1"
    using evolves_in_use [OF c1(3)] u settles_evolves [OF clock c1(3)] by simp_all
  from hserver_loop_settles [OF c1(2) u1 t1] obtain ctv c2 where c2: "hserver_loop s c1 = Some (ctv, c2)" by auto
  from hserver_loop_inv [OF c2 c1(2) u1] have "evolves c1 c2" by simp
  then have "rd_server s c2 = Some (c_pcp_servers c2 ! s)"
    using evolves_in_use [of c1 c2 s] u1 by (simp add: rd_server_def in_use_def)
  moreover have "rd_server s c = Some (c_pcp_servers c ! s)" "s_server_state (c_pcp_servers c ! s) \<noteq> pss_unitialized"
    using u by (simp_all add: rd_server_def in_use_def)
  ultimately show ?thesis
    using c1(1) c2 by (auto simp: hserver_iter_def timeval_comp_sgn split: option.split)
qed

interpretation pulse_any: server_visitor "\<lambda>s d c. ctx_inv c \<and> evolves c0 c" "\<lambda>d c. ctx_inv c \<and> evolves c0 c" hserver_iter
  for c0
proof
  fix d c s stop d' c'
  assume "ctx_inv c \<and> evolves c0 c" "in_use s c" "hserver_iter s d c = Some (stop, d', c')"
  then have "ctx_inv c' \<and> evolves c0 c' \<and> length (c_pcp_servers c') = length (c_pcp_servers c)"
    using hserver_iter_inv evolves_trans evolves_server(1) by blast
  then show "(if stop then ctx_inv c' \<and> evolves c0 c' else ctx_inv c' \<and> evolves c0 c') \<and>
      length (c_pcp_servers c') = length (c_pcp_servers c)" by simp
qed

abbreviation settling :: "pcp_ctx \<Rightarrow> timeval \<Rightarrow> hserver_iter_data \<Rightarrow> pcp_ctx \<Rightarrow> bool" where
  "settling c0 now d c \<equiv> ctx_inv c \<and> evolves c0 c \<and> settles now c \<and> hi_res_timeout d \<noteq> None"

interpretation pulse_settling: server_visitor_total "\<lambda>s. settling c0 now" "settling c0 now" hserver_iter for c0 now
proof
  fix d d' :: hserver_iter_data and c s stop c'
  assume i: "settling c0 now d c" and u: "in_use s c"
  then have t: "\<exists>d' c'. hserver_iter s d c = Some (False, d', c') \<and> (hi_res_timeout d \<noteq> None \<longrightarrow> hi_res_timeout d' \<noteq> None)"
    by (intro hserver_iter_total) auto
  then show "\<exists>stop d' c'. hserver_iter s d c = Some (stop, d', c')" by blast
  assume v: "hserver_iter s d c = Some (stop, d', c')"
  have e: "ctx_inv c'" "evolves c c'" using hserver_iter_inv [OF v] i u by simp_all
  then have "settles now c'" using settles_evolves i by blast
  then show "(if stop then settling c0 now d' c' else settling c0 now d' c') \<and>
      length (c_pcp_servers c') = length (c_pcp_servers c)"
    using e i t v evolves_trans [of c0 c c'] evolves_server(1) [OF e(2)] by auto
qed

section \<open>The pulse\<close>

text \<open>
  The contract of \<open>recvfrom\<close>: a failure is negative, a packet fits the buffer, and its source is an IPv4
  or IPv6 address.
\<close>

definition recv_ok :: "recv_result \<Rightarrow> bool" where
  "recv_ok r \<longleftrightarrow> (case r of Recv_fail e \<Rightarrow> e < 0
     | Recv_ok bs from to \<Rightarrow> length bs \<le> PCP_MAX_LEN \<and> (\<forall>fam. from \<noteq> SA_other fam))"

lemma read_msg_cases:
  "read_msg c = Some (e, c') \<Longrightarrow>
     ctx_inv c' = ctx_inv c \<and> evolves c c' \<and> rmsg_ok (c_msg c')"
  by (auto simp: read_msg_def rmsg_ok_def msg_zero_def Let_def split: recv_result.splits if_splits)

lemma read_msg_runs:
  assumes "recv_ok (w_recvfrom c (w_recvfrom_i c))"
  shows "runs (read_msg c) (\<lambda>(e, c'). e = errno_code PCP_ERR_SUCCESS \<longrightarrow> (\<forall>fam. m_rcvd_from_addr (c_msg c') \<noteq> SA_other fam))"
  using assms by (auto simp: read_msg_def recv_ok_def Let_def split: recv_result.splits)

lemma find_server_in_use:
  assumes "get_pcp_server_by_ip ip scope c = Some (Some s)"
  shows "in_use s c"
proof -
  from assms have "find (\<lambda>j. s_server_state (c_pcp_servers c ! j) \<noteq> pss_unitialized \<and> s_pcp_ip (c_pcp_servers c ! j) = ip \<and>
      s_pcp_scope_id (c_pcp_servers c ! j) = (if IN6_IS_ADDR_LINKLOCAL ip then scope else 0))
      [0..<length (c_pcp_servers c)] = Some s"
    by (simp only: get_pcp_server_by_ip_find option.inject)
  then show ?thesis by (auto simp: find_Some_iff in_use_def)
qed

lemma pulse_deliver_keeps:
  assumes "ctx_inv c"
  shows "yields (pulse_deliver ip scope c) (\<lambda>c'. ctx_inv c' \<and> evolves c c')"
proof -
  obtain sp where sp: "get_pcp_server_by_ip ip scope c = Some sp" using get_pcp_server_by_ip_find by blast
  show ?thesis
  proof (cases sp)
    case None
    then show ?thesis using sp assms by (simp add: pulse_deliver_def)
  next
    case (Some s)
    have u: "in_use s c" using find_server_in_use sp Some by blast
    let ?c = "c\<lparr>c_msg := complete_msg (c_pcp_servers c ! s) scope (c_msg c)\<rparr>"
    have c: "ctx_inv ?c" "evolves c ?c" "in_use s ?c" using assms u by (simp_all add: in_use_def)
    have "yields (hserver_iter s \<lparr>hi_res_timeout = None, hi_ev = pcpe_io_event\<rparr> ?c) (\<lambda>(stop, d, c'). ctx_inv c' \<and> evolves c c')"
      using hserver_iter_inv [OF _ c(1,3)] evolves_trans [OF c(2)] by (auto simp: yields_def)
    then show ?thesis using u sp Some by (simp add: in_use_def rd_server_def pulse_deliver_def case_prod_unfold)
  qed
qed

lemma pulse_deliver_total:
  assumes "ctx_inv c" "settles now c"
  shows "\<exists>c'. pulse_deliver ip scope c = Some c'"
proof -
  obtain sp where sp: "get_pcp_server_by_ip ip scope c = Some sp" using get_pcp_server_by_ip_find by blast
  show ?thesis
  proof (cases sp)
    case None
    then show ?thesis using sp by (simp add: pulse_deliver_def)
  next
    case (Some s)
    have u: "in_use s c" using find_server_in_use sp Some by blast
    let ?c = "c\<lparr>c_msg := complete_msg (c_pcp_servers c ! s) scope (c_msg c)\<rparr>"
    have "ctx_inv ?c" "in_use s ?c" "settles now ?c" using assms u by (simp_all add: in_use_def)
    from hserver_iter_total [OF this, of "\<lparr>hi_res_timeout = None, hi_ev = pcpe_io_event\<rparr>"] obtain d c' where
      "hserver_iter s \<lparr>hi_res_timeout = None, hi_ev = pcpe_io_event\<rparr> ?c = Some (False, d, c')" by blast
    then show ?thesis using u sp Some by (simp add: in_use_def rd_server_def pulse_deliver_def)
  qed
qed

lemma pulse_receive_keeps:
  assumes "ctx_inv c"
  shows "yields (pulse_receive c) (\<lambda>c'. ctx_inv c' \<and> evolves c c')"
proof -
  have del: "yields (pulse_deliver ip scope (c\<lparr>w_time_i := n, c_msg := m\<rparr>)) (\<lambda>c'. ctx_inv c' \<and> evolves c c')" for ip scope n m
    by (rule yields_mono [OF pulse_deliver_keeps]) (use assms in \<open>auto simp: evolves_def\<close>)
  have here: "ctx_inv (c\<lparr>w_time_i := n, c_msg := m\<rparr>) \<and> evolves c (c\<lparr>w_time_i := n, c_msg := m\<rparr>)" for n m
    using assms by simp
  show ?thesis
    unfolding pulse_receive_def time_now_def Let_def prod.case case_prod_unfold
    using del here by (simp split: sockaddr.split)
qed

lemma pulse_receive_total:
  assumes "ctx_inv c" "settles now c" "rmsg_ok (c_msg c)" "\<And>fam. m_rcvd_from_addr (c_msg c) \<noteq> SA_other fam"
  shows "\<exists>c'. pulse_receive c = Some c'"
proof -
  let ?m = "(c_msg c)\<lparr>m_received_time := w_time c (w_time_i c)\<rparr>"
  have ok: "rmsg_ok ?m" using assms(3) by (simp add: rmsg_ok_def)
  obtain v where v: "validate_pcp_msg ?m = Some v" using validate_pcp_msg_runs [OF ok] by (auto elim!: runsE)
  obtain r m where m: "parse_response ?m = Some (r, m)" "same_input ?m m" using parse_response_runs [OF ok] by (auto elim!: runsE)
  have "m_rcvd_from_addr m \<noteq> SA_other fam" for fam using m(2) assms(4) by (simp add: same_input_def)
  moreover have "\<exists>c'. pulse_deliver ip scope (c\<lparr>w_time_i := n, c_msg := m\<rparr>) = Some c'" for ip scope n m
    using pulse_deliver_total [of "c\<lparr>w_time_i := n, c_msg := m\<rparr>" now] assms(1,2) by simp
  ultimately show ?thesis
    unfolding pulse_receive_def time_now_def Let_def
    using v m(1) by (auto simp: case_prod_unfold split: sockaddr.split)
qed

lemma pcp_pulse_keeps:
  assumes "ctx_inv c" "pcp_pulse nt c = Some (r, c')"
  shows "ctx_inv c' \<and> evolves c c'"
proof -
  have "yields (pcp_pulse nt c) (\<lambda>(r, c'). ctx_inv c' \<and> evolves c c')"
    unfolding pcp_pulse_def Let_def
  proof (rule yields_bind [where P = "\<lambda>(e, c1). ctx_inv c1 \<and> evolves c c1"], unfold case_prod_unfold)
    show "yields (read_msg c) (\<lambda>p. ctx_inv (snd p) \<and> evolves c (snd p))"
      using read_msg_cases [of c] assms(1) by (auto simp: yields_def)
    fix p :: "int \<times> pcp_ctx" assume p: "ctx_inv (snd p) \<and> evolves c (snd p)"
    let ?d = "\<lparr>hi_res_timeout = Some (case nt of None \<Rightarrow> tv_zero | Some t \<Rightarrow> t), hi_ev = pcpe_timeout\<rparr>"
    have rcv: "yields (if fst p = errno_code PCP_ERR_SUCCESS then pulse_receive (snd p) else Some (snd p))
        (\<lambda>c1. ctx_inv c1 \<and> evolves c c1)"
    proof (cases "fst p = errno_code PCP_ERR_SUCCESS")
      case True
      have "yields (pulse_receive (snd p)) (\<lambda>c1. ctx_inv c1 \<and> evolves c c1)"
        by (rule yields_mono [OF pulse_receive_keeps]) (use p evolves_trans [of c "snd p"] in auto)
      then show ?thesis using True by simp
    qed (use p in simp)
    have each: "yields (pcp_db_foreach_server hserver_iter ?d c1) (\<lambda>q. ctx_inv (snd (snd q)) \<and> evolves c (snd (snd q)))"
      if "ctx_inv c1 \<and> evolves c c1" for c1
      using pulse_any.foreach_keeps [OF that] by (fastforce simp: yields_def)
    show "yields (Option.bind (if fst p = errno_code PCP_ERR_SUCCESS then pulse_receive (snd p) else Some (snd p))
        (\<lambda>c. Option.bind (pcp_db_foreach_server hserver_iter ?d c)
          (\<lambda>pa. Option.bind (hi_res_timeout (fst (snd pa)))
            (\<lambda>nt'. Some ((sint (word_of_int (tv_sec nt' * 1000 + tv_usec nt' sdiv 1000) :: u32),
              if nt = None then None else Some nt'), snd (snd pa))))))
        (\<lambda>p. ctx_inv (snd p) \<and> evolves c (snd p))"
      by (rule yields_bind [OF rcv], rule yields_bind [OF each]) (auto simp: yields_def bind_eq_Some_conv)
  qed
  from yieldsD [OF this assms(2)] show ?thesis by simp
qed

lemma pulse_returns:
  assumes inv: "ctx_inv c" and net: "recv_ok (w_recvfrom c (w_recvfrom_i c))" and clock: "settles now c"
  shows "\<exists>r c'. pcp_pulse nt c = Some (r, c') \<and> ctx_inv c' \<and> evolves c c'"
proof -
  from read_msg_runs [OF net] obtain e c1 where
    c1: "read_msg c = Some (e, c1)" "e = errno_code PCP_ERR_SUCCESS \<longrightarrow> (\<forall>fam. m_rcvd_from_addr (c_msg c1) \<noteq> SA_other fam)"
    by (auto elim!: runsE)
  have 1: "ctx_inv c1" "evolves c c1" "rmsg_ok (c_msg c1)" using read_msg_cases [OF c1(1)] inv by simp_all
  have t1: "settles now c1" using settles_evolves [OF clock 1(2)] .
  have "\<exists>c2. (if e = errno_code PCP_ERR_SUCCESS then pulse_receive c1 else Some c1) = Some c2"
    using pulse_receive_total [OF 1(1) t1 1(3)] c1(2) by auto
  then obtain c2 where c2: "(if e = errno_code PCP_ERR_SUCCESS then pulse_receive c1 else Some c1) = Some c2" by blast
  have 2: "ctx_inv c2 \<and> evolves c1 c2" using c2 pulse_receive_keeps [OF 1(1)] 1(1) by (auto simp: yields_def split: if_splits)
  then have "settles now c2" using settles_evolves [OF t1] by blast
  with pulse_settling.foreach_server_total [of c2 c1 now
      "\<lparr>hi_res_timeout = Some (case nt of None \<Rightarrow> tv_zero | Some t \<Rightarrow> t), hi_ev = pcpe_timeout\<rparr>"] 2
  obtain code d c3 where
    "pcp_db_foreach_server hserver_iter \<lparr>hi_res_timeout = Some (case nt of None \<Rightarrow> tv_zero | Some t \<Rightarrow> t),
        hi_ev = pcpe_timeout\<rparr> c2 = Some (code, d, c3)" "hi_res_timeout d \<noteq> None"
    by (fastforce elim!: runsE)
  then have "\<exists>r c'. pcp_pulse nt c = Some (r, c')"
    using c1(1) c2 by (auto simp: pcp_pulse_def simp del: errno_code.simps)
  then show ?thesis using pcp_pulse_keeps [OF inv] by blast
qed

text \<open>C5: \<open>pcp_pulse\<close> returns whenever the clock settles: whatever packet has arrived, whatever the clock shows while
  the pulse begins to run, and whatever state the servers and flows are in, the handlers that it runs bring every
  server to rest once the readings of the clock no longer change; the invariant of the context is preserved, the
  servers in use stay in use and no flow is freed.\<close>

theorem pcp_pulse_total:
  assumes "ctx_inv c" and "recv_ok (w_recvfrom c (w_recvfrom_i c))" and "\<forall>i\<ge>N. w_tod c i = now"
  shows "\<exists>r c'. pcp_pulse nt c = Some (r, c') \<and> ctx_inv c' \<and> evolves c c'"
proof -
  have "settles now c" using assms(3) by (auto simp: settles_def)
  then show ?thesis by (rule pulse_returns [OF assms(1,2)])
qed

text \<open>A context with one server, which is to be pinged as soon as there is a flow.\<close>

definition ctx_one_server :: pcp_ctx where
  "ctx_one_server = ctx_start\<lparr>c_pcp_servers :=
     (server_zero\<lparr>s_server_state := pss_ping, s_pcp_version := 2, s_af_inet6 := True,
        s_next_timeout := Timeval 1000 0\<rparr>) # replicate 4 server_zero\<rparr>"

lemma ctx_one_server_inv: "ctx_inv ctx_one_server"
proof -
  have "db_inv ctx_one_server"
    unfolding db_inv_def
    by (rule exI [of _ "replicate FLOW_HASH_SIZE []"]) (simp add: db_rep_def ctx_one_server_def ctx_start_def in_bucket_def)
  moreover have "server_inv ctx_one_server"
    by (auto simp: server_inv_def ctx_one_server_def server_zero_def nth_Cons' intro: exI [of _ 0])
  ultimately show ?thesis
    by (simp add: ctx_inv_def world_ok_def flows_ok_def ping_ok_def ctx_one_server_def ctx_start_def server_zero_def)
qed

theorem pcp_pulse_total_witness:
  "\<exists>r c'. pcp_pulse None ctx_one_server = Some (r, c') \<and> ctx_inv c' \<and> in_use 0 c'"
proof -
  have "recv_ok (w_recvfrom ctx_one_server (w_recvfrom_i ctx_one_server))" "\<forall>i\<ge>0. w_tod ctx_one_server i = Timeval 1000 0"
    by (simp_all add: recv_ok_def ctx_one_server_def ctx_start_def)
  from pcp_pulse_total [OF ctx_one_server_inv this, of None] obtain r c' where
    "pcp_pulse None ctx_one_server = Some (r, c')" "ctx_inv c'" "evolves ctx_one_server c'" by blast
  moreover have "in_use 0 ctx_one_server" by (simp add: in_use_def ctx_one_server_def server_zero_def)
  ultimately show ?thesis using evolves_in_use by blast
qed

end
