(* ===== verification/Pcp_Api.thy ===== *)
theory Pcp_Api
  imports Discovery
begin

text \<open>
  The interface of the library, \<open>pcp_api.c\<close>, with \<open>pcp_db_free_pcp_servers\<close> of \<open>pcp_client_db.c\<close>.
  A handle that a user holds is the address of the first flow of a list linked by \<open>next_child\<close>, one flow
  per server. Every function here takes the context that its \<open>ctx\<close> argument, or the flow it is given,
  refers to; the null context is treated in the functions' callers only.
\<close>

section \<open>Contexts and servers\<close>

definition pcp_add_server :: "sockaddr \<Rightarrow> u8 \<Rightarrow> pcp_ctx \<Rightarrow> int result" where
  "pcp_add_server pcp_server pcp_version c =
     (if pcp_version > PCP_MAX_SUPPORTED_VERSION then Some (errno_code PCP_ERR_UNSUP_VERSION, c)
      else psd_add_pcp_server pcp_server pcp_version c)"

text \<open>
  \<open>pcp_init\<close>: whether a context is returned, and the context. The socket is created by \<open>pcp_socket_create\<close>,
  whose outcome is the second argument; the third is the answer of \<open>getgateways\<close>. The context that was
  allocated is not freed when there is no socket for it.
\<close>

definition ctx_calloc :: "pcp_ctx \<Rightarrow> pcp_ctx" where
  "ctx_calloc w = w\<lparr>c_pcp_servers := [], c_flow_cnt := 0, c_flows := replicate FLOW_HASH_SIZE None,
     c_flow_change_cb := False, c_msg := msg_zero, c_heap := (\<lambda>_. None), c_brk := 0\<rparr>"

definition pcp_init :: "bool \<Rightarrow> bool \<Rightarrow> (in6_addr \<times> u32) list \<Rightarrow> pcp_ctx \<Rightarrow> bool result" where
  "pcp_init autodiscovery socket_created gws w =
     (let (ok, w) = alloc_next w in
      if \<not> ok then Some (False, w)
      else if \<not> socket_created then Some (False, ctx_calloc w)
      else if autodiscovery then do { c \<leftarrow> psd_add_gws gws (ctx_calloc w); Some (True, c) }
      else Some (True, ctx_calloc w))"

section \<open>Lists of children\<close>

text \<open>\<open>for (fiter = f; fiter != NULL; fiter = fiter->next_child) { g(fiter); }\<close>\<close>

partial_function (option) foreach_child ::
    "(fid \<Rightarrow> pcp_ctx \<Rightarrow> pcp_ctx option) \<Rightarrow> fid option \<Rightarrow> pcp_ctx \<Rightarrow> pcp_ctx option" where
  "foreach_child g fp c =
     (case fp of None \<Rightarrow> Some c
      | Some p \<Rightarrow> Option.bind (g p c)
          (\<lambda>c. Option.bind (rd_flow p c) (\<lambda>f. foreach_child g (f_next_child f) c)))"

section \<open>Waiting\<close>

text \<open>
  \<open>pcp_wait\<close>. The end of the wait is computed in \<open>int\<close> first: a timeout in milliseconds whose thousandfold
  is no \<open>int\<close> is a signed overflow. What \<open>select\<close> does is to let time pass and to change \<open>tout_select\<close>,
  which the next round overwrites; the oracles of the clock and of the socket give the answers for any
  duration of it. The socket's descriptor is assumed to be fit for \<open>FD_SET\<close>.
\<close>

definition wait_end :: "int \<Rightarrow> timeval \<Rightarrow> timeval option" where
  "wait_end timeout now =
     (if timeout * 1000 < - (2 ^ 31) \<or> timeout * 1000 \<ge> 2 ^ 31 then None
      else let usec = tv_usec now + (timeout * 1000) smod 1000000;
               sec = tv_sec now + usec sdiv 1000000;
               usec = usec smod 1000000
           in Some (Timeval (sec + timeout sdiv 1000) usec))"

partial_function (option) wait_loop ::
    "fid \<Rightarrow> timeval \<Rightarrow> bool \<Rightarrow> nat \<Rightarrow> pcp_ctx \<Rightarrow> pcp_fstate_e result" where
  "wait_loop p tout_end exit_on_partial_res nflow_exit_states c0 =
     (let ctv = fst (gettimeofday c0); c = snd (gettimeofday c0);
          sub = timeval_subtract tout_end ctv; tout_select = fst (snd sub) in
      if fst sub \<or> tv_sec tout_select = 0 \<and> tv_usec tout_select = 0 \<or> tv_sec tout_select < 0
      then Some (pcp_state_processing, c)
      else Option.bind (pcp_pulse (Some tout_select) c)
        (\<lambda>(_, c). Option.bind (pcp_eval_flow_state (Some p) c)
          (\<lambda>(n, ret_state).
             if n > nflow_exit_states \<and> (exit_on_partial_res \<or> ret_state \<noteq> pcp_state_partial_result)
             then Some (ret_state, c)
             else wait_loop p (fst (snd (snd sub))) exit_on_partial_res nflow_exit_states c)))"

definition pcp_wait :: "fid option \<Rightarrow> int \<Rightarrow> bool \<Rightarrow> pcp_ctx \<Rightarrow> pcp_fstate_e result" where
  "pcp_wait flow timeout exit_on_partial_res c = do {
     (nflow_exit_states, fstate) \<leftarrow> pcp_eval_flow_state flow c;
     (case flow of
        None \<Rightarrow> Some (pcp_state_failed, c)
      | Some p \<Rightarrow> do {
          let nflow_exit_states = (if fstate = pcp_state_partial_result \<or> fstate = pcp_state_processing
                                   then nflow_exit_states else 0);
          let (now, c) = gettimeofday c;
          tout_end \<leftarrow> wait_end timeout now;
          wait_loop p tout_end exit_on_partial_res nflow_exit_states c
        })
   }"

section \<open>Creating flows\<close>

text \<open>
  The \<open>default\<close> branch asserts that there is no external address; \<open>pcp_fill_in6_addr\<close> of a null pointer
  would be a crash.
\<close>

definition init_flow :: "fid \<Rightarrow> nat \<Rightarrow> u32 \<Rightarrow> sockaddr option \<Rightarrow> pcp_ctx \<Rightarrow> pcp_ctx option" where
  "init_flow p s lifetime ext_addr c = do {
     f \<leftarrow> rd_flow p c;
     c \<leftarrow> (if k_operation (f_kd f) = PCP_OPCODE_MAP \<or> k_operation (f_kd f) = PCP_OPCODE_PEER then
             case ext_addr of
               None \<Rightarrow> None
             | Some ea \<Rightarrow> upd_flow p (\<lambda>f.
                 let (ip, port, _) = pcp_fill_in6_addr (f_ext_ip f, f_ext_port f, 0) ea
                 in f\<lparr>f_ext_ip := ip, f_ext_port := port\<rparr>) c
           else if ext_addr \<noteq> None then None
           else Some c);
     let (curtime, c) = gettimeofday c;
     sv \<leftarrow> rd_server s c;
     c \<leftarrow> upd_flow p (\<lambda>f. f\<lparr>f_lifetime := lifetime, f_timeout := curtime,
            f_state := (if s_server_state sv = pss_wait_io then pfs_send else pfs_wait_for_server_init)\<rparr>) c;
     c \<leftarrow> set_next_timeout s curtime c;
     c \<leftarrow> upd_flow p (\<lambda>f. f\<lparr>f_user_data := 0\<rparr>) c;
     (_, c) \<leftarrow> pcp_db_add_flow (Some p) c;
     Some c
   }"

text \<open>A \<open>char *\<close> is the bytes before its terminating zero.\<close>

record caasi_data =
  cd_kd :: flow_key_data
  cd_fprev :: "fid option"
  cd_ffirst :: "fid option"
  cd_lifetime :: u32
  cd_ext_addr :: "sockaddr option"
  cd_toler_fields :: u8
  cd_app_name :: "u8 list option"
  cd_userdata :: nat

definition set_sadscp :: "fid \<Rightarrow> caasi_data \<Rightarrow> pcp_ctx \<Rightarrow> pcp_ctx option" where
  "set_sadscp p d c = do {
     c \<leftarrow> upd_flow p (\<lambda>f. f\<lparr>f_ext_ip := set_ext_byte 0 (cd_toler_fields d) (f_ext_ip f)\<rparr>) c;
     (case cd_app_name d of
        Some name \<Rightarrow> do {
          c \<leftarrow> upd_flow p (\<lambda>f. f\<lparr>f_ext_ip := set_ext_byte 1 (of_nat (length name)) (f_ext_ip f)\<rparr>) c;
          let (ok, c) = alloc_next c;
          upd_flow p (\<lambda>f. f\<lparr>f_sadscp_app_name := (if ok then Some name else None)\<rparr>) c
        }
      | None \<Rightarrow> do {
          c \<leftarrow> upd_flow p (\<lambda>f. f\<lparr>f_ext_ip := set_ext_byte 1 0 (f_ext_ip f)\<rparr>) c;
          upd_flow p (\<lambda>f. f\<lparr>f_sadscp_app_name := None\<rparr>) c
        })
   }"

text \<open>
  \<open>chain_and_assign_src_ip\<close> in three parts: the key of the flow for the server \<open>s\<close>, \<open>None\<close> when no flow is
  to be created for it; the new flow, \<open>None\<close> when there is no memory for it; and the function itself.
\<close>

definition caasi_key :: "flow_key_data \<Rightarrow> pcp_server \<Rightarrow> flow_key_data option" where
  "caasi_key kd sv =
     (if s_server_state sv = pss_not_working then None
      else
        let kd = (if IPV6_IS_ADDR_ANY (k_src_ip kd)
                  then kd\<lparr>k_src_ip := s_src_ip sv, k_scope_id := s_pcp_scope_id sv\<rparr> else kd)
        in if \<not> have_same_af (k_src_ip kd) (s_src_ip sv) then None
           else if k_scope_id kd \<noteq> s_pcp_scope_id sv then None
           else Some (kd\<lparr>k_pcp_server_ip := s_pcp_ip sv, k_nonce := s_nonce sv\<rparr>))"

definition caasi_flow :: "nat \<Rightarrow> caasi_data \<Rightarrow> flow_key_data \<Rightarrow> pcp_ctx \<Rightarrow> fid option result" where
  "caasi_flow s d kd c = do {
     (fp, c) \<leftarrow> pcp_create_flow s kd c;
     (case fp of
        None \<Rightarrow> Some (None, c)
      | Some p \<Rightarrow> do {
          c \<leftarrow> (if k_operation kd = PCP_OPCODE_SADSCP then set_sadscp p d c else Some c);
          c \<leftarrow> init_flow p s (cd_lifetime d) (cd_ext_addr d) c;
          c \<leftarrow> upd_flow p (\<lambda>f. f\<lparr>f_user_data := cd_userdata d\<rparr>) c;
          Some (Some p, c)
        })
   }"

definition chain_and_assign_src_ip ::
    "nat \<Rightarrow> caasi_data \<Rightarrow> pcp_ctx \<Rightarrow> (bool \<times> caasi_data \<times> pcp_ctx) option" where
  "chain_and_assign_src_ip s d c = do {
     sv \<leftarrow> rd_server s c;
     (case caasi_key (cd_kd d) sv of
        None \<Rightarrow> Some (False, d, c)
      | Some kd \<Rightarrow> do {
          (fp, c) \<leftarrow> caasi_flow s d kd c;
          (case fp of
             None \<Rightarrow> Some (True, d, c)
           | Some p \<Rightarrow>
               (case cd_fprev d of
                  Some q \<Rightarrow> do {
                    c \<leftarrow> upd_flow q (\<lambda>f. f\<lparr>f_next_child := Some p\<rparr>) c;
                    Some (False, d\<lparr>cd_fprev := Some p\<rparr>, c)
                  }
                | None \<Rightarrow> Some (False, d\<lparr>cd_ffirst := Some p, cd_fprev := Some p\<rparr>, c)))
        })
   }"

partial_function (option) delete_flow_loop :: "fid option \<Rightarrow> pcp_ctx \<Rightarrow> pcp_ctx option" where
  "delete_flow_loop fiter c =
     (case fiter of None \<Rightarrow> Some c
      | Some p \<Rightarrow> Option.bind (rd_flow p c)
          (\<lambda>f. Option.bind (pcp_delete_flow_intern p c)
            (\<lambda>(_, c). delete_flow_loop (f_next_child f) c)))"

definition pcp_delete_flow :: "fid option \<Rightarrow> pcp_ctx \<Rightarrow> pcp_ctx option" where
  "pcp_delete_flow f c = delete_flow_loop f c"

text \<open>
  \<open>pcp_new_flow\<close> in parts: the destination that counts, the key, the external address to suggest.
  \<open>None\<close> under \<open>Some\<close> is a return of the null pointer.
\<close>

fun usable_dst :: "sockaddr option \<Rightarrow> sockaddr option" where
  "usable_dst (Some (SA_in port addr)) = (if addr = 0 then None else Some (SA_in port addr))"
| "usable_dst (Some (SA_in6 port addr scope)) =
     (if IPV6_IS_ADDR_ANY addr then None else Some (SA_in6 port addr scope))"
| "usable_dst _ = None"

fun same_family :: "sockaddr \<Rightarrow> sockaddr \<Rightarrow> bool" where
  "same_family (SA_in _ _) (SA_in _ _) = True"
| "same_family (SA_in6 _ _ _) (SA_in6 _ _ _) = True"
| "same_family (SA_other a) (SA_other b) = (a = b)"
| "same_family _ _ = False"

definition peer_key :: "sockaddr \<Rightarrow> sockaddr \<Rightarrow> flow_key_data \<Rightarrow> pcp_ctx \<Rightarrow> flow_key_data option result" where
  "peer_key src dst kd c =
     (let (dst_ip, dst_port, _) = pcp_fill_in6_addr (in6_zero, 0, 0) dst;
          kd = kd\<lparr>k_map_peer := (k_map_peer kd)\<lparr>mp_dst_ip := dst_ip, mp_dst_port := dst_port\<rparr>,
                  k_operation := PCP_OPCODE_PEER\<rparr>
      in case src of
           SA_in _ _ \<Rightarrow>
             if w3 (k_src_ip kd) = 0 then
               let (from, c) = findsaddr dst c
               in Some (Some (case from of None \<Rightarrow> kd | Some ip \<Rightarrow> kd\<lparr>k_src_ip := ip\<rparr>), c)
             else Some (Some kd, c)
         | _ \<Rightarrow>
             if IPV6_IS_ADDR_ANY (k_src_ip kd) then do {
               (from, c) \<leftarrow> findsaddr6 dst c;
               Some (Some (case from of None \<Rightarrow> kd
                           | Some (ip, scope) \<Rightarrow> kd\<lparr>k_src_ip := ip,
                               k_scope_id := (case scope of None \<Rightarrow> k_scope_id kd | Some x \<Rightarrow> x)\<rparr>), c)
             }
             else if \<not> same_family dst src then Some (None, c)
             else Some (Some kd, c))"

fun default_ext :: "sockaddr \<Rightarrow> sockaddr option \<Rightarrow> sockaddr option" where
  "default_ext src (Some ea) = Some ea"
| "default_ext (SA_in _ _) None = Some (SA_in 0 0)"
| "default_ext (SA_in6 _ _ _) None = Some (SA_in6 0 in6_zero 0)"
| "default_ext (SA_other _) None = None"

definition pcp_new_flow ::
    "sockaddr option \<Rightarrow> sockaddr option \<Rightarrow> sockaddr option \<Rightarrow> u8 \<Rightarrow> u32 \<Rightarrow> nat \<Rightarrow> pcp_ctx \<Rightarrow> fid option result" where
  "pcp_new_flow src_addr dst_addr ext_addr protocol lifetime userdata c =
     (case src_addr of
        None \<Rightarrow> Some (None, c)
      | Some src \<Rightarrow> do {
          let (ip, port, scope) = pcp_fill_in6_addr (in6_zero, 0, 0) src;
          let kd = kd_zero\<lparr>k_src_ip := ip, k_scope_id := scope,
                     k_map_peer := (k_map_peer kd_zero)\<lparr>mp_src_port := port, mp_protocol := protocol\<rparr>\<rparr>;
          (kdo, c) \<leftarrow>
            (case usable_dst dst_addr of
               Some dst \<Rightarrow> peer_key src dst kd c
             | None \<Rightarrow> Some (Some (kd\<lparr>k_operation := PCP_OPCODE_MAP\<rparr>), c));
          (case (kdo, default_ext src ext_addr) of
             (Some kd, Some ext) \<Rightarrow> do {
               (r, d, c) \<leftarrow> pcp_db_foreach_server chain_and_assign_src_ip
                  \<lparr>cd_kd = kd, cd_fprev = None, cd_ffirst = None, cd_lifetime = lifetime,
                   cd_ext_addr = Some ext, cd_toler_fields = 0, cd_app_name = None,
                   cd_userdata = userdata\<rparr> c;
               if r \<noteq> PCP_ERR_MAX_SIZE then do {
                 c \<leftarrow> pcp_delete_flow (cd_ffirst d) c;
                 Some (None, c)
               }
               else Some (cd_ffirst d, c)
             }
           | _ \<Rightarrow> Some (None, c))
        })"

definition pcp_learn_dscp :: "u8 \<Rightarrow> u8 \<Rightarrow> u8 \<Rightarrow> u8 list option \<Rightarrow> pcp_ctx \<Rightarrow> fid option result" where
  "pcp_learn_dscp delay_tol loss_tol jitter_tol app_name c = do {
     (_, d, c) \<leftarrow> pcp_db_foreach_server chain_and_assign_src_ip
        \<lparr>cd_kd = kd_zero\<lparr>k_operation := PCP_OPCODE_SADSCP\<rparr>, cd_fprev = None, cd_ffirst = None,
         cd_lifetime = 0, cd_ext_addr = None,
         cd_toler_fields = push_bit 6 (delay_tol AND 3) OR push_bit 4 (loss_tol AND 3)
                           OR push_bit 2 (jitter_tol AND 3),
         cd_app_name = app_name, cd_userdata = 0\<rparr> c;
     Some (cd_ffirst d, c)
   }"

section \<open>Changing flows\<close>

text \<open>
  The setters run over the list of a handle; the body of each loop is a function of its own. A pointer
  to one of the option structures is the bytes of its array.
\<close>

definition set_lifetime :: "u32 \<Rightarrow> fid \<Rightarrow> pcp_ctx \<Rightarrow> pcp_ctx option" where
  "set_lifetime lifetime p c = do {
     c \<leftarrow> upd_flow p (\<lambda>f. f\<lparr>f_lifetime := lifetime\<rparr>) c;
     pcp_flow_updated (Some p) c
   }"

definition pcp_flow_set_lifetime :: "fid option \<Rightarrow> u32 \<Rightarrow> pcp_ctx \<Rightarrow> pcp_ctx option" where
  "pcp_flow_set_lifetime f lifetime = foreach_child (set_lifetime lifetime) f"

definition set_3rd_party_opt :: "sockaddr \<Rightarrow> fid \<Rightarrow> pcp_ctx \<Rightarrow> pcp_ctx option" where
  "set_3rd_party_opt addr p c = do {
     c \<leftarrow> upd_flow p (\<lambda>f. f\<lparr>f_third_party_option_present := True,
            f_third_party_ip := fst (pcp_fill_in6_addr (f_third_party_ip f, 0, 0) addr)\<rparr>) c;
     pcp_flow_updated (Some p) c
   }"

definition pcp_flow_set_3rd_party_opt :: "fid option \<Rightarrow> sockaddr \<Rightarrow> pcp_ctx \<Rightarrow> pcp_ctx option" where
  "pcp_flow_set_3rd_party_opt f thirdp_addr = foreach_child (set_3rd_party_opt thirdp_addr) f"

definition set_filter_opt :: "sockaddr \<Rightarrow> u8 \<Rightarrow> fid \<Rightarrow> pcp_ctx \<Rightarrow> pcp_ctx option" where
  "set_filter_opt filter_ip filter_prefix p c = do {
     c \<leftarrow> upd_flow p (\<lambda>f. if \<not> f_filter_option_present f then f\<lparr>f_filter_option_present := True\<rparr> else f) c;
     c \<leftarrow> upd_flow p (\<lambda>f.
            let (ip, port, _) = pcp_fill_in6_addr (f_filter_ip f, f_filter_port f, 0) filter_ip
            in f\<lparr>f_filter_ip := ip, f_filter_port := port, f_filter_prefix := filter_prefix\<rparr>) c;
     pcp_flow_updated (Some p) c
   }"

definition pcp_flow_set_filter_opt :: "fid option \<Rightarrow> sockaddr \<Rightarrow> u8 \<Rightarrow> pcp_ctx \<Rightarrow> pcp_ctx option" where
  "pcp_flow_set_filter_opt f filter_ip filter_prefix = foreach_child (set_filter_opt filter_ip filter_prefix) f"

definition set_prefer_failure_opt :: "fid \<Rightarrow> pcp_ctx \<Rightarrow> pcp_ctx option" where
  "set_prefer_failure_opt p c = do {
     f \<leftarrow> rd_flow p c;
     if \<not> f_pfailure_option_present f then do {
       c \<leftarrow> upd_flow p (\<lambda>f. f\<lparr>f_pfailure_option_present := True\<rparr>) c;
       pcp_flow_updated (Some p) c
     }
     else Some c
   }"

definition pcp_flow_set_prefer_failure_opt :: "fid option \<Rightarrow> pcp_ctx \<Rightarrow> pcp_ctx option" where
  "pcp_flow_set_prefer_failure_opt = foreach_child set_prefer_failure_opt"

definition set_userid :: "u8 list \<Rightarrow> fid \<Rightarrow> pcp_ctx \<Rightarrow> pcp_ctx option" where
  "set_userid user p c = do {
     bs \<leftarrow> peek 0 MAX_USER_ID user;
     c \<leftarrow> upd_flow p (\<lambda>f. f\<lparr>f_userid := bs\<rparr>) c;
     pcp_flow_updated (Some p) c
   }"

definition pcp_flow_set_userid :: "fid option \<Rightarrow> u8 list \<Rightarrow> pcp_ctx \<Rightarrow> int result" where
  "pcp_flow_set_userid f user c = do { c \<leftarrow> foreach_child (set_userid user) f c; Some (0, c) }"

definition set_location :: "u8 list \<Rightarrow> fid \<Rightarrow> pcp_ctx \<Rightarrow> pcp_ctx option" where
  "set_location loc p c = do {
     bs \<leftarrow> peek 0 MAX_GEO_STR loc;
     c \<leftarrow> upd_flow p (\<lambda>f. f\<lparr>f_location := bs\<rparr>) c;
     pcp_flow_updated (Some p) c
   }"

definition pcp_flow_set_location :: "fid option \<Rightarrow> u8 list \<Rightarrow> pcp_ctx \<Rightarrow> int result" where
  "pcp_flow_set_location f loc c = do { c \<leftarrow> foreach_child (set_location loc) f c; Some (0, c) }"

definition set_deviceid :: "u8 list \<Rightarrow> fid \<Rightarrow> pcp_ctx \<Rightarrow> pcp_ctx option" where
  "set_deviceid dev p c = do {
     bs \<leftarrow> peek 0 MAX_DEVICE_ID dev;
     c \<leftarrow> upd_flow p (\<lambda>f. f\<lparr>f_deviceid := bs\<rparr>) c;
     pcp_flow_updated (Some p) c
   }"

definition pcp_flow_set_deviceid :: "fid option \<Rightarrow> u8 list \<Rightarrow> pcp_ctx \<Rightarrow> int result" where
  "pcp_flow_set_deviceid f dev c = do { c \<leftarrow> foreach_child (set_deviceid dev) f c; Some (0, c) }"

text \<open>The identifier is narrowed from 32 to 16 bits in the call of \<open>pcp_db_add_md\<close>.\<close>

definition add_md :: "u32 \<Rightarrow> u8 list option \<Rightarrow> fid \<Rightarrow> pcp_ctx \<Rightarrow> pcp_ctx option" where
  "add_md i v p c = do {
     c \<leftarrow> pcp_db_add_md p (ucast i) v c;
     pcp_flow_updated (Some p) c
   }"

definition pcp_flow_add_md :: "fid option \<Rightarrow> u32 \<Rightarrow> u8 list option \<Rightarrow> pcp_ctx \<Rightarrow> pcp_ctx option" where
  "pcp_flow_add_md f i v = foreach_child (add_md i v) f"

definition set_flowp :: "u8 \<Rightarrow> u8 \<Rightarrow> fid \<Rightarrow> pcp_ctx \<Rightarrow> pcp_ctx option" where
  "set_flowp dscp_up dscp_down p c = do {
     let fpresent = (dscp_up \<noteq> 0 \<or> dscp_down \<noteq> 0);
     c \<leftarrow> upd_flow p (\<lambda>f. if f_flowp_option_present f \<noteq> fpresent then f\<lparr>f_flowp_option_present := fpresent\<rparr> else f) c;
     c \<leftarrow> (if fpresent then upd_flow p (\<lambda>f. f\<lparr>f_flowp_dscp_up := dscp_up, f_flowp_dscp_down := dscp_down\<rparr>) c
           else Some c);
     pcp_flow_updated (Some p) c
   }"

definition pcp_flow_set_flowp :: "fid option \<Rightarrow> u8 \<Rightarrow> u8 \<Rightarrow> pcp_ctx \<Rightarrow> pcp_ctx option" where
  "pcp_flow_set_flowp f dscp_up dscp_down = foreach_child (set_flowp dscp_up dscp_down) f"

definition set_user_data :: "nat \<Rightarrow> fid \<Rightarrow> pcp_ctx \<Rightarrow> pcp_ctx option" where
  "set_user_data userdata p c = upd_flow p (\<lambda>f. f\<lparr>f_user_data := userdata\<rparr>) c"

definition pcp_flow_set_user_data :: "fid option \<Rightarrow> nat \<Rightarrow> pcp_ctx \<Rightarrow> pcp_ctx option" where
  "pcp_flow_set_user_data f userdata = foreach_child (set_user_data userdata) f"

definition pcp_flow_get_user_data :: "fid option \<Rightarrow> pcp_ctx \<Rightarrow> nat option" where
  "pcp_flow_get_user_data fp c =
     (case fp of None \<Rightarrow> Some 0 | Some p \<Rightarrow> map_option f_user_data (rd_flow p c))"

section \<open>Closing and deleting\<close>

definition pcp_close_flow_intern :: "fid \<Rightarrow> pcp_ctx \<Rightarrow> pcp_ctx option" where
  "pcp_close_flow_intern p c = do {
     f \<leftarrow> rd_flow p c;
     c \<leftarrow> (if f_state f = pfs_wait_for_server_init \<or> f_state f = pfs_idle \<or> f_state f = pfs_failed
           then upd_flow p (\<lambda>f. f\<lparr>f_state := pfs_failed\<rparr>) c
           else do {
             c \<leftarrow> upd_flow p (\<lambda>f. f\<lparr>f_lifetime := 0\<rparr>) c;
             pcp_flow_updated (Some p) c
           });
     f \<leftarrow> rd_flow p c;
     if f_state f \<noteq> pfs_wait_for_server_init \<and> f_state f \<noteq> pfs_idle \<and> f_state f \<noteq> pfs_failed then do {
       c \<leftarrow> upd_flow p (\<lambda>f. f\<lparr>f_lifetime := 0\<rparr>) c;
       pcp_flow_updated (Some p) c
     }
     else upd_flow p (\<lambda>f. f\<lparr>f_state := pfs_failed\<rparr>) c
   }"

definition pcp_close_flow :: "fid option \<Rightarrow> pcp_ctx \<Rightarrow> pcp_ctx option" where
  "pcp_close_flow f c = do {
     c \<leftarrow> foreach_child pcp_close_flow_intern f c;
     if f \<noteq> None then map_option snd (pcp_pulse None c) else Some c
   }"

definition delete_flow_iter :: "fid \<Rightarrow> bool \<Rightarrow> pcp_ctx \<Rightarrow> (bool \<times> bool \<times> pcp_ctx) option" where
  "delete_flow_iter p close c = do {
     c \<leftarrow> (if close then do {
             c \<leftarrow> pcp_close_flow_intern p c;
             map_option snd (pcp_pulse None c)
           } else Some c);
     (_, c) \<leftarrow> pcp_delete_flow_intern p c;
     Some (False, close, c)
   }"

fun terminate_servers :: "nat list \<Rightarrow> pcp_ctx \<Rightarrow> pcp_ctx option" where
  "terminate_servers [] c = Some c"
| "terminate_servers (i # js) c = do {
     sv \<leftarrow> rd_server i c;
     c \<leftarrow> (if s_server_state sv \<noteq> pss_unitialized \<and> s_server_state sv \<noteq> pss_allocated
           then map_option snd (run_server_state_machine (Some i) pcpe_terminate c) else Some c);
     terminate_servers js c
   }"

definition pcp_db_free_pcp_servers :: "pcp_ctx \<Rightarrow> pcp_ctx option" where
  "pcp_db_free_pcp_servers c = do {
     c \<leftarrow> terminate_servers [0..<length (c_pcp_servers c)] c;
     Some (c\<lparr>c_pcp_servers := []\<rparr>)
   }"

text \<open>\<open>pcp_terminate\<close>; the socket that it closes at the end is not part of the model.\<close>

definition pcp_terminate :: "bool \<Rightarrow> pcp_ctx \<Rightarrow> pcp_ctx option" where
  "pcp_terminate close_flows c = do {
     (_, _, c) \<leftarrow> pcp_db_foreach_flow delete_flow_iter close_flows c;
     pcp_db_free_pcp_servers c
   }"

section \<open>Information on flows\<close>

record pcp_flow_info =
  i_result :: pcp_fstate_e
  i_pcp_server_ip :: in6_addr
  i_ext_ip :: in6_addr
  i_ext_port :: u16
  i_recv_lifetime_end :: int
  i_lifetime_renew_s :: int
  i_pcp_result_code :: u8
  i_int_ip :: in6_addr
  i_int_port :: u16
  i_int_scope_id :: u32
  i_dst_ip :: in6_addr
  i_dst_port :: u16
  i_protocol :: u8
  i_learned_dscp :: u8

fun info_result :: "pcp_flow_state_e \<Rightarrow> pcp_fstate_e" where
  "info_result pfs_wait_after_short_life_error = pcp_state_short_lifetime_error"
| "info_result pfs_wait_for_lifetime_renew = pcp_state_succeeded"
| "info_result pfs_failed = pcp_state_failed"
| "info_result _ = pcp_state_processing"

definition flow_info :: "pcp_flow \<Rightarrow> pcp_flow_info" where
  "flow_info f =
     (let op = k_operation (f_kd f); mp = (op = PCP_OPCODE_MAP \<or> op = PCP_OPCODE_PEER) in
      \<lparr>i_result = info_result (f_state f),
       i_pcp_server_ip = k_pcp_server_ip (f_kd f),
       i_ext_ip = (if mp then f_ext_ip f else in6_zero),
       i_ext_port = (if mp then f_ext_port f else 0),
       i_recv_lifetime_end = f_recv_lifetime f,
       i_lifetime_renew_s = uint (f_lifetime f),
       i_pcp_result_code = ucast (f_recv_result f),
       i_int_ip = k_src_ip (f_kd f),
       i_int_port = (if mp then mp_src_port (k_map_peer (f_kd f)) else 0),
       i_int_scope_id = k_scope_id (f_kd f),
       i_dst_ip = (if mp then mp_dst_ip (k_map_peer (f_kd f)) else in6_zero),
       i_dst_port = (if mp then mp_dst_port (k_map_peer (f_kd f)) else 0),
       i_protocol = (if mp then mp_protocol (k_map_peer (f_kd f)) else 0),
       i_learned_dscp = (if \<not> mp \<and> op = PCP_OPCODE_SADSCP then f_learned_dscp f else 0)\<rparr>)"

partial_function (option) info_count :: "fid option \<Rightarrow> pcp_ctx \<Rightarrow> nat option" where
  "info_count fiter c =
     (case fiter of None \<Rightarrow> Some 0
      | Some p \<Rightarrow> Option.bind (rd_flow p c)
          (\<lambda>f. Option.bind (info_count (f_next_child f) c) (\<lambda>n. Some (n + 1))))"

text \<open>The second loop stores through \<open>info_iter\<close>: an entry beyond those allocated is out of bounds.\<close>

partial_function (option) info_fill ::
    "nat \<Rightarrow> pcp_flow_info list \<Rightarrow> fid option \<Rightarrow> pcp_ctx \<Rightarrow> pcp_flow_info list option" where
  "info_fill cnt filled fiter c =
     (case fiter of None \<Rightarrow> Some filled
      | Some p \<Rightarrow> Option.bind (rd_flow p c)
          (\<lambda>f. if length filled < cnt then info_fill cnt (filled @ [flow_info f]) (f_next_child f) c else None))"

text \<open>\<open>pcp_flow_get_info\<close> for a caller that passes a place for the count: the entries, or \<open>None\<close> without memory.\<close>

definition pcp_flow_get_info :: "fid option \<Rightarrow> pcp_ctx \<Rightarrow> pcp_flow_info list option result" where
  "pcp_flow_get_info f c = do {
     cnt \<leftarrow> info_count f c;
     let (ok, c) = alloc_next c;
     if \<not> ok then Some (None, c)
     else do {
       info \<leftarrow> info_fill cnt [] f c;
       Some (Some info, c)
     }
   }"

end
