(* ===== verification/Api_Inv.thy ===== *)
theory Api_Inv
  imports Pcp_Api
begin

text \<open>
  The interface functions preserve the invariant of the context. Handles are the heads of lists of
  flows; the functions that run over such a list are treated once, in a locale.
\<close>

section \<open>Changing a flow\<close>

text \<open>
  An update of a flow that keeps its place in the table, its children and its server preserves the
  invariant.
\<close>

definition flow_place :: "pcp_flow \<Rightarrow> (fid option \<times> u32 \<times> flow_key_data) \<times> fid option \<times> u32" where
  "flow_place f = (flow_links f, f_next_child f, f_pcp_server_indx f)"

definition keeps :: "pcp_ctx \<Rightarrow> pcp_ctx \<Rightarrow> bool" where
  "keeps c c' \<longleftrightarrow> ctx_inv c' \<and> evolves c c'"

lemma keeps_refl: "ctx_inv c \<Longrightarrow> keeps c c"
  by (simp add: keeps_def)

lemma keeps_trans: "keeps a b \<Longrightarrow> keeps b c \<Longrightarrow> keeps a c"
  using evolves_trans by (auto simp: keeps_def)

lemma keeps_alloc: "keeps c c' \<Longrightarrow> c_heap c p \<noteq> None \<Longrightarrow> c_heap c' p \<noteq> None"
  by (simp add: keeps_def evolves_def)

lemma keeps_world [simp]: "keeps c c' \<Longrightarrow> keeps c (c'\<lparr>w_tod_i := Suc (w_tod_i c')\<rparr>)"
  by (simp add: keeps_def)

lemma place_heap_inv:
  assumes inv: "ctx_inv c" and f: "c_heap c p = Some f" and g: "flow_place g = flow_place f" "msg_ok g"
  shows "keeps c (c\<lparr>c_heap := (c_heap c)(p \<mapsto> g)\<rparr>)"
proof -
  let ?c = "c\<lparr>c_heap := (c_heap c)(p \<mapsto> g)\<rparr>"
  have same: "flow_links g = flow_links f" "f_next_child g = f_next_child f" "f_pcp_server_indx g = f_pcp_server_indx f"
    using g(1) by (simp_all add: flow_place_def)
  have "kids (c_heap ?c) q xs = kids (c_heap c) q xs" for q xs by (rule kids_cong) (use f same(2) in auto)
  then have "flows_ok ?c" using inv f g(2) by (auto simp: ctx_inv_def flows_ok_def)
  moreover have "ping_ok ?c" using inv f same(3) by (fastforce simp: ctx_inv_def ping_ok_def)
  moreover have "db_inv ?c" using inv f same(1) same_db_inv [of c ?c] by (auto simp: ctx_inv_def same_db_def)
  moreover have "kid_of ?c q = kid_of c q" for q using f same(2) by (simp add: kid_of_def)
  ultimately show ?thesis using inv by (simp add: keeps_def ctx_inv_def world_ok_def server_inv_def evolves_def)
qed

lemma upd_flow_keeps:
  assumes "ctx_inv c" "c_heap c p \<noteq> None" "\<And>f. flow_place (g f) = flow_place f" "\<And>f. msg_ok f \<Longrightarrow> msg_ok (g f)"
  shows "runs (upd_flow p g c) (keeps c)"
proof -
  obtain f where f: "c_heap c p = Some f" using assms(2) by blast
  with assms(1) have "msg_ok f" by (auto simp: ctx_inv_def flows_ok_def)
  with place_heap_inv [OF assms(1) f assms(3)] assms(4) f show ?thesis by (simp add: upd_flow_def)
qed

lemma upd_flow_keeps_then:
  assumes "keeps c0 c" "c_heap c p \<noteq> None" "\<And>f. flow_place (g f) = flow_place f" "\<And>f. msg_ok f \<Longrightarrow> msg_ok (g f)"
    and "\<And>c'. keeps c0 c' \<Longrightarrow> c_heap c' p \<noteq> None \<Longrightarrow> runs (k c') Q"
  shows "runs (Option.bind (upd_flow p g c) k) Q"
proof (rule runs_bind [OF upd_flow_keeps])
  fix c' assume "keeps c c'"
  then show "runs (k c') Q" using assms(1,2,5) keeps_trans keeps_alloc by blast
qed (use assms in \<open>auto simp: keeps_def\<close>)

lemmas place_defs = flow_place_def flow_links_def msg_ok_def flow_wf_def f_app_name_length_def

lemma set_next_timeout_keeps:
  "ctx_inv c \<Longrightarrow> s < length (c_pcp_servers c) \<Longrightarrow>
     runs (set_next_timeout s t c) (\<lambda>c'. keeps c c' \<and> c_heap c' = c_heap c)"
  by (rule runs_mono [OF set_next_timeout_inv]) (auto simp: keeps_def)

lemma pcp_flow_updated_keeps:
  assumes "ctx_inv c" "c_heap c p \<noteq> None"
  shows "runs (pcp_flow_updated (Some p) c) (keeps c)"
proof -
  let ?d = "c\<lparr>w_tod_i := Suc (w_tod_i c)\<rparr>" and ?now = "w_tod c (w_tod_i c)"
  obtain f where f: "rd_flow p ?d = Some f" using assms(2) by (auto simp: rd_flow_def)
  have d: "keeps c ?d" "c_heap ?d p \<noteq> None" using assms by (simp_all add: keeps_def)
  have "runs (case get_pcp_server (sint (f_pcp_server_indx f)) ?d of None \<Rightarrow> Some ?d
      | Some s \<Rightarrow> set_next_timeout s ?now ?d) (\<lambda>c'. keeps c c' \<and> c_heap c' p \<noteq> None)"
  proof (cases "get_pcp_server (sint (f_pcp_server_indx f)) ?d")
    case (Some s)
    then have "s < length (c_pcp_servers ?d)" by (simp add: get_pcp_server_Some)
    then have "runs (set_next_timeout s ?now ?d) (\<lambda>c'. keeps c c' \<and> c_heap c' p \<noteq> None)"
      using assms keeps_trans [OF d(1)] d(2) by (intro runs_mono [OF set_next_timeout_keeps]) auto
    then show ?thesis using Some by simp
  qed (use d in simp)
  then obtain e where e: "(case get_pcp_server (sint (f_pcp_server_indx f)) ?d of None \<Rightarrow> Some ?d
      | Some s \<Rightarrow> set_next_timeout s ?now ?d) = Some e" "keeps c e" "c_heap e p \<noteq> None" by (auto elim!: runsE)
  have "runs (Option.bind (upd_flow p (\<lambda>f. f\<lparr>f_pcp_msg_buffer := None, f_pcp_msg_len := 0\<rparr>) e)
      (upd_flow p (\<lambda>f. f\<lparr>f_timeout := ?now, f_state := (if f_state f \<notin> {pfs_wait_for_server_init, pfs_idle, pfs_failed}
                        then pfs_send else f_state f)\<rparr>))) (keeps c)"
    by (rule upd_flow_keeps_then [OF e(2,3)], simp add: place_defs, simp add: place_defs,
        rule runs_mono [OF upd_flow_keeps])
      (auto simp: keeps_def place_defs elim: evolves_trans split: option.splits)
  then show ?thesis
    unfolding pcp_flow_updated_def option.case gettimeofday_def Let_def prod.case f bind.simps e(1)
    by (simp add: pcp_flow_clear_msg_buf_def)
qed

section \<open>Functions that run over a handle\<close>

lemma evolves_kids:
  assumes "evolves c c'" "kids (c_heap c) p xs"
  shows "kids (c_heap c') p xs"
proof -
  have "kids (c_heap c') p xs = kids (c_heap c) p xs"
  proof (rule kids_cong, rule ballI)
    fix x assume "x \<in> set xs"
    then obtain f where f: "c_heap c x = Some f" using kids_alloc [OF assms(2)] by auto
    with assms(1) obtain f' where f': "c_heap c' x = Some f'" unfolding evolves_def by fastforce
    have "kid_of c' x = kid_of c x" using assms(1) by (simp add: evolves_def)
    with f f' show "map_option f_next_child (c_heap c' x) = map_option f_next_child (c_heap c x)"
      by (simp add: kid_of_def)
  qed
  with assms(2) show ?thesis by simp
qed

text \<open>
  The contract of the loop bodies: called with a flow that exists, in a context that is in order, they
  return and keep the context in order and the lists of children as they are.
\<close>

locale child_visitor =
  fixes visit :: "fid \<Rightarrow> pcp_ctx \<Rightarrow> pcp_ctx option"
  assumes visit_keeps: "ctx_inv c \<Longrightarrow> c_heap c p \<noteq> None \<Longrightarrow> runs (visit p c) (keeps c)"
begin

lemma foreach_child_keeps:
  "ctx_inv c \<Longrightarrow> kids (c_heap c) fp xs \<Longrightarrow> runs (foreach_child visit fp c) (keeps c)"
proof (induction xs arbitrary: fp c)
  case Nil
  then show ?case by (subst foreach_child.simps) (simp add: keeps_refl)
next
  case (Cons x xs)
  from Cons.prems obtain f where f: "fp = Some x" "c_heap c x = Some f" "kids (c_heap c) (f_next_child f) xs" by auto
  from visit_keeps [OF Cons.prems(1), of x] f(2) obtain c1 where
    c1: "visit x c = Some c1" "keeps c c1" by (auto elim!: runsE)
  have "evolves c c1" using c1(2) by (simp add: keeps_def)
  from evolves_kids [OF this Cons.prems(2)] have k1: "kids (c_heap c1) fp (x # xs)" .
  then obtain f1 where f1: "c_heap c1 x = Some f1" "kids (c_heap c1) (f_next_child f1) xs" by auto
  have "runs (foreach_child visit (f_next_child f1) c1) (keeps c)"
    using Cons.IH [OF _ f1(2)] c1(2) keeps_trans [OF c1(2)] by (auto simp: keeps_def elim!: runs_mono)
  then show ?case using f(1) c1(1) f1(1) by (subst foreach_child.simps) (simp add: rd_flow_def)
qed

end

lemma update_then_notify:
  assumes "ctx_inv c" "c_heap c p \<noteq> None" "\<And>f. flow_place (g f) = flow_place f" "\<And>f. msg_ok f \<Longrightarrow> msg_ok (g f)"
  shows "runs (Option.bind (upd_flow p g c) (pcp_flow_updated (Some p))) (keeps c)"
proof (rule upd_flow_keeps_then [OF keeps_refl [OF assms(1)] assms(2-4)])
  fix c' assume c': "keeps c c'" "c_heap c' p \<noteq> None"
  have "runs (pcp_flow_updated (Some p) c') (keeps c')" using pcp_flow_updated_keeps c' by (simp add: keeps_def)
  then show "runs (pcp_flow_updated (Some p) c') (keeps c)" by (rule runs_mono) (use keeps_trans c'(1) in blast)
qed


text \<open>The setters.\<close>

interpretation lifetime_body: child_visitor "set_lifetime lifetime" for lifetime
  by unfold_locales
    (unfold set_lifetime_def, rule update_then_notify, auto simp: place_defs split: option.splits)

interpretation third_party_body: child_visitor "set_3rd_party_opt addr" for addr
  by unfold_locales
    (unfold set_3rd_party_opt_def, rule update_then_notify, auto simp: place_defs split: option.splits)

interpretation filter_body: child_visitor "set_filter_opt addr prefix" for addr prefix
proof
  fix c p assume c: "ctx_inv c" "c_heap c p \<noteq> None"
  let ?g = "\<lambda>f. if \<not> f_filter_option_present f then f\<lparr>f_filter_option_present := True\<rparr> else f"
  let ?h = "\<lambda>f. let (ip, port, _) = pcp_fill_in6_addr (f_filter_ip f, f_filter_port f, 0) addr
            in f\<lparr>f_filter_ip := ip, f_filter_port := port, f_filter_prefix := prefix\<rparr>"
  show "runs (set_filter_opt addr prefix p c) (keeps c)"
    unfolding set_filter_opt_def
  proof (rule upd_flow_keeps_then [OF keeps_refl [OF c(1)] c(2)])
    fix c' assume c': "keeps c c'" "c_heap c' p \<noteq> None"
    then have "runs (Option.bind (upd_flow p ?h c') (pcp_flow_updated (Some p))) (keeps c')"
      by (intro update_then_notify)
        (auto simp: keeps_def place_defs case_prod_unfold Let_def split: option.splits)
    then show "runs (Option.bind (upd_flow p ?h c') (pcp_flow_updated (Some p))) (keeps c)"
      by (rule runs_mono) (use keeps_trans c'(1) in blast)
  qed (auto simp: place_defs split: option.splits)
qed

interpretation prefer_failure_body: child_visitor set_prefer_failure_opt
proof
  fix c p assume c: "ctx_inv c" "c_heap c p \<noteq> None"
  then have "runs (Option.bind (upd_flow p (\<lambda>f. f\<lparr>f_pfailure_option_present := True\<rparr>) c) (pcp_flow_updated (Some p))) (keeps c)"
    by (intro update_then_notify) (auto simp: place_defs split: option.splits)
  moreover obtain f where "rd_flow p c = Some f" using c(2) by (auto simp: rd_flow_def)
  ultimately show "runs (set_prefer_failure_opt p c) (keeps c)"
    using keeps_refl [OF c(1)] unfolding set_prefer_failure_opt_def by (simp del: runs_simps(3))
qed

lemma peek_all: "length bs = n \<Longrightarrow> peek 0 n bs = Some bs"
  by (simp add: peek_def)

lemma set_userid_keeps:
  assumes "length user = MAX_USER_ID" "ctx_inv c" "c_heap c p \<noteq> None"
  shows "runs (set_userid user p c) (keeps c)"
  unfolding set_userid_def peek_all [OF assms(1)] bind.simps
  by (rule update_then_notify [OF assms(2,3)]) (use assms(1) in \<open>auto simp: place_defs split: option.splits\<close>)

lemma set_location_keeps:
  assumes "length loc = MAX_GEO_STR" "ctx_inv c" "c_heap c p \<noteq> None"
  shows "runs (set_location loc p c) (keeps c)"
  unfolding set_location_def peek_all [OF assms(1)] bind.simps
  by (rule update_then_notify [OF assms(2,3)]) (use assms(1) in \<open>auto simp: place_defs split: option.splits\<close>)

lemma set_deviceid_keeps:
  assumes "length dev = MAX_DEVICE_ID" "ctx_inv c" "c_heap c p \<noteq> None"
  shows "runs (set_deviceid dev p c) (keeps c)"
  unfolding set_deviceid_def peek_all [OF assms(1)] bind.simps
  by (rule update_then_notify [OF assms(2,3)]) (use assms(1) in \<open>auto simp: place_defs split: option.splits\<close>)

text \<open>The option structures are arrays of fixed size; an argument is cut or filled to that size.\<close>

definition sized :: "nat \<Rightarrow> u8 list \<Rightarrow> u8 list" where
  "sized n bs = take n (bs @ replicate n 0)"

lemma sized_length [simp]: "length (sized n bs) = n"
  by (simp add: sized_def)

interpretation userid_body: child_visitor "set_userid (sized MAX_USER_ID user)" for user
  by unfold_locales (simp add: set_userid_keeps)

interpretation location_body: child_visitor "set_location (sized MAX_GEO_STR loc)" for loc
  by unfold_locales (simp add: set_location_keeps)

interpretation deviceid_body: child_visitor "set_deviceid (sized MAX_DEVICE_ID dev)" for dev
  by unfold_locales (simp add: set_deviceid_keeps)

lemma md_value_length: "length (md_value v) \<le> MD_VAL_MAX_LEN"
  by (simp add: md_value_def split: option.split)

lemma pcp_db_add_md_keeps:
  assumes "ctx_inv c" "c_heap c p \<noteq> None"
  shows "runs (pcp_db_add_md p i v c) (\<lambda>c'. keeps c c')"
proof -
  obtain f where f: "c_heap c p = Some f" "rd_flow p c = Some f" using assms(2) by (auto simp: rd_flow_def)
  let ?m = "\<lparr>md_id = i, md_val_buf = md_value v\<rparr>" and ?a = "c\<lparr>w_alloc_i := Suc (w_alloc_i c)\<rparr>"
  have a: "keeps c ?a" "ctx_inv ?a" "c_heap ?a p \<noteq> None"
    using assms by (simp_all add: keeps_def)
  have md: "flow_place (f\<lparr>f_md_vals := ms\<rparr>) = flow_place f" for f :: pcp_flow and ms by (simp add: place_defs)
  have ok: "msg_ok (f\<lparr>f_md_vals := (f_md_vals f)[j := ?m]\<rparr>)" "msg_ok (f\<lparr>f_md_vals := f_md_vals f @ [?m]\<rparr>)"
    if "msg_ok f" for f j
  proof -
    have "\<forall>m\<in>set ((f_md_vals f)[j := ?m]). length (md_val_buf m) \<le> MD_VAL_MAX_LEN"
      using that md_value_length [of v] set_update_subset_insert [of "f_md_vals f" j ?m]
      by (force simp: msg_ok_def flow_wf_def)
    then show "msg_ok (f\<lparr>f_md_vals := (f_md_vals f)[j := ?m]\<rparr>)" "msg_ok (f\<lparr>f_md_vals := f_md_vals f @ [?m]\<rparr>)"
      using that md_value_length [of v] by (auto simp: msg_ok_def flow_wf_def f_app_name_length_def split: option.splits)
  qed
  have 1: "runs (upd_flow p (\<lambda>f. f\<lparr>f_md_vals := (f_md_vals f)[j := ?m]\<rparr>) c) (keeps c)" for j
    by (rule upd_flow_keeps [OF assms md ok(1)])
  have 2: "runs (upd_flow p (\<lambda>f. f\<lparr>f_md_vals := f_md_vals f @ [?m]\<rparr>) ?a) (keeps c)"
    by (rule runs_mono [OF upd_flow_keeps [OF a(2,3) md ok(2)]]) (use keeps_trans [OF a(1)] in auto)
  show ?thesis
    unfolding pcp_db_add_md_def f(2) bind.simps Let_def alloc_next_def prod.case
    using 1 2 a(1) by (simp split: option.split)
qed

interpretation md_body: child_visitor "add_md i v" for i v
proof
  fix c p assume c: "ctx_inv c" "c_heap c p \<noteq> None"
  show "runs (add_md i v p c) (keeps c)"
    unfolding add_md_def
  proof (rule runs_bind [OF pcp_db_add_md_keeps [OF c]])
    fix c' assume c': "keeps c c'"
    have "runs (pcp_flow_updated (Some p) c') (keeps c')"
      using pcp_flow_updated_keeps keeps_alloc [OF c' c(2)] c' by (simp add: keeps_def)
    then show "runs (pcp_flow_updated (Some p) c') (keeps c)" by (rule runs_mono) (use keeps_trans c' in blast)
  qed
qed

interpretation flowp_body: child_visitor "set_flowp up down" for up down
proof
  fix c p assume c: "ctx_inv c" "c_heap c p \<noteq> None"
  let ?b = "up \<noteq> 0 \<or> down \<noteq> 0"
  show "runs (set_flowp up down p c) (keeps c)"
    unfolding set_flowp_def Let_def
  proof (rule upd_flow_keeps_then [OF keeps_refl [OF c(1)] c(2)])
    fix c1 assume c1: "keeps c c1" "c_heap c1 p \<noteq> None"
    have upd: "runs (pcp_flow_updated (Some p) d) (keeps c)" if "keeps c d" "c_heap d p \<noteq> None" for d
      by (rule runs_mono [OF pcp_flow_updated_keeps]) (use that keeps_trans [OF that(1)] in \<open>auto simp: keeps_def\<close>)
    have "runs (Option.bind (upd_flow p (\<lambda>f. f\<lparr>f_flowp_dscp_up := up, f_flowp_dscp_down := down\<rparr>) c1)
        (pcp_flow_updated (Some p))) (keeps c)"
      by (rule upd_flow_keeps_then [OF c1]) (use upd in \<open>auto simp: place_defs split: option.splits\<close>)
    with upd [OF c1] show "runs (Option.bind (if ?b then upd_flow p (\<lambda>f. f\<lparr>f_flowp_dscp_up := up, f_flowp_dscp_down := down\<rparr>) c1
           else Some c1) (pcp_flow_updated (Some p))) (keeps c)" by (cases ?b) (simp_all del: runs_simps(3))
  qed (auto simp: place_defs split: option.splits)
qed

interpretation user_data_body: child_visitor "set_user_data u" for u
  by unfold_locales (unfold set_user_data_def, rule upd_flow_keeps, auto simp: place_defs split: option.splits)

interpretation close_body: child_visitor pcp_close_flow_intern
proof
  fix c p assume c: "ctx_inv c" "c_heap c p \<noteq> None"
  have zero: "runs (Option.bind (upd_flow p (\<lambda>f. f\<lparr>f_lifetime := 0\<rparr>) d) (pcp_flow_updated (Some p))) (keeps d)"
    and fail: "runs (upd_flow p (\<lambda>f. f\<lparr>f_state := pfs_failed\<rparr>) d) (keeps d)"
    if "ctx_inv d" "c_heap d p \<noteq> None" for d
    using that by (intro update_then_notify upd_flow_keeps; auto simp: place_defs split: option.splits)+
  obtain f where f: "rd_flow p c = Some f" using c(2) by (auto simp: rd_flow_def)
  let ?b = "\<lambda>f. f_state f = pfs_wait_for_server_init \<or> f_state f = pfs_idle \<or> f_state f = pfs_failed"
  have first: "runs (if ?b f then upd_flow p (\<lambda>f. f\<lparr>f_state := pfs_failed\<rparr>) c
     else Option.bind (upd_flow p (\<lambda>f. f\<lparr>f_lifetime := 0\<rparr>) c) (pcp_flow_updated (Some p))) (keeps c)"
    using zero [OF c] fail [OF c] by (simp del: runs_simps(3))
  show "runs (pcp_close_flow_intern p c) (keeps c)"
    unfolding pcp_close_flow_intern_def f bind.simps
  proof (rule runs_bind [OF first])
    fix d assume d: "keeps c d"
    then have d': "ctx_inv d" "c_heap d p \<noteq> None" using keeps_alloc c(2) by (auto simp: keeps_def)
    then obtain g where g: "rd_flow p d = Some g" by (auto simp: rd_flow_def)
    have "runs m (keeps c)" if "runs m (keeps d)" for m by (rule runs_mono [OF that]) (use keeps_trans d in blast)
    from this [OF zero [OF d']] this [OF fail [OF d']]
    show "runs (Option.bind (rd_flow p d) (\<lambda>f. if f_state f \<noteq> pfs_wait_for_server_init \<and> f_state f \<noteq> pfs_idle \<and> f_state f \<noteq> pfs_failed
       then Option.bind (upd_flow p (\<lambda>f. f\<lparr>f_lifetime := 0\<rparr>) d) (pcp_flow_updated (Some p))
       else upd_flow p (\<lambda>f. f\<lparr>f_state := pfs_failed\<rparr>) d)) (keeps c)"
      unfolding g bind.simps by (simp del: runs_simps(3))
  qed
qed

section \<open>The invariant of the interface\<close>

text \<open>
  Between two calls of the interface, beyond the invariant of the context: entries of the server array
  that are not in use have no ping flow, every flow is the child of at most one flow, and there are
  fewer servers than an \<open>int\<close> can count. A handle is a flow that is no child.
\<close>

definition spare_ok :: "pcp_ctx \<Rightarrow> bool" where
  "spare_ok c \<longleftrightarrow> (\<forall>v\<in>set (c_pcp_servers c). spare_ping v = None)"

definition kids_inj :: "pcp_ctx \<Rightarrow> bool" where
  "kids_inj c \<longleftrightarrow> (\<forall>p q r. kid_of c p = Some r \<longrightarrow> kid_of c q = Some r \<longrightarrow> p = q)"

definition api_inv :: "pcp_ctx \<Rightarrow> bool" where
  "api_inv c \<longleftrightarrow> ctx_inv c \<and> spare_ok c \<and> kids_inj c \<and> length (c_pcp_servers c) < 2 ^ 31"

definition handle :: "pcp_ctx \<Rightarrow> fid \<Rightarrow> bool" where
  "handle c p \<longleftrightarrow> c_heap c p \<noteq> None \<and> (\<forall>q. kid_of c q \<noteq> Some p)"

lemma evolves_spare:
  assumes "evolves c c'" shows "spare_ok c' = spare_ok c"
proof -
  have "map (snd \<circ> snd) (map server_use (c_pcp_servers c')) = map (snd \<circ> snd) (map server_use (c_pcp_servers c))"
    using assms by (simp add: evolves_def)
  then have "map spare_ping (c_pcp_servers c') = map spare_ping (c_pcp_servers c)"
    by (simp add: server_use_def comp_def)
  then have "set (map spare_ping (c_pcp_servers c')) = set (map spare_ping (c_pcp_servers c))" by simp
  moreover have "spare_ok d \<longleftrightarrow> set (map spare_ping (c_pcp_servers d)) \<subseteq> {None}" for d by (auto simp: spare_ok_def)
  ultimately show ?thesis by simp
qed

lemma keeps_api:
  assumes "api_inv c" "keeps c c'"
  shows "api_inv c'"
proof -
  have "kid_of c' = kid_of c" using assms(2) by (auto simp: keeps_def evolves_def)
  then have "kids_inj c'" using assms(1) by (simp add: api_inv_def kids_inj_def)
  with assms evolves_spare [of c c'] evolves_server(1) [of c c'] show ?thesis by (simp add: api_inv_def keeps_def)
qed

lemma keeps_handle:
  assumes "keeps c c'" "handle c p" shows "handle c' p"
  using assms keeps_alloc [OF assms(1)] by (auto simp: keeps_def evolves_def handle_def)

lemma handle_kids:
  assumes "api_inv c" "handle c p"
  obtains xs where "kids (c_heap c) (Some p) xs"
  using assms unfolding api_inv_def ctx_inv_def flows_ok_def handle_def by blast

section \<open>Deleting the flows of a handle\<close>

lemma kids_parent:
  "kids (c_heap c) (Some q) xs \<Longrightarrow> p \<in> set xs \<Longrightarrow> p \<noteq> q \<Longrightarrow> \<exists>r. kid_of c r = Some p"
proof (induction xs arbitrary: q)
  case (Cons x xs)
  then obtain f where f: "c_heap c q = Some f" "kids (c_heap c) (f_next_child f) xs" "p \<in> set xs" by auto
  then obtain y where y: "f_next_child f = Some y" by (cases xs) auto
  show ?case
  proof (cases "p = y")
    case True
    then have "kid_of c q = Some p" using f(1) y by (simp add: kid_of_def)
    then show ?thesis ..
  next
    case False
    then show ?thesis using Cons.IH [of y] f(2,3) y by simp
  qed
qed simp

lemma kids_unique: "kids h p xs \<Longrightarrow> kids h p ys \<Longrightarrow> xs = ys"
proof (induction xs arbitrary: p ys)
  case Nil
  then show ?case by (cases ys) auto
next
  case (Cons x xs)
  then show ?case by (cases ys) auto
qed

lemma kids_suffix: "kids h p (xs @ x # ys) \<Longrightarrow> kids h (Some x) (x # ys)"
proof (induction xs arbitrary: p)
  case (Cons z zs)
  then show ?case by auto
qed auto

lemma kids_distinct:
  assumes "kids h p xs" shows "distinct xs"
proof (rule ccontr)
  assume "\<not> distinct xs"
  then obtain as bs cs x where xs: "xs = as @ [x] @ bs @ [x] @ cs" using not_distinct_decomp by blast
  then have "kids h (Some x) (x # bs @ x # cs)" "kids h (Some x) (x # cs)"
    using assms kids_suffix [of h p as x "bs @ x # cs"] kids_suffix [of h p "as @ x # bs" x cs] by simp_all
  then have "x # bs @ x # cs = x # cs" by (rule kids_unique)
  then show False by simp
qed

text \<open>
  The server of a flow is found under its index, so that the ping flow of no server is the deleted flow.
\<close>

lemma unping_nth:
  "i < length (c_pcp_servers c) \<Longrightarrow> unping p f c ! i =
     (if get_pcp_server (sint (f_pcp_server_indx f)) c = Some i \<and> s_ping_flow_msg (c_pcp_servers c ! i) = Some p
      then (c_pcp_servers c ! i)\<lparr>s_ping_flow_msg := None\<rparr> else c_pcp_servers c ! i)"
  by (cases "get_pcp_server (sint (f_pcp_server_indx f)) c"; cases "get_pcp_server (sint (f_pcp_server_indx f)) c = Some i")
    (auto simp: unping_def Let_def)

lemma unping_length [simp]: "length (unping p f c) = length (c_pcp_servers c)"
  by (simp add: unping_def split: option.split)

lemma unping_ping_ok:
  assumes inv: "api_inv c" and f: "c_heap c p = Some f" and v: "v \<in> set (unping p f c)" "s_ping_flow_msg v = Some q"
  shows "q \<noteq> p \<and> (\<exists>g. c_heap c q = Some g \<and> f_pcp_server_indx g = s_index v)"
proof -
  have ping: "\<exists>g. c_heap c q = Some g \<and> f_pcp_server_indx g = s_index w"
    if "w \<in> set (c_pcp_servers c)" "s_ping_flow_msg w = Some q" for w q
    using inv that by (auto simp: api_inv_def ctx_inv_def ping_ok_def)
  obtain i where i: "i < length (c_pcp_servers c)" "v = unping p f c ! i"
    using v(1) by (auto simp: in_set_conv_nth)
  let ?w = "c_pcp_servers c ! i"
  have w: "s_ping_flow_msg ?w = Some q" "s_index v = s_index ?w"
    using v(2) i by (auto simp: unping_nth split: if_splits)
  have use: "in_use i c"
    using w(1) inv i(1) nth_mem [OF i(1)] unfolding api_inv_def spare_ok_def in_use_def spare_ping_def by fastforce
  have "q \<noteq> p"
  proof
    assume "q = p"
    with ping [of ?w p] w(1) i(1) f have "f_pcp_server_indx f = s_index ?w" by auto
    moreover have "s_index ?w = of_nat i" using inv use by (simp add: api_inv_def ctx_inv_def server_inv_def in_use_def)
    moreover have "sint (of_nat i :: u32) = int i"
      using inv i(1) by (simp add: api_inv_def signed_of_nat signed_take_bit_int_eq_self)
    ultimately have "get_pcp_server (sint (f_pcp_server_indx f)) c = Some i"
      using use by (simp add: get_pcp_server_Some in_use_def)
    then show False using v(2) i w(1) \<open>q = p\<close> by (simp add: unping_nth)
  qed
  then show ?thesis using ping [of ?w q] w i(1) by auto
qed


text \<open>Deleting a flow that is no child.\<close>

lemma delete_handle:
  assumes inv: "api_inv c" and h: "handle c p"
  shows "runs (pcp_delete_flow_intern p c) (\<lambda>(r, c'). api_inv c' \<and> c_heap c' p = None \<and>
    db_flows c' = db_flows c - {p} \<and> db_alloc c' = db_alloc c - {p} \<and>
    (\<forall>q. kid_of c' q = (if q = p then None else kid_of c q)) \<and> w_tod c' = w_tod c)"
proof -
  obtain f where f: "c_heap c p = Some f" using h by (auto simp: handle_def)
  have "db_inv c" using inv by (simp add: api_inv_def ctx_inv_def)
  from delete_flow_effect [OF this f] obtain c' where
    c': "pcp_delete_flow_intern p c = Some (PCP_ERR_SUCCESS, c')" "db_inv c'" "db_flows c' = db_flows c - {p}"
      "flow_removed p f c c'" by (auto elim!: runsE)
  from c'(4) obtain c1 where c1: "same_payload c c1" "c_heap c' = (c_heap c1)(p := None)"
    and sv: "c_pcp_servers c' = unping p f c" and w: "w_tod c' = w_tod c" "w_sendto c' = w_sendto c"
    by (auto simp: flow_removed_def)
  have fld: "map_option sel (c_heap c' q) = map_option sel (c_heap c q)"
    if "q \<noteq> p" "\<And>f n k. sel (f\<lparr>f_next := n, f_key_bucket := k\<rparr>) = sel f" for q and sel :: "pcp_flow \<Rightarrow> 'x"
    using same_payload_field [OF c1(1), of sel q] c1(2) that by simp
  have kid: "kid_of c' q = (if q = p then None else kid_of c q)" for q
  proof (cases "q = p")
    case False
    have "map_option f_next_child (c_heap c' q) = map_option f_next_child (c_heap c q)" by (rule fld [OF False]) simp
    then show ?thesis using False by (cases "c_heap c q"; cases "c_heap c' q") (auto simp: kid_of_def)
  qed (simp add: kid_of_def c1(2))
  have flow: "\<exists>g. c_heap c q = Some g \<and> msg_ok g = msg_ok g' \<and> f_pcp_server_indx g = f_pcp_server_indx g' \<and> q \<noteq> p"
    if g': "c_heap c' q = Some g'" for q g'
  proof -
    have q: "q \<noteq> p" using g' c1(2) by auto
    have "map_option msg_ok (c_heap c' q) = map_option msg_ok (c_heap c q)"
      by (rule fld [OF q]) (simp add: msg_ok_def flow_wf_def f_app_name_length_def split: option.split)
    moreover have "map_option f_pcp_server_indx (c_heap c' q) = map_option f_pcp_server_indx (c_heap c q)"
      by (rule fld [OF q]) simp
    ultimately show ?thesis using g' q by (cases "c_heap c q") auto
  qed
  have "flows_ok c'"
    unfolding flows_ok_def
  proof (intro allI impI)
    fix q g' assume g': "c_heap c' q = Some g'"
    from flow [OF g'] obtain g where g: "c_heap c q = Some g" "msg_ok g = msg_ok g'" "q \<noteq> p" by blast
    with inv obtain xs where xs: "msg_ok g" "kids (c_heap c) (Some q) xs"
      unfolding api_inv_def ctx_inv_def flows_ok_def by blast
    have "p \<notin> set xs" using kids_parent [OF xs(2), of p] g(3) h by (auto simp: handle_def)
    have "kids (c_heap c') (Some q) xs = kids (c_heap c) (Some q) xs"
    proof (rule kids_cong, rule ballI)
      fix x assume "x \<in> set xs"
      then have "x \<noteq> p" using \<open>p \<notin> set xs\<close> by auto
      then show "map_option f_next_child (c_heap c' x) = map_option f_next_child (c_heap c x)" by (rule fld) simp
    qed
    with xs g(2) show "msg_ok g' \<and> (\<exists>xs. kids (c_heap c') (Some q) xs)" by auto
  qed
  moreover have "ping_ok c'"
    unfolding ping_ok_def sv
  proof (intro ballI allI impI)
    fix v q assume "v \<in> set (unping p f c)" "s_ping_flow_msg v = Some q"
    from unping_ping_ok [OF inv f this] obtain g where
      g: "q \<noteq> p" "c_heap c q = Some g" "f_pcp_server_indx g = s_index v" by blast
    have "map_option f_pcp_server_indx (c_heap c' q) = map_option f_pcp_server_indx (c_heap c q)"
      by (rule fld [OF g(1)]) simp
    with g show "\<exists>f. c_heap c' q = Some f \<and> f_pcp_server_indx f = s_index v" by auto
  qed
  moreover have un: "s_index (unping p f c ! i) = s_index (c_pcp_servers c ! i)"
      "s_server_state (unping p f c ! i) = s_server_state (c_pcp_servers c ! i)"
      "spare_ping (unping p f c ! i) = None"
    if "i < length (c_pcp_servers c)" for i
  proof -
    have "spare_ping (c_pcp_servers c ! i) = None" using inv nth_mem [OF that] by (auto simp: api_inv_def spare_ok_def)
    then show "s_index (unping p f c ! i) = s_index (c_pcp_servers c ! i)"
      "s_server_state (unping p f c ! i) = s_server_state (c_pcp_servers c ! i)" "spare_ping (unping p f c ! i) = None"
      by (simp_all add: unping_nth [OF that]) (simp add: spare_ping_def)
  qed
  then have "server_inv c'" "spare_ok c'"
    using inv by (auto simp: api_inv_def ctx_inv_def server_inv_def spare_ok_def sv in_set_conv_nth)
  moreover have "kids_inj c'" using inv kid by (auto simp: api_inv_def kids_inj_def split: if_splits)
  moreover have "world_ok c'" using inv w by (simp add: api_inv_def ctx_inv_def world_ok_def)
  ultimately have "api_inv c'" using inv c'(2) sv by (simp add: api_inv_def ctx_inv_def)
  then show ?thesis using c' kid w flow_removed_alloc(1) [OF c'(4)] c1(2) by simp
qed

lemma delete_flow_loop_runs:
  assumes "api_inv c" "kids (c_heap c) fp xs" "\<And>p. fp = Some p \<Longrightarrow> handle c p"
  shows "runs (delete_flow_loop fp c) (\<lambda>c'. api_inv c' \<and> db_flows c' = db_flows c - set xs \<and>
    db_alloc c' = db_alloc c - set xs \<and> (\<forall>q. q \<notin> set xs \<longrightarrow> kid_of c' q = kid_of c q) \<and> w_tod c' = w_tod c)"
  using assms
proof (induction xs arbitrary: fp c)
  case Nil
  then show ?case by (subst delete_flow_loop.simps) simp
next
  case (Cons x xs)
  then obtain f where f: "fp = Some x" "c_heap c x = Some f" "kids (c_heap c) (f_next_child f) xs" by auto
  have h: "handle c x" using Cons.prems(3) f(1) by simp
  have nx: "x \<notin> set xs" using kids_distinct [OF Cons.prems(2)] by simp
  from delete_handle [OF Cons.prems(1) h] obtain r c1 where
    c1: "pcp_delete_flow_intern x c = Some (r, c1)" "api_inv c1" "c_heap c1 x = None" "db_flows c1 = db_flows c - {x}"
      "db_alloc c1 = db_alloc c - {x}" "\<And>q. kid_of c1 q = (if q = x then None else kid_of c q)" "w_tod c1 = w_tod c"
    by (auto elim!: runsE)
  have al: "c_heap c1 q \<noteq> None \<longleftrightarrow> c_heap c q \<noteq> None \<and> q \<noteq> x" for q
    using c1(5) by (auto simp: db_alloc_def dom_def set_eq_iff)
  have "kids (c_heap c1) (f_next_child f) xs = kids (c_heap c) (f_next_child f) xs"
  proof (rule kids_cong, rule ballI)
    fix y assume y: "y \<in> set xs"
    then have "c_heap c y \<noteq> None" "y \<noteq> x" using kids_alloc [OF f(3)] nx by auto
    then obtain g g1 where "c_heap c y = Some g" "c_heap c1 y = Some g1" using al [of y] by auto
    then show "map_option f_next_child (c_heap c1 y) = map_option f_next_child (c_heap c y)"
      using c1(6) [of y] \<open>y \<noteq> x\<close> by (simp add: kid_of_def)
  qed
  then have k1: "kids (c_heap c1) (f_next_child f) xs" using f(3) by simp
  have "handle c1 y" if "f_next_child f = Some y" for y
  proof -
    have "c_heap c y \<noteq> None" "y \<noteq> x" using that f(3) nx by (cases xs; auto)+
    moreover have "kid_of c q \<noteq> Some y" if "q \<noteq> x" for q
    proof
      assume "kid_of c q = Some y"
      moreover have "kid_of c x = Some y" using f(2) \<open>f_next_child f = Some y\<close> by (simp add: kid_of_def)
      ultimately show False using Cons.prems(1) that by (auto simp: api_inv_def kids_inj_def)
    qed
    ultimately show ?thesis using al [of y] c1(6) by (simp add: handle_def)
  qed
  from Cons.IH [OF c1(2) k1 this] have "runs (delete_flow_loop (f_next_child f) c1)
     (\<lambda>c'. api_inv c' \<and> db_flows c' = db_flows c - set (x # xs) \<and> db_alloc c' = db_alloc c - set (x # xs) \<and>
       (\<forall>q. q \<notin> set (x # xs) \<longrightarrow> kid_of c' q = kid_of c q) \<and> w_tod c' = w_tod c)"
    by (rule runs_mono) (use c1(4-7) in auto)
  then show ?case using f(1,2) c1(1) by (subst delete_flow_loop.simps) (simp add: rd_flow_def)
qed

end
