(* ===== verification/Flow_Create.thy ===== *)
theory Flow_Create
  imports Api_Inv
begin

text \<open>
  The creation of the flows of a handle: \<open>pcp_new_flow\<close> and \<open>pcp_learn_dscp\<close> create one flow for every
  server that fits, in the order of the server array, and nothing when memory runs out.
\<close>

section \<open>Steps that only touch the contents of flows\<close>

definition server_face :: "pcp_server \<Rightarrow> pcp_server" where
  "server_face v = v\<lparr>s_next_timeout := tv_zero\<rparr>"

definition quiet :: "pcp_ctx \<Rightarrow> pcp_ctx \<Rightarrow> bool" where
  "quiet c c' \<longleftrightarrow> keeps c c' \<and> (\<forall>q. map_option flow_place (c_heap c' q) = map_option flow_place (c_heap c q)) \<and>
     map server_face (c_pcp_servers c') = map server_face (c_pcp_servers c) \<and> w_alloc c' = w_alloc c"

lemma quiet_refl: "ctx_inv c \<Longrightarrow> quiet c c"
  by (simp add: quiet_def keeps_refl)

lemma quiet_trans: "quiet a b \<Longrightarrow> quiet b c \<Longrightarrow> quiet a c"
  using keeps_trans [of a b c] by (simp add: quiet_def)

lemma quiet_heap:
  assumes "quiet c c'" "c_heap c p = Some f"
  obtains f' where "c_heap c' p = Some f'" "flow_place f' = flow_place f"
proof -
  have "map_option flow_place (c_heap c' p) = map_option flow_place (c_heap c p)" using assms(1) by (simp add: quiet_def)
  with assms(2) that show ?thesis by (cases "c_heap c' p") auto
qed

lemma quiet_table:
  assumes "quiet c c'"
  shows "db_alloc c' = db_alloc c" "db_flows c' = db_flows c" "q \<in> db_alloc c \<Longrightarrow> db_key c' q = db_key c q"
    "kid_of c' q = kid_of c q"
proof -
  have pl: "map_option flow_place (c_heap c' q) = map_option flow_place (c_heap c q)" for q using assms by (simp add: quiet_def)
  then have cs: "(c_heap c q = None \<and> c_heap c' q = None) \<or>
      (\<exists>f f'. c_heap c q = Some f \<and> c_heap c' q = Some f' \<and> flow_place f' = flow_place f)" for q
    using pl [of q] by (cases "c_heap c q"; cases "c_heap c' q") auto
  have "c_heap c' q \<noteq> None \<longleftrightarrow> c_heap c q \<noteq> None" for q using cs [of q] by auto
  then show "db_alloc c' = db_alloc c" by (auto simp: db_alloc_def dom_def set_eq_iff)
  have "(\<exists>f. c_heap c' q = Some f \<and> f_key_bucket f \<noteq> EMPTY) \<longleftrightarrow> (\<exists>f. c_heap c q = Some f \<and> f_key_bucket f \<noteq> EMPTY)" for q
    using cs [of q] by (auto simp: flow_place_def flow_links_def)
  then show "db_flows c' = db_flows c" by (simp add: db_flows_def)
  show "q \<in> db_alloc c \<Longrightarrow> db_key c' q = db_key c q"
    using cs [of q] by (auto simp: db_alloc_def db_key_def flow_place_def flow_links_def)
  show "kid_of c' q = kid_of c q" using cs [of q] by (auto simp: kid_of_def flow_place_def)
qed

lemma quiet_put:
  assumes "ctx_inv c" "c_heap c p = Some f" "flow_place g = flow_place f" "msg_ok g"
  shows "quiet c (c\<lparr>c_heap := (c_heap c)(p \<mapsto> g)\<rparr>)"
  using place_heap_inv [OF assms] assms(2,3) by (simp add: quiet_def)

lemma quiet_world [simp]:
  "quiet c d \<Longrightarrow> quiet c (d\<lparr>w_tod_i := Suc (w_tod_i d)\<rparr>)" "quiet c (d\<lparr>w_alloc_i := n\<rparr>) = quiet c d"
  by (simp_all add: quiet_def keeps_def)

lemma quiet_inv: "quiet c c' \<Longrightarrow> ctx_inv c'"
  by (simp add: quiet_def keeps_def)

text \<open>Rules for sequences; \<open>p\<close> is the flow that is being set up.\<close>

lemma upd_flow_quiet_then:
  assumes "quiet c0 c" "c_heap c p = Some f" "flow_place (g f) = flow_place f" "msg_ok f \<Longrightarrow> msg_ok (g f)"
    and "\<And>c'. quiet c0 c' \<Longrightarrow> c_heap c' p = Some (g f) \<Longrightarrow> runs (k c') Q"
  shows "runs (Option.bind (upd_flow p g c) k) Q"
proof -
  have inv: "ctx_inv c" using assms(1) by (rule quiet_inv)
  then have "msg_ok f" using assms(2) by (auto simp: ctx_inv_def flows_ok_def)
  with quiet_put [OF inv assms(2,3)] assms(4) have "quiet c (c\<lparr>c_heap := (c_heap c)(p \<mapsto> g f)\<rparr>)" by simp
  with assms(5) quiet_trans [OF assms(1)] have "runs (k (c\<lparr>c_heap := (c_heap c)(p \<mapsto> g f)\<rparr>)) Q" by simp
  then show ?thesis using assms(2) by (simp add: upd_flow_def)
qed

lemma set_next_timeout_quiet_then:
  assumes "quiet c0 c" "s < length (c_pcp_servers c)"
    and "\<And>c'. quiet c0 c' \<Longrightarrow> c_heap c' = c_heap c \<Longrightarrow> runs (k c') Q"
  shows "runs (Option.bind (set_next_timeout s t c) k) Q"
proof -
  let ?c = "c\<lparr>c_pcp_servers := (c_pcp_servers c)[s := (c_pcp_servers c ! s)\<lparr>s_next_timeout := t\<rparr>]\<rparr>"
  have upd: "set_next_timeout s t c = Some ?c" using assms(2) by (simp add: upd_server_def)
  from set_next_timeout_inv [OF quiet_inv [OF assms(1)] assms(2), of t] have "keeps c ?c"
    unfolding upd by (simp add: keeps_def)
  moreover have "map server_face (c_pcp_servers ?c) = map server_face (c_pcp_servers c)"
    using assms(2) by (simp add: map_update list_update_same_conv server_face_def)
  ultimately have "quiet c ?c" by (simp add: quiet_def)
  with assms(3) [of ?c] quiet_trans [OF assms(1)] upd show ?thesis by simp
qed

lemma quiet_servers: "quiet c c' \<Longrightarrow> length (c_pcp_servers c') = length (c_pcp_servers c)"
  unfolding quiet_def by (metis map_eq_imp_length_eq)

section \<open>Setting up a flow\<close>

lemma set_ext_byte_length [simp]:
  "f_app_name_length (f\<lparr>f_ext_ip := set_ext_byte 1 b a\<rparr>) = b"
proof -
  have "ucast (drop_bit 8 (u32_of ((u32_bytes w)[1 := b]))) = b" for w :: u32
  proof -
    have "u32_bytes (u32_of ((u32_bytes w)[1 := b])) = (u32_bytes w)[1 := b]"
      by (rule u32c.enc_dec) simp
    then show ?thesis by (simp add: u32_bytes_def)
  qed
  then show ?thesis by (simp add: f_app_name_length_def set_ext_byte_def)
qed

lemma unat_of_nat_le: "unat (of_nat n :: 'a :: len word) \<le> n"
  by (simp add: unat_of_nat)

lemma set_sadscp_then:
  assumes "quiet c0 c" "c_heap c p = Some f" "f_sadscp_app_name f = None" "k_operation (f_kd f) = PCP_OPCODE_SADSCP"
    and k: "\<And>c' f'. quiet c0 c' \<Longrightarrow> c_heap c' p = Some f' \<Longrightarrow> flow_place f' = flow_place f \<Longrightarrow> runs (k c') Q"
  shows "runs (Option.bind (set_sadscp p d c) k) Q"
proof -
  have none: "msg_ok (g\<lparr>f_ext_ip := a\<rparr>) = msg_ok g" if "f_sadscp_app_name g = None" for g :: pcp_flow and a
    using that by (simp add: msg_ok_def flow_wf_def split: option.split)
  have place: "flow_place (g\<lparr>f_ext_ip := a\<rparr>) = flow_place g" "flow_place (g\<lparr>f_sadscp_app_name := n\<rparr>) = flow_place g"
    for g :: pcp_flow and a n by (simp_all add: flow_place_def flow_links_def)
  let ?f1 = "f\<lparr>f_ext_ip := set_ext_byte 0 (cd_toler_fields d) (f_ext_ip f)\<rparr>"
  have k1: "k_operation (f_kd ?f1) = PCP_OPCODE_SADSCP" "f_sadscp_app_name ?f1 = None" using assms(3,4) by simp_all
  have named: "msg_ok (g\<lparr>f_sadscp_app_name := (if b then Some name else None)\<rparr>)"
    if "msg_ok g" "unat (f_app_name_length g) \<le> length name" "k_operation (f_kd g) = PCP_OPCODE_SADSCP" for g name b
    using that by (auto simp: msg_ok_def flow_wf_def f_app_name_length_def split: option.splits)
  have unnamed: "msg_ok (g\<lparr>f_sadscp_app_name := None\<rparr>)" if "msg_ok g" for g
    using that by (auto simp: msg_ok_def flow_wf_def split: option.splits)
  have fin: "runs (k c') Q" if "quiet c0 c'" "c_heap c' p = Some f'" "flow_place f' = flow_place f" for c' f'
    using k that by blast
  show ?thesis
    unfolding set_sadscp_def bind_assoc
  proof (rule upd_flow_quiet_then [OF assms(1,2)])
    fix c1 assume c1: "quiet c0 c1" "c_heap c1 p = Some ?f1"
    show "runs (Option.bind (case cd_app_name d of
        Some name \<Rightarrow> Option.bind (upd_flow p (\<lambda>f. f\<lparr>f_ext_ip := set_ext_byte 1 (of_nat (length name)) (f_ext_ip f)\<rparr>) c1)
          (\<lambda>c. let (ok, c) = alloc_next c in
             upd_flow p (\<lambda>f. f\<lparr>f_sadscp_app_name := (if ok then Some name else None)\<rparr>) c)
      | None \<Rightarrow> Option.bind (upd_flow p (\<lambda>f. f\<lparr>f_ext_ip := set_ext_byte 1 0 (f_ext_ip f)\<rparr>) c1)
          (upd_flow p (\<lambda>f. f\<lparr>f_sadscp_app_name := None\<rparr>))) k) Q"
    proof (cases "cd_app_name d")
      case None
      have "runs (Option.bind (upd_flow p (\<lambda>f. f\<lparr>f_ext_ip := set_ext_byte 1 0 (f_ext_ip f)\<rparr>) c1)
          (\<lambda>c. Option.bind (upd_flow p (\<lambda>f. f\<lparr>f_sadscp_app_name := None\<rparr>) c) k)) Q"
      proof (rule upd_flow_quiet_then [OF c1])
        fix c2 assume c2: "quiet c0 c2" "c_heap c2 p = Some (?f1\<lparr>f_ext_ip := set_ext_byte 1 0 (f_ext_ip ?f1)\<rparr>)"
        show "runs (Option.bind (upd_flow p (\<lambda>f. f\<lparr>f_sadscp_app_name := None\<rparr>) c2) k) Q"
          by (rule upd_flow_quiet_then [OF c2]) (use place fin unnamed in auto)
      qed (use place none [OF k1(2)] in auto)
      then show ?thesis using None by (simp add: bind_assoc del: runs_simps(3))
    next
      case (Some name)
      let ?f2 = "?f1\<lparr>f_ext_ip := set_ext_byte 1 (of_nat (length name)) (f_ext_ip ?f1)\<rparr>"
      have "runs (Option.bind (upd_flow p (\<lambda>f. f\<lparr>f_ext_ip := set_ext_byte 1 (of_nat (length name)) (f_ext_ip f)\<rparr>) c1)
          (\<lambda>c. Option.bind (upd_flow p (\<lambda>f. f\<lparr>f_sadscp_app_name := (if w_alloc c (w_alloc_i c) then Some name else None)\<rparr>)
            (c\<lparr>w_alloc_i := Suc (w_alloc_i c)\<rparr>)) k)) Q"
      proof (rule upd_flow_quiet_then [OF c1])
        fix c2 assume c2: "quiet c0 c2" "c_heap c2 p = Some ?f2"
        have len: "unat (f_app_name_length ?f2) \<le> length name"
          unfolding set_ext_byte_length by (rule unat_of_nat_le)
        show "runs (Option.bind (upd_flow p (\<lambda>f. f\<lparr>f_sadscp_app_name := (if w_alloc c2 (w_alloc_i c2) then Some name else None)\<rparr>)
            (c2\<lparr>w_alloc_i := Suc (w_alloc_i c2)\<rparr>)) k) Q"
        proof (rule upd_flow_quiet_then [of c0 _ p ?f2])
          show "msg_ok (?f2\<lparr>f_sadscp_app_name := (if w_alloc c2 (w_alloc_i c2) then Some name else None)\<rparr>)" if "msg_ok ?f2"
            by (rule named [OF that len]) (use k1 in simp)
        qed (use c2 place fin in auto)
      qed (use place none [OF k1(2)] in auto)
      then show ?thesis using Some by (simp add: bind_assoc alloc_next_def Let_def del: runs_simps(3))
    qed
  qed (use place none [OF assms(3)] in auto)
qed


text \<open>
  A flow that has been entered into the table; nothing else has changed but the contents of flows and
  the server's timeout.
\<close>

definition entered :: "fid \<Rightarrow> pcp_ctx \<Rightarrow> pcp_ctx \<Rightarrow> bool" where
  "entered p c c' \<longleftrightarrow> keeps c c' \<and> db_alloc c' = db_alloc c \<and> db_flows c' = insert p (db_flows c) \<and>
     (\<forall>q\<in>db_alloc c. db_key c' q = db_key c q) \<and>
     map server_face (c_pcp_servers c') = map server_face (c_pcp_servers c) \<and> w_alloc c' = w_alloc c"

lemma quiet_entered:
  assumes "quiet a b" "entered p b c" shows "entered p a c"
  using assms quiet_table [OF assms(1)] keeps_trans [of a b c] by (auto simp: entered_def quiet_def)

lemma entered_quiet:
  assumes "entered p a b" "quiet b c" shows "entered p a c"
  using assms quiet_table [OF assms(2)] keeps_trans [of a b c] by (auto simp: entered_def quiet_def)

lemma add_flow_entered:
  assumes inv: "ctx_inv c" and f: "c_heap c p = Some f" "f_key_bucket f = EMPTY"
  shows "runs (pcp_db_add_flow (Some p) c) (\<lambda>(e, c'). entered p c c')"
proof -
  obtain B where B: "db_rep c B" using inv by (auto simp: ctx_inv_def db_inv_def)
  from add_flow_refines [OF B f] obtain c' where
    c': "pcp_db_add_flow (Some p) c = Some (PCP_ERR_SUCCESS, c')" "same_payload c c'" "db_inv c'"
      "db_flows c' = insert p (db_flows c)"
    by (auto simp: db_inv_def)
  have pl: "w_sendto c' = w_sendto c" "w_tod c' = w_tod c" "w_tod_i c' = w_tod_i c" "w_recvfrom c' = w_recvfrom c" "w_alloc c' = w_alloc c" "c_pcp_servers c' = c_pcp_servers c"
    using c'(2) by (simp_all add: same_payload_def)
  have "kid_of c' q = kid_of c q" for q
    using same_payload_field [OF c'(2), of f_next_child q]
    by (cases "c_heap c q"; cases "c_heap c' q") (auto simp: kid_of_def)
  moreover have "(c_heap c' q = None) = (c_heap c q = None)" for q
    using same_payload_alloc [OF c'(2)] by (metis db_alloc_def domIff)
  ultimately have "evolves c c'" using pl by (simp add: evolves_def)
  moreover have "ctx_inv c'" using payload_inv [OF inv c'(2,3) pl(1)] .
  ultimately have "entered p c c'"
    using c'(4) same_payload_alloc [OF c'(2)] same_payload_key [OF c'(2)] pl by (simp add: entered_def keeps_def)
  then show ?thesis using c'(1) by simp
qed

definition ext_fits :: "flow_key_data \<Rightarrow> sockaddr option \<Rightarrow> bool" where
  "ext_fits kd ext \<longleftrightarrow> (k_operation kd = PCP_OPCODE_MAP \<or> k_operation kd = PCP_OPCODE_PEER) = (ext \<noteq> None)"

lemma init_flow_runs:
  assumes q: "quiet c0 c" and f: "c_heap c p = Some f" "f_key_bucket f = EMPTY" and s: "s < length (c_pcp_servers c)"
    and ext: "ext_fits (f_kd f) ext" and nm: "k_operation (f_kd f) = PCP_OPCODE_SADSCP \<or> f_sadscp_app_name f = None"
  shows "runs (init_flow p s lifetime ext c) (entered p c0)"
proof -
  let ?mp = "k_operation (f_kd f) = PCP_OPCODE_MAP \<or> k_operation (f_kd f) = PCP_OPCODE_PEER"
  let ?g = "\<lambda>ea f. let (ip, port, _) = pcp_fill_in6_addr (f_ext_ip f, f_ext_port f, 0) ea
                 in f\<lparr>f_ext_ip := ip, f_ext_port := port\<rparr>"
  have rest: "runs (Option.bind (rd_server s d) (\<lambda>sv. Option.bind (upd_flow p (\<lambda>f. f\<lparr>f_lifetime := lifetime, f_timeout := t,
            f_state := (if s_server_state sv = pss_wait_io then pfs_send else pfs_wait_for_server_init)\<rparr>) d)
       (\<lambda>c. Option.bind (set_next_timeout s t c) (\<lambda>c. Option.bind (upd_flow p (\<lambda>f. f\<lparr>f_user_data := 0\<rparr>) c)
         (\<lambda>c. Option.bind (pcp_db_add_flow (Some p) c) (\<lambda>(_, c). Some c)))))) (entered p c0)"
    if d: "quiet c0 d" "c_heap d p = Some f'" "flow_place f' = flow_place f" for d t f'
  proof -
    have rd: "rd_server s d = Some (c_pcp_servers d ! s)"
      using s quiet_servers [OF d(1)] quiet_servers [OF q] by (simp add: rd_server_def)
    show ?thesis
      unfolding rd bind.simps
    proof (rule upd_flow_quiet_then [OF d(1,2)])
      let ?f1 = "f'\<lparr>f_lifetime := lifetime, f_timeout := t, f_state :=
          (if s_server_state (c_pcp_servers d ! s) = pss_wait_io then pfs_send else pfs_wait_for_server_init)\<rparr>"
      fix c1 assume c1: "quiet c0 c1" "c_heap c1 p = Some ?f1"
      show "runs (Option.bind (set_next_timeout s t c1) (\<lambda>c. Option.bind (upd_flow p (\<lambda>f. f\<lparr>f_user_data := 0\<rparr>) c)
         (\<lambda>c. Option.bind (pcp_db_add_flow (Some p) c) (\<lambda>(_, c). Some c)))) (entered p c0)"
      proof (rule set_next_timeout_quiet_then [OF c1(1)])
        show "s < length (c_pcp_servers c1)" using s quiet_servers [OF c1(1)] quiet_servers [OF q] by simp
        fix c2 assume c2: "quiet c0 c2" "c_heap c2 = c_heap c1"
        show "runs (Option.bind (upd_flow p (\<lambda>f. f\<lparr>f_user_data := 0\<rparr>) c2)
            (\<lambda>c. Option.bind (pcp_db_add_flow (Some p) c) (\<lambda>(_, c). Some c))) (entered p c0)"
        proof (rule upd_flow_quiet_then [OF c2(1), of p ?f1])
          fix c3 assume c3: "quiet c0 c3" "c_heap c3 p = Some (?f1\<lparr>f_user_data := 0\<rparr>)"
          have "f_key_bucket (?f1\<lparr>f_user_data := 0\<rparr>) = EMPTY"
            using d(3) f(2) by (simp add: flow_place_def flow_links_def)
          from runs_mono [OF add_flow_entered [OF quiet_inv [OF c3(1)] c3(2) this],
              of "\<lambda>(e, c'). entered p c0 c'"] quiet_entered [OF c3(1)]
          show "runs (Option.bind (pcp_db_add_flow (Some p) c3) (\<lambda>(_, c). Some c)) (entered p c0)"
            by (auto simp: case_prod_unfold)
        qed (use c1 c2 in \<open>auto simp: place_defs split: option.splits\<close>)
      qed
    qed (auto simp: place_defs split: option.splits)
  qed
  show ?thesis
  proof (cases ?mp)
    case True
    then obtain ea where ea: "ext = Some ea" using ext by (auto simp: ext_fits_def)
    have none: "f_sadscp_app_name f = None" using nm True by auto
    have pl: "flow_place (?g ea f) = flow_place f" "msg_ok f \<Longrightarrow> msg_ok (?g ea f)"
      using none by (auto simp: case_prod_unfold Let_def place_defs split: option.splits)
    have "runs (Option.bind (upd_flow p (?g ea) c) (\<lambda>c. let (t, d) = gettimeofday c in
      Option.bind (rd_server s d) (\<lambda>sv. Option.bind (upd_flow p (\<lambda>f. f\<lparr>f_lifetime := lifetime, f_timeout := t,
            f_state := (if s_server_state sv = pss_wait_io then pfs_send else pfs_wait_for_server_init)\<rparr>) d)
       (\<lambda>c. Option.bind (set_next_timeout s t c) (\<lambda>c. Option.bind (upd_flow p (\<lambda>f. f\<lparr>f_user_data := 0\<rparr>) c)
         (\<lambda>c. Option.bind (pcp_db_add_flow (Some p) c) (\<lambda>(_, c). Some c))))))) (entered p c0)"
    proof (rule upd_flow_quiet_then [where g = "?g ea", OF q f(1) pl])
      fix c1 assume c1: "quiet c0 c1" "c_heap c1 p = Some (?g ea f)"
      have c1': "quiet c0 (snd (gettimeofday c1))" "c_heap (snd (gettimeofday c1)) p = Some (?g ea f)"
        using c1 by (simp_all add: gettimeofday_def)
      from rest [OF c1' pl(1), of "fst (gettimeofday c1)"]
      show "runs (let (t, d) = gettimeofday c1 in
        Option.bind (rd_server s d) (\<lambda>sv. Option.bind (upd_flow p (\<lambda>f. f\<lparr>f_lifetime := lifetime, f_timeout := t,
            f_state := (if s_server_state sv = pss_wait_io then pfs_send else pfs_wait_for_server_init)\<rparr>) d)
       (\<lambda>c. Option.bind (set_next_timeout s t c) (\<lambda>c. Option.bind (upd_flow p (\<lambda>f. f\<lparr>f_user_data := 0\<rparr>) c)
         (\<lambda>c. Option.bind (pcp_db_add_flow (Some p) c) (\<lambda>(_, c). Some c)))))) (entered p c0)"
        by (simp add: case_prod_unfold Let_def)
    qed
    then show ?thesis
      unfolding init_flow_def rd_flow_def f(1) bind.simps if_P [OF True] ea option.case by simp
  next
    case False
    then have "ext = None" using ext by (auto simp: ext_fits_def)
    have "quiet c0 (snd (gettimeofday c))" "c_heap (snd (gettimeofday c)) p = Some f"
      using q f(1) by (simp_all add: gettimeofday_def)
    from rest [OF this refl, of "fst (gettimeofday c)"] show ?thesis
      unfolding init_flow_def rd_flow_def f(1) bind.simps if_not_P [OF False] \<open>ext = None\<close>
      by (simp add: case_prod_unfold Let_def)
  qed
qed


section \<open>Creating one flow\<close>

text \<open>
  \<open>created i kd p c c'\<close>: \<open>p\<close> is a new flow of the table, with the key \<open>kd\<close> and for the server with index
  \<open>i\<close>; everything else is as it was, but for the contents of flows and timeouts of servers.
\<close>

definition created :: "u32 \<Rightarrow> flow_key_data \<Rightarrow> fid \<Rightarrow> pcp_ctx \<Rightarrow> pcp_ctx \<Rightarrow> bool" where
  "created i kd p c c' \<longleftrightarrow> keeps c c' \<and> p \<notin> db_alloc c \<and> db_alloc c' = insert p (db_alloc c) \<and>
     db_flows c' = insert p (db_flows c) \<and> db_key c' p = (i, kd) \<and> (\<forall>q\<in>db_alloc c. db_key c' q = db_key c q) \<and>
     map server_face (c_pcp_servers c') = map server_face (c_pcp_servers c) \<and> w_alloc c' = w_alloc c"

lemma new_cell_keeps:
  assumes inv: "ctx_inv c" and f: "msg_ok f" "f_key_bucket f = EMPTY" "f_next_child f = None"
    and c': "c' = c\<lparr>c_heap := (c_heap c)(c_brk c \<mapsto> f), c_brk := Suc (c_brk c)\<rparr>"
  shows "keeps c c'" "c_brk c \<notin> db_alloc c" "db_alloc c' = insert (c_brk c) (db_alloc c)" "db_flows c' = db_flows c"
    "\<forall>q\<in>db_alloc c. db_key c' q = db_key c q"
proof -
  have free: "c_heap c (c_brk c) = None" using inv by (auto simp: ctx_inv_def db_inv_def db_rep_def)
  then show "c_brk c \<notin> db_alloc c" by (auto simp: db_alloc_def)
  have "kid_of c' q = kid_of c q" for q using free f(3) by (simp add: kid_of_def c')
  then show "keeps c c'" using new_cell_inv [OF inv f c'] by (simp add: keeps_def evolves_def c')
  show "db_alloc c' = insert (c_brk c) (db_alloc c)" by (simp add: db_alloc_def c')
  show "db_flows c' = db_flows c" using free f(2) by (auto simp: db_flows_def c')
  show "\<forall>q\<in>db_alloc c. db_key c' q = db_key c q" using free by (auto simp: db_alloc_def db_key_def c')
qed

lemma caasi_flow_runs:
  assumes inv: "ctx_inv c" and s: "s < length (c_pcp_servers c)" and ext: "ext_fits kd (cd_ext_addr d)"
  shows "runs (caasi_flow s d kd c) (\<lambda>(fp, c'). case fp of
      None \<Rightarrow> quiet c c' \<and> (\<exists>i. \<not> w_alloc c i)
    | Some p \<Rightarrow> created (s_index (c_pcp_servers c ! s)) kd p c c')"
proof -
  define f where "f = flow_zero\<lparr>f_pcp_msg_len := 0, f_pcp_server_indx := s_index (c_pcp_servers c ! s), f_kd := kd,
     f_key_bucket := EMPTY\<rparr>"
  define a where "a = c\<lparr>w_alloc_i := Suc (w_alloc_i c)\<rparr>"
  define b where "b = a\<lparr>c_heap := (c_heap a)(c_brk a \<mapsto> f), c_brk := Suc (c_brk a)\<rparr>"
  let ?p = "c_brk c"
  have f: "msg_ok f" "f_key_bucket f = EMPTY" "f_next_child f = None" "f_sadscp_app_name f = None" "f_kd f = kd"
      "f_pcp_server_indx f = s_index (c_pcp_servers c ! s)"
    by (simp_all add: f_def flow_zero_ok) (simp_all add: flow_zero_def)
  have a: "quiet c a" "ctx_inv a" using inv by (simp_all add: a_def quiet_refl)
  have "keeps c a" using a(1) by (simp add: quiet_def)
  note nb = new_cell_keeps [OF a(2) f(1-3) b_def]
  have b: "keeps c b" "db_alloc c = db_alloc a" "db_flows c = db_flows a" "?p = c_brk a" "ctx_inv b" "c_heap b ?p = Some f"
    using nb(1) keeps_trans [OF \<open>keeps c a\<close>] by (simp_all add: a_def b_def db_alloc_def db_flows_def keeps_def)
  have fin: "created (s_index (c_pcp_servers c ! s)) kd ?p c c'" if "entered ?p b c'" for c'
  proof -
    have k: "db_key b ?p = (s_index (c_pcp_servers c ! s), kd)" using b(6) f(5,6) by (simp add: db_key_def)
    have k': "\<forall>q\<in>db_alloc c. db_key b q = db_key c q" using nb(5) by (simp add: a_def db_alloc_def db_key_def)
    have e: "keeps b c'" "db_alloc c' = db_alloc b" "db_flows c' = insert ?p (db_flows b)"
        "\<forall>q\<in>db_alloc b. db_key c' q = db_key b q" "map server_face (c_pcp_servers c') = map server_face (c_pcp_servers b)"
        "w_alloc c' = w_alloc b"
      using that by (auto simp: entered_def)
    have w: "c_pcp_servers b = c_pcp_servers c" "w_alloc b = w_alloc c" by (simp_all add: b_def a_def)
    have al: "db_alloc b = insert ?p (db_alloc c)" "db_flows b = db_flows c" "?p \<notin> db_alloc c"
      using nb(2-4) b(2,3,4) by simp_all
    have "keeps c c'" using keeps_trans [OF b(1) e(1)] .
    moreover have "db_key c' ?p = (s_index (c_pcp_servers c ! s), kd)" using e(4) al(1) k by simp
    moreover have "\<forall>q\<in>db_alloc c. db_key c' q = db_key c q" using e(4) al(1) k' by simp
    ultimately show ?thesis unfolding created_def by (intro conjI) (simp_all only: al e(2,3,5,6) w not_False_eq_True)
  qed
  have init: "runs (Option.bind (init_flow ?p s (cd_lifetime d) (cd_ext_addr d) c1)
      (\<lambda>c. Option.bind (upd_flow ?p (\<lambda>f. f\<lparr>f_user_data := cd_userdata d\<rparr>) c) (\<lambda>c. Some (Some ?p, c))))
      (\<lambda>(fp, c'). case fp of None \<Rightarrow> quiet c c' \<and> (\<exists>i. \<not> w_alloc c i)
         | Some p \<Rightarrow> created (s_index (c_pcp_servers c ! s)) kd p c c')"
    if c1: "quiet b c1" "c_heap c1 ?p = Some g" "flow_place g = flow_place f"
      and nm: "k_operation kd = PCP_OPCODE_SADSCP \<or> f_sadscp_app_name g = None" for c1 g
  proof (rule runs_bind [OF init_flow_runs [OF c1(1,2)]])
    have g: "f_key_bucket g = f_key_bucket f" "f_kd g = f_kd f"
      using c1(3) by (simp_all add: flow_place_def flow_links_def)
    then show "f_key_bucket g = EMPTY" "ext_fits (f_kd g) (cd_ext_addr d)"
      "k_operation (f_kd g) = PCP_OPCODE_SADSCP \<or> f_sadscp_app_name g = None" using f(2,5) ext nm by simp_all
    show "s < length (c_pcp_servers c1)" using quiet_servers [OF c1(1)] s by (simp add: b_def a_def)
    fix c2 assume c2: "entered ?p b c2"
    then have inv2: "ctx_inv c2" by (simp add: entered_def keeps_def)
    have "?p \<in> db_alloc c2" using c2 nb(3) b(4) by (simp add: entered_def)
    then obtain g2 where g2: "c_heap c2 ?p = Some g2" by (auto simp: db_alloc_def)
    show "runs (Option.bind (upd_flow ?p (\<lambda>f. f\<lparr>f_user_data := cd_userdata d\<rparr>) c2) (\<lambda>c. Some (Some ?p, c)))
      (\<lambda>(fp, c'). case fp of None \<Rightarrow> quiet c c' \<and> (\<exists>i. \<not> w_alloc c i)
         | Some p \<Rightarrow> created (s_index (c_pcp_servers c ! s)) kd p c c')"
      by (rule upd_flow_quiet_then [OF quiet_refl [OF inv2] g2])
        (use fin entered_quiet [OF c2] in \<open>auto simp: place_defs split: option.splits\<close>)
  qed
  have "runs (Option.bind (if k_operation kd = PCP_OPCODE_SADSCP then set_sadscp ?p d b else Some b)
      (\<lambda>c. Option.bind (init_flow ?p s (cd_lifetime d) (cd_ext_addr d) c)
      (\<lambda>c. Option.bind (upd_flow ?p (\<lambda>f. f\<lparr>f_user_data := cd_userdata d\<rparr>) c) (\<lambda>c. Some (Some ?p, c)))))
      (\<lambda>(fp, c'). case fp of None \<Rightarrow> quiet c c' \<and> (\<exists>i. \<not> w_alloc c i)
         | Some p \<Rightarrow> created (s_index (c_pcp_servers c ! s)) kd p c c')"
  proof (cases "k_operation kd = PCP_OPCODE_SADSCP")
    case True
    have "k_operation (f_kd f) = PCP_OPCODE_SADSCP" using True f(5) by simp
    from set_sadscp_then [OF quiet_refl [OF b(5)] b(6) f(4) this init] True show ?thesis by simp
  next
    case False
    with init [OF quiet_refl [OF b(5)] b(6) refl] f(4) show ?thesis by simp
  qed
  moreover have "pcp_create_flow s kd c = Some (if w_alloc c (w_alloc_i c) then (Some ?p, b) else (None, a))"
    using s by (simp add: pcp_create_flow_def rd_server_def alloc_next_def new_flow_cell_def b_def a_def f_def)
  ultimately show ?thesis
    using a(1) unfolding caasi_flow_def by (auto simp del: runs_simps(3) split: if_splits)
qed


section \<open>Chaining the flows\<close>

lemma kids_link:
  assumes "q \<noteq> p" "h q = Some fq" "f_next_child fq = None" "h p = Some fp" "f_next_child fp = None"
  shows "kids h r ys \<Longrightarrow> kids (h(q \<mapsto> fq\<lparr>f_next_child := Some p\<rparr>)) r (if q \<in> set ys then ys @ [p] else ys)"
proof (induction ys arbitrary: r)
  case (Cons y ys)
  show ?case
  proof (cases "y = q")
    case True
    then have "ys = []" using Cons.prems assms(2,3) by (cases ys) auto
    then show ?thesis using True Cons.prems assms by simp
  next
    case False
    obtain f where f: "r = Some y" "h y = Some f" "kids h (f_next_child f) ys" using Cons.prems by auto
    from Cons.IH [OF f(3)] f(1,2) False show ?thesis by (simp split: if_splits)
  qed
qed simp

lemma kids_last:
  "kids h fp xs \<Longrightarrow> xs \<noteq> [] \<Longrightarrow> \<exists>f. h (last xs) = Some f \<and> f_next_child f = None"
proof (induction xs arbitrary: fp)
  case (Cons x xs)
  then show ?case by (cases xs) auto
qed simp

lemma kids_closed: "kids (c_heap c) fp xs \<Longrightarrow> r \<in> set xs \<Longrightarrow> kid_of c r = Some p \<Longrightarrow> p \<in> set xs"
proof (induction xs arbitrary: fp)
  case (Cons x xs)
  show ?case
  proof (cases "r = x")
    case True
    then show ?thesis using Cons.prems by (cases xs) (auto simp: kid_of_def)
  next
    case False
    then show ?thesis using Cons by auto
  qed
qed simp

lemma kid_alloc:
  assumes "ctx_inv c" "kid_of c q = Some r" shows "r \<in> db_alloc c"
proof -
  obtain f where f: "c_heap c q = Some f" "f_next_child f = Some r"
    using assms(2) by (auto simp: kid_of_def bind_eq_Some_conv)
  then obtain xs where xs: "kids (c_heap c) (Some q) xs" using assms(1) unfolding ctx_inv_def flows_ok_def by blast
  have "q \<in> set xs" using xs by (cases xs) auto
  from kids_closed [OF xs this assms(2)] kids_alloc [OF xs] show ?thesis by (auto simp: db_alloc_def)
qed

lemma link_child:
  assumes inv: "api_inv c" and xs: "kids (c_heap c) fp xs" "xs \<noteq> []" and p: "handle c p" "kid_of c p = None" "p \<notin> set xs"
  defines "q \<equiv> last xs"
  shows "runs (upd_flow q (\<lambda>f. f\<lparr>f_next_child := Some p\<rparr>) c) (\<lambda>c'. api_inv c' \<and> kids (c_heap c') fp (xs @ [p]) \<and>
    db_alloc c' = db_alloc c \<and> db_flows c' = db_flows c \<and> (\<forall>r. db_key c' r = db_key c r) \<and>
    (\<forall>r. kid_of c' r = (if r = q then Some p else kid_of c r)) \<and>
    c_pcp_servers c' = c_pcp_servers c \<and> w_alloc c' = w_alloc c \<and> w_tod c' = w_tod c)"
proof -
  obtain fq where fq: "c_heap c q = Some fq" "f_next_child fq = None" using kids_last [OF xs] by (auto simp: q_def)
  obtain g where g: "c_heap c p = Some g" "f_next_child g = None" using p(1,2) by (auto simp: handle_def kid_of_def)
  have q: "q \<in> set xs" using xs(2) by (simp add: q_def)
  then have qp: "q \<noteq> p" using p(3) by auto
  define c' where "c' = c\<lparr>c_heap := (c_heap c)(q \<mapsto> fq\<lparr>f_next_child := Some p\<rparr>)\<rparr>"
  note link = kids_link [OF qp fq g]
  have ci: "ctx_inv c" using inv by (simp add: api_inv_def)
  have msg: "msg_ok (fq\<lparr>f_next_child := Some p\<rparr>) = msg_ok fq"
    by (simp add: msg_ok_def flow_wf_def f_app_name_length_def split: option.split)
  have "flows_ok c'"
    unfolding flows_ok_def
  proof (intro allI impI)
    fix r f assume r: "c_heap c' r = Some f"
    then obtain f0 where f0: "c_heap c r = Some f0" "msg_ok f0 = msg_ok f"
      using fq(1) msg by (auto simp: c'_def split: if_splits)
    then obtain ys where "msg_ok f0" "kids (c_heap c) (Some r) ys" using ci unfolding ctx_inv_def flows_ok_def by blast
    with link [of "Some r" ys] f0(2) show "msg_ok f \<and> (\<exists>xs. kids (c_heap c') (Some r) xs)" by (auto simp: c'_def)
  qed
  moreover have "ping_ok c'" using ci fq(1) unfolding ctx_inv_def ping_ok_def by (fastforce simp: c'_def)
  moreover have "db_inv c'"
    using ci fq(1) same_db_inv [of c c'] by (auto simp: ctx_inv_def same_db_def c'_def flow_links_def)
  ultimately have ci': "ctx_inv c'" using ci by (simp add: ctx_inv_def world_ok_def server_inv_def c'_def)
  have kid: "kid_of c' r = (if r = q then Some p else kid_of c r)" for r by (simp add: kid_of_def c'_def)
  have "kids_inj c'" using inv p(1) by (auto simp: api_inv_def kids_inj_def kid handle_def split: if_splits)
  then have "api_inv c'" using inv ci' by (simp add: api_inv_def spare_ok_def c'_def)
  moreover have "kids (c_heap c') fp (xs @ [p])" using link [OF xs(1)] q by (simp add: c'_def)
  moreover have "db_alloc c' = db_alloc c" "db_flows c' = db_flows c" "\<forall>r. db_key c' r = db_key c r"
    using fq(1) by (auto simp: db_alloc_def db_flows_def db_key_def c'_def)
  ultimately have "api_inv c' \<and> kids (c_heap c') fp (xs @ [p]) \<and> db_alloc c' = db_alloc c \<and> db_flows c' = db_flows c \<and>
    (\<forall>r. db_key c' r = db_key c r) \<and> (\<forall>r. kid_of c' r = (if r = q then Some p else kid_of c r)) \<and>
    c_pcp_servers c' = c_pcp_servers c \<and> w_alloc c' = w_alloc c \<and> w_tod c' = w_tod c"
    using kid by (simp add: c'_def)
  then show ?thesis using fq(1) by (simp add: upd_flow_def c'_def)
qed


text \<open>The flows to create: the index and key for every server in use that fits, in the order of the array.\<close>

definition flow_keys :: "flow_key_data \<Rightarrow> pcp_server list \<Rightarrow> (u32 \<times> flow_key_data) list" where
  "flow_keys kd vs = List.map_filter (\<lambda>sv. if s_server_state sv = pss_unitialized then None
     else map_option (Pair (s_index sv)) (caasi_key kd sv)) vs"

lemma flow_keys_face: "flow_keys kd (map server_face vs) = flow_keys kd vs"
  by (induction vs) (simp_all add: flow_keys_def List.map_filter_def server_face_def caasi_key_def Let_def)

lemma flow_keys_Suc:
  "i < length vs \<Longrightarrow> flow_keys kd (take (Suc i) vs) = flow_keys kd (take i vs) @
     (if s_server_state (vs ! i) = pss_unitialized then [] else
      case caasi_key kd (vs ! i) of None \<Rightarrow> [] | Some k \<Rightarrow> [(s_index (vs ! i), k)])"
  by (simp add: take_Suc_conv_app_nth flow_keys_def List.map_filter_def split: option.split)

lemma face_nth:
  assumes "map server_face vs = map server_face ws" "i < length vs"
  shows "s_server_state (vs ! i) = s_server_state (ws ! i)" "s_index (vs ! i) = s_index (ws ! i)"
    "caasi_key kd (vs ! i) = caasi_key kd (ws ! i)"
proof -
  have "server_face (vs ! i) = server_face (ws ! i)" using assms by (metis length_map nth_map)
  moreover have "s_server_state v = s_server_state (server_face v)" "s_index v = s_index (server_face v)"
    "caasi_key kd v = caasi_key kd (server_face v)" for v by (simp_all add: server_face_def caasi_key_def Let_def)
  ultimately show "s_server_state (vs ! i) = s_server_state (ws ! i)" "s_index (vs ! i) = s_index (ws ! i)"
    "caasi_key kd (vs ! i) = caasi_key kd (ws ! i)" by metis+
qed

text \<open>
  The invariant of the iteration: a list \<open>xs\<close> of new flows with the keys for the servers before the
  \<open>i\<close>-th, linked from \<open>ffirst\<close> to \<open>fprev\<close>; all else is as at the beginning.
\<close>

definition chained :: "pcp_ctx \<Rightarrow> caasi_data \<Rightarrow> nat \<Rightarrow> caasi_data \<Rightarrow> pcp_ctx \<Rightarrow> fid list \<Rightarrow> bool" where
  "chained c0 d0 i d c xs \<longleftrightarrow> api_inv c \<and> cd_kd d = cd_kd d0 \<and> cd_ext_addr d = cd_ext_addr d0 \<and>
     map server_face (c_pcp_servers c) = map server_face (c_pcp_servers c0) \<and> w_alloc c = w_alloc c0 \<and> w_tod c = w_tod c0 \<and>
     kids (c_heap c) (cd_ffirst d) xs \<and> cd_fprev d = (if xs = [] then None else Some (last xs)) \<and>
     map (db_key c) xs = flow_keys (cd_kd d0) (take i (c_pcp_servers c0)) \<and> (\<forall>p. cd_ffirst d = Some p \<longrightarrow> handle c p) \<and>
     set xs \<inter> db_alloc c0 = {} \<and> db_alloc c = db_alloc c0 \<union> set xs \<and> db_flows c = db_flows c0 \<union> set xs \<and>
     (\<forall>q\<in>db_alloc c0. db_key c q = db_key c0 q) \<and> (\<forall>q. q \<notin> set xs \<longrightarrow> kid_of c q = kid_of c0 q)"

lemma created_new:
  assumes "created i kd p c c'" "ctx_inv c"
  shows "handle c' p" "kid_of c' p = None"
proof -
  have kid: "kid_of c' q = kid_of c q" for q using assms(1) by (simp add: created_def keeps_def evolves_def)
  have np: "p \<notin> db_alloc c" and al: "db_alloc c' = insert p (db_alloc c)" using assms(1) by (auto simp: created_def)
  have "c_heap c p = None" using np by (auto simp: db_alloc_def)
  then have "kid_of c p = None" by (simp add: kid_of_def)
  then show "kid_of c' p = None" by (simp add: kid)
  have "kid_of c q \<noteq> Some p" for q using kid_alloc [OF assms(2)] np by auto
  moreover have "c_heap c' p \<noteq> None" using al by (auto simp: db_alloc_def dom_def set_eq_iff)
  ultimately show "handle c' p" by (simp add: handle_def kid)
qed

lemma chained_quiet:
  assumes "chained c0 d0 i d c xs" "quiet c c'"
  shows "chained c0 d0 i d c' xs"
proof -
  note q = quiet_table [OF assms(2)]
  have k: "keeps c c'" "map server_face (c_pcp_servers c') = map server_face (c_pcp_servers c)" "w_alloc c' = w_alloc c"
    "w_tod c' = w_tod c" using assms(2) by (auto simp: quiet_def keeps_def evolves_def)
  have "set xs \<subseteq> db_alloc c" using assms(1) by (auto simp: chained_def)
  then have "map (db_key c') xs = map (db_key c) xs" using q(3) by auto
  moreover have "kids (c_heap c') (cd_ffirst d) xs"
    using assms(1) k(1) evolves_kids by (auto simp: chained_def keeps_def)
  moreover have "\<forall>q\<in>db_alloc c0. db_key c' q = db_key c0 q" using assms(1) q(3) by (auto simp: chained_def)
  ultimately show ?thesis
    using assms(1) k keeps_api [OF _ k(1)] keeps_handle [OF k(1)] q(1,2,4) unfolding chained_def by auto
qed


lemma chained_next:
  assumes ch: "chained c0 d0 i d c xs" and cr: "created ix kd p c c1"
    and keys: "flow_keys (cd_kd d0) (take (Suc i) (c_pcp_servers c0)) =
       flow_keys (cd_kd d0) (take i (c_pcp_servers c0)) @ [(ix, kd)]"
  shows "runs (case cd_fprev d of
        Some q \<Rightarrow> Option.bind (upd_flow q (\<lambda>f. f\<lparr>f_next_child := Some p\<rparr>) c1) (\<lambda>c. Some (False, d\<lparr>cd_fprev := Some p\<rparr>, c))
      | None \<Rightarrow> Some (False, d\<lparr>cd_ffirst := Some p, cd_fprev := Some p\<rparr>, c1))
    (\<lambda>(stop, d', c'). \<not> stop \<and> chained c0 d0 (Suc i) d' c' (xs @ [p]))"
proof -
  have k: "keeps c c1" "p \<notin> db_alloc c" "db_alloc c1 = insert p (db_alloc c)" "db_flows c1 = insert p (db_flows c)"
    "db_key c1 p = (ix, kd)" "\<forall>q\<in>db_alloc c. db_key c1 q = db_key c q"
    "map server_face (c_pcp_servers c1) = map server_face (c_pcp_servers c)" "w_alloc c1 = w_alloc c"
    using cr by (simp_all add: created_def)
  have e: "evolves c c1" "w_tod c1 = w_tod c" "\<And>q. kid_of c1 q = kid_of c q" using k(1) by (auto simp: keeps_def evolves_def)
  have c: "api_inv c" "map server_face (c_pcp_servers c) = map server_face (c_pcp_servers c0)" "w_alloc c = w_alloc c0"
      "w_tod c = w_tod c0" "kids (c_heap c) (cd_ffirst d) xs" "cd_fprev d = (if xs = [] then None else Some (last xs))"
      "map (db_key c) xs = flow_keys (cd_kd d0) (take i (c_pcp_servers c0))" "\<And>p. cd_ffirst d = Some p \<Longrightarrow> handle c p"
      "set xs \<inter> db_alloc c0 = {}" "db_alloc c = db_alloc c0 \<union> set xs" "db_flows c = db_flows c0 \<union> set xs"
      "\<forall>q\<in>db_alloc c0. db_key c q = db_key c0 q" "\<And>q. q \<notin> set xs \<Longrightarrow> kid_of c q = kid_of c0 q"
      "cd_kd d = cd_kd d0" "cd_ext_addr d = cd_ext_addr d0"
    using ch by (auto simp: chained_def)
  have ci: "ctx_inv c" using c(1) by (simp add: api_inv_def)
  have p: "p \<notin> set xs" "p \<notin> db_alloc c0" using k(2) c(10) by auto
  have inv1: "api_inv c1" using keeps_api [OF c(1) k(1)] .
  have kids1: "kids (c_heap c1) (cd_ffirst d) xs" using evolves_kids [OF e(1) c(5)] .
  note new = created_new [OF cr ci]
  have keys1: "map (db_key c1) (xs @ [p]) = flow_keys (cd_kd d0) (take (Suc i) (c_pcp_servers c0))"
  proof -
    have "map (db_key c1) xs = map (db_key c) xs" using k(6) c(10) by simp
    then show ?thesis using k(5) c(7) keys by simp
  qed
  show ?thesis
  proof (cases "xs = []")
    case True
    then have "kids (c_heap c1) (Some p) [p]" using new by (auto simp: handle_def kid_of_def)
    then have "chained c0 d0 (Suc i) (d\<lparr>cd_ffirst := Some p, cd_fprev := Some p\<rparr>) c1 [p]"
      using True inv1 k c keys1 new(1) p(2) e unfolding chained_def by auto
    then show ?thesis using True c(6) by simp
  next
    case False
    let ?q = "last xs"
    from link_child [OF inv1 kids1 False new p(1)] obtain c2 where
      c2: "upd_flow ?q (\<lambda>f. f\<lparr>f_next_child := Some p\<rparr>) c1 = Some c2" "api_inv c2" "kids (c_heap c2) (cd_ffirst d) (xs @ [p])"
        "db_alloc c2 = db_alloc c1" "db_flows c2 = db_flows c1" "\<And>r. db_key c2 r = db_key c1 r"
        "\<And>r. kid_of c2 r = (if r = ?q then Some p else kid_of c1 r)" "c_pcp_servers c2 = c_pcp_servers c1"
        "w_alloc c2 = w_alloc c1" "w_tod c2 = w_tod c1"
      by (auto elim!: runsE)
    have q: "?q \<in> set xs" using False by simp
    have h: "handle c2 r" if "cd_ffirst d = Some r" for r
    proof -
      have "handle c1 r" using keeps_handle [OF k(1)] c(8) that by blast
      moreover have "r \<noteq> p" using c(5) that p(1) by (cases xs) auto
      moreover have "c_heap c2 r \<noteq> None \<longleftrightarrow> c_heap c1 r \<noteq> None" using c2(4) by (auto simp: db_alloc_def dom_def set_eq_iff)
      ultimately show ?thesis using c2(7) by (simp add: handle_def)
    qed
    have "db_key c2 = db_key c1" using c2(6) by (rule ext)
    then have "map (db_key c2) (xs @ [p]) = flow_keys (cd_kd d0) (take (Suc i) (c_pcp_servers c0))"
      using keys1 by simp
    moreover have "\<forall>r. r \<notin> set (xs @ [p]) \<longrightarrow> kid_of c2 r = kid_of c0 r" using c2(7) e(3) c(13) q by auto
    moreover have "\<forall>r\<in>db_alloc c0. db_key c2 r = db_key c0 r" using c2(6) k(6) c(10,12) by auto
    ultimately have "chained c0 d0 (Suc i) (d\<lparr>cd_fprev := Some p\<rparr>) c2 (xs @ [p])"
      unfolding chained_def using c2 k(3,4,7,8) c(2-4,9-11,14,15) h p(2) e(2) by auto
    then show ?thesis using False c(6) c2(1) by simp
  qed
qed


lemma caasi_key_operation: "caasi_key kd sv = Some k \<Longrightarrow> k_operation k = k_operation kd"
  by (auto simp: caasi_key_def Let_def split: if_splits)

lemma chain_and_assign_src_ip_runs:
  assumes ch: "chained c0 d0 i d c xs" and u: "in_use i c" and ext: "ext_fits (cd_kd d0) (cd_ext_addr d0)"
  shows "runs (chain_and_assign_src_ip i d c) (\<lambda>(stop, d', c').
    if stop then (\<exists>j xs. chained c0 d0 j d' c' xs) \<and> (\<exists>j. \<not> w_alloc c0 j) else \<exists>xs. chained c0 d0 (Suc i) d' c' xs)"
    (is "runs _ ?Q")
proof -
  let ?sv = "c_pcp_servers c ! i" and ?vs = "c_pcp_servers c0"
  have i: "i < length (c_pcp_servers c)" and st: "s_server_state ?sv \<noteq> pss_unitialized" using u by (simp_all add: in_use_def)
  have face: "map server_face (c_pcp_servers c) = map server_face ?vs" "cd_kd d = cd_kd d0" "cd_ext_addr d = cd_ext_addr d0"
    "w_alloc c = w_alloc c0" "ctx_inv c" using ch by (auto simp: chained_def api_inv_def)
  have len: "i < length ?vs" using i face(1) by (metis map_eq_imp_length_eq)
  note fn = face_nth [OF face(1) i]
  have st0: "s_server_state (?vs ! i) \<noteq> pss_unitialized" using st fn(1) by simp
  have rd: "rd_server i c = Some ?sv" using i by (simp add: rd_server_def)
  show ?thesis
  proof (cases "caasi_key (cd_kd d) ?sv")
    case None
    then have "caasi_key (cd_kd d0) (?vs ! i) = None" using fn(3) face(2) by simp
    then have "flow_keys (cd_kd d0) (take (Suc i) ?vs) = flow_keys (cd_kd d0) (take i ?vs)"
      using flow_keys_Suc [OF len] by simp
    then have "chained c0 d0 (Suc i) d c xs" using ch by (simp add: chained_def)
    then show ?thesis using None rd by (auto simp: chain_and_assign_src_ip_def)
  next
    case (Some kd)
    then have key: "caasi_key (cd_kd d0) (?vs ! i) = Some kd" using fn(3) face(2) by simp
    then have keys: "flow_keys (cd_kd d0) (take (Suc i) ?vs) = flow_keys (cd_kd d0) (take i ?vs) @ [(s_index ?sv, kd)]"
      using flow_keys_Suc [OF len] st0 fn(2) by simp
    have "ext_fits kd (cd_ext_addr d)" using ext caasi_key_operation [OF key] face(3) by (simp add: ext_fits_def)
    from caasi_flow_runs [OF face(5) i this] obtain fp c1 where c1: "caasi_flow i d kd c = Some (fp, c1)"
      "case fp of None \<Rightarrow> quiet c c1 \<and> (\<exists>i. \<not> w_alloc c i) | Some p \<Rightarrow> created (s_index ?sv) kd p c c1"
      by (auto elim!: runsE)
    show ?thesis
    proof (cases fp)
      case None
      then have "chained c0 d0 i d c1 xs" "\<exists>j. \<not> w_alloc c0 j" using chained_quiet [OF ch] c1(2) face(4) by auto
      then show ?thesis using Some rd c1(1) None by (auto simp: chain_and_assign_src_ip_def)
    next
      case new: (Some p)
      have "runs (case cd_fprev d of
          Some q \<Rightarrow> Option.bind (upd_flow q (\<lambda>f. f\<lparr>f_next_child := Some p\<rparr>) c1) (\<lambda>c. Some (False, d\<lparr>cd_fprev := Some p\<rparr>, c))
        | None \<Rightarrow> Some (False, d\<lparr>cd_ffirst := Some p, cd_fprev := Some p\<rparr>, c1)) ?Q"
        using c1(2) new by (intro runs_mono [OF chained_next [OF ch _ keys]]) auto
      then show ?thesis unfolding chain_and_assign_src_ip_def rd bind.simps Some option.case c1(1) prod.case new .
    qed
  qed
qed

abbreviation chaining :: "pcp_ctx \<Rightarrow> caasi_data \<Rightarrow> nat \<Rightarrow> caasi_data \<Rightarrow> pcp_ctx \<Rightarrow> bool" where
  "chaining c0 d0 i d c \<equiv> ext_fits (cd_kd d0) (cd_ext_addr d0) \<and> (\<exists>xs. chained c0 d0 i d c xs)"

interpretation chain: server_visitor_total "chaining c0 d0"
    "\<lambda>d c. (\<exists>i xs. chained c0 d0 i d c xs) \<and> (\<exists>j. \<not> w_alloc c0 j)" chain_and_assign_src_ip for c0 d0
proof
  fix d d' :: caasi_data and c s stop c'
  assume i: "chaining c0 d0 s d c"
  then obtain xs where ch: "chained c0 d0 s d c xs" and ext: "ext_fits (cd_kd d0) (cd_ext_addr d0)" by blast
  have len: "length (c_pcp_servers c) = length (c_pcp_servers c0)"
    using ch unfolding chained_def by (metis map_eq_imp_length_eq)
  show "chaining c0 d0 (Suc s) d c" if "s < length (c_pcp_servers c)" "\<not> in_use s c"
  proof -
    have "s_server_state (c_pcp_servers c0 ! s) = pss_unitialized"
      using that face_nth(1) [of "c_pcp_servers c" "c_pcp_servers c0" s] ch by (simp add: in_use_def chained_def)
    then have "flow_keys (cd_kd d0) (take (Suc s) (c_pcp_servers c0)) = flow_keys (cd_kd d0) (take s (c_pcp_servers c0))"
      using flow_keys_Suc [of s "c_pcp_servers c0"] that(1) len by simp
    then have "chained c0 d0 (Suc s) d c xs" using ch by (simp add: chained_def)
    with ext show ?thesis by blast
  qed
  assume u: "in_use s c"
  from chain_and_assign_src_ip_runs [OF ch u ext]
  show "\<exists>stop d' c'. chain_and_assign_src_ip s d c = Some (stop, d', c')" by (auto elim!: runsE)
  assume v: "chain_and_assign_src_ip s d c = Some (stop, d', c')"
  from chain_and_assign_src_ip_runs [OF ch u ext] v
  have post: "if stop then (\<exists>j xs. chained c0 d0 j d' c' xs) \<and> (\<exists>j. \<not> w_alloc c0 j) else \<exists>xs. chained c0 d0 (Suc s) d' c' xs"
    by simp
  then have "length (c_pcp_servers c') = length (c_pcp_servers c0)"
    unfolding chained_def by (metis map_eq_imp_length_eq)
  with post len ext show "(if stop then (\<exists>i xs. chained c0 d0 i d' c' xs) \<and> (\<exists>j. \<not> w_alloc c0 j) else chaining c0 d0 (Suc s) d' c') \<and>
      length (c_pcp_servers c') = length (c_pcp_servers c)" by simp
qed

lemma chained_start:
  assumes "api_inv c0" "quiet c0 c" "cd_ffirst d = None" "cd_fprev d = None"
  shows "chained c0 d 0 d c []"
proof -
  have "chained c0 d 0 d c0 []"
    using assms(1,3,4) by (simp add: chained_def flow_keys_def List.map_filter_def)
  then show ?thesis using chained_quiet assms(2) by blast
qed

lemma chain_all:
  assumes "api_inv c0" "quiet c0 c" "cd_ffirst d = None" "cd_fprev d = None" "ext_fits (cd_kd d) (cd_ext_addr d)"
  shows "runs (pcp_db_foreach_server chain_and_assign_src_ip d c) (\<lambda>(e, d', c').
    e = PCP_ERR_MAX_SIZE \<and> (\<exists>xs. chained c0 d (length (c_pcp_servers c0)) d' c' xs) \<or>
    e = PCP_ERR_SUCCESS \<and> (\<exists>i xs. chained c0 d i d' c' xs) \<and> (\<exists>j. \<not> w_alloc c0 j))"
proof -
  have "chaining c0 d 0 d c" using chained_start [OF assms(1-4)] assms(5) by blast
  from chain.foreach_server_total [OF this] show ?thesis
  proof (rule runs_mono)
    fix x :: "pcp_errno \<times> caasi_data \<times> pcp_ctx"
    obtain e d' c' where x: "x = (e, d', c')" by (cases x) auto
    have "length (c_pcp_servers c') = length (c_pcp_servers c0)" if "chained c0 d j d' c' xs" for j xs
      using that unfolding chained_def by (metis map_eq_imp_length_eq)
    moreover assume "case x of (e, d', c') \<Rightarrow> e = PCP_ERR_MAX_SIZE \<and> chaining c0 d (length (c_pcp_servers c')) d' c' \<or>
      e = PCP_ERR_SUCCESS \<and> (\<exists>i xs. chained c0 d i d' c' xs) \<and> (\<exists>j. \<not> w_alloc c0 j)"
    ultimately show "case x of (e, d', c') \<Rightarrow> e = PCP_ERR_MAX_SIZE \<and> (\<exists>xs. chained c0 d (length (c_pcp_servers c0)) d' c' xs) \<or>
      e = PCP_ERR_SUCCESS \<and> (\<exists>i xs. chained c0 d i d' c' xs) \<and> (\<exists>j. \<not> w_alloc c0 j)"
      unfolding x prod.case by metis
  qed
qed


section \<open>New flows\<close>

text \<open>
  \<open>new_flows ks fp c c'\<close>: the list at \<open>fp\<close> consists of new flows of the table, with the indices and
  keys \<open>ks\<close>; the flows that were there before are there with the same keys, and what was a handle
  still is one.
\<close>

definition new_flows :: "(u32 \<times> flow_key_data) list \<Rightarrow> fid option \<Rightarrow> pcp_ctx \<Rightarrow> pcp_ctx \<Rightarrow> bool" where
  "new_flows ks fp c c' \<longleftrightarrow> (\<exists>xs. kids (c_heap c') fp xs \<and> map (db_key c') xs = ks \<and> set xs \<inter> db_alloc c = {} \<and>
     db_alloc c' = db_alloc c \<union> set xs \<and> db_flows c' = db_flows c \<union> set xs \<and> (\<forall>q\<in>db_alloc c. db_key c' q = db_key c q)) \<and>
     (\<forall>p. fp = Some p \<longrightarrow> handle c' p) \<and> (\<forall>p. handle c p \<longrightarrow> handle c' p)"

lemma chained_new_flows:
  assumes "chained c0 d0 i d c xs"
  shows "new_flows (flow_keys (cd_kd d0) (take i (c_pcp_servers c0))) (cd_ffirst d) c0 c"
proof -
  have c: "kids (c_heap c) (cd_ffirst d) xs" "set xs \<inter> db_alloc c0 = {}" "db_alloc c = db_alloc c0 \<union> set xs"
    "\<And>q. q \<notin> set xs \<Longrightarrow> kid_of c q = kid_of c0 q" using assms by (auto simp: chained_def)
  have "handle c p" if "handle c0 p" for p
  proof -
    have p: "p \<in> db_alloc c0" using that by (auto simp: handle_def db_alloc_def)
    then have "c_heap c p \<noteq> None" using c(3) by (auto simp: db_alloc_def)
    moreover have "kid_of c q \<noteq> Some p" for q
      using kids_closed [OF c(1), of q p] c(2,4) p that by (cases "q \<in> set xs") (auto simp: handle_def)
    ultimately show ?thesis by (simp add: handle_def)
  qed
  then show ?thesis using assms unfolding new_flows_def chained_def by blast
qed

text \<open>Giving up: the flows created so far are deleted, and the table is as before.\<close>

lemma chained_delete:
  assumes "chained c0 d0 i d c xs"
  shows "runs (pcp_delete_flow (cd_ffirst d) c) (\<lambda>c'. api_inv c' \<and> db_alloc c' = db_alloc c0 \<and> db_flows c' = db_flows c0 \<and>
     kid_of c' = kid_of c0)"
proof -
  have c: "api_inv c" "kids (c_heap c) (cd_ffirst d) xs" "set xs \<inter> db_alloc c0 = {}" "db_alloc c = db_alloc c0 \<union> set xs"
    "db_flows c = db_flows c0 \<union> set xs" "\<And>q. q \<notin> set xs \<Longrightarrow> kid_of c q = kid_of c0 q"
    "\<And>p. cd_ffirst d = Some p \<Longrightarrow> handle c p" using assms by (auto simp: chained_def)
  have "runs (delete_flow_loop (cd_ffirst d) c) (\<lambda>c'. api_inv c' \<and> db_flows c' = db_flows c - set xs \<and>
      db_alloc c' = db_alloc c - set xs \<and> (\<forall>q. q \<notin> set xs \<longrightarrow> kid_of c' q = kid_of c q) \<and> w_tod c' = w_tod c)"
    by (rule delete_flow_loop_runs [OF c(1,2)]) (rule c(7))
  then show ?thesis
    unfolding pcp_delete_flow_def
  proof (rule runs_mono, elim conjE)
    fix c' assume c': "api_inv c'" "db_flows c' = db_flows c - set xs" "db_alloc c' = db_alloc c - set xs"
      "\<forall>q. q \<notin> set xs \<longrightarrow> kid_of c' q = kid_of c q"
    have sub: "db_flows c0 \<subseteq> db_alloc c0" by (auto simp: db_flows_def db_alloc_def)
    have "kid_of c' q = kid_of c0 q" for q
    proof (cases "q \<in> set xs")
      case True
      then have "q \<notin> db_alloc c'" "q \<notin> db_alloc c0" using c' c(3) by auto
      then show ?thesis by (simp add: kid_of_def db_alloc_def domIff)
    qed (use c' c(6) in simp)
    then show "api_inv c' \<and> db_alloc c' = db_alloc c0 \<and> db_flows c' = db_flows c0 \<and> kid_of c' = kid_of c0"
      using c' c(3,4,5) sub by (intro conjI ext) auto
  qed
qed

text \<open>The key that a request is for, before the address of a server enters it.\<close>

definition requested_key :: "sockaddr \<Rightarrow> sockaddr option \<Rightarrow> u8 \<Rightarrow> pcp_ctx \<Rightarrow> flow_key_data option result" where
  "requested_key src dst protocol c =
     (let (ip, port, scope) = pcp_fill_in6_addr (in6_zero, 0, 0) src;
          kd = kd_zero\<lparr>k_src_ip := ip, k_scope_id := scope,
                 k_map_peer := (k_map_peer kd_zero)\<lparr>mp_src_port := port, mp_protocol := protocol\<rparr>\<rparr>
      in case usable_dst dst of
           Some d \<Rightarrow> peer_key src d kd c
         | None \<Rightarrow> Some (Some (kd\<lparr>k_operation := PCP_OPCODE_MAP\<rparr>), c))"

lemma quiet_route: "ctx_inv c \<Longrightarrow> quiet c (c\<lparr>w_route_i := n\<rparr>)"
  by (simp add: quiet_def keeps_def)

lemma findsaddr6_quiet: "ctx_inv c \<Longrightarrow> yields (findsaddr6 to c) (\<lambda>(r, c'). quiet c c')"
  by (auto simp: findsaddr6_def route_next_def Let_def quiet_refl quiet_route split: sockaddr.split)

lemma peer_key_quiet:
  assumes "ctx_inv c"
  shows "yields (peer_key src dst kd c) (\<lambda>(r, c'). quiet c c' \<and> (\<forall>k. r = Some k \<longrightarrow> k_operation k = PCP_OPCODE_PEER))"
proof -
  have v4: "quiet c (snd (findsaddr dst c))" using assms by (simp add: findsaddr_def route_next_def Let_def quiet_route)
  have v6: "yields (findsaddr6 dst c) (\<lambda>x. quiet c (snd x))" using findsaddr6_quiet [OF assms] by (simp add: case_prod_unfold)
  show ?thesis
    using v4 v6 quiet_refl [OF assms]
    by (cases src) (auto simp: peer_key_def Let_def case_prod_unfold elim!: yields_mono split: option.split)
qed

lemma requested_key_quiet:
  assumes "requested_key src dst protocol c = Some (r, c')" "ctx_inv c"
  shows "quiet c c' \<and> (\<forall>kd. r = Some kd \<longrightarrow> k_operation kd = PCP_OPCODE_MAP \<or> k_operation kd = PCP_OPCODE_PEER)"
proof (cases "usable_dst dst")
  case None
  then show ?thesis using assms quiet_refl by (auto simp: requested_key_def Let_def case_prod_unfold)
next
  case (Some d)
  then obtain kd where "peer_key src d kd c = Some (r, c')" using assms(1) by (auto simp: requested_key_def Let_def case_prod_unfold)
  from yieldsD [OF peer_key_quiet [OF assms(2)] this] show ?thesis by simp
qed

lemma pcp_new_flow_core:
  assumes inv: "api_inv c" and key: "requested_key src dst protocol c = Some (Some kd, c1)"
    and ext: "default_ext src ext_addr \<noteq> None"
  shows "\<exists>fp c'. pcp_new_flow (Some src) dst ext_addr protocol lifetime userdata c = Some (fp, c') \<and> api_inv c' \<and>
    (new_flows (flow_keys kd (c_pcp_servers c)) fp c c' \<or>
     (\<exists>i. \<not> w_alloc c i) \<and> fp = None \<and> db_alloc c' = db_alloc c \<and> db_flows c' = db_flows c \<and> (\<forall>p. handle c p \<longrightarrow> handle c' p))"
proof -
  obtain ea where ea: "default_ext src ext_addr = Some ea" using ext by blast
  define d where "d = \<lparr>cd_kd = kd, cd_fprev = None, cd_ffirst = None, cd_lifetime = lifetime, cd_ext_addr = Some ea,
    cd_toler_fields = 0, cd_app_name = None, cd_userdata = userdata\<rparr>"
  have "ctx_inv c" using inv by (simp add: api_inv_def)
  note rk = requested_key_quiet [OF key this]
  have fits: "ext_fits (cd_kd d) (cd_ext_addr d)" using rk by (auto simp: d_def ext_fits_def)
  have run: "pcp_new_flow (Some src) dst ext_addr protocol lifetime userdata c =
    Option.bind (pcp_db_foreach_server chain_and_assign_src_ip d c1) (\<lambda>(r, d, c).
      if r \<noteq> PCP_ERR_MAX_SIZE then Option.bind (pcp_delete_flow (cd_ffirst d) c) (\<lambda>c. Some (None, c))
      else Some (cd_ffirst d, c))"
    using key by (simp add: pcp_new_flow_def requested_key_def Let_def case_prod_unfold ea d_def)
  have "quiet c c1" "cd_ffirst d = None" "cd_fprev d = None" using rk by (simp_all add: d_def)
  from chain_all [OF inv this fits] obtain x where x: "pcp_db_foreach_server chain_and_assign_src_ip d c1 = Some x"
      "case x of (e, d', c') \<Rightarrow> e = PCP_ERR_MAX_SIZE \<and> (\<exists>xs. chained c d (length (c_pcp_servers c)) d' c' xs) \<or>
       e = PCP_ERR_SUCCESS \<and> (\<exists>i xs. chained c d i d' c' xs) \<and> (\<exists>j. \<not> w_alloc c j)" by (rule runsE)
  obtain e d' c' where "x = (e, d', c')" by (cases x) auto
  with x have fe: "pcp_db_foreach_server chain_and_assign_src_ip d c1 = Some (e, d', c')"
      "e = PCP_ERR_MAX_SIZE \<and> (\<exists>xs. chained c d (length (c_pcp_servers c)) d' c' xs) \<or>
       e = PCP_ERR_SUCCESS \<and> (\<exists>i xs. chained c d i d' c' xs) \<and> (\<exists>j. \<not> w_alloc c j)" by simp_all
  show ?thesis
  proof (cases "e = PCP_ERR_MAX_SIZE")
    case True
    then obtain xs where ch: "chained c d (length (c_pcp_servers c)) d' c' xs" using fe(2) by auto
    from chained_new_flows [OF ch] have "new_flows (flow_keys kd (c_pcp_servers c)) (cd_ffirst d') c c'" by (simp add: d_def)
    moreover have "api_inv c'" using ch by (simp add: chained_def)
    ultimately show ?thesis using run fe(1) True by simp
  next
    case False
    then obtain i xs where ch: "chained c d i d' c' xs" and oom: "\<exists>j. \<not> w_alloc c j" using fe(2) by auto
    from chained_delete [OF ch] obtain c2 where c2: "pcp_delete_flow (cd_ffirst d') c' = Some c2" "api_inv c2"
      "db_alloc c2 = db_alloc c" "db_flows c2 = db_flows c" "kid_of c2 = kid_of c" by (auto elim!: runsE)
    have "handle c2 p" if "handle c p" for p
    proof -
      have "p \<in> db_alloc c" using that by (auto simp: handle_def db_alloc_def)
      then have "p \<in> db_alloc c2" using c2(3) by simp
      then show ?thesis using that c2(5) by (auto simp: handle_def db_alloc_def)
    qed
    then show ?thesis using run fe(1) False c2 oom by simp
  qed
qed


text \<open>C4: \<open>pcp_new_flow\<close> creates exactly one flow for every server in use that works and has the address
  family and scope of the request, in the order of the server array: each enters the flow table under
  the key of the request, completed by the server's address and nonce, and the handle is the first of
  them (null when no server fits). When memory runs out in the middle, the flows created so far are
  deleted again, the null handle is returned and the table holds the flows it held before. In both
  cases the context stays in order and older handles stay valid.\<close>

theorem pcp_new_flow_correct:
  assumes inv: "api_inv c" and key: "requested_key src dst protocol c = Some (Some kd, c1)"
    and ext: "default_ext src ext_addr \<noteq> None"
  shows "\<exists>fp c'. pcp_new_flow (Some src) dst ext_addr protocol lifetime userdata c = Some (fp, c') \<and> api_inv c' \<and>
    (new_flows (flow_keys kd (c_pcp_servers c)) fp c c' \<or>
     (\<exists>i. \<not> w_alloc c i) \<and> fp = None \<and> db_alloc c' = db_alloc c \<and> db_flows c' = db_flows c \<and> (\<forall>p. handle c p \<longrightarrow> handle c' p))"
  by (rule pcp_new_flow_core [OF assms])

lemma ctx_one_server_api: "api_inv ctx_one_server"
  using ctx_one_server_inv
  by (simp add: api_inv_def spare_ok_def kids_inj_def kid_of_def ctx_one_server_def ctx_start_def server_zero_def spare_ping_def)

theorem pcp_new_flow_correct_witness:
  "\<exists>p c'. pcp_new_flow (Some (SA_in6 80 (In6 1 2 3 4) 0)) None None 6 900 0 ctx_one_server = Some (Some p, c') \<and> api_inv c' \<and>
     handle c' p \<and> db_flows c' \<noteq> {}"
proof -
  let ?c = ctx_one_server
  let ?kd = "kd_zero\<lparr>k_src_ip := In6 1 2 3 4, k_scope_id := 0,
     k_map_peer := (k_map_peer kd_zero)\<lparr>mp_src_port := 80, mp_protocol := 6\<rparr>, k_operation := PCP_OPCODE_MAP\<rparr>"
  have 1: "requested_key (SA_in6 80 (In6 1 2 3 4) 0) None 6 ?c = Some (Some ?kd, ?c)"
    by (simp add: requested_key_def Let_def)
  have 2: "default_ext (SA_in6 80 (In6 1 2 3 4) 0) None \<noteq> None" by simp
  have 3: "length (flow_keys ?kd (c_pcp_servers ?c)) = 1"
    by (simp add: flow_keys_def List.map_filter_def ctx_one_server_def server_zero_def caasi_key_def Let_def
        IPV6_IS_ADDR_ANY_def have_same_af_def IN6_IS_ADDR_V4MAPPED_def) code_simp
  have 4: "\<forall>i. w_alloc ?c i" by (simp add: ctx_one_server_def ctx_start_def)
  from pcp_new_flow_correct [OF ctx_one_server_api 1 2, of 900 0] 4 obtain fp c' where
    r: "pcp_new_flow (Some (SA_in6 80 (In6 1 2 3 4) 0)) None None 6 900 0 ?c = Some (fp, c')" "api_inv c'"
      "new_flows (flow_keys ?kd (c_pcp_servers ?c)) fp ?c c'" by blast
  from r(3) obtain xs where xs: "kids (c_heap c') fp xs" "map (db_key c') xs = flow_keys ?kd (c_pcp_servers ?c)"
    "db_flows c' = db_flows ?c \<union> set xs" "\<forall>p. fp = Some p \<longrightarrow> handle c' p"
    unfolding new_flows_def by blast
  have "length xs = 1" using 3 arg_cong [OF xs(2), of length] by simp
  then obtain p where "xs = [p]" by (cases xs) auto
  then show ?thesis using r xs by auto
qed


text \<open>
  \<open>pcp_learn_dscp\<close> does not look at the result of the iteration: without memory it returns the flows for
  the servers that came before.
\<close>

lemma pcp_learn_dscp_creates:
  assumes inv: "api_inv c"
  shows "\<exists>fp c' n. pcp_learn_dscp delay loss jitter name c = Some (fp, c') \<and> api_inv c' \<and>
    new_flows (flow_keys (kd_zero\<lparr>k_operation := PCP_OPCODE_SADSCP\<rparr>) (take n (c_pcp_servers c))) fp c c' \<and>
    ((\<forall>i. w_alloc c i) \<longrightarrow> n = length (c_pcp_servers c))"
proof -
  define d where "d = \<lparr>cd_kd = kd_zero\<lparr>k_operation := PCP_OPCODE_SADSCP\<rparr>, cd_fprev = None, cd_ffirst = None,
     cd_lifetime = 0, cd_ext_addr = None, cd_toler_fields = push_bit 6 (delay AND 3) OR push_bit 4 (loss AND 3)
       OR push_bit 2 (jitter AND 3), cd_app_name = name, cd_userdata = 0\<rparr>"
  have d: "cd_kd d = kd_zero\<lparr>k_operation := PCP_OPCODE_SADSCP\<rparr>" "cd_ffirst d = None" "cd_fprev d = None"
    "ext_fits (cd_kd d) (cd_ext_addr d)" by (simp_all add: d_def ext_fits_def)
  have "quiet c c" using inv quiet_refl by (simp add: api_inv_def)
  from chain_all [OF inv this d(2-4)] obtain x where x: "pcp_db_foreach_server chain_and_assign_src_ip d c = Some x"
      "case x of (e, d', c') \<Rightarrow> e = PCP_ERR_MAX_SIZE \<and> (\<exists>xs. chained c d (length (c_pcp_servers c)) d' c' xs) \<or>
       e = PCP_ERR_SUCCESS \<and> (\<exists>i xs. chained c d i d' c' xs) \<and> (\<exists>j. \<not> w_alloc c j)" by (rule runsE)
  obtain e d' c' where x': "x = (e, d', c')" by (cases x) auto
  with x(2) obtain n xs where ch: "chained c d n d' c' xs" and n: "(\<forall>i. w_alloc c i) \<longrightarrow> n = length (c_pcp_servers c)"
    unfolding prod.case by blast
  have "pcp_learn_dscp delay loss jitter name c = Some (cd_ffirst d', c')"
    using x(1) unfolding pcp_learn_dscp_def d_def [symmetric] x' by simp
  moreover have "api_inv c'" using ch by (simp add: chained_def)
  ultimately show ?thesis using chained_new_flows [OF ch] n unfolding d(1) by blast
qed

section \<open>Deleting flows\<close>

lemma pcp_delete_flow_core:
  assumes inv: "api_inv c" and h: "handle c p" and xs: "kids (c_heap c) (Some p) xs"
  shows "\<exists>c'. pcp_delete_flow (Some p) c = Some c' \<and> api_inv c' \<and> db_flows c' = db_flows c - set xs \<and>
    db_alloc c' = db_alloc c - set xs \<and> (\<forall>q. handle c q \<and> q \<noteq> p \<longrightarrow> handle c' q)"
proof -
  from delete_flow_loop_runs [OF inv xs] h obtain c' where
    c': "delete_flow_loop (Some p) c = Some c'" "api_inv c'" "db_flows c' = db_flows c - set xs"
      "db_alloc c' = db_alloc c - set xs" "\<And>q. q \<notin> set xs \<Longrightarrow> kid_of c' q = kid_of c q"
    by (auto elim!: runsE)
  have "handle c' q" if q: "handle c q" "q \<noteq> p" for q
  proof -
    have nq: "q \<notin> set xs" using kids_parent [OF xs, of q] q by (auto simp: handle_def)
    moreover have "q \<in> db_alloc c" using q(1) by (auto simp: handle_def db_alloc_def)
    ultimately have "c_heap c' q \<noteq> None" using c'(4) by (auto simp: db_alloc_def dom_def set_eq_iff)
    moreover have "kid_of c' r \<noteq> Some q" for r
    proof (cases "r \<in> set xs")
      case True
      then have "r \<notin> db_alloc c'" using c'(4) by simp
      then show ?thesis by (simp add: kid_of_def db_alloc_def domIff)
    qed (use c'(5) q(1) in \<open>simp add: handle_def\<close>)
    ultimately show ?thesis by (simp add: handle_def)
  qed
  then show ?thesis using c' by (simp add: pcp_delete_flow_def)
qed

text \<open>C20: \<open>pcp_delete_flow\<close> of a handle frees exactly the flows of its list and takes them out of the table;
  the context stays in order, in particular no server keeps one of them as its ping flow, and every
  other handle stays valid.\<close>

theorem pcp_delete_flow_correct:
  assumes inv: "api_inv c" and h: "handle c p" and xs: "kids (c_heap c) (Some p) xs"
  shows "\<exists>c'. pcp_delete_flow (Some p) c = Some c' \<and> api_inv c' \<and> db_flows c' = db_flows c - set xs \<and>
    db_alloc c' = db_alloc c - set xs \<and> (\<forall>q. handle c q \<and> q \<noteq> p \<longrightarrow> handle c' q)"
  using assms by (rule pcp_delete_flow_core)

text \<open>A context with one server and one flow.\<close>

definition ctx_idle_flow :: pcp_ctx where
  "ctx_idle_flow = ctx_one_server\<lparr>c_heap := [0 \<mapsto> flow_zero\<lparr>f_key_bucket := EMPTY\<rparr>], c_brk := 1\<rparr>"

lemma ctx_idle_flow_api: "api_inv ctx_idle_flow" "handle ctx_idle_flow 0"
proof -
  have z: "msg_ok (flow_zero\<lparr>f_key_bucket := EMPTY\<rparr>)" "f_next_child (flow_zero\<lparr>f_key_bucket := EMPTY\<rparr>) = None"
    using flow_zero_ok by (simp_all add: place_defs flow_zero_def)
  have eq: "ctx_idle_flow = ctx_one_server\<lparr>c_heap := (c_heap ctx_one_server)(c_brk ctx_one_server \<mapsto> flow_zero\<lparr>f_key_bucket := EMPTY\<rparr>),
      c_brk := Suc (c_brk ctx_one_server)\<rparr>"
    by (simp add: ctx_idle_flow_def) (simp add: ctx_one_server_def ctx_start_def)
  from new_cell_keeps(1) [OF ctx_one_server_inv z(1) _ z(2) eq] have "keeps ctx_one_server ctx_idle_flow" by simp
  from keeps_api [OF ctx_one_server_api this] show "api_inv ctx_idle_flow" .
  show "handle ctx_idle_flow 0" using z(2) by (simp add: handle_def kid_of_def ctx_idle_flow_def)
qed

theorem pcp_delete_flow_correct_witness:
  "\<exists>c'. pcp_delete_flow (Some 0) ctx_idle_flow = Some c' \<and> api_inv c' \<and> db_alloc c' = {}"
proof -
  have "kids (c_heap ctx_idle_flow) (Some 0) [0]" by (simp add: ctx_idle_flow_def flow_zero_def)
  from pcp_delete_flow_correct [OF ctx_idle_flow_api this] show ?thesis
    by (auto simp: ctx_idle_flow_def db_alloc_def)
qed

end
