(* ===== verification/Register.thy ===== *)
theory Register
  imports Flow_Create
begin

text \<open>
  The registration of servers: what \<open>pcp_add_server\<close> and the discovery of gateways leave behind on every
  path, and that they preserve the invariant of the interface.
\<close>

section \<open>Steps that only touch the server array\<close>

text \<open>
  A registration changes the server array and draws on the oracles for memory, routes and random
  numbers; nothing else.
\<close>

definition only_servers :: "pcp_ctx \<Rightarrow> pcp_ctx \<Rightarrow> bool" where
  "only_servers c c' \<longleftrightarrow> c' = c\<lparr>c_pcp_servers := c_pcp_servers c', w_route_i := w_route_i c',
     w_alloc_i := w_alloc_i c', w_random_i := w_random_i c'\<rparr>"

lemma only_servers_frame:
  assumes "only_servers c c'"
  shows "c_heap c' = c_heap c" "c_flows c' = c_flows c" "c_flow_cnt c' = c_flow_cnt c" "c_brk c' = c_brk c"
    "w_sendto c' = w_sendto c" "w_tod c' = w_tod c" "w_alloc c' = w_alloc c" "w_route c' = w_route c"
    "c_msg c' = c_msg c" "w_sent c' = w_sent c"
proof -
  obtain vs n m k where "c' = c\<lparr>c_pcp_servers := vs, w_route_i := n, w_alloc_i := m, w_random_i := k\<rparr>"
    using assms unfolding only_servers_def by blast
  then show "c_heap c' = c_heap c" "c_flows c' = c_flows c" "c_flow_cnt c' = c_flow_cnt c" "c_brk c' = c_brk c"
    "w_sendto c' = w_sendto c" "w_tod c' = w_tod c" "w_alloc c' = w_alloc c" "w_route c' = w_route c"
    "c_msg c' = c_msg c" "w_sent c' = w_sent c" by simp_all
qed

lemma only_servers_refl [simp]: "only_servers c c"
  by (simp add: only_servers_def)

lemma only_serversI:
  "c' = c\<lparr>c_pcp_servers := vs, w_route_i := n, w_alloc_i := m, w_random_i := k\<rparr> \<Longrightarrow> only_servers c c'"
  by (simp add: only_servers_def)

lemma only_servers_trans:
  assumes "only_servers a b" "only_servers b c" shows "only_servers a c"
proof -
  obtain vs n m k where b: "b = a\<lparr>c_pcp_servers := vs, w_route_i := n, w_alloc_i := m, w_random_i := k\<rparr>"
    using assms(1) unfolding only_servers_def by blast
  obtain vs' n' m' k' where "c = b\<lparr>c_pcp_servers := vs', w_route_i := n', w_alloc_i := m', w_random_i := k'\<rparr>"
    using assms(2) unfolding only_servers_def by blast
  then have "c = a\<lparr>c_pcp_servers := vs', w_route_i := n', w_alloc_i := m', w_random_i := k'\<rparr>" by (simp add: b)
  then show ?thesis by (rule only_serversI)
qed

lemma only_servers_same_db: "only_servers c c' \<Longrightarrow> same_db c c'"
  by (simp add: same_db_def only_servers_frame)

text \<open>
  An entry of the new array refers to a ping flow only if an entry of the old array with the same index
  did, and then it is in use.
\<close>

definition pings_from :: "pcp_server list \<Rightarrow> pcp_server list \<Rightarrow> bool" where
  "pings_from vs ws \<longleftrightarrow> (\<forall>w\<in>set ws. \<forall>p. s_ping_flow_msg w = Some p \<longrightarrow> s_server_state w \<noteq> pss_unitialized \<and>
     (\<exists>v\<in>set vs. s_ping_flow_msg v = Some p \<and> s_index v = s_index w))"

text \<open>The invariant of the interface but for the number of servers.\<close>

definition core_inv :: "pcp_ctx \<Rightarrow> bool" where
  "core_inv c \<longleftrightarrow> ctx_inv c \<and> spare_ok c \<and> kids_inj c"

lemma api_core: "api_inv c \<longleftrightarrow> core_inv c \<and> length (c_pcp_servers c) < 2 ^ 31"
  by (auto simp: api_inv_def core_inv_def)

lemma only_servers_core:
  assumes inv: "core_inv c" and only: "only_servers c c'" and pings: "pings_from (c_pcp_servers c) (c_pcp_servers c')"
    and sinv: "server_inv c'"
  shows "core_inv c'" "handle c p \<Longrightarrow> handle c' p"
proof -
  note fr = only_servers_frame [OF only]
  have kid: "kid_of c' = kid_of c" by (simp add: kid_of_def fr fun_eq_iff)
  have "db_inv c'" using inv same_db_inv [OF only_servers_same_db [OF only]] by (simp add: core_inv_def ctx_inv_def)
  moreover have "flows_ok c'" "world_ok c'" using inv by (auto simp: core_inv_def ctx_inv_def flows_ok_def world_ok_def fr)
  moreover have "ping_ok c'"
    unfolding ping_ok_def fr
  proof (intro ballI allI impI)
    fix w p assume "w \<in> set (c_pcp_servers c')" "s_ping_flow_msg w = Some p"
    then obtain v where "v \<in> set (c_pcp_servers c)" "s_ping_flow_msg v = Some p" "s_index v = s_index w"
      using pings unfolding pings_from_def by blast
    then show "\<exists>f. c_heap c p = Some f \<and> f_pcp_server_indx f = s_index w"
      using inv unfolding core_inv_def ctx_inv_def ping_ok_def by metis
  qed
  moreover have "spare_ok c'"
    using pings unfolding spare_ok_def spare_ping_def pings_from_def by (metis not_None_eq)
  moreover have "kids_inj c'" using inv kid by (simp add: core_inv_def kids_inj_def)
  ultimately show "core_inv c'" using sinv by (simp add: core_inv_def ctx_inv_def)
  show "handle c p \<Longrightarrow> handle c' p" by (simp add: handle_def kid fr)
qed


section \<open>The entry of a server\<close>

lemma pcp_new_server_only:
  "runs (pcp_new_server ip port scope c) (\<lambda>(r, c'). only_servers c c' \<and>
     (r = errno_code PCP_ERR_NO_MEM \<and> c_pcp_servers c' = c_pcp_servers c \<and> (\<exists>i. \<not> w_alloc c i) \<or>
      r = int (new_server_index c) \<and> (\<exists>n. c_pcp_servers c' = (new_server_array c)
        [new_server_index c := init_server ip port scope n (new_server_index c)
          (new_server_array c ! new_server_index c)])))"
proof -
  note bd = new_server_index_bound [of c]
  consider "c_pcp_servers c = []" | "c_pcp_servers c \<noteq> []" "first_unused (c_pcp_servers c) = None"
    | i where "c_pcp_servers c \<noteq> []" "first_unused (c_pcp_servers c) = Some i"
    by fastforce
  then show ?thesis
    using bd
    by cases (auto simp: pcp_new_server_def servers_ready_def new_server_index_def
        new_server_array_def server_slot_def alloc_next_def createNonce_def random_next_def
        upd_server_def init_server_def only_servers_def Let_def)
qed

text \<open>The fields of an entry that the choice of the source address does not change.\<close>

definition server_peer :: "pcp_server \<Rightarrow> in6_addr \<times> u16 \<times> u8 \<times> pcp_nonce \<times> u32 \<times> fid option" where
  "server_peer v = (s_pcp_ip v, s_pcp_port v, s_pcp_version v, s_nonce v, s_index v, s_ping_flow_msg v)"

text \<open>The source address is the one that the kernel's routing gives for the server, the server itself on the loopback.\<close>

definition routed_src :: "in6_addr \<Rightarrow> u32 \<Rightarrow> pcp_ctx \<Rightarrow> in6_addr \<Rightarrow> bool" where
  "routed_src ip scope c src \<longleftrightarrow> (if IN6_IS_ADDR_LOOPBACK ip then src = ip
     else \<exists>port sc. rl_getsockname (w_route c (w_route_i c)) (SA_in6 (htons 65535) ip scope) = Some (SA_in6 port src sc))"

lemma routed_src_servers [simp]: "routed_src ip scope (c\<lparr>c_pcp_servers := vs\<rparr>) src = routed_src ip scope c src"
  by (simp add: routed_src_def)

definition filled :: "pcp_ctx \<Rightarrow> pcp_server \<Rightarrow> pcp_errno \<Rightarrow> pcp_server \<Rightarrow> bool" where
  "filled c v e w \<longleftrightarrow> server_peer w = server_peer v \<and>
     (if e = PCP_ERR_SUCCESS
      then s_server_state w = pss_ping \<and> s_next_timeout w = tv_zero \<and>
           s_pcp_server_saddr w = SA_in6 (s_pcp_port v) (s_pcp_ip v) (s_pcp_scope_id v) \<and>
           routed_src (s_pcp_ip v) (s_pcp_scope_id v) c (s_src_ip w)
      else s_server_state w = s_server_state v)"

lemma findsaddr6_runs:
  "runs (findsaddr6 (SA_in6 port ip scope) c) (\<lambda>(r, c'). (\<exists>n. c' = c\<lparr>w_route_i := n\<rparr>) \<and>
     (\<forall>src sc. r = Some (src, sc) \<longrightarrow> routed_src ip scope c src))"
proof (cases "IN6_IS_ADDR_LOOPBACK ip")
  case True
  have "\<exists>n. c = c\<lparr>w_route_i := n\<rparr>" by (rule exI [of _ "w_route_i c"]) simp
  then show ?thesis using True by (auto simp: findsaddr6_def routed_src_def)
next
  case False
  then show ?thesis
    by (auto simp: findsaddr6_def route_next_def routed_src_def Let_def split: option.splits sockaddr.splits if_splits)
qed

lemma psd_fill_runs:
  assumes s: "s < length (c_pcp_servers c)"
  shows "runs (psd_fill_pcp_server_src (Some s) c) (\<lambda>(e, c'). only_servers c c' \<and>
    (\<exists>w. c_pcp_servers c' = (c_pcp_servers c)[s := w] \<and> filled c (c_pcp_servers c ! s) e w))"
proof -
  let ?v = "c_pcp_servers c ! s"
  let ?a = "SA_in6 (s_pcp_port ?v) (s_pcp_ip ?v) (s_pcp_scope_id ?v)"
  let ?vz = "?v\<lparr>s_pcp_server_saddr := SA_in6 0 in6_zero 0\<rparr>" and ?vn = "?v\<lparr>s_pcp_server_saddr := ?a\<rparr>"
  let ?cz = "c\<lparr>c_pcp_servers := (c_pcp_servers c)[s := ?vz]\<rparr>" and ?cn = "c\<lparr>c_pcp_servers := (c_pcp_servers c)[s := ?vn]\<rparr>"
  have saddr: "pcp_fill_sockaddr (s_pcp_ip ?v) (s_pcp_port ?v) True (s_pcp_scope_id ?v) = ?a"
    by (simp add: pcp_fill_sockaddr_def)
  have upd: "upd_server s g d = Some (d\<lparr>c_pcp_servers := (c_pcp_servers d)[s := g (c_pcp_servers d ! s)]\<rparr>)"
      "rd_server s d = Some (c_pcp_servers d ! s)" if "length (c_pcp_servers d) = length (c_pcp_servers c)" for g d
    using s that by (simp_all add: upd_server_def rd_server_def)
  have only: "only_servers c (c\<lparr>c_pcp_servers := vs, w_route_i := n\<rparr>)" "only_servers c (c\<lparr>c_pcp_servers := vs\<rparr>)" for vs n
    by (simp_all add: only_servers_def)
  show ?thesis
  proof (cases "s_af_inet6 ?v")
    case False
    have "filled c ?v PCP_ERR_BAD_AFINET ?vz" by (simp add: filled_def server_peer_def)
    moreover have "psd_fill_pcp_server_src (Some s) c = Some (PCP_ERR_BAD_AFINET, ?cz)"
      using False s by (simp add: psd_fill_pcp_server_src_def upd)
    ultimately show ?thesis using only(2) by (simp add: exI [of _ ?vz])
  next
    case True
    from findsaddr6_runs [of "s_pcp_port ?v" "s_pcp_ip ?v" "s_pcp_scope_id ?v" ?cn] obtain r n where
      f: "findsaddr6 ?a ?cn = Some (r, ?cn\<lparr>w_route_i := n\<rparr>)"
        "\<And>src sc. r = Some (src, sc) \<Longrightarrow> routed_src (s_pcp_ip ?v) (s_pcp_scope_id ?v) ?cn src"
      by (auto elim!: runsE)
    have fill: "psd_fill_pcp_server_src (Some s) c = Option.bind (findsaddr6 ?a ?cn) (\<lambda>(r, c).
        case r of None \<Rightarrow> Some (PCP_ERR_UNKNOWN, c)
        | Some (src_ip, src_scope) \<Rightarrow> Option.bind (upd_server s (\<lambda>v. v\<lparr>s_src_ip := src_ip,
              s_pcp_scope_id := (if s_pcp_scope_id v = 0 \<and> IN6_IS_ADDR_LINKLOCAL src_ip
                 then (case src_scope of None \<Rightarrow> 0 | Some x \<Rightarrow> x) else s_pcp_scope_id v),
              s_server_state := pss_ping, s_next_timeout := tv_zero\<rparr>) c) (\<lambda>c. Some (PCP_ERR_SUCCESS, c)))"
      using True s unfolding psd_fill_pcp_server_src_def Let_def by (simp add: upd saddr)
    show ?thesis
    proof (cases r)
      case None
      have "filled c ?v PCP_ERR_UNKNOWN ?vn" by (simp add: filled_def server_peer_def)
      then show ?thesis unfolding fill f(1) using None only(1) by auto
    next
      case (Some x)
      obtain src sc where x: "x = (src, sc)" by (cases x)
      let ?w = "?vn\<lparr>s_src_ip := src, s_pcp_scope_id := (if s_pcp_scope_id ?v = 0 \<and> IN6_IS_ADDR_LINKLOCAL src
                 then (case sc of None \<Rightarrow> 0 | Some x \<Rightarrow> x) else s_pcp_scope_id ?v),
              s_server_state := pss_ping, s_next_timeout := tv_zero\<rparr>"
      have "routed_src (s_pcp_ip ?v) (s_pcp_scope_id ?v) c src" using f(2) Some x by simp
      then have "filled c ?v PCP_ERR_SUCCESS ?w" by (simp add: filled_def server_peer_def)
      moreover have "psd_fill_pcp_server_src (Some s) c =
          Some (PCP_ERR_SUCCESS, c\<lparr>c_pcp_servers := (c_pcp_servers c)[s := ?w], w_route_i := n\<rparr>)"
        unfolding fill f(1) using Some x s by (simp add: upd)
      ultimately show ?thesis using only(1) by auto
    qed
  qed
qed


section \<open>Adding a server\<close>

lemma pings_from_refl:
  assumes "spare_ok c" shows "pings_from (c_pcp_servers c) (c_pcp_servers c)"
  using assms unfolding pings_from_def spare_ok_def spare_ping_def by force

lemma pings_from_update:
  assumes "pings_from vs ws" "s < length ws" "s_index w = s_index (ws ! s)" "s_ping_flow_msg w = s_ping_flow_msg (ws ! s)"
    "s_server_state w \<noteq> pss_unitialized \<or> s_ping_flow_msg w = None"
  shows "pings_from vs (ws[s := w])"
  unfolding pings_from_def
proof (intro ballI allI impI)
  fix x p assume x: "x \<in> set (ws[s := w])" "s_ping_flow_msg x = Some p"
  then consider "x \<in> set ws" | "x = w" using set_update_subset_insert by fast
  then show "s_server_state x \<noteq> pss_unitialized \<and> (\<exists>v\<in>set vs. s_ping_flow_msg v = Some p \<and> s_index v = s_index x)"
  proof cases
    case 1
    then show ?thesis using assms(1) x(2) unfolding pings_from_def by blast
  next
    case 2
    moreover have "ws ! s \<in> set ws" using assms(2) by simp
    ultimately show ?thesis using assms x(2) unfolding pings_from_def by auto
  qed
qed

lemma pings_from_none:
  assumes "pings_from vs ws" "s_ping_flow_msg w = None"
  shows "pings_from vs (ws[s := w])"
  using assms set_update_subset_insert [of ws s w] unfolding pings_from_def by fastforce

lemma new_entry_pings:
  assumes sp: "spare_ok c"
  shows "pings_from (c_pcp_servers c) ((new_server_array c)[new_server_index c :=
      init_server ip port scope n (new_server_index c) (new_server_array c ! new_server_index c)])"
    and "s_ping_flow_msg (new_server_array c ! new_server_index c) = None"
proof -
  let ?A = "new_server_array c" and ?j = "new_server_index c"
  have A: "v \<in> set (c_pcp_servers c) \<or> v = server_zero" if "v \<in> set ?A" for v
    using that by (auto simp: new_server_array_def servers_ready_def split: option.splits if_splits)
  have z: "s_ping_flow_msg server_zero = None" by (simp add: server_zero_def)
  have "?A ! ?j \<in> set ?A" using new_server_index_bound by simp
  with A sp z new_server_index_free [of c] show none: "s_ping_flow_msg (?A ! ?j) = None"
    by (force simp: spare_ok_def spare_ping_def)
  have "pings_from (c_pcp_servers c) ?A"
    using pings_from_refl [OF sp] A z unfolding pings_from_def by (metis option.distinct(1))
  then show "pings_from (c_pcp_servers c) (?A[?j := init_server ip port scope n ?j (?A ! ?j)])"
    by (rule pings_from_none) (simp add: init_server_def none)
qed

text \<open>
  An entry for the peer \<open>(ip, port)\<close> is at hand: its index and an array that differs from the old one in
  this entry only; the entry is the one found for the address, or one that was not in use.
\<close>

definition entry_at :: "in6_addr \<Rightarrow> u16 \<Rightarrow> pcp_ctx \<Rightarrow> nat option \<Rightarrow> nat \<Rightarrow> pcp_ctx \<Rightarrow> bool" where
  "entry_at ip port c found s c' \<longleftrightarrow> only_servers c c' \<and> w_route_i c' = w_route_i c \<and> s < length (c_pcp_servers c') \<and> server_inv c' \<and>
     length (c_pcp_servers c') \<le> 2 * length (c_pcp_servers c) + PCP_INIT_SERVER_COUNT \<and>
     length (c_pcp_servers c) \<le> length (c_pcp_servers c') \<and> pings_from (c_pcp_servers c) (c_pcp_servers c') \<and> s_pcp_ip (c_pcp_servers c' ! s) = ip \<and>
     s_pcp_port (c_pcp_servers c' ! s) = port \<and> s_server_state (c_pcp_servers c' ! s) \<noteq> pss_unitialized \<and>
     (case found of Some i \<Rightarrow> s = i \<and> length (c_pcp_servers c') = length (c_pcp_servers c)
      | None \<Rightarrow> \<not> in_use s c \<and> s_ping_flow_msg (c_pcp_servers c' ! s) = None) \<and>
     (\<forall>i<length (c_pcp_servers c). i \<noteq> s \<longrightarrow> c_pcp_servers c' ! i = c_pcp_servers c ! i)"

lemma find_first: "find P xs = Some x \<Longrightarrow> P x \<and> x \<in> set xs"
  by (metis find_Some_iff nth_mem)

lemma found_entry:
  assumes inv: "core_inv c" and f: "get_pcp_server_by_ip ip scope c = Some (Some s)"
  shows "runs (upd_server s (\<lambda>v. v\<lparr>s_pcp_port := port\<rparr>) c) (entry_at ip port c (Some s) s)"
proof -
  have s: "s < length (c_pcp_servers c)" "s_pcp_ip (c_pcp_servers c ! s) = ip"
      "s_server_state (c_pcp_servers c ! s) \<noteq> pss_unitialized"
    using f find_first unfolding get_pcp_server_by_ip_find by fastforce+
  let ?w = "(c_pcp_servers c ! s)\<lparr>s_pcp_port := port\<rparr>"
  have "spare_ok c" "server_inv c" using inv by (simp_all add: core_inv_def ctx_inv_def)
  moreover from this have "pings_from (c_pcp_servers c) ((c_pcp_servers c)[s := ?w])"
    using s by (intro pings_from_update pings_from_refl) auto
  moreover have "server_inv (c\<lparr>c_pcp_servers := (c_pcp_servers c)[s := ?w]\<rparr>)"
    using \<open>server_inv c\<close> s by (auto simp: server_inv_def nth_list_update)
  ultimately show ?thesis using s by (simp add: upd_server_def entry_at_def only_servers_def)
qed

lemma new_entry:
  assumes inv: "core_inv c"
  shows "runs (Option.bind (pcp_new_server ip port scope c)
      (\<lambda>(indx, c). Some (if indx \<ge> 0 then get_pcp_server indx c else None, c)))
    (\<lambda>(so, c'). case so of
       None \<Rightarrow> only_servers c c' \<and> c_pcp_servers c' = c_pcp_servers c \<and> (\<exists>i. \<not> w_alloc c i)
     | Some s \<Rightarrow> entry_at ip port c None s c')"
proof -
  let ?j = "new_server_index c" and ?A = "new_server_array c"
  from pcp_new_server_only [of ip port scope c] obtain r c1 where
    c1: "pcp_new_server ip port scope c = Some (r, c1)" "only_servers c c1"
      "r = errno_code PCP_ERR_NO_MEM \<and> c_pcp_servers c1 = c_pcp_servers c \<and> (\<exists>i. \<not> w_alloc c i) \<or>
       r = int ?j \<and> (\<exists>n. c_pcp_servers c1 = ?A[?j := init_server ip port scope n ?j (?A ! ?j)])"
    by (auto elim!: runsE)
  have route: "w_route_i c1 = w_route_i c"
    using c1(1) unfolding pcp_new_server_def
    by (auto simp: Let_def server_slot_def alloc_next_def createNonce_def random_next_def upd_server_def
        split: if_splits option.splits)
  show ?thesis
  proof (cases "r = int ?j")
    case False
    then have "r < 0" "c_pcp_servers c1 = c_pcp_servers c" "\<exists>i. \<not> w_alloc c i" using c1(3) by auto
    then show ?thesis using c1(1,2) by simp
  next
    case True
    then obtain n where vs: "c_pcp_servers c1 = ?A[?j := init_server ip port scope n ?j (?A ! ?j)]" using c1(3) by auto
    have sp: "spare_ok c" "server_inv c" using inv by (simp_all add: core_inv_def ctx_inv_def)
    have "\<not> in_use ?j c" using new_server_index_free [of c] new_server_array_keeps [of ?j c] by (auto simp: in_use_def)
    moreover have "length ?A \<le> 2 * length (c_pcp_servers c) + PCP_INIT_SERVER_COUNT" "length (c_pcp_servers c) \<le> length ?A"
      by (simp_all add: new_server_array_def servers_ready_def split: option.split)
    ultimately have "entry_at ip port c None ?j c1"
      using c1(2) route new_server_index_bound [of c] new_server_inv [OF sp(2) vs] new_entry_pings [OF sp(1)] new_server_array_keeps
      unfolding entry_at_def vs by (auto simp: init_server_def)
    moreover have "get_pcp_server r c1 = Some ?j"
      using True vs new_server_index_bound [of c] by (simp add: get_pcp_server_Some init_server_def)
    ultimately show ?thesis using c1(1) True by simp
  qed
qed


text \<open>The entry that a successful registration leaves behind.\<close>

definition registered :: "in6_addr \<Rightarrow> u16 \<Rightarrow> u8 \<Rightarrow> pcp_ctx \<Rightarrow> pcp_server \<Rightarrow> bool" where
  "registered ip port version c w \<longleftrightarrow> s_pcp_ip w = ip \<and> s_pcp_port w = port \<and> s_pcp_version w = version \<and>
     s_server_state w = pss_ping \<and> s_next_timeout w = tv_zero \<and>
     (\<exists>sc. s_pcp_server_saddr w = SA_in6 port ip sc \<and> routed_src ip sc c (s_src_ip w))"

lemma server_inv_update:
  assumes "server_inv c" "s < length (c_pcp_servers c)" "c_pcp_servers c' = (c_pcp_servers c)[s := w]"
    "s_index w = s_index (c_pcp_servers c ! s)" "s_server_state (c_pcp_servers c ! s) \<noteq> pss_unitialized"
  shows "server_inv c'"
  using assms by (auto simp: server_inv_def nth_list_update)

lemma entry_update:
  assumes e: "entry_at ip port c found s c1" and c2: "only_servers c1 c2" "c_pcp_servers c2 = (c_pcp_servers c1)[s := w]"
    and w: "s_index w = s_index (c_pcp_servers c1 ! s)" "s_ping_flow_msg w = s_ping_flow_msg (c_pcp_servers c1 ! s)"
      "s_server_state w \<noteq> pss_unitialized \<or> found = None"
    and inv: "core_inv c"
  shows "core_inv c2 \<and> (\<forall>p. handle c p \<longrightarrow> handle c2 p)"
proof -
  have only: "only_servers c c2" using e c2(1) only_servers_trans by (auto simp: entry_at_def)
  have pings: "pings_from (c_pcp_servers c) (c_pcp_servers c2)"
    unfolding c2(2) using e w by (intro pings_from_update) (auto simp: entry_at_def)
  have sinv: "server_inv c2" using server_inv_update [OF _ _ c2(2) w(1)] e by (simp add: entry_at_def)
  show ?thesis using only_servers_core [OF inv only pings sinv] by blast
qed

lemma register_entry:
  assumes e: "entry_at ip port c found s c1" and inv: "api_inv c" and room: "length (c_pcp_servers c) < 2 ^ 29"
  shows "runs (do {
      c \<leftarrow> upd_server s (\<lambda>v. v\<lparr>s_pcp_version := version, s_server_state := pss_allocated\<rparr>) c1;
      (err, c) \<leftarrow> psd_fill_pcp_server_src (Some s) c;
      if err \<noteq> PCP_ERR_SUCCESS then do {
        c \<leftarrow> upd_server s (\<lambda>v. v\<lparr>s_server_state := pss_unitialized\<rparr>) c;
        Some (errno_code PCP_ERR_UNKNOWN, c)
      }
      else do { sv \<leftarrow> rd_server s c; Some (sint (s_index sv), c) }
    }) (\<lambda>(r, c'). only_servers c c' \<and> (\<forall>i<length (c_pcp_servers c). i \<noteq> s \<longrightarrow> c_pcp_servers c' ! i = c_pcp_servers c ! i) \<and>
      (r = int s \<and> in_use s c' \<and> registered ip port version c (c_pcp_servers c' ! s) \<and> api_inv c' \<and> (\<forall>p. handle c p \<longrightarrow> handle c' p) \<or>
       r = errno_code PCP_ERR_UNKNOWN \<and> \<not> in_use s c' \<and> (found = None \<longrightarrow> api_inv c' \<and> (\<forall>p. handle c p \<longrightarrow> handle c' p))))"
proof -
  let ?v = "c_pcp_servers c1 ! s"
  let ?va = "?v\<lparr>s_pcp_version := version, s_server_state := pss_allocated\<rparr>"
  let ?ca = "c1\<lparr>c_pcp_servers := (c_pcp_servers c1)[s := ?va]\<rparr>"
  have e': "only_servers c c1" "w_route_i c1 = w_route_i c" "s < length (c_pcp_servers c1)" "server_inv c1"
    "s_pcp_ip ?v = ip" "s_pcp_port ?v = port" "s_server_state ?v \<noteq> pss_unitialized"
    "\<forall>i<length (c_pcp_servers c). i \<noteq> s \<longrightarrow> c_pcp_servers c1 ! i = c_pcp_servers c ! i" using e by (auto simp: entry_at_def)
  have core: "core_inv c" using inv by (simp add: api_core)
  have room1: "length (c_pcp_servers c1) < 2 ^ 31" using e room by (simp add: entry_at_def)
  have up: "upd_server s (\<lambda>v. v\<lparr>s_pcp_version := version, s_server_state := pss_allocated\<rparr>) c1 = Some ?ca"
    using e'(3) by (simp add: upd_server_def)
  have ca: "only_servers c1 ?ca" by (simp add: only_servers_def)
  from psd_fill_runs [of s ?ca] e'(3) obtain err c2 w where
    c2: "psd_fill_pcp_server_src (Some s) ?ca = Some (err, c2)" "only_servers ?ca c2" "c_pcp_servers c2 = (c_pcp_servers c1)[s := w]"
      "filled ?ca ?va err w" by (auto elim!: runsE)
  have only2: "only_servers c1 c2" "only_servers c c2" using only_servers_trans c2(2) ca e'(1) by blast+
  have w: "s_index w = s_index ?v" "s_ping_flow_msg w = s_ping_flow_msg ?v" "s_pcp_ip w = ip" "s_pcp_port w = port"
    "s_pcp_version w = version" using c2(4) e' by (simp_all add: filled_def server_peer_def)
  have others: "\<forall>i<length (c_pcp_servers c). i \<noteq> s \<longrightarrow> (c_pcp_servers c1)[s := x] ! i = c_pcp_servers c ! i" for x using e'(8) by simp
  show ?thesis
  proof (cases "err = PCP_ERR_SUCCESS")
    case True
    have st: "s_server_state w = pss_ping" using c2(4) True by (simp add: filled_def)
    have "routed_src x y ?ca z = routed_src x y c z" for x y z
      using e'(2) only_servers_frame(8) [OF e'(1)] by (simp add: routed_src_def)
    then have reg: "registered ip port version c w" using c2(4) True w e'(5,6) by (auto simp: filled_def registered_def)
    have use: "in_use s c2" using e'(3) c2(3) st by (simp add: in_use_def)
    have ok: "api_inv c2 \<and> (\<forall>p. handle c p \<longrightarrow> handle c2 p)"
      using entry_update [OF e only2(1) c2(3) w(1,2) _ core] st room1 c2(3) by (simp add: api_core)
    then have "server_inv c2" "length (c_pcp_servers c2) < 2 ^ 31" by (simp_all add: api_inv_def ctx_inv_def)
    then have "sint (s_index (c_pcp_servers c2 ! s)) = int s"
      using use by (simp add: server_inv_def in_use_def signed_of_nat signed_take_bit_int_eq_self)
    moreover have "rd_server s c2 = Some (c_pcp_servers c2 ! s)" "c_pcp_servers c2 ! s = w"
      using e'(3) c2(3) by (simp_all add: rd_server_def)
    ultimately show ?thesis unfolding up bind.simps c2(1) prod.case using True only2(2) reg use ok others c2(3) by simp
  next
    case False
    let ?wu = "w\<lparr>s_server_state := pss_unitialized\<rparr>"
    let ?cu = "c2\<lparr>c_pcp_servers := (c_pcp_servers c1)[s := ?wu]\<rparr>"
    have up2: "upd_server s (\<lambda>v. v\<lparr>s_server_state := pss_unitialized\<rparr>) c2 = Some ?cu"
      using e'(3) c2(3) by (simp add: upd_server_def)
    have "only_servers c2 ?cu" by (simp add: only_servers_def)
    then have o: "only_servers c1 ?cu" "only_servers c ?cu" using only_servers_trans only2 by blast+
    have "core_inv ?cu \<and> (\<forall>p. handle c p \<longrightarrow> handle ?cu p)" if "found = None"
      by (rule entry_update [OF e o(1) _ _ _ _ core, of ?wu]) (use w that in auto)
    then have "api_inv ?cu \<and> (\<forall>p. handle c p \<longrightarrow> handle ?cu p)" if "found = None"
      using that room1 by (simp add: api_core)
    then show ?thesis unfolding up bind.simps c2(1) prod.case
      using False o(2) others up2 by (auto simp: in_use_def)
  qed
qed


lemma pcp_add_server_core:
  assumes inv: "api_inv c" and addr: "server_addr sa = Some (ip, port, scope)" and version: "version \<le> PCP_MAX_SUPPORTED_VERSION"
    and found: "get_pcp_server_by_ip ip scope c = Some found" and room: "length (c_pcp_servers c) < 2 ^ 29"
  shows "\<exists>r c'. pcp_add_server sa version c = Some (r, c') \<and> only_servers c c' \<and>
    ((\<exists>s. r = int s \<and> in_use s c' \<and> (found = Some s \<or> found = None \<and> \<not> in_use s c) \<and>
        registered ip (if port = 0 then ntohs PCP_SERVER_PORT else port) version c (c_pcp_servers c' ! s) \<and>
        (\<forall>i<length (c_pcp_servers c). i \<noteq> s \<longrightarrow> c_pcp_servers c' ! i = c_pcp_servers c ! i) \<and>
        api_inv c' \<and> (\<forall>p. handle c p \<longrightarrow> handle c' p)) \<or>
     r = errno_code PCP_ERR_UNKNOWN \<and> (\<forall>s. found = Some s \<longrightarrow> \<not> in_use s c') \<and>
        (\<forall>i. in_use i c \<and> found \<noteq> Some i \<longrightarrow> c_pcp_servers c' ! i = c_pcp_servers c ! i) \<and>
        (found = None \<longrightarrow> api_inv c' \<and> (\<forall>p. handle c p \<longrightarrow> handle c' p)))"
proof -
  let ?port = "if port = 0 then ntohs PCP_SERVER_PORT else port"
  have core: "core_inv c" using inv by (simp add: api_core)
  define stage where "stage = (case found of
      None \<Rightarrow> Option.bind (pcp_new_server ip ?port scope c) (\<lambda>(indx, c). Some (if indx \<ge> 0 then get_pcp_server indx c else None, c))
    | Some s \<Rightarrow> Option.bind (upd_server s (\<lambda>v. v\<lparr>s_pcp_port := ?port\<rparr>) c) (\<lambda>c. Some (Some s, c)))"
  have "runs stage (\<lambda>(so, c'). case so of
       None \<Rightarrow> found = None \<and> only_servers c c' \<and> c_pcp_servers c' = c_pcp_servers c
     | Some s \<Rightarrow> entry_at ip ?port c found s c')"
  proof (cases found)
    case None
    show ?thesis
      unfolding stage_def None option.case
      by (rule runs_mono [OF new_entry [OF core]]) (auto split: option.splits)
  next
    case (Some s)
    then show ?thesis
      unfolding stage_def using found by (auto intro!: runs_mono [OF found_entry [OF core]])
  qed
  then obtain so c1 where c1: "stage = Some (so, c1)" "case so of
       None \<Rightarrow> found = None \<and> only_servers c c1 \<and> c_pcp_servers c1 = c_pcp_servers c
     | Some s \<Rightarrow> entry_at ip ?port c found s c1" by (auto elim!: runsE)
  have run: "pcp_add_server sa version c = (case so of None \<Rightarrow> Some (errno_code PCP_ERR_UNKNOWN, c1)
    | Some s \<Rightarrow> do {
      c \<leftarrow> upd_server s (\<lambda>v. v\<lparr>s_pcp_version := version, s_server_state := pss_allocated\<rparr>) c1;
      (err, c) \<leftarrow> psd_fill_pcp_server_src (Some s) c;
      if err \<noteq> PCP_ERR_SUCCESS then do {
        c \<leftarrow> upd_server s (\<lambda>v. v\<lparr>s_server_state := pss_unitialized\<rparr>) c;
        Some (errno_code PCP_ERR_UNKNOWN, c)
      }
      else do { sv \<leftarrow> rd_server s c; Some (sint (s_index sv), c) }
    })"
    using leD [OF version] c1(1) addr found unfolding pcp_add_server_def psd_add_pcp_server_def stage_def
    by (simp add: Let_def)
  show ?thesis
  proof (cases so)
    case None
    then have c': "found = None" "only_servers c c1" "c_pcp_servers c1 = c_pcp_servers c" using c1(2) by auto
    have "api_inv c1 \<and> (\<forall>p. handle c p \<longrightarrow> handle c1 p)"
      using only_servers_core [OF core c'(2)] pings_from_refl [of c] inv c'(3) by (auto simp: api_core core_inv_def ctx_inv_def server_inv_def)
    then show ?thesis using run None c' by simp
  next
    case (Some s)
    then have e: "entry_at ip ?port c found s c1" using c1(2) by simp
    have s: "found = Some s \<or> found = None \<and> \<not> in_use s c" using e by (auto simp: entry_at_def split: option.splits)
    from register_entry [OF e inv room, of version] show ?thesis
      unfolding run Some option.case using s by (elim runsE) (auto simp: in_use_def)
  qed
qed





section \<open>Gateways\<close>

text \<open>\<open>kept c c'\<close>: a registration without effect on flows and on the servers in use, that keeps the context in order.\<close>

definition kept :: "pcp_ctx \<Rightarrow> pcp_ctx \<Rightarrow> bool" where
  "kept c c' \<longleftrightarrow> only_servers c c' \<and> length (c_pcp_servers c) \<le> length (c_pcp_servers c') \<and>
     (\<forall>i. in_use i c \<longrightarrow> c_pcp_servers c' ! i = c_pcp_servers c ! i) \<and>
     core_inv c' \<and> (\<forall>p. handle c p \<longrightarrow> handle c' p)"

lemma kept_refl: "core_inv c \<Longrightarrow> kept c c"
  by (simp add: kept_def)

lemma kept_trans:
  assumes ab: "kept a b" and bc: "kept b c"
  shows "kept a c"
proof -
  have "in_use i b" "c_pcp_servers c ! i = c_pcp_servers a ! i" if "in_use i a" for i
  proof -
    have "c_pcp_servers b ! i = c_pcp_servers a ! i" "length (c_pcp_servers a) \<le> length (c_pcp_servers b)"
      using ab that by (auto simp: kept_def)
    then show "in_use i b" using that by (simp add: in_use_def)
    then have "c_pcp_servers c ! i = c_pcp_servers b ! i" using bc by (auto simp: kept_def)
    then show "c_pcp_servers c ! i = c_pcp_servers a ! i" using \<open>c_pcp_servers b ! i = c_pcp_servers a ! i\<close> by simp
  qed
  then show ?thesis using ab bc only_servers_trans [of a b c] by (auto simp: kept_def)
qed

text \<open>
  A gateway that is worth to be asked has a server entry afterwards, if there is memory for it.
\<close>

definition real_gateway :: "in6_addr \<Rightarrow> bool" where
  "real_gateway addr \<longleftrightarrow> \<not> (IN6_IS_ADDR_V4MAPPED addr \<and> w3 addr = 0) \<and> \<not> IPV6_IS_ADDR_ANY addr"

definition entered_gw :: "in6_addr \<Rightarrow> pcp_ctx \<Rightarrow> pcp_ctx \<Rightarrow> bool" where
  "entered_gw addr c c' \<longleftrightarrow> (\<forall>k. w_alloc c k) \<longrightarrow> (\<exists>i. in_use i c' \<and> s_pcp_ip (c_pcp_servers c' ! i) = addr)"

lemma psd_add_gw_runs:
  assumes inv: "core_inv c"
  shows "runs (psd_add_gw addr scope c) (\<lambda>c'. kept c c' \<and> (real_gateway addr \<longrightarrow> entered_gw addr c c'))"
proof -
  have new: "runs (Option.bind (pcp_new_server addr (ntohs PCP_SERVER_PORT) scope c) (\<lambda>(indx, c).
      if indx \<ge> 0 then case get_pcp_server indx c of None \<Rightarrow> Some c
        | Some s \<Rightarrow> Option.bind (psd_fill_pcp_server_src (Some s) c) (\<lambda>(_, c). Some c) else Some c)) (\<lambda>c'. kept c c' \<and> entered_gw addr c c')"
  proof -
    from new_entry [OF inv, of addr "ntohs PCP_SERVER_PORT" scope] obtain indx c1 where
      c1: "pcp_new_server addr (ntohs PCP_SERVER_PORT) scope c = Some (indx, c1)"
        "case (if indx \<ge> 0 then get_pcp_server indx c1 else None) of
           None \<Rightarrow> only_servers c c1 \<and> c_pcp_servers c1 = c_pcp_servers c \<and> (\<exists>i. \<not> w_alloc c i)
         | Some s \<Rightarrow> entry_at addr (ntohs PCP_SERVER_PORT) c None s c1"
      by (auto elim!: runsE)
    show ?thesis
    proof (cases "if indx \<ge> 0 then get_pcp_server indx c1 else None")
      case None
      then have o: "only_servers c c1" "c_pcp_servers c1 = c_pcp_servers c" using c1(2) by auto
      have "server_inv c1" "spare_ok c" using inv o(2) by (simp_all add: core_inv_def ctx_inv_def server_inv_def)
      then have "kept c c1"
        unfolding kept_def using o only_servers_core [OF inv o(1)] pings_from_refl [of c] by auto
      moreover have "entered_gw addr c c1" using c1(2) None by (auto simp: entered_gw_def)
      ultimately show ?thesis using c1(1) None by (simp split: if_splits)
    next
      case (Some s)
      then have e: "entry_at addr (ntohs PCP_SERVER_PORT) c None s c1" using c1(2) by simp
      then have e': "only_servers c c1" "s < length (c_pcp_servers c1)" "s_server_state (c_pcp_servers c1 ! s) \<noteq> pss_unitialized"
        "\<not> in_use s c" "length (c_pcp_servers c) \<le> length (c_pcp_servers c1)"
        "\<forall>i<length (c_pcp_servers c). i \<noteq> s \<longrightarrow> c_pcp_servers c1 ! i = c_pcp_servers c ! i" by (auto simp: entry_at_def)
      from psd_fill_runs [OF e'(2)] obtain err c2 w where
        c2: "psd_fill_pcp_server_src (Some s) c1 = Some (err, c2)" "only_servers c1 c2" "c_pcp_servers c2 = (c_pcp_servers c1)[s := w]"
          "filled c1 (c_pcp_servers c1 ! s) err w" by (auto elim!: runsE)
      have w: "s_index w = s_index (c_pcp_servers c1 ! s)" "s_ping_flow_msg w = s_ping_flow_msg (c_pcp_servers c1 ! s)"
        using c2(4) by (auto simp: filled_def server_peer_def)
      have "c_pcp_servers c2 ! i = c_pcp_servers c ! i" if "in_use i c" for i
      proof -
        have "i \<noteq> s" using that e'(4) by auto
        then show ?thesis using that e'(6) c2(3) by (simp add: in_use_def)
      qed
      then have "kept c c2"
        unfolding kept_def using entry_update [OF e c2(2,3) w _ inv] only_servers_trans [OF e'(1) c2(2)] e'(5) c2(3) by simp
      moreover have "in_use s c2 \<and> s_pcp_ip (c_pcp_servers c2 ! s) = addr"
        using e e'(2,3) c2(3,4) by (auto simp: in_use_def filled_def server_peer_def entry_at_def split: if_splits)
      then have "entered_gw addr c c2" unfolding entered_gw_def by blast
      ultimately show ?thesis using c1(1) c2(1) Some by (simp split: if_splits)
    qed
  qed
  have same: "runs (Some c) (\<lambda>c'. kept c c' \<and> (real_gateway addr \<longrightarrow> entered_gw addr c c'))" if "\<not> real_gateway addr"
    using kept_refl [OF inv] that by simp
  obtain found where f: "get_pcp_server_by_ip addr scope c = Some found" using get_pcp_server_by_ip_find by blast
  have known: "kept c c \<and> entered_gw addr c c" if s: "found = Some s" for s
  proof -
    from found_entry [OF inv f [unfolded s], of "s_pcp_port (c_pcp_servers c ! s)"] obtain c1 where
      c1: "upd_server s (\<lambda>v. v\<lparr>s_pcp_port := s_pcp_port (c_pcp_servers c ! s)\<rparr>) c = Some c1"
        "entry_at addr (s_pcp_port (c_pcp_servers c ! s)) c (Some s) s c1" by (auto elim!: runsE)
    then have "in_use s c \<and> s_pcp_ip (c_pcp_servers c ! s) = addr"
      by (auto simp: upd_server_def entry_at_def in_use_def split: if_splits)
    then show ?thesis using kept_refl [OF inv] by (auto simp: entered_gw_def)
  qed
  show ?thesis
  proof (cases "real_gateway addr")
    case False
    then have "psd_add_gw addr scope c = Some c" by (auto simp: psd_add_gw_def real_gateway_def)
    then show ?thesis using same [OF False] by simp
  next
    case True
    show ?thesis
    proof (cases found)
      case None
      then show ?thesis using True f new by (simp add: psd_add_gw_def real_gateway_def del: runs_simps(3)) (auto elim!: runs_mono)
    next
      case (Some s)
      then show ?thesis using True f known by (simp add: psd_add_gw_def real_gateway_def)
    qed
  qed
qed

lemma kept_gw: "kept c c' \<Longrightarrow> in_use i c \<Longrightarrow> in_use i c' \<and> s_pcp_ip (c_pcp_servers c' ! i) = s_pcp_ip (c_pcp_servers c ! i)"
  by (auto simp: kept_def in_use_def)

lemma psd_add_gws_all:
  "core_inv c \<Longrightarrow> \<exists>c'. psd_add_gws gws c = Some c' \<and> kept c c' \<and> (\<forall>(addr, scope)\<in>set gws. real_gateway addr \<longrightarrow> entered_gw addr c c')"
proof (induction gws arbitrary: c)
  case Nil
  then show ?case by (simp add: kept_refl)
next
  case (Cons gw gws)
  obtain addr scope where gw: "gw = (addr, scope)" by (cases gw)
  from psd_add_gw_runs [OF Cons.prems, of addr scope] obtain c1 where
    c1: "psd_add_gw addr scope c = Some c1" "kept c c1" "real_gateway addr \<longrightarrow> entered_gw addr c c1" by (auto elim!: runsE)
  then have "core_inv c1" by (simp add: kept_def)
  from Cons.IH [OF this] obtain c' where
    c': "psd_add_gws gws c1 = Some c'" "kept c1 c'" "\<forall>(addr, scope)\<in>set gws. real_gateway addr \<longrightarrow> entered_gw addr c1 c'" by blast
  have "w_alloc c1 = w_alloc c" using c1(2) only_servers_frame by (auto simp: kept_def)
  then have "\<forall>(a, s)\<in>set gws. real_gateway a \<longrightarrow> entered_gw a c c'" using c'(3) by (auto simp: entered_gw_def)
  moreover have "real_gateway addr \<longrightarrow> entered_gw addr c c'" using c1(3) kept_gw [OF c'(2)] by (fastforce simp: entered_gw_def)
  ultimately show ?case using c1(1) c'(1) kept_trans [OF c1(2) c'(2)] gw by auto
qed

lemma psd_add_gws_core:
  assumes "core_inv c"
  shows "\<exists>c'. psd_add_gws gws c = Some c' \<and> kept c c'"
  using psd_add_gws_all [OF assms] by blast

text \<open>The discovery of servers, for every list of gateways of the host: it returns, only adds to the
  server array, leaves every server in use and all flows as they are, and keeps the context in order; with
  enough memory, every gateway other than the wildcard address has an entry in use.\<close>

theorem psd_add_gws_correct:
  assumes "core_inv c"
  shows "\<exists>c'. psd_add_gws gws c = Some c' \<and> kept c c' \<and> (\<forall>(addr, scope)\<in>set gws. real_gateway addr \<longrightarrow> entered_gw addr c c')"
  using assms by (rule psd_add_gws_all)

theorem psd_add_gws_correct_witness:
  "\<exists>c'. psd_add_gws [(In6 0 0 0xFFFF0000 0x0100000A, 0), (In6 1 2 3 4, 0)] ctx_one_server = Some c' \<and>
     c_pcp_servers c' ! 0 = c_pcp_servers ctx_one_server ! 0"
proof -
  have "core_inv ctx_one_server" using ctx_one_server_api by (simp add: api_core)
  moreover have "in_use 0 ctx_one_server" by (simp add: in_use_def ctx_one_server_def server_zero_def)
  ultimately show ?thesis
    using psd_add_gws_correct [of ctx_one_server "[(In6 0 0 0xFFFF0000 0x0100000A, 0), (In6 1 2 3 4, 0)]"]
    by (auto simp: kept_def)
qed

end
