(* ===== verification/Api_Calls.thy ===== *)
theory Api_Calls
  imports Register
begin

text \<open>
  The functions of the interface at work: what the setters do to the flows of a handle, what a wait and a
  query report, and that any sequence of calls keeps the context in order.
\<close>

section \<open>Setters\<close>

text \<open>
  A changed flow is to be sent anew: its old message is dropped and its timeout set, and it is in the
  state \<open>pfs_send\<close> unless it waits for its server, is idle or has failed.
\<close>

definition refreshed :: "timeval \<Rightarrow> pcp_flow \<Rightarrow> pcp_flow" where
  "refreshed t f = f\<lparr>f_pcp_msg_buffer := None, f_pcp_msg_len := 0, f_timeout := t,
     f_state := (if f_state f \<notin> {pfs_wait_for_server_init, pfs_idle, pfs_failed} then pfs_send else f_state f)\<rparr>"

lemma refreshed_kid [simp]: "f_next_child (refreshed t f) = f_next_child f"
  by (simp add: refreshed_def)

lemma pcp_flow_updated_heap:
  assumes f: "c_heap c p = Some f"
  shows "runs (pcp_flow_updated (Some p) c) (\<lambda>c'. \<exists>t. c_heap c' = (c_heap c)(p \<mapsto> refreshed t f))"
proof -
  let ?d = "snd (gettimeofday c)" and ?t = "fst (gettimeofday c)"
  have rd: "rd_flow p ?d = Some f" using f by (simp add: rd_flow_def gettimeofday_def)
  have "\<exists>e. (case get_pcp_server (sint (f_pcp_server_indx f)) ?d of None \<Rightarrow> Some ?d | Some s \<Rightarrow> set_next_timeout s ?t ?d) = Some e \<and>
      c_heap e = c_heap c"
    by (auto simp: get_pcp_server_Some upd_server_def gettimeofday_def split: option.split)
  then obtain e where e: "(case get_pcp_server (sint (f_pcp_server_indx f)) ?d of None \<Rightarrow> Some ?d
      | Some s \<Rightarrow> set_next_timeout s ?t ?d) = Some e" "c_heap e = c_heap c" by blast
  have "runs (Option.bind (pcp_flow_clear_msg_buf (Some p) e) (upd_flow p (\<lambda>f. f\<lparr>f_timeout := ?t,
        f_state := (if f_state f \<notin> {pfs_wait_for_server_init, pfs_idle, pfs_failed} then pfs_send else f_state f)\<rparr>)))
      (\<lambda>c'. \<exists>t. c_heap c' = (c_heap c)(p \<mapsto> refreshed t f))"
    using f e(2) by (auto simp: pcp_flow_clear_msg_buf_def upd_flow_def refreshed_def intro!: exI [of _ ?t])
  then show ?thesis
    unfolding pcp_flow_updated_def option.case
    by (simp only: Let_def case_prod_unfold rd bind.simps e(1))
qed

text \<open>
  \<open>all_changed R xs c c'\<close>: the flows \<open>xs\<close> have changed according to \<open>R\<close>, and no other flow has.
\<close>

definition all_changed :: "(pcp_flow \<Rightarrow> pcp_flow \<Rightarrow> bool) \<Rightarrow> fid list \<Rightarrow> pcp_ctx \<Rightarrow> pcp_ctx \<Rightarrow> bool" where
  "all_changed R xs c c' \<longleftrightarrow> (\<forall>q. q \<notin> set xs \<longrightarrow> c_heap c' q = c_heap c q) \<and>
     (\<forall>q\<in>set xs. \<exists>f f'. c_heap c q = Some f \<and> c_heap c' q = Some f' \<and> R f f')"

locale child_changer =
  fixes visit :: "fid \<Rightarrow> pcp_ctx \<Rightarrow> pcp_ctx option"
    and R :: "pcp_flow \<Rightarrow> pcp_flow \<Rightarrow> bool"
  assumes visit_change: "c_heap c p = Some f \<Longrightarrow>
      runs (visit p c) (\<lambda>c'. \<exists>f'. c_heap c' = (c_heap c)(p \<mapsto> f') \<and> R f f' \<and> f_next_child f' = f_next_child f)"
begin

lemma foreach_child_changes:
  "kids (c_heap c) fp xs \<Longrightarrow> runs (foreach_child visit fp c) (all_changed R xs c)"
proof (induction xs arbitrary: fp c)
  case Nil
  then show ?case by (subst foreach_child.simps) (simp add: all_changed_def)
next
  case (Cons x xs)
  from Cons.prems obtain f where f: "fp = Some x" "c_heap c x = Some f" "kids (c_heap c) (f_next_child f) xs" by auto
  have nx: "x \<notin> set xs" using kids_distinct [OF Cons.prems] by simp
  from visit_change [OF f(2)] obtain c1 f1 where
    c1: "visit x c = Some c1" "c_heap c1 = (c_heap c)(x \<mapsto> f1)" "R f f1" "f_next_child f1 = f_next_child f" by (auto elim!: runsE)
  have "kids (c_heap c1) (f_next_child f) xs = kids (c_heap c) (f_next_child f) xs"
    by (rule kids_cong) (use c1(2) nx in auto)
  then have "runs (foreach_child visit (f_next_child f1) c1) (all_changed R xs c1)" using Cons.IH f(3) c1(4) by simp
  then have "runs (foreach_child visit (f_next_child f1) c1) (all_changed R (x # xs) c)"
  proof (rule runs_mono)
    fix c2 assume c2: "all_changed R xs c1 c2"
    have same: "c_heap c1 q = c_heap c q" if "q \<noteq> x" for q using that c1(2) by simp
    have "c_heap c2 x = Some f1" using c2 nx c1(2) by (simp add: all_changed_def)
    then show "all_changed R (x # xs) c c2" using c2 same nx f(2) c1(3) unfolding all_changed_def by (metis set_ConsD list.set_intros)
  qed
  then show ?case using f(1) c1(1,2) by (subst foreach_child.simps) (simp add: rd_flow_def)
qed

end

lemma update_then_notify_heap:
  assumes f: "c_heap c p = Some f" and g: "f_next_child (g f) = f_next_child f"
  shows "runs (Option.bind (upd_flow p g c) (pcp_flow_updated (Some p)))
    (\<lambda>c'. \<exists>f'. c_heap c' = (c_heap c)(p \<mapsto> f') \<and> (\<exists>t. f' = refreshed t (g f)) \<and> f_next_child f' = f_next_child f)"
proof -
  let ?c = "c\<lparr>c_heap := (c_heap c)(p \<mapsto> g f)\<rparr>"
  have "runs (pcp_flow_updated (Some p) ?c) (\<lambda>c'. \<exists>t. c_heap c' = (c_heap ?c)(p \<mapsto> refreshed t (g f)))"
    by (rule pcp_flow_updated_heap) simp
  then have "runs (pcp_flow_updated (Some p) ?c)
    (\<lambda>c'. \<exists>f'. c_heap c' = (c_heap c)(p \<mapsto> f') \<and> (\<exists>t. f' = refreshed t (g f)) \<and> f_next_child f' = f_next_child f)"
    by (rule runs_mono) (use g in auto)
  then show ?thesis using f by (simp add: upd_flow_def)
qed

interpretation lifetime_change: child_changer "set_lifetime lifetime" "\<lambda>f f'. \<exists>t. f' = refreshed t (f\<lparr>f_lifetime := lifetime\<rparr>)"
  for lifetime
  by unfold_locales (unfold set_lifetime_def, rule update_then_notify_heap, auto)

interpretation third_party_change: child_changer "set_3rd_party_opt addr"
    "\<lambda>f f'. \<exists>t. f' = refreshed t (f\<lparr>f_third_party_option_present := True,
       f_third_party_ip := fst (pcp_fill_in6_addr (f_third_party_ip f, 0, 0) addr)\<rparr>)" for addr
  by unfold_locales (unfold set_3rd_party_opt_def, rule update_then_notify_heap, auto)

text \<open>The filter that a flow has afterwards.\<close>

definition with_filter :: "sockaddr \<Rightarrow> u8 \<Rightarrow> pcp_flow \<Rightarrow> pcp_flow" where
  "with_filter addr prefix f = f\<lparr>f_filter_option_present := True, f_filter_prefix := prefix,
     f_filter_ip := fst (pcp_fill_in6_addr (f_filter_ip f, f_filter_port f, 0) addr),
     f_filter_port := fst (snd (pcp_fill_in6_addr (f_filter_ip f, f_filter_port f, 0) addr))\<rparr>"

interpretation filter_change: child_changer "set_filter_opt addr prefix" "\<lambda>f f'. \<exists>t. f' = refreshed t (with_filter addr prefix f)"
  for addr prefix
proof
  fix c :: pcp_ctx and p f assume f: "c_heap c p = Some f"
  let ?f1 = "if \<not> f_filter_option_present f then f\<lparr>f_filter_option_present := True\<rparr> else f"
  let ?c = "c\<lparr>c_heap := (c_heap c)(p \<mapsto> ?f1)\<rparr>"
  let ?h = "\<lambda>f. let (ip, port, _) = pcp_fill_in6_addr (f_filter_ip f, f_filter_port f, 0) addr
            in f\<lparr>f_filter_ip := ip, f_filter_port := port, f_filter_prefix := prefix\<rparr>"
  have eq: "?h ?f1 = with_filter addr prefix f" by (simp add: with_filter_def Let_def case_prod_unfold)
  have "runs (Option.bind (upd_flow p ?h ?c) (pcp_flow_updated (Some p)))
     (\<lambda>c'. \<exists>f'. c_heap c' = (c_heap ?c)(p \<mapsto> f') \<and> (\<exists>t. f' = refreshed t (?h ?f1)) \<and> f_next_child f' = f_next_child ?f1)"
    by (rule update_then_notify_heap) (simp_all add: Let_def case_prod_unfold)
  moreover have "upd_flow p (\<lambda>f. if \<not> f_filter_option_present f then f\<lparr>f_filter_option_present := True\<rparr> else f) c = Some ?c"
    using f by (simp add: upd_flow_def)
  ultimately show "runs (set_filter_opt addr prefix p c) (\<lambda>c'. \<exists>f'. c_heap c' = (c_heap c)(p \<mapsto> f') \<and>
      (\<exists>t. f' = refreshed t (with_filter addr prefix f)) \<and> f_next_child f' = f_next_child f)"
    unfolding eq set_filter_opt_def by (simp only: bind.simps, elim runs_mono) (auto split: if_splits)
qed

text \<open>Without effect on a flow that has the option.\<close>

interpretation prefer_failure_change: child_changer set_prefer_failure_opt
    "\<lambda>f f'. if f_pfailure_option_present f then f' = f else \<exists>t. f' = refreshed t (f\<lparr>f_pfailure_option_present := True\<rparr>)"
proof
  fix c :: pcp_ctx and p f assume f: "c_heap c p = Some f"
  then have rd: "rd_flow p c = Some f" by (simp add: rd_flow_def)
  show "runs (set_prefer_failure_opt p c) (\<lambda>c'. \<exists>f'. c_heap c' = (c_heap c)(p \<mapsto> f') \<and>
      (if f_pfailure_option_present f then f' = f else \<exists>t. f' = refreshed t (f\<lparr>f_pfailure_option_present := True\<rparr>)) \<and>
      f_next_child f' = f_next_child f)"
  proof (cases "f_pfailure_option_present f")
    case True
    then show ?thesis using f rd by (auto simp: set_prefer_failure_opt_def fun_upd_idem_iff)
  next
    case False
    then have "runs (set_prefer_failure_opt p c) (\<lambda>c'. \<exists>f'. c_heap c' = (c_heap c)(p \<mapsto> f') \<and>
      (\<exists>t. f' = refreshed t (f\<lparr>f_pfailure_option_present := True\<rparr>)) \<and> f_next_child f' = f_next_child f)"
      unfolding set_prefer_failure_opt_def rd bind.simps by (simp only: if_True simp_thms, intro update_then_notify_heap f) simp
    then show ?thesis by (rule runs_mono) (use False in auto)
  qed
qed

interpretation user_data_change: child_changer "set_user_data ud" "\<lambda>f f'. f' = f\<lparr>f_user_data := ud\<rparr>" for ud
  by unfold_locales (auto simp: set_user_data_def upd_flow_def)

definition with_flowp :: "u8 \<Rightarrow> u8 \<Rightarrow> pcp_flow \<Rightarrow> pcp_flow" where
  "with_flowp up down f = (if up \<noteq> 0 \<or> down \<noteq> 0
     then f\<lparr>f_flowp_option_present := True, f_flowp_dscp_up := up, f_flowp_dscp_down := down\<rparr>
     else f\<lparr>f_flowp_option_present := False\<rparr>)"

interpretation flowp_change: child_changer "set_flowp up down" "\<lambda>f f'. \<exists>t. f' = refreshed t (with_flowp up down f)" for up down
proof
  fix c :: pcp_ctx and p f assume f: "c_heap c p = Some f"
  let ?on = "up \<noteq> 0 \<or> down \<noteq> 0"
  let ?g = "\<lambda>f. if f_flowp_option_present f \<noteq> ?on then f\<lparr>f_flowp_option_present := ?on\<rparr> else f"
  let ?h = "\<lambda>f. f\<lparr>f_flowp_dscp_up := up, f_flowp_dscp_down := down\<rparr>"
  let ?c = "c\<lparr>c_heap := (c_heap c)(p \<mapsto> ?g f)\<rparr>" and ?cf = "c\<lparr>c_heap := (c_heap c)(p \<mapsto> with_flowp up down f)\<rparr>"
  have 1: "upd_flow p ?g c = Some ?c" using f by (simp add: upd_flow_def)
  have g: "?g f = f\<lparr>f_flowp_option_present := ?on\<rparr>" by auto
  have 2: "(if ?on then upd_flow p ?h ?c else Some ?c) = Some ?cf"
    unfolding g by (simp add: upd_flow_def with_flowp_def)
  have "runs (pcp_flow_updated (Some p) ?cf) (\<lambda>c'. \<exists>t. c_heap c' = (c_heap ?cf)(p \<mapsto> refreshed t (with_flowp up down f)))"
    by (rule pcp_flow_updated_heap) simp
  then show "runs (set_flowp up down p c) (\<lambda>c'. \<exists>f'. c_heap c' = (c_heap c)(p \<mapsto> f') \<and>
      (\<exists>t. f' = refreshed t (with_flowp up down f)) \<and> f_next_child f' = f_next_child f)"
    unfolding set_flowp_def Let_def 1 bind.simps 2 by (elim runs_mono) (auto simp: with_flowp_def)
qed


text \<open>The fixed arrays of the experimental options.\<close>

lemma set_userid_change:
  assumes "length user = MAX_USER_ID" "c_heap c p = Some f"
  shows "runs (set_userid user p c) (\<lambda>c'. \<exists>f'. c_heap c' = (c_heap c)(p \<mapsto> f') \<and> (\<exists>t. f' = refreshed t (f\<lparr>f_userid := user\<rparr>)) \<and>
    f_next_child f' = f_next_child f)"
  unfolding set_userid_def peek_all [OF assms(1)] bind.simps by (rule update_then_notify_heap [OF assms(2)]) simp

lemma set_location_change:
  assumes "length loc = MAX_GEO_STR" "c_heap c p = Some f"
  shows "runs (set_location loc p c) (\<lambda>c'. \<exists>f'. c_heap c' = (c_heap c)(p \<mapsto> f') \<and> (\<exists>t. f' = refreshed t (f\<lparr>f_location := loc\<rparr>)) \<and>
    f_next_child f' = f_next_child f)"
  unfolding set_location_def peek_all [OF assms(1)] bind.simps by (rule update_then_notify_heap [OF assms(2)]) simp

lemma set_deviceid_change:
  assumes "length dev = MAX_DEVICE_ID" "c_heap c p = Some f"
  shows "runs (set_deviceid dev p c) (\<lambda>c'. \<exists>f'. c_heap c' = (c_heap c)(p \<mapsto> f') \<and> (\<exists>t. f' = refreshed t (f\<lparr>f_deviceid := dev\<rparr>)) \<and>
    f_next_child f' = f_next_child f)"
  unfolding set_deviceid_def peek_all [OF assms(1)] bind.simps by (rule update_then_notify_heap [OF assms(2)]) simp

interpretation userid_change: child_changer "set_userid (sized MAX_USER_ID user)"
    "\<lambda>f f'. \<exists>t. f' = refreshed t (f\<lparr>f_userid := sized MAX_USER_ID user\<rparr>)" for user
  by unfold_locales (rule set_userid_change, simp_all)

interpretation location_change: child_changer "set_location (sized MAX_GEO_STR loc)"
    "\<lambda>f f'. \<exists>t. f' = refreshed t (f\<lparr>f_location := sized MAX_GEO_STR loc\<rparr>)" for loc
  by unfold_locales (rule set_location_change, simp_all)

interpretation deviceid_change: child_changer "set_deviceid (sized MAX_DEVICE_ID dev)"
    "\<lambda>f f'. \<exists>t. f' = refreshed t (f\<lparr>f_deviceid := sized MAX_DEVICE_ID dev\<rparr>)" for dev
  by unfold_locales (rule set_deviceid_change, simp_all)

lemma sized_id: "length bs = n \<Longrightarrow> sized n bs = bs"
  by (simp add: sized_def)




section \<open>Queries\<close>

lemma info_count_kids: "kids (c_heap c) fp xs \<Longrightarrow> info_count fp c = Some (length xs)"
proof (induction xs arbitrary: fp)
  case Nil
  then show ?case by (subst info_count.simps) simp
next
  case (Cons x xs)
  then show ?case by (subst info_count.simps) (auto simp: rd_flow_def)
qed

lemma info_fill_kids:
  "kids (c_heap c) fp xs \<Longrightarrow> length acc + length xs \<le> n \<Longrightarrow>
     info_fill n acc fp c = Some (acc @ map (\<lambda>p. flow_info (the (c_heap c p))) xs)"
proof (induction xs arbitrary: fp acc)
  case Nil
  then show ?case by (subst info_fill.simps) simp
next
  case (Cons x xs)
  then show ?case by (subst info_fill.simps) (auto simp: rd_flow_def)
qed

lemma pcp_flow_get_info_core:
  assumes "kids (c_heap c) fp xs"
  shows "pcp_flow_get_info fp c = Some (
    if w_alloc c (w_alloc_i c) then Some (map (\<lambda>p. flow_info (the (c_heap c p))) xs) else None,
    c\<lparr>w_alloc_i := Suc (w_alloc_i c)\<rparr>)"
  using info_count_kids [OF assms] info_fill_kids [of "c\<lparr>w_alloc_i := Suc (w_alloc_i c)\<rparr>" fp xs "[]" "length xs"] assms
  by (simp add: pcp_flow_get_info_def alloc_next_def)

text \<open>C31: \<open>pcp_flow_get_info\<close> reports one entry per flow of the handle, in the order of the list, and stays
  within the array it allocates for them; without memory it returns the null pointer. The context is
  not changed.\<close>

theorem pcp_flow_get_info_correct:
  assumes "kids (c_heap c) fp xs"
  shows "pcp_flow_get_info fp c = Some (
    if w_alloc c (w_alloc_i c) then Some (map (\<lambda>p. flow_info (the (c_heap c p))) xs) else None,
    c\<lparr>w_alloc_i := Suc (w_alloc_i c)\<rparr>)"
  using assms by (rule pcp_flow_get_info_core)

theorem pcp_flow_get_info_correct_witness:
  "\<exists>c'. pcp_flow_get_info (Some 0) ctx_idle_flow = Some (Some [flow_info (flow_zero\<lparr>f_key_bucket := EMPTY\<rparr>)], c')"
proof -
  have "kids (c_heap ctx_idle_flow) (Some 0) [0]" by (simp add: ctx_idle_flow_def flow_zero_def)
  from pcp_flow_get_info_correct [OF this] show ?thesis
    by (simp add: ctx_idle_flow_def ctx_one_server_def ctx_start_def)
qed

section \<open>Waiting\<close>

lemma wait_loop_result:
  assumes "wait_loop p tout ex n c = Some (r, c')" "ctx_inv c"
  shows "keeps c c' \<and> (r = pcp_state_processing \<or>
    (\<exists>k>n. pcp_eval_flow_state (Some p) c' = Some (k, r)) \<and> (r = pcp_state_partial_result \<longrightarrow> ex))"
  using assms
proof (induction p tout ex n c "(r, c')" arbitrary: rule: wait_loop.raw_induct [rotated, consumes 1, case_names loop])
  case (loop walk p tout ex n c)
  let ?c = "snd (gettimeofday c)" and ?sub = "timeval_subtract tout (fst (gettimeofday c))"
  have k0: "keeps c ?c" using loop(3) by (simp add: gettimeofday_def keeps_refl)
  show ?case
  proof (cases "fst ?sub \<or> tv_sec (fst (snd ?sub)) = 0 \<and> tv_usec (fst (snd ?sub)) = 0 \<or> tv_sec (fst (snd ?sub)) < 0")
    case True
    then show ?thesis using loop(2) k0 by (simp add: Let_def)
  next
    case False
    with loop(2) obtain x c1 k st where
      c1: "pcp_pulse (Some (fst (snd ?sub))) ?c = Some (x, c1)" "pcp_eval_flow_state (Some p) c1 = Some (k, st)"
        "(if k > n \<and> (ex \<or> st \<noteq> pcp_state_partial_result) then Some (st, c1)
          else walk p (fst (snd (snd ?sub))) ex n c1) = Some (r, c')"
      by (auto simp: Let_def bind_eq_Some_conv)
    have "ctx_inv ?c" using loop(3) by (simp add: gettimeofday_def)
    from pcp_pulse_keeps [OF this c1(1)] have k1: "keeps c c1" "ctx_inv c1" using k0 keeps_trans [of c ?c c1] by (auto simp: keeps_def)
    show ?thesis
    proof (cases "k > n \<and> (ex \<or> st \<noteq> pcp_state_partial_result)")
      case True
      then show ?thesis using c1 k1 by auto
    next
      case False
      have "walk p (fst (snd (snd ?sub))) ex n c1 = Some (r, c')" using c1(3) unfolding if_not_P [OF False] .
      from loop(1) [OF this k1(2)] show ?thesis using keeps_trans [OF k1(1)] by blast
    qed
  qed
qed


text \<open>The end of the wait is \<open>timeout\<close> milliseconds from now, negative ones included.\<close>

lemma wait_end_us: "wait_end timeout now = Some t \<Longrightarrow> tv_us t = tv_us now + 1000 * timeout"
proof -
  assume t: "wait_end timeout now = Some t"
  have "\<bar>timeout * 1000\<bar> div 1000000 = \<bar>timeout\<bar> div 1000"
    using div_mult_mult2 [of 1000 "\<bar>timeout\<bar>" 1000] by (simp add: abs_mult)
  then have "(timeout * 1000) sdiv 1000000 = timeout sdiv 1000"
    by (simp add: signed_divide_int_def sgn_mult)
  then show ?thesis
    using t int_smod_sdiv [of "timeout * 1000"] int_smod_sdiv [of "tv_usec now + (timeout * 1000) smod 1000000"]
    by (auto simp: wait_end_def tv_us_def Let_def split: if_splits)
qed

lemma pcp_wait_core:
  assumes inv: "ctx_inv c" and ret: "pcp_wait (Some p) timeout ex c = Some (r, c')"
  shows "keeps c c' \<and> (r = pcp_state_processing \<or>
    (\<exists>k. pcp_eval_flow_state (Some p) c' = Some (k, r) \<and>
       (\<forall>n st. pcp_eval_flow_state (Some p) c = Some (n, st) \<longrightarrow>
          k > (if st = pcp_state_partial_result \<or> st = pcp_state_processing then n else 0))) \<and>
    (r = pcp_state_partial_result \<longrightarrow> ex)) \<and>
    (timeout = 0 \<and> tv_us (w_tod c (w_tod_i c)) \<le> tv_us (w_tod c (Suc (w_tod_i c))) \<longrightarrow>
       r = pcp_state_processing \<and> c' = c\<lparr>w_tod_i := w_tod_i c + 2\<rparr>)"
proof -
  let ?c = "c\<lparr>w_tod_i := Suc (w_tod_i c)\<rparr>" and ?now = "w_tod c (w_tod_i c)"
  from ret obtain n st tout where
    w: "pcp_eval_flow_state (Some p) c = Some (n, st)" "wait_end timeout ?now = Some tout"
      "wait_loop p tout ex (if st = pcp_state_partial_result \<or> st = pcp_state_processing then n else 0) ?c = Some (r, c')"
    by (auto simp: pcp_wait_def gettimeofday_def Let_def bind_eq_Some_conv)
  have "ctx_inv ?c" "keeps c ?c" using inv by (simp_all add: keeps_refl)
  from wait_loop_result [OF w(3) this(1)] keeps_trans [OF this(2), of c']
  have 1: "keeps c c' \<and> (r = pcp_state_processing \<or>
      (\<exists>k>(if st = pcp_state_partial_result \<or> st = pcp_state_processing then n else 0).
         pcp_eval_flow_state (Some p) c' = Some (k, r)) \<and> (r = pcp_state_partial_result \<longrightarrow> ex))" by blast
  have "r = pcp_state_processing \<and> c' = c\<lparr>w_tod_i := w_tod_i c + 2\<rparr>"
    if "timeout = 0" "tv_us ?now \<le> tv_us (w_tod c (Suc (w_tod_i c)))"
  proof -
    have "tv_us tout = tv_us ?now" using wait_end_us [OF w(2)] that(1) by simp
    then have "fst (timeval_subtract tout (w_tod c (Suc (w_tod_i c))))" using that(2) by (simp add: timeval_subtract_flag)
    then show ?thesis using w(3) by (subst (asm) wait_loop.simps) (auto simp: gettimeofday_def Let_def)
  qed
  with 1 w(1) show ?thesis by auto
qed


text \<open>The loop ends: every round reads the clock, which finally shows the end of the wait.\<close>

lemma eval_flow_state_alloc:
  assumes "ctx_inv c" "c_heap c p \<noteq> None"
  shows "\<exists>n st. pcp_eval_flow_state (Some p) c = Some (n, st)"
proof -
  from assms obtain xs where "kids (c_heap c) (Some p) xs" by (auto simp: ctx_inv_def flows_ok_def)
  then show ?thesis using eval_flow_state_list by blast
qed

lemma wait_loop_returns:
  "ctx_inv c \<Longrightarrow> c_heap c p \<noteq> None \<Longrightarrow> \<forall>i. recv_ok (w_recvfrom c i) \<Longrightarrow> \<forall>i\<ge>N. w_tod c i = now \<Longrightarrow>
     tv_us tout \<le> tv_us now \<Longrightarrow> \<exists>r. wait_loop p tout ex n c = Some r"
proof (induction "Suc N - w_tod_i c" arbitrary: c tout rule: less_induct)
  case less
  let ?sub = "timeval_subtract tout (fst (gettimeofday c))" and ?c = "snd (gettimeofday c)"
  have d: "ctx_inv ?c" "c_heap ?c = c_heap c" "w_tod ?c = w_tod c" "w_recvfrom ?c = w_recvfrom c" "w_tod_i ?c = Suc (w_tod_i c)"
    using less.prems(1) by (simp_all add: gettimeofday_def)
  show ?case
  proof (cases "fst ?sub \<or> tv_sec (fst (snd ?sub)) = 0 \<and> tv_usec (fst (snd ?sub)) = 0 \<or> tv_sec (fst (snd ?sub)) < 0")
    case True
    then show ?thesis by (subst wait_loop.simps) (simp add: Let_def)
  next
    case False
    have small: "w_tod_i c < N"
    proof (rule ccontr)
      assume "\<not> w_tod_i c < N"
      then have "fst (gettimeofday c) = now" using less.prems(4) by (simp add: gettimeofday_def)
      with False less.prems(5) show False by (simp add: timeval_subtract_flag)
    qed
    have "recv_ok (w_recvfrom ?c (w_recvfrom_i ?c))" "settles now ?c" using less.prems(3,4) d by (auto simp: settles_def)
    from pulse_returns [OF d(1) this, of "Some (fst (snd ?sub))"] obtain x c1 where
      c1: "pcp_pulse (Some (fst (snd ?sub))) ?c = Some (x, c1)" "ctx_inv c1" "evolves ?c c1" by blast
    have e: "c_heap c1 p \<noteq> None" "w_recvfrom c1 = w_recvfrom c" "w_tod c1 = w_tod c" "w_tod_i c < w_tod_i c1"
      using c1(3) d less.prems(2) by (auto simp: evolves_def)
    obtain k st where k: "pcp_eval_flow_state (Some p) c1 = Some (k, st)" using eval_flow_state_alloc [OF c1(2) e(1)] by blast
    have "Suc N - w_tod_i c1 < Suc N - w_tod_i c" using e(4) small by simp
    moreover have "tv_us (fst (snd (snd ?sub))) \<le> tv_us now" using less.prems(5) by (simp add: timeval_subtract_arg)
    ultimately have "\<exists>r. wait_loop p (fst (snd (snd ?sub))) ex n c1 = Some r"
      using less.hyps [of c1] c1(2) e less.prems(3,4) by simp
    then show ?thesis using False c1(1) k by (subst wait_loop.simps) (auto simp: Let_def)
  qed
qed

lemma pcp_wait_returns:
  assumes inv: "ctx_inv c" and p: "c_heap c p \<noteq> None" and net: "\<forall>i. recv_ok (w_recvfrom c i)"
    and clock: "settles now c" "tv_us (w_tod c (w_tod_i c)) + 1000 * timeout \<le> tv_us now"
    and range: "- (2 ^ 31) \<le> timeout * 1000" "timeout * 1000 < 2 ^ 31"
  shows "\<exists>r c'. pcp_wait (Some p) timeout ex c = Some (r, c')"
proof -
  obtain N where N: "\<forall>i\<ge>N. w_tod c i = now" using clock(1) by (auto simp: settles_def)
  obtain n st where e: "pcp_eval_flow_state (Some p) c = Some (n, st)" using eval_flow_state_alloc [OF inv p] by blast
  obtain tout where t: "wait_end timeout (w_tod c (w_tod_i c)) = Some tout"
    using range by (simp add: wait_end_def Let_def)
  have "\<exists>r. wait_loop p tout ex k (c\<lparr>w_tod_i := Suc (w_tod_i c)\<rparr>) = Some r" for k
    using inv p net N clock(2) wait_end_us [OF t] by (intro wait_loop_returns [where N = N and now = now]) simp_all
  with e t show ?thesis by (auto simp: pcp_wait_def gettimeofday_def Let_def)
qed



text \<open>\<open>pcp_wait\<close> multiplies the timeout, given in milliseconds, by 1000 in \<open>int\<close>: for every timeout of
  2147484 ms (less than 36 minutes) or more the product overflows, which is undefined behaviour, and
  the function has no defined result.\<close>

theorem pcp_wait_overflow:
  assumes "2147484 \<le> timeout" shows "pcp_wait (Some p) timeout ex c = None"
  using assms by (auto simp: pcp_wait_def wait_end_def gettimeofday_def Let_def bind_eq_None_conv)

theorem pcp_wait_overflow_witness: "pcp_wait (Some 0) 3600000 False ctx_idle_flow = None"
  by (rule pcp_wait_overflow) simp

end
