(* ===== verification/Api_Runs.thy ===== *)
theory Api_Runs
  imports Api_Calls
begin

text \<open>
  Programs that use the library: sequences of calls of the interface, beginning with \<open>pcp_init\<close>. A call is
  permitted if the handle it is given is valid and its arguments are what the header file asks for. Every
  context that such a program reaches is in order, and every permitted call returns.
\<close>

section \<open>Calls\<close>

datatype api_call =
    Add_server sockaddr u8
  | New_flow "sockaddr option" "sockaddr option" "sockaddr option" u8 u32 nat
  | Learn_dscp u8 u8 u8 "u8 list option"
  | Set_lifetime fid u32
  | Set_3rd_party_opt fid sockaddr
  | Set_filter_opt fid sockaddr u8
  | Set_prefer_failure_opt fid
  | Set_userid fid "u8 list"
  | Set_location fid "u8 list"
  | Set_deviceid fid "u8 list"
  | Add_md fid u32 "u8 list option"
  | Set_flowp fid u8 u8
  | Set_user_data fid nat
  | Set_flow_change_cb bool
  | Get_info fid
  | Close_flow fid
  | Delete_flow fid
  | Run_pulse "timeval option"
  | Wait fid int bool

text \<open>The context after a call; what the call returns is left out.\<close>

fun api_run :: "api_call \<Rightarrow> pcp_ctx \<Rightarrow> pcp_ctx option" where
  "api_run (Add_server sa version) c = map_option snd (pcp_add_server sa version c)"
| "api_run (New_flow src dst ext protocol lifetime ud) c = map_option snd (pcp_new_flow src dst ext protocol lifetime ud c)"
| "api_run (Learn_dscp delay loss jitter name) c = map_option snd (pcp_learn_dscp delay loss jitter name c)"
| "api_run (Set_lifetime p lifetime) c = pcp_flow_set_lifetime (Some p) lifetime c"
| "api_run (Set_3rd_party_opt p addr) c = pcp_flow_set_3rd_party_opt (Some p) addr c"
| "api_run (Set_filter_opt p addr prefix) c = pcp_flow_set_filter_opt (Some p) addr prefix c"
| "api_run (Set_prefer_failure_opt p) c = pcp_flow_set_prefer_failure_opt (Some p) c"
| "api_run (Set_userid p user) c = map_option snd (pcp_flow_set_userid (Some p) user c)"
| "api_run (Set_location p loc) c = map_option snd (pcp_flow_set_location (Some p) loc c)"
| "api_run (Set_deviceid p dev) c = map_option snd (pcp_flow_set_deviceid (Some p) dev c)"
| "api_run (Add_md p i v) c = pcp_flow_add_md (Some p) i v c"
| "api_run (Set_flowp p up down) c = pcp_flow_set_flowp (Some p) up down c"
| "api_run (Set_user_data p ud) c = pcp_flow_set_user_data (Some p) ud c"
| "api_run (Set_flow_change_cb cb) c = Some (pcp_set_flow_change_cb cb c)"
| "api_run (Get_info p) c = map_option snd (pcp_flow_get_info (Some p) c)"
| "api_run (Close_flow p) c = pcp_close_flow (Some p) c"
| "api_run (Delete_flow p) c = pcp_delete_flow (Some p) c"
| "api_run (Run_pulse nt) c = map_option snd (pcp_pulse nt c)"
| "api_run (Wait p timeout ex) c = map_option snd (pcp_wait (Some p) timeout ex c)"

text \<open>
  A server that is known already may be added again only if that succeeds: the failed registration takes
  the entry out of use without regard to its ping flow. For a new flow, the source address must be
  found or given: a wildcard source of the family \<open>AF_INET6\<close> with a destination of the family \<open>AF_INET\<close>
  makes \<open>findsaddr6\<close> read past the end of the destination.
\<close>

fun permitted :: "api_call \<Rightarrow> pcp_ctx \<Rightarrow> bool" where
  "permitted (Add_server sa version) c \<longleftrightarrow> length (c_pcp_servers c) < 2 ^ 29 \<and>
     (case server_addr sa of None \<Rightarrow> False
      | Some (ip, port, scope) \<Rightarrow> get_pcp_server_by_ip ip scope c = Some None \<or>
          (case pcp_add_server sa version c of None \<Rightarrow> False | Some (r, c') \<Rightarrow> 0 \<le> r))"
| "permitted (New_flow src dst ext protocol lifetime ud) c \<longleftrightarrow>
     (case src of None \<Rightarrow> True | Some s \<Rightarrow> requested_key s dst protocol c \<noteq> None)"
| "permitted (Learn_dscp delay loss jitter name) c \<longleftrightarrow> True"
| "permitted (Set_lifetime p lifetime) c \<longleftrightarrow> handle c p"
| "permitted (Set_3rd_party_opt p addr) c \<longleftrightarrow> handle c p"
| "permitted (Set_filter_opt p addr prefix) c \<longleftrightarrow> handle c p"
| "permitted (Set_prefer_failure_opt p) c \<longleftrightarrow> handle c p"
| "permitted (Set_userid p user) c \<longleftrightarrow> handle c p \<and> length user = MAX_USER_ID"
| "permitted (Set_location p loc) c \<longleftrightarrow> handle c p \<and> length loc = MAX_GEO_STR"
| "permitted (Set_deviceid p dev) c \<longleftrightarrow> handle c p \<and> length dev = MAX_DEVICE_ID"
| "permitted (Add_md p i v) c \<longleftrightarrow> handle c p"
| "permitted (Set_flowp p up down) c \<longleftrightarrow> handle c p"
| "permitted (Set_user_data p ud) c \<longleftrightarrow> handle c p"
| "permitted (Set_flow_change_cb cb) c \<longleftrightarrow> True"
| "permitted (Get_info p) c \<longleftrightarrow> handle c p"
| "permitted (Close_flow p) c \<longleftrightarrow> handle c p"
| "permitted (Delete_flow p) c \<longleftrightarrow> handle c p"
| "permitted (Run_pulse nt) c \<longleftrightarrow> True"
| "permitted (Wait p timeout ex) c \<longleftrightarrow> handle c p"

section \<open>Each call keeps the context in order\<close>

text \<open>
  The calls that run the state machines. They return when the socket keeps its contract and the clock finally settles, for
  \<open>pcp_wait\<close> after the end of the wait.
\<close>

fun runs_machines :: "api_call \<Rightarrow> bool" where
  "runs_machines (Close_flow p) \<longleftrightarrow> True"
| "runs_machines (Run_pulse nt) \<longleftrightarrow> True"
| "runs_machines (Wait p timeout ex) \<longleftrightarrow> True"
| "runs_machines _ \<longleftrightarrow> False"

definition responsive :: "api_call \<Rightarrow> pcp_ctx \<Rightarrow> bool" where
  "responsive call c \<longleftrightarrow> (\<forall>i. recv_ok (w_recvfrom c i)) \<and>
     (\<exists>now. settles now c \<and>
        (case call of
           Wait p timeout ex \<Rightarrow> tv_us (w_tod c (w_tod_i c)) + 1000 * timeout \<le> tv_us now \<and>
             - (2 ^ 31) \<le> timeout * 1000 \<and> timeout * 1000 < 2 ^ 31
         | _ \<Rightarrow> True))"

lemma keeps_valid:
  assumes "api_inv c" "runs m (keeps c)"
  shows "runs m (\<lambda>c'. api_inv c' \<and> (\<forall>q. handle c q \<longrightarrow> handle c' q))"
  using assms(2) by (rule runs_mono) (use keeps_api [OF assms(1)] keeps_handle in blast)

lemma new_flow_handle:
  assumes inv: "api_inv c" and key: "requested_key s dst protocol c \<noteq> None"
  shows "runs (pcp_new_flow (Some s) dst ext protocol lifetime ud c)
    (\<lambda>(fp, c'). api_inv c' \<and> (\<forall>q. handle c q \<longrightarrow> handle c' q) \<and> (\<forall>p. fp = Some p \<longrightarrow> handle c' p))"
proof -
  obtain kdo c1 where key: "requested_key s dst protocol c = Some (kdo, c1)" using key by auto
  have ci: "ctx_inv c" using inv by (simp add: api_inv_def)
  then have "keeps c c1" using requested_key_quiet [OF key] by (simp add: quiet_def)
  then have 1: "api_inv c1 \<and> (\<forall>q. handle c q \<longrightarrow> handle c1 q)" using keeps_api [OF inv] keeps_handle by blast
  show ?thesis
  proof (cases "kdo = None \<or> default_ext s ext = None")
    case True
    then have "pcp_new_flow (Some s) dst ext protocol lifetime ud c = Some (None, c1)"
      using key by (auto simp: pcp_new_flow_def requested_key_def Let_def case_prod_unfold split: option.splits)
    then show ?thesis using 1 by simp
  next
    case False
    then obtain kd where "kdo = Some kd" "default_ext s ext \<noteq> None" by auto
    with pcp_new_flow_core [OF inv, of s dst protocol kd c1 ext lifetime ud] key show ?thesis by (auto simp: new_flows_def)
  qed
qed

lemma new_flow_runs:
  assumes inv: "api_inv c" and p: "permitted (New_flow src dst ext protocol lifetime ud) c"
  shows "runs (api_run (New_flow src dst ext protocol lifetime ud) c) (\<lambda>c'. api_inv c' \<and> (\<forall>q. handle c q \<longrightarrow> handle c' q))"
proof (cases src)
  case None
  then show ?thesis using inv by (simp add: pcp_new_flow_def)
next
  case (Some s)
  then have "requested_key s dst protocol c \<noteq> None" using p by simp
  from new_flow_handle [OF inv this, of ext lifetime ud] Some show ?thesis by (auto elim!: runsE)
qed

lemma add_server_runs:
  assumes inv: "api_inv c" and p: "permitted (Add_server sa version) c"
  shows "runs (api_run (Add_server sa version) c) (\<lambda>c'. api_inv c' \<and> (\<forall>q. handle c q \<longrightarrow> handle c' q))"
proof (cases "version \<le> PCP_MAX_SUPPORTED_VERSION")
  case False
  then have "pcp_add_server sa version c = Some (errno_code PCP_ERR_UNSUP_VERSION, c)" by (simp add: pcp_add_server_def not_le)
  then show ?thesis using inv by simp
next
  case True
  from p obtain ip port scope where a: "server_addr sa = Some (ip, port, scope)" "length (c_pcp_servers c) < 2 ^ 29"
    and ok: "get_pcp_server_by_ip ip scope c = Some None \<or> (\<exists>r c'. pcp_add_server sa version c = Some (r, c') \<and> 0 \<le> r)"
    by (auto split: option.splits prod.splits)
  obtain found where f: "get_pcp_server_by_ip ip scope c = Some found" by (simp add: get_pcp_server_by_ip_find)
  from pcp_add_server_core [OF inv a(1) True f a(2)] ok f show ?thesis by auto
qed

lemma delete_flow_runs:
  assumes inv: "api_inv c" and h: "handle c p"
  shows "runs (pcp_delete_flow (Some p) c) (\<lambda>c'. api_inv c' \<and> (\<forall>q. handle c q \<and> p \<noteq> q \<longrightarrow> handle c' q))"
proof -
  obtain xs where "kids (c_heap c) (Some p) xs" using handle_kids [OF inv h] .
  from pcp_delete_flow_core [OF inv h this] show ?thesis by auto
qed

lemma api_inv_cb: "api_inv (c\<lparr>c_flow_change_cb := b\<rparr>) = api_inv c" "handle (c\<lparr>c_flow_change_cb := b\<rparr>) p = handle c p"
proof -
  have "in_bucket (c\<lparr>c_flow_change_cb := b\<rparr>) = in_bucket c" by (simp add: in_bucket_def fun_eq_iff)
  moreover have kid: "kid_of (c\<lparr>c_flow_change_cb := b\<rparr>) = kid_of c" by (simp add: kid_of_def fun_eq_iff)
  ultimately show "api_inv (c\<lparr>c_flow_change_cb := b\<rparr>) = api_inv c"
    by (simp add: api_inv_def ctx_inv_def world_ok_def db_inv_def db_rep_def server_inv_def flows_ok_def ping_ok_def
        spare_ok_def kids_inj_def)
  show "handle (c\<lparr>c_flow_change_cb := b\<rparr>) p = handle c p" by (simp add: handle_def kid)
qed

text \<open>A call that returns keeps the context in order, and every handle but the deleted one valid.\<close>

fun deleted_by :: "api_call \<Rightarrow> fid option" where
  "deleted_by (Delete_flow p) = Some p"
| "deleted_by _ = None"

lemma runs_ret: "runs m P \<Longrightarrow> runs (map_option snd (Option.bind m (\<lambda>c. Some (x, c)))) P"
  by (auto elim!: runsE)

lemma api_run_total:
  assumes inv: "api_inv c" and p: "permitted call c" and m: "\<not> runs_machines call"
  shows "runs (api_run call c) (\<lambda>c'. api_inv c' \<and> (\<forall>q. handle c q \<and> deleted_by call \<noteq> Some q \<longrightarrow> handle c' q))"
proof -
  have ci: "ctx_inv c" using inv by (simp add: api_inv_def)
  have each: "runs (foreach_child visit (Some q) c) (\<lambda>c'. api_inv c' \<and> (\<forall>q. handle c q \<longrightarrow> handle c' q))"
    if "\<And>xs. kids (c_heap c) (Some q) xs \<Longrightarrow> runs (foreach_child visit (Some q) c) (keeps c)" "handle c q" for visit q
    using handle_kids [OF inv that(2)] that(1) keeps_valid [OF inv] by metis
  show ?thesis
  proof (cases call)
    case (Add_server sa version)
    then show ?thesis using add_server_runs [OF inv] p by simp
  next
    case (New_flow src dst ext protocol lifetime ud)
    then show ?thesis using new_flow_runs [OF inv] p by simp
  next
    case (Learn_dscp delay loss jitter name)
    then show ?thesis using pcp_learn_dscp_creates [OF inv, of delay loss jitter name] by (auto simp: new_flows_def)
  next
    case (Set_lifetime q lifetime)
    then show ?thesis using each [OF lifetime_body.foreach_child_keeps [OF ci]] p by (simp add: pcp_flow_set_lifetime_def)
  next
    case (Set_3rd_party_opt q addr)
    then show ?thesis using each [OF third_party_body.foreach_child_keeps [OF ci]] p by (simp add: pcp_flow_set_3rd_party_opt_def)
  next
    case (Set_filter_opt q addr prefix)
    then show ?thesis using each [OF filter_body.foreach_child_keeps [OF ci]] p by (simp add: pcp_flow_set_filter_opt_def)
  next
    case (Set_prefer_failure_opt q)
    then show ?thesis using each [OF prefer_failure_body.foreach_child_keeps [OF ci]] p by (simp add: pcp_flow_set_prefer_failure_opt_def)
  next
    case (Set_userid q user)
    have "runs (foreach_child (set_userid (sized MAX_USER_ID user)) (Some q) c) (\<lambda>c'. api_inv c' \<and> (\<forall>q. handle c q \<longrightarrow> handle c' q))"
      by (rule each [OF userid_body.foreach_child_keeps [OF ci]]) (use p Set_userid in auto)
    with Set_userid p show ?thesis by (simp add: pcp_flow_set_userid_def sized_id runs_ret)
  next
    case (Set_location q loc)
    have "runs (foreach_child (set_location (sized MAX_GEO_STR loc)) (Some q) c) (\<lambda>c'. api_inv c' \<and> (\<forall>q. handle c q \<longrightarrow> handle c' q))"
      by (rule each [OF location_body.foreach_child_keeps [OF ci]]) (use p Set_location in auto)
    with Set_location p show ?thesis by (simp add: pcp_flow_set_location_def sized_id runs_ret)
  next
    case (Set_deviceid q dev)
    have "runs (foreach_child (set_deviceid (sized MAX_DEVICE_ID dev)) (Some q) c) (\<lambda>c'. api_inv c' \<and> (\<forall>q. handle c q \<longrightarrow> handle c' q))"
      by (rule each [OF deviceid_body.foreach_child_keeps [OF ci]]) (use p Set_deviceid in auto)
    with Set_deviceid p show ?thesis by (simp add: pcp_flow_set_deviceid_def sized_id runs_ret)
  next
    case (Add_md q i v)
    then show ?thesis using each [OF md_body.foreach_child_keeps [OF ci]] p by (simp add: pcp_flow_add_md_def)
  next
    case (Set_flowp q up down)
    then show ?thesis using each [OF flowp_body.foreach_child_keeps [OF ci]] p by (simp add: pcp_flow_set_flowp_def)
  next
    case (Set_user_data q ud)
    then show ?thesis using each [OF user_data_body.foreach_child_keeps [OF ci]] p by (simp add: pcp_flow_set_user_data_def)
  next
    case (Set_flow_change_cb cb)
    then show ?thesis using inv by (simp add: pcp_set_flow_change_cb_def api_inv_cb)
  next
    case (Get_info q)
    then obtain xs where "kids (c_heap c) (Some q) xs" using handle_kids [OF inv] p by auto
    moreover have "keeps c (c\<lparr>w_alloc_i := n\<rparr>)" for n using ci by (simp add: keeps_def)
    ultimately show ?thesis using Get_info pcp_flow_get_info_core keeps_api [OF inv] keeps_handle by simp blast
  next
    case (Delete_flow q)
    then show ?thesis using delete_flow_runs [OF inv] p by simp
  qed (use m in simp_all)
qed


lemma close_flow_runs:
  assumes "api_inv c" "handle c p" "pcp_close_flow (Some p) c = Some c'"
  shows "keeps c c'"
proof -
  have ci: "ctx_inv c" using assms(1) by (simp add: api_inv_def)
  obtain xs where xs: "kids (c_heap c) (Some p) xs" using handle_kids [OF assms(1,2)] .
  from close_body.foreach_child_keeps [OF ci xs] assms(3) obtain c1 r where
    c1: "keeps c c1" "pcp_pulse None c1 = Some (r, c')" by (auto simp: pcp_close_flow_def elim!: runsE)
  then have "keeps c1 c'" using pcp_pulse_keeps [OF _ c1(2)] by (auto simp: keeps_def)
  with c1(1) show ?thesis by (rule keeps_trans)
qed

lemma api_run_keeps:
  assumes inv: "api_inv c" and p: "permitted call c" and r: "api_run call c = Some c'"
  shows "api_inv c' \<and> (\<forall>q. handle c q \<and> deleted_by call \<noteq> Some q \<longrightarrow> handle c' q)"
proof (cases "runs_machines call")
  case False
  with api_run_total [OF inv p] r show ?thesis by simp
next
  case True
  have ci: "ctx_inv c" using inv by (simp add: api_inv_def)
  have "keeps c c'"
  proof (cases call)
    case (Close_flow q)
    then show ?thesis using close_flow_runs [OF inv] p r by simp
  next
    case (Run_pulse nt)
    then show ?thesis using pcp_pulse_keeps [OF ci] r by (auto simp: keeps_def)
  next
    case (Wait q timeout ex)
    then show ?thesis using pcp_wait_core [OF ci] r by auto
  qed (use True in simp_all)
  with keeps_api [OF inv] keeps_handle show ?thesis by blast
qed

lemma machines_return:
  assumes inv: "api_inv c" and p: "permitted call c" and m: "runs_machines call" and ok: "responsive call c"
  shows "\<exists>c'. api_run call c = Some c'"
proof -
  have ci: "ctx_inv c" using inv by (simp add: api_inv_def)
  obtain now where now: "settles now c" using ok by (auto simp: responsive_def)
  have net: "\<forall>i. recv_ok (w_recvfrom c i)" using ok by (simp add: responsive_def)
  have pulse: "\<exists>r c'. pcp_pulse nt d = Some (r, c')" if "keeps c d" for nt d
  proof -
    have "ctx_inv d" "settles now d" "w_recvfrom d = w_recvfrom c"
      using that settles_evolves [OF now] by (auto simp: keeps_def evolves_def)
    with pulse_returns [of d now nt] net show ?thesis by auto
  qed
  show ?thesis
  proof (cases call)
    case (Close_flow q)
    obtain xs where xs: "kids (c_heap c) (Some q) xs" using handle_kids [OF inv] p Close_flow by auto
    from close_body.foreach_child_keeps [OF ci xs] obtain c1 where
      c1: "foreach_child pcp_close_flow_intern (Some q) c = Some c1" "keeps c c1" by (auto elim!: runsE)
    with pulse [OF c1(2), of None] Close_flow show ?thesis by (auto simp: pcp_close_flow_def)
  next
    case (Run_pulse nt)
    then show ?thesis using pulse [OF keeps_refl [OF ci], of nt] by auto
  next
    case (Wait q timeout ex)
    then obtain xs where "kids (c_heap c) (Some q) xs" using handle_kids [OF inv] p by auto
    then have "c_heap c q \<noteq> None" by (cases xs) auto
    moreover from ok Wait obtain fin where "settles fin c" "tv_us (w_tod c (w_tod_i c)) + 1000 * timeout \<le> tv_us fin"
      "- (2 ^ 31) \<le> timeout * 1000" "timeout * 1000 < 2 ^ 31" by (auto simp: responsive_def)
    ultimately have "\<exists>r c'. pcp_wait (Some q) timeout ex c = Some (r, c')" using pcp_wait_returns [OF ci _ net] by blast
    with Wait show ?thesis by auto
  qed (use m in simp_all)
qed

section \<open>Programs\<close>

text \<open>
  The contexts that a program can reach, with the handles it holds: those that the creating calls
  returned and that it has not deleted.
\<close>

inductive reachable :: "pcp_ctx \<Rightarrow> bool" where
  start: "world_ok w \<Longrightarrow> pcp_init autodiscovery socket_created gws w = Some (True, c) \<Longrightarrow>
     length (c_pcp_servers c) < 2 ^ 31 \<Longrightarrow> reachable c"
| call: "reachable c \<Longrightarrow> permitted call c \<Longrightarrow> api_run call c = Some c' \<Longrightarrow> reachable c'"

lemma ctx_calloc_core: "world_ok w \<Longrightarrow> core_inv (ctx_calloc w)"
proof -
  assume w: "world_ok w"
  have "db_inv (ctx_calloc w)"
    unfolding db_inv_def
    by (rule exI [of _ "replicate FLOW_HASH_SIZE []"]) (simp add: db_rep_def ctx_calloc_def in_bucket_def)
  then show ?thesis
    using w by (simp add: core_inv_def ctx_inv_def world_ok_def server_inv_def flows_ok_def ping_ok_def spare_ok_def
        kids_inj_def kid_of_def ctx_calloc_def)
qed

lemma pcp_init_core:
  assumes "world_ok w" "pcp_init autodiscovery socket_created gws w = Some (True, c)"
  shows "core_inv c"
proof -
  have w: "core_inv (ctx_calloc (w\<lparr>w_alloc_i := Suc (w_alloc_i w)\<rparr>))" using assms(1) by (simp add: ctx_calloc_core world_ok_def)
  from psd_add_gws_core [OF this, of gws] assms(2) w show ?thesis
    by (auto simp: pcp_init_def alloc_next_def kept_def bind_eq_Some_conv split: if_splits)
qed

text \<open>C1: every context that a program reaches with permitted calls is in order, whatever the clock, the
  network, the memory and the routing do: the flow table is a well-formed hash table, every flow has
  a well-formed message and a finite list of children, no ping flow dangles and every flow is the
  child of at most one other. In every such context each permitted call returns, in particular without any
  access outside an array or through a dangling pointer; the calls that run the state machines
  return if the socket delivers what it promises and the clock settles, for \<open>pcp_wait\<close> at or after
  the end of the wait.\<close>

theorem reachable_contexts_in_order:
  assumes "reachable c"
  shows "api_inv c \<and> (\<forall>call. permitted call c \<and> (runs_machines call \<longrightarrow> responsive call c) \<longrightarrow>
    (\<exists>c'. api_run call c = Some c' \<and> reachable c'))"
proof -
  have inv: "api_inv c"
    using assms
  proof (induction rule: reachable.induct)
    case (start w autodiscovery socket_created gws c)
    then show ?case using pcp_init_core by (simp add: api_core)
  next
    case (call c call c')
    then show ?case using api_run_keeps by blast
  qed
  have "\<exists>c'. api_run call c = Some c' \<and> reachable c'"
    if prm: "permitted call c" "runs_machines call \<longrightarrow> responsive call c" for call
  proof -
    have "\<exists>c'. api_run call c = Some c'"
    proof (cases "runs_machines call")
      case True
      then show ?thesis using machines_return [OF inv prm(1)] prm(2) by blast
    next
      case False
      then show ?thesis using api_run_total [OF inv prm(1)] by (auto elim!: runsE)
    qed
    with reachable.call [OF assms prm(1)] show ?thesis by blast
  qed
  with inv show ?thesis by blast
qed

theorem reachable_contexts_in_order_witness:
  "\<exists>c. reachable c \<and> (\<exists>c'. api_run (Add_server (SA_in6 0 (In6 1 2 3 4) 0) 2) c = Some c' \<and> reachable c') \<and>
     (\<exists>c'. api_run (Run_pulse None) c = Some c' \<and> reachable c')"
proof -
  let ?c = "ctx_calloc (ctx_start\<lparr>w_alloc_i := 1\<rparr>)"
  have "world_ok ctx_start" by (simp add: world_ok_def ctx_start_def)
  moreover have "pcp_init False True [] ctx_start = Some (True, ?c)" by (simp add: pcp_init_def alloc_next_def ctx_start_def)
  moreover have "length (c_pcp_servers ?c) < 2 ^ 31" by (simp add: ctx_calloc_def)
  ultimately have r: "reachable ?c" by (rule reachable.start)
  have "permitted (Add_server (SA_in6 0 (In6 1 2 3 4) 0) 2) ?c" by (simp add: get_pcp_server_by_ip_find ctx_calloc_def)
  then have add: "\<exists>c'. api_run (Add_server (SA_in6 0 (In6 1 2 3 4) 0) 2) ?c = Some c' \<and> reachable c'"
    using reachable_contexts_in_order [OF r] by fastforce
  have "responsive (Run_pulse None) ?c"
    by (auto simp: responsive_def ctx_calloc_def ctx_start_def recv_ok_def settles_def)
  then have "\<exists>c'. api_run (Run_pulse None) ?c = Some c' \<and> reachable c'"
    using reachable_contexts_in_order [OF r] permitted.simps(18) by blast
  with r add show ?thesis by blast
qed

end
