(* ===== verification/Exchange.thy ===== *)
theory Exchange
  imports Api_Runs
begin

text \<open>
  A request and its response: the response of a server, as it arrives on the wire, is parsed, completed by
  what is known of the server, finds the flow that sent the request in the flow table and brings the
  assigned address into it.
\<close>

section \<open>The key of a response\<close>

text \<open>The parts of a key that a message carries; the key of a MAP request has no peer.\<close>

definition key_travels :: "flow_key_data \<Rightarrow> bool" where
  "key_travels kd \<longleftrightarrow> (k_operation kd = PCP_OPCODE_PEER \<or>
     k_operation kd = PCP_OPCODE_MAP \<and> mp_dst_ip (k_map_peer kd) = in6_zero \<and> mp_dst_port (k_map_peer kd) = 0)"

text \<open>The message was sent to the source address of the key, or to an address that the socket does not report.\<close>

definition addressed_to :: "pcp_server \<Rightarrow> u32 \<Rightarrow> sockaddr \<Rightarrow> flow_key_data \<Rightarrow> bool" where
  "addressed_to sv scope_id to kd \<longleftrightarrow>
     (let (src, _, scope) = pcp_fill_in6_addr (in6_zero, 0, 0) to in
      if IPV6_IS_ADDR_ANY src then s_src_ip sv = k_src_ip kd \<and> scope_id = k_scope_id kd
      else src = k_src_ip kd \<and> scope = k_scope_id kd)"

lemma completed_key:
  assumes "ver = 1 \<or> ver = 2" "key_travels (f_kd f)" "k_pcp_server_ip (f_kd f) = s_pcp_ip sv" "k_nonce (f_kd f) = s_nonce sv"
    and "addressed_to sv scope_id (m_rcvd_to_addr m) (f_kd f)" "m_kd m = resp_key ver f" "m_recv_version m = ucast ver"
  shows "m_kd (complete_msg sv scope_id m) = f_kd f"
proof -
  obtain src port scope where to: "pcp_fill_in6_addr (in6_zero, 0, 0) (m_rcvd_to_addr m) = (src, port, scope)"
    by (metis prod_cases3)
  have z: "k_src_ip (resp_key ver f) = in6_zero" "k_scope_id (resp_key ver f) = 0" by (simp_all add: resp_key_def kd_zero_def)
  show ?thesis
    using assms to z unfolding complete_msg_def Let_def
    by (auto simp: addressed_to_def resp_key_def key_travels_def kd_zero_def Let_def)
qed


section \<open>The event\<close>

definition answered :: "pcp_recv_msg \<Rightarrow> pcp_flow \<Rightarrow> bool" where
  "answered m g \<longleftrightarrow> f_state g = pfs_wait_for_lifetime_renew \<and> f_ext_ip g = m_assigned_ext_ip m \<and>
     f_ext_port g = m_assigned_ext_port m \<and> f_recv_result g = m_recv_result m \<and> f_recv_lifetime g = lifetime_end m"

lemma success_event:
  assumes f: "c_heap c p = Some f" "f_state f = pfs_wait_resp" and op: "k_operation (f_kd f) \<in> {PCP_OPCODE_MAP, PCP_OPCODE_PEER}"
    and xs: "kids (c_heap c) (Some p) xs"
  shows "runs (handle_flow_event p fev_res_success (Some m) c)
    (\<lambda>(st, c'). st = pfs_wait_for_lifetime_renew \<and> (\<exists>g. answered m g \<and> flow_place g = flow_place f \<and> c_heap c' = (c_heap c)(p \<mapsto> g)))"
proof -
  have tab: "flow_next_state pfs_wait_resp fev_res_success = Some pfs_wait_for_lifetime_renew"
    "flow_trans_handler pfs_wait_resp pfs_wait_for_lifetime_renew = Some Fhndl_received_success"
    by (simp_all add: flow_next_state_def flow_events_sm_def flow_trans_handler_def flow_transitions_def)
  let ?f1 = "store_response m (f\<lparr>f_state := pfs_wait_for_lifetime_renew\<rparr>)"
  let ?t = "w_tod c (w_tod_i c)"
  let ?g = "?f1\<lparr>f_timeout := (if m_recv_lifetime m = 0 then Timeval 0 0
             else Timeval (tv_sec ?t + (f_recv_lifetime ?f1 - tv_sec ?t) div 2) (tv_usec ?t))\<rparr>"
  let ?c = "c\<lparr>c_heap := (c_heap c)(p \<mapsto> ?g), w_tod_i := Suc (w_tod_i c)\<rparr>"
  have loop: "flow_event_loop p (Some m) (f_state f) fev_res_success c = Some ?c"
    using f tab by (subst flow_event_loop.simps)
      (simp add: upd_flow_def fhndl_received_success_def gettimeofday_def)
  have ans: "answered m ?g" using op by (auto simp: answered_def store_response_def Let_def)
  have place: "flow_place ?g = flow_place f" by (simp add: store_response_def Let_def flow_place_def flow_links_def)
  have "kids (c_heap ?c) (Some p) xs = kids (c_heap c) (Some p) xs"
    by (rule kids_cong) (use f place in \<open>auto simp: flow_place_def\<close>)
  with xs have xs': "kids (c_heap ?c) (Some p) xs" by simp
  obtain n st n' st' where ev: "pcp_eval_flow_state (Some p) c = Some (n, st)" "pcp_eval_flow_state (Some p) ?c = Some (n', st')"
    using eval_flow_state_list [OF xs] eval_flow_state_list [OF xs'] by blast
  have notify: "runs (flow_change_notify p st' ?c) (\<lambda>c'. c_heap c' = c_heap ?c)"
    by (auto simp: flow_change_notify_def rd_flow_def)
  have "runs (if st \<noteq> st' \<or> f_ext_ip f \<noteq> f_ext_ip ?g \<or> f_ext_port f \<noteq> f_ext_port ?g then flow_change_notify p st' ?c else Some ?c)
      (\<lambda>c'. c_heap c' = c_heap ?c)"
    using notify by simp
  then obtain c' where c': "(if st \<noteq> st' \<or> f_ext_ip f \<noteq> f_ext_ip ?g \<or> f_ext_port f \<noteq> f_ext_port ?g
      then flow_change_notify p st' ?c else Some ?c) = Some c'" "c_heap c' = c_heap ?c" by (elim runsE)
  have rd: "rd_flow p c = Some f" "rd_flow p ?c = Some ?g" using f by (simp_all add: rd_flow_def)
  have "handle_flow_event p fev_res_success (Some m) c = Some (f_state ?g, c')"
    unfolding handle_flow_event_def rd bind.simps ev prod.case loop c'(1) ..
  moreover have "f_state ?g = pfs_wait_for_lifetime_renew" using ans unfolding answered_def by blast
  moreover have "c_heap c' = (c_heap c)(p \<mapsto> ?g)" using c'(2) by simp
  ultimately show ?thesis using ans place by (simp only: runs_simps prod.case) blast
qed


section \<open>From the request to the answer\<close>

lemma peer_key_travels:
  "yields (peer_key src dst kd c) (\<lambda>(r, c'). \<forall>k. r = Some k \<longrightarrow> k_operation k = PCP_OPCODE_PEER)"
proof -
  have v6: "yields (findsaddr6 dst c) (\<lambda>x. True)" by simp
  then show ?thesis
    by (cases src) (auto simp: peer_key_def Let_def case_prod_unfold elim!: yields_mono split: option.split)
qed

lemma requested_key_travels: "requested_key src dst protocol c = Some (Some kd, c') \<Longrightarrow> key_travels kd"
proof (cases "usable_dst dst")
  case None
  assume "requested_key src dst protocol c = Some (Some kd, c')"
  with None show ?thesis by (auto simp: requested_key_def key_travels_def kd_zero_def Let_def case_prod_unfold)
next
  case (Some d)
  assume "requested_key src dst protocol c = Some (Some kd, c')"
  with Some obtain kd0 where "peer_key src d kd0 c = Some (Some kd, c')"
    by (auto simp: requested_key_def Let_def case_prod_unfold)
  from yieldsD [OF peer_key_travels this] show ?thesis by (simp add: key_travels_def)
qed

lemma caasi_key_fields:
  "caasi_key kd sv = Some k \<Longrightarrow> k_pcp_server_ip k = s_pcp_ip sv \<and> k_nonce k = s_nonce sv \<and>
     k_operation k = k_operation kd \<and> k_map_peer k = k_map_peer kd"
  by (auto simp: caasi_key_def Let_def split: if_splits)

lemma response_reaches_flow_core:
  assumes inv: "ctx_inv c" and s: "in_use s c" "sv = c_pcp_servers c ! s"
    and p: "p \<in> db_flows c" "c_heap c p = Some f" "f_state f = pfs_wait_resp" "f_pcp_server_indx f = s_index sv"
    and key: "requested_key src dst protocol c0 = Some (Some kd, c1)" "caasi_key kd sv = Some (f_kd f)"
    and uniq: "\<forall>q\<in>db_flows c. db_key c q = db_key c p \<longrightarrow> q = p"
    and msg: "ver = 1 \<or> ver = 2" "m_pcp_msg_buffer (c_msg c) = wire_response ver f 0 lifetime epoch ip port @ rest"
      "length (wire_response ver f 0 lifetime epoch ip port) \<le> m_pcp_msg_len (c_msg c)"
    and to: "addressed_to sv scope_id (m_rcvd_to_addr (c_msg c)) (f_kd f)"
  shows "\<exists>m c' g. parse_response (c_msg c) = Some (PCP_ERR_SUCCESS, m) \<and>
    server_process_rcvd_pcp_msg s (c\<lparr>c_msg := complete_msg sv scope_id m\<rparr>) = Some (Some p, c') \<and>
    c_heap c' = (c_heap c)(p \<mapsto> g) \<and> flow_place g = flow_place f \<and> f_state g = pfs_wait_for_lifetime_renew \<and>
    f_ext_ip g = ip \<and> f_ext_port g = port \<and> f_recv_result g = 0 \<and> f_recv_lifetime g = lifetime_end m \<and> m_recv_lifetime m = lifetime"
proof -
  note kf = caasi_key_fields [OF key(2)]
  have kt: "key_travels (f_kd f)" using requested_key_travels [OF key(1)] kf by (simp add: key_travels_def)
  then have op: "k_operation (f_kd f) \<in> {PCP_OPCODE_MAP, PCP_OPCODE_PEER}" by (auto simp: key_travels_def)
  define m where "m = (c_msg c)\<lparr>m_kd := resp_key ver f, m_assigned_ext_ip := ip, m_assigned_ext_port := port,
      m_recv_version := ucast ver, m_recv_epoch := epoch, m_recv_lifetime := lifetime, m_recv_result := 0\<rparr>"
  have parse: "parse_response (c_msg c) = Some (PCP_ERR_SUCCESS, m)"
    using parse_wire_response_v1 [of f "c_msg c" 0] parse_wire_response_v2 [of f "c_msg c" 0] msg op by (auto simp: m_def)
  define m' where "m' = complete_msg sv scope_id m"
  have kd: "m_kd m' = f_kd f"
    unfolding m'_def using msg(1) kt kf to by (intro completed_key [of ver]) (simp_all add: m_def)
  have m': "m_recv_version m' = ucast ver" "m_recv_result m' = 0" "m_assigned_ext_ip m' = ip" "m_assigned_ext_port m' = port"
      "lifetime_end m' = lifetime_end m"
    by (simp_all add: m'_def m_def complete_msg_def Let_def case_prod_unfold lifetime_end_def)
  let ?c = "c\<lparr>c_msg := m'\<rparr>"
  have rd: "rd_server s ?c = Some sv" using s by (simp add: rd_server_def in_use_def)
  have ci: "db_inv ?c" using inv by (simp add: ctx_inv_def db_inv_def db_rep_def in_bucket_def [abs_def])
  have same: "db_flows ?c = db_flows c" "db_key ?c = db_key c" by (simp_all add: db_flows_def db_key_def fun_eq_iff)
  have kp: "db_key c p = (s_index sv, f_kd f)" using p by (simp add: db_key_def)
  have "lookup_flow (s_index sv, f_kd f) ?c = Some (Some p)"
    using db.look_law [OF ci, of "(s_index sv, f_kd f)"] p(1) uniq kp unfolding same
    by (metis (mono_tags, lifting) empty_iff mem_Collect_eq)
  then have "find_rcvd_flow s ?c = Some (Some p, ?c)"
    using rd kd m'(1) msg(1) by (auto simp: find_rcvd_flow_def pcp_get_flow_lookup Let_def)
  moreover obtain xs where xs: "kids (c_heap ?c) (Some p) xs"
    using inv p(2) unfolding ctx_inv_def flows_ok_def by auto
  have "runs (handle_flow_event p fev_res_success (Some m') ?c)
    (\<lambda>(st, c'). st = pfs_wait_for_lifetime_renew \<and> (\<exists>g. answered m' g \<and> flow_place g = flow_place f \<and> c_heap c' = (c_heap ?c)(p \<mapsto> g)))"
    by (rule success_event [OF _ p(3) op xs]) (use p in simp)
  then obtain c' g where g: "handle_flow_event p fev_res_success (Some m') ?c = Some (pfs_wait_for_lifetime_renew, c')"
      "answered m' g" "flow_place g = flow_place f" "c_heap c' = (c_heap c)(p \<mapsto> g)" by (auto elim!: runsE)
  ultimately have "server_process_rcvd_pcp_msg s (c\<lparr>c_msg := complete_msg sv scope_id m\<rparr>) = Some (Some p, c')"
    using m'(2) by (simp add: server_process_rcvd_pcp_msg_def m'_def [symmetric])
  moreover have "f_state g = pfs_wait_for_lifetime_renew \<and> f_ext_ip g = ip \<and> f_ext_port g = port \<and> f_recv_result g = 0 \<and>
      f_recv_lifetime g = lifetime_end m"
    using g(2) m'(2-5) unfolding answered_def by simp
  moreover have "m_recv_lifetime m = lifetime" by (simp add: m_def)
  ultimately show ?thesis using parse g(3,4) by blast
qed


text \<open>C3: a request is answered. Let a flow wait for the response of its server, with the key that
  \<open>pcp_new_flow\<close> gave it for this server and that no other flow has. When the message that arrived
  begins with the server's positive answer in version 1 or 2, it is parsed and completed to the key
  of the flow, finds the flow in the table and brings it to \<open>pfs_wait_for_lifetime_renew\<close>, with the
  external address and port that the server assigned and the end of the granted lifetime; no other
  flow changes.\<close>

theorem response_reaches_flow:
  assumes inv: "ctx_inv c" and s: "in_use s c" "sv = c_pcp_servers c ! s"
    and p: "p \<in> db_flows c" "c_heap c p = Some f" "f_state f = pfs_wait_resp" "f_pcp_server_indx f = s_index sv"
    and key: "requested_key src dst protocol c0 = Some (Some kd, c1)" "caasi_key kd sv = Some (f_kd f)"
    and uniq: "\<forall>q\<in>db_flows c. db_key c q = db_key c p \<longrightarrow> q = p"
    and msg: "ver = 1 \<or> ver = 2" "m_pcp_msg_buffer (c_msg c) = wire_response ver f 0 lifetime epoch ip port @ rest"
      "length (wire_response ver f 0 lifetime epoch ip port) \<le> m_pcp_msg_len (c_msg c)"
    and to: "addressed_to sv scope_id (m_rcvd_to_addr (c_msg c)) (f_kd f)"
  shows "\<exists>m c' g. parse_response (c_msg c) = Some (PCP_ERR_SUCCESS, m) \<and>
    server_process_rcvd_pcp_msg s (c\<lparr>c_msg := complete_msg sv scope_id m\<rparr>) = Some (Some p, c') \<and>
    c_heap c' = (c_heap c)(p \<mapsto> g) \<and> flow_place g = flow_place f \<and> f_state g = pfs_wait_for_lifetime_renew \<and>
    f_ext_ip g = ip \<and> f_ext_port g = port \<and> f_recv_result g = 0 \<and> f_recv_lifetime g = lifetime_end m \<and> m_recv_lifetime m = lifetime"
  using assms by (rule response_reaches_flow_core)

text \<open>A context with a flow that waits for the response to its MAP request.\<close>

definition waiting_flow :: pcp_flow where
  "waiting_flow = flow_zero\<lparr>f_key_bucket := EMPTY, f_state := pfs_wait_resp, f_kd := kd_zero\<lparr>k_src_ip := In6 1 2 3 4, k_scope_id := 0,
     k_map_peer := (k_map_peer kd_zero)\<lparr>mp_src_port := 80, mp_protocol := 6\<rparr>, k_operation := PCP_OPCODE_MAP,
     k_pcp_server_ip := s_pcp_ip server_zero, k_nonce := s_nonce server_zero\<rparr>\<rparr>"

lemma waiting_context:
  "\<exists>c f. ctx_inv c \<and> in_use 0 c \<and> c_pcp_servers c = c_pcp_servers ctx_one_server \<and> db_flows c = {0} \<and> c_heap c 0 = Some f \<and>
     f_state f = pfs_wait_resp \<and> f_pcp_server_indx f = 0 \<and> f_kd f = f_kd waiting_flow \<and>
     f = waiting_flow\<lparr>f_next := f_next f, f_key_bucket := f_key_bucket f\<rparr>"
proof -
  let ?a = "ctx_one_server\<lparr>c_heap := [0 \<mapsto> waiting_flow], c_brk := 1\<rparr>"
  have w: "msg_ok waiting_flow" "f_key_bucket waiting_flow = EMPTY" "f_next_child waiting_flow = None"
    using flow_zero_ok by (simp_all add: waiting_flow_def place_defs flow_zero_def)
  have eq: "?a = ctx_one_server\<lparr>c_heap := (c_heap ctx_one_server)(c_brk ctx_one_server \<mapsto> waiting_flow),
      c_brk := Suc (c_brk ctx_one_server)\<rparr>" by (simp add: ctx_one_server_def ctx_start_def)
  from new_cell_keeps [OF ctx_one_server_inv w eq] have a: "ctx_inv ?a" "db_flows ?a = {}"
    by (auto simp: keeps_def db_flows_def ctx_one_server_def ctx_start_def)
  have h: "c_heap ?a 0 = Some waiting_flow" by simp
  obtain B where B: "db_rep ?a B" using a(1) by (auto simp: ctx_inv_def db_inv_def)
  from add_flow_refines [OF B h w(2)] obtain c' where
    c': "pcp_db_add_flow (Some 0) ?a = Some (PCP_ERR_SUCCESS, c')" "same_payload ?a c'" "db_inv c'"
      "db_flows c' = insert 0 (db_flows ?a)"
    by (auto simp: db_inv_def)
  have "w_sendto c' = w_sendto ?a" "c_pcp_servers c' = c_pcp_servers ?a" using c'(2) by (simp_all add: same_payload_def)
  then have inv: "ctx_inv c'" "c_pcp_servers c' = c_pcp_servers ctx_one_server" using payload_inv [OF a(1) c'(2,3)] by simp_all
  let ?g = "\<lambda>f. f\<lparr>f_next := None, f_key_bucket := 0\<rparr>"
  have "map_option ?g (c_heap c' 0) = Some (?g waiting_flow)" using c'(2) by (simp add: same_payload_def)
  then obtain f where f: "c_heap c' 0 = Some f" "?g f = ?g waiting_flow" by auto
  have "f = (?g f)\<lparr>f_next := f_next f, f_key_bucket := f_key_bucket f\<rparr>" by simp
  then have eqf: "f = waiting_flow\<lparr>f_next := f_next f, f_key_bucket := f_key_bucket f\<rparr>" unfolding f(2) by simp
  from arg_cong [OF eqf, of f_state] arg_cong [OF eqf, of f_pcp_server_indx] arg_cong [OF eqf, of f_kd]
  have "f_state f = f_state waiting_flow" "f_pcp_server_indx f = f_pcp_server_indx waiting_flow" "f_kd f = f_kd waiting_flow"
    by simp_all
  then have "f_state f = pfs_wait_resp" "f_pcp_server_indx f = 0" "f_kd f = f_kd waiting_flow"
    by (simp_all add: waiting_flow_def flow_zero_def)
  moreover have "in_use 0 c'" using inv(2) by (simp add: in_use_def ctx_one_server_def server_zero_def)
  moreover have "db_flows c' = {0}" using c'(4) a(2) by simp
  ultimately show ?thesis using inv f(1) eqf by (intro exI [of _ c'] exI [of _ f] conjI)
qed

lemma waiting_flow_key:
  "\<exists>kd. requested_key (SA_in6 80 (In6 1 2 3 4) 0) None 6 ctx_one_server = Some (Some kd, ctx_one_server) \<and>
     caasi_key kd (c_pcp_servers ctx_one_server ! 0) = Some (f_kd waiting_flow)"
  "addressed_to (c_pcp_servers ctx_one_server ! 0) 0 (SA_in6 0 (In6 1 2 3 4) 0) (f_kd waiting_flow)"
proof -
  let ?kd = "kd_zero\<lparr>k_src_ip := In6 1 2 3 4, k_scope_id := 0,
     k_map_peer := (k_map_peer kd_zero)\<lparr>mp_src_port := 80, mp_protocol := 6\<rparr>, k_operation := PCP_OPCODE_MAP\<rparr>"
  have any: "\<not> IPV6_IS_ADDR_ANY (In6 1 2 3 4)" by (simp add: IPV6_IS_ADDR_ANY_def) code_simp
  have mapped: "\<not> IN6_IS_ADDR_V4MAPPED (In6 1 2 3 4)" "\<not> IN6_IS_ADDR_V4MAPPED in6_zero"
    by (simp_all add: IN6_IS_ADDR_V4MAPPED_def) code_simp+
  have sv: "c_pcp_servers ctx_one_server ! 0 =
      server_zero\<lparr>s_server_state := pss_ping, s_pcp_version := 2, s_af_inet6 := True, s_next_timeout := Timeval 1000 0\<rparr>"
    by (simp add: ctx_one_server_def)
  have "requested_key (SA_in6 80 (In6 1 2 3 4) 0) None 6 ctx_one_server = Some (Some ?kd, ctx_one_server)"
    by (simp add: requested_key_def Let_def)
  moreover have "caasi_key ?kd (c_pcp_servers ctx_one_server ! 0) = Some (f_kd waiting_flow)"
    using any mapped unfolding sv by (simp add: caasi_key_def Let_def have_same_af_def waiting_flow_def server_zero_def)
  ultimately show "\<exists>kd. requested_key (SA_in6 80 (In6 1 2 3 4) 0) None 6 ctx_one_server = Some (Some kd, ctx_one_server) \<and>
     caasi_key kd (c_pcp_servers ctx_one_server ! 0) = Some (f_kd waiting_flow)" by blast
  show "addressed_to (c_pcp_servers ctx_one_server ! 0) 0 (SA_in6 0 (In6 1 2 3 4) 0) (f_kd waiting_flow)"
    using any by (simp add: addressed_to_def waiting_flow_def)
qed

theorem response_reaches_flow_witness:
  "\<exists>c m c' g. ctx_inv c \<and> server_process_rcvd_pcp_msg 0 (c\<lparr>c_msg := m\<rparr>) = Some (Some 0, c') \<and> c_heap c' 0 = Some g \<and>
     f_state g = pfs_wait_for_lifetime_renew \<and> f_ext_port g = 99"
proof -
  obtain c f where c: "ctx_inv c" "in_use 0 c" "c_pcp_servers c = c_pcp_servers ctx_one_server" "db_flows c = {0}"
    "c_heap c 0 = Some f" "f_state f = pfs_wait_resp" "f_pcp_server_indx f = 0" "f_kd f = f_kd waiting_flow"
    using waiting_context by blast
  let ?sv = "c_pcp_servers ctx_one_server ! 0"
  let ?w = "wire_response 2 f 0 120 7 (v4mapped 5) 99"
  let ?c = "c\<lparr>c_msg := msg_zero\<lparr>m_pcp_msg_buffer := ?w @ [], m_pcp_msg_len := length ?w, m_rcvd_to_addr := SA_in6 0 (In6 1 2 3 4) 0\<rparr>\<rparr>"
  obtain kd where key: "requested_key (SA_in6 80 (In6 1 2 3 4) 0) None 6 ctx_one_server = Some (Some kd, ctx_one_server)"
    "caasi_key kd ?sv = Some (f_kd f)" using waiting_flow_key(1) c(8) by auto
  have "in_use 0 ?c" "ctx_inv ?c" "0 \<in> db_flows ?c" "\<forall>q\<in>db_flows ?c. db_key ?c q = db_key ?c 0 \<longrightarrow> q = 0" "c_heap ?c 0 = Some f"
      "?sv = c_pcp_servers ?c ! 0" "f_pcp_server_indx f = s_index ?sv"
    using c by (simp_all add: in_use_def db_flows_def ctx_one_server_def server_zero_def)
  moreover have "addressed_to ?sv 0 (m_rcvd_to_addr (c_msg ?c)) (f_kd f)" using waiting_flow_key(2) c(8) by simp
  ultimately obtain m c' g where
    "server_process_rcvd_pcp_msg 0 (?c\<lparr>c_msg := complete_msg ?sv 0 m\<rparr>) = Some (Some 0, c')" "c_heap c' = (c_heap ?c)(0 \<mapsto> g)"
      "f_state g = pfs_wait_for_lifetime_renew" "f_ext_port g = 99"
    using response_reaches_flow [of ?c 0 ?sv 0 f "SA_in6 80 (In6 1 2 3 4) 0" None 6 ctx_one_server kd ctx_one_server 2 120 7
        "v4mapped 5" 99 "[]" 0] key c(6) by auto
  then show ?thesis using c(1) by (intro exI [of _ c] exI [of _ "complete_msg ?sv 0 m"] exI [of _ c'] exI [of _ g]) simp
qed

end
