(* ===== verification/Terminate.thy ===== *)
theory Terminate
  imports Exchange
begin

text \<open>
  The end of a context: \<open>pcp_terminate\<close> without closing frees every flow of the table, in the order of the
  table, while it runs over the table, and then the servers.
\<close>

section \<open>Deleting the first flow of the table\<close>

lemma first_of_concat:
  "concat B = p # ps \<Longrightarrow> \<exists>i xs. i < length B \<and> B ! i = p # xs \<and> concat (B[i := xs]) = ps"
proof (induction B)
  case (Cons b B)
  show ?case
  proof (cases b)
    case Nil
    with Cons obtain i xs where "i < length B" "B ! i = p # xs" "concat (B[i := xs]) = ps" by auto
    then show ?thesis using Nil by (intro exI [of _ "Suc i"] exI [of _ xs]) simp
  next
    case (Cons x xs)
    then show ?thesis using Cons.prems by (intro exI [of _ 0] exI [of _ xs]) simp
  qed
qed simp

lemma chain_next:
  "chain h v xs \<Longrightarrow> chain h' v' xs \<Longrightarrow> q \<in> set xs \<Longrightarrow> map_option f_next (h' q) = map_option f_next (h q)"
proof (induction xs arbitrary: v v')
  case (Cons x xs)
  then obtain f f' where f: "h x = Some f" "chain h (f_next f) xs" "h' x = Some f'" "chain h' (f_next f') xs" by auto
  show ?case
  proof (cases "q = x")
    case True
    have "f_next f' = f_next f" using f(2,4) by (cases xs) auto
    then show ?thesis using True f(1,3) by simp
  next
    case False
    then show ?thesis using Cons.IH [OF f(2,4)] Cons.prems(3) by simp
  qed
qed simp

lemma delete_listed:
  assumes rep: "db_rep c B" and f: "c_heap c p = Some f" "f_key_bucket f \<noteq> EMPTY"
  shows "runs (pcp_delete_flow_intern p c) (\<lambda>(r, c'). db_rep c' (B[unat (f_key_bucket f) := remove1 p (B ! unat (f_key_bucket f))]) \<and>
    db_alloc c' = db_alloc c - {p} \<and> length (c_pcp_servers c') = length (c_pcp_servers c))"
proof -
  let ?B = "B[unat (f_key_bucket f) := remove1 p (B ! unat (f_key_bucket f))]"
  from rem_flow_refines [OF rep f] obtain c1 where
    c1: "pcp_db_rem_flow p c = Some (PCP_ERR_SUCCESS, c1)" "same_payload c c1" "db_rep c1 ?B" "db_flows c1 = db_flows c - {p}" by blast
  have "p \<in> db_alloc c1" using same_payload_alloc [OF c1(2)] f(1) by (auto simp: db_alloc_def)
  then obtain g where g: "c_heap c1 p = Some g" by (auto simp: db_alloc_def)
  have "p \<notin> db_flows c1" using c1(4) by simp
  then have empty: "f_key_bucket g = EMPTY" using g by (auto simp: db_flows_def)
  let ?upd = "\<lambda>sv. if s_ping_flow_msg sv = Some p then sv\<lparr>s_ping_flow_msg := None\<rparr> else sv"
  have "\<exists>vs. (if f_pcp_server_indx g \<noteq> PCP_INV_SERVER
          then case get_pcp_server (sint (f_pcp_server_indx g)) c1 of
                 None \<Rightarrow> Some c1 | Some s \<Rightarrow> upd_server s ?upd c1
          else Some c1) = Some (c1\<lparr>c_pcp_servers := vs\<rparr>) \<and> length vs = length (c_pcp_servers c1)"
    by (auto simp: get_pcp_server_Some upd_server_def intro: exI [of _ "c_pcp_servers c1"] split: option.split)
  then obtain vs where c2: "(if f_pcp_server_indx g \<noteq> PCP_INV_SERVER
          then case get_pcp_server (sint (f_pcp_server_indx g)) c1 of
                 None \<Rightarrow> Some c1 | Some s \<Rightarrow> upd_server s ?upd c1
          else Some c1) = Some (c1\<lparr>c_pcp_servers := vs\<rparr>)" "length vs = length (c_pcp_servers c1)" by blast
  let ?c2 = "c1\<lparr>c_pcp_servers := vs\<rparr>" and ?d = "c1\<lparr>c_pcp_servers := vs, c_heap := (c_heap c1)(p := None)\<rparr>"
  have "db_rep ?c2 ?B" using c1(3) by (simp add: db_rep_def in_bucket_def [abs_def])
  from free_unlinked_rep [OF this, of p g] g empty have "db_rep ?d ?B" by simp
  moreover have "pcp_delete_flow_intern p c = Some (PCP_ERR_SUCCESS, ?d)"
    unfolding pcp_delete_flow_intern_def c1(1) bind.simps prod.case rd_flow_def g c2(1) free_flow_cell_def
    using g by simp
  moreover have "db_alloc ?d = db_alloc c - {p}" using same_payload_alloc [OF c1(2)] by (auto simp: db_alloc_def)
  moreover have "length vs = length (c_pcp_servers c)" using c2(2) c1(2) by (simp add: same_payload_def)
  ultimately show ?thesis by simp
qed

section \<open>Deleting all flows\<close>

definition deleting :: "pcp_ctx \<Rightarrow> fid list \<Rightarrow> pcp_ctx \<Rightarrow> bool" where
  "deleting c0 ps c \<longleftrightarrow> (\<exists>B. db_rep c B \<and> concat B = ps) \<and> db_alloc c - set ps = db_alloc c0 - db_flows c0 \<and>
     length (c_pcp_servers c) = length (c_pcp_servers c0)"

lemma delete_flow_iter_step:
  assumes d: "deleting c0 (p # ps) c"
  shows "runs (delete_flow_iter p False c) (\<lambda>(stop, d', c'). \<not> stop \<and> \<not> d' \<and> deleting c0 ps c' \<and>
    links_kept (set ps) c c' \<and> heads_kept {p} c c')"
proof -
  from d obtain B where B: "db_rep c B" "concat B = p # ps" by (auto simp: deleting_def)
  from first_of_concat [OF B(2)] obtain i xs where i: "i < length B" "B ! i = p # xs" "concat (B[i := xs]) = ps" by blast
  have len: "length B = FLOW_HASH_SIZE" "length (c_flows c) = FLOW_HASH_SIZE" using B(1) by (simp_all add: db_rep_def)
  have "p \<in> set (B ! i)" using i(2) by simp
  then have "in_bucket c i p" using db_rep_bucket(3) [OF B(1)] i(1) len by simp
  then obtain f where f: "c_heap c p = Some f" "f_key_bucket f \<noteq> EMPTY" "unat (f_key_bucket f) = i"
    by (auto simp: in_bucket_def)
  from delete_listed [OF B(1) f(1,2)] f(3) i(2) obtain r c' where
    c': "pcp_delete_flow_intern p c = Some (r, c')" "db_rep c' (B[i := xs])" "db_alloc c' = db_alloc c - {p}"
      "length (c_pcp_servers c') = length (c_pcp_servers c)" by (auto elim!: runsE)
  have ch: "chain (c_heap c) (c_flows c ! j) (B ! j)" "chain (c_heap c') (c_flows c' ! j) (B[i := xs] ! j)" if "j < FLOW_HASH_SIZE" for j
    using that db_rep_bucket(1) [OF B(1)] db_rep_bucket(1) [OF c'(2)] by auto
  have dist: "distinct (concat B)" using db_rep_distinct [OF B(1)] .
  have "p \<notin> set ps" using dist B(2) by simp
  have "links_kept (set ps) c c'"
    unfolding links_kept_def
  proof
    fix q assume "q \<in> set ps"
    then have "q \<in> \<Union> (set ` set (B[i := xs]))" using i(3) by auto
    then obtain b where b: "b \<in> set (B[i := xs])" "q \<in> set b" by blast
    then obtain j where j: "j < FLOW_HASH_SIZE" "q \<in> set (B[i := xs] ! j)"
      using len by (metis in_set_conv_nth length_list_update)
    have "\<exists>v. chain (c_heap c) v (B[i := xs] ! j)"
      using ch(1) [OF j(1)] i(1,2) by (cases "j = i") auto
    then show "map_option f_next (c_heap c' q) = map_option f_next (c_heap c q)" using chain_next ch(2) [OF j(1)] j(2) by blast
  qed
  moreover have "heads_kept {p} c c'"
    unfolding heads_kept_def
  proof (intro conjI allI impI)
    show "length (c_flows c') = length (c_flows c)" using c'(2) len by (simp add: db_rep_def)
    fix j assume j: "j < length (c_flows c)" "c_flows c ! j \<notin> Some ` {p}"
    then have "j \<noteq> i" using ch(1) [of i] i(1,2) len by auto
    then have "chain (c_heap c) (c_flows c ! j) (B ! j)" "chain (c_heap c') (c_flows c' ! j) (B ! j)"
      using ch [of j] j(1) len by auto
    then show "c_flows c' ! j = c_flows c ! j" by (cases "B ! j") auto
  qed
  moreover have "deleting c0 ps c'"
    using d c' i(3) \<open>p \<notin> set ps\<close> by (auto simp: deleting_def)
  ultimately show ?thesis using c'(1) by (simp add: delete_flow_iter_def)
qed


interpretation deletions: flow_visitor_total "\<lambda>close ps c. \<not> close \<and> deleting c0 ps c" delete_flow_iter for c0
proof
  fix p ps and c c' :: pcp_ctx and d stop d'
  assume i: "\<not> d \<and> deleting c0 (p # ps) c"
  from delete_flow_iter_step [of c0 p ps c] i
  show "\<exists>stop d' c'. delete_flow_iter p d c = Some (stop, d', c')" by (auto elim!: runsE)
  assume "delete_flow_iter p d c = Some (stop, d', c')"
  with delete_flow_iter_step [of c0 p ps c] i
  show "(\<not> d' \<and> deleting c0 ps c') \<and> links_kept (set ps) c c' \<and> heads_kept {p} c c'" by auto
qed

lemma iter_delete_all:
  "deleting c0 ps c \<Longrightarrow> runs (iter_flows delete_flow_iter ps False c) (\<lambda>(stop, d, c'). deleting c0 [] c')"
proof (induction ps arbitrary: c)
  case (Cons p ps)
  from delete_flow_iter_step [OF Cons.prems] obtain c1 where
    "delete_flow_iter p False c = Some (False, False, c1)" "deleting c0 ps c1" by (auto elim!: runsE)
  with Cons.IH show ?case by simp
qed simp

lemma delete_all_flows:
  assumes "db_inv c"
  shows "runs (pcp_db_foreach_flow delete_flow_iter False c) (\<lambda>(r, d, c'). deleting c [] c')"
proof -
  obtain B where B: "db_rep c B" using assms by (auto simp: db_inv_def)
  have start: "deleting c (concat B) c" using B db_rep_flows [OF B] by (auto simp: deleting_def)
  then have "pcp_db_foreach_flow delete_flow_iter False c =
     map_option (\<lambda>(stop, d, c). (if stop then PCP_ERR_SUCCESS else PCP_ERR_NOT_FOUND, d, c))
       (iter_flows delete_flow_iter (concat B) False c)"
    using deletions.foreach_iter [OF B, of False c] by simp
  with iter_delete_all [OF start] show ?thesis by (auto elim!: runsE)
qed

section \<open>Freeing the servers\<close>

lemma terminate_server_runs:
  assumes "i < length (c_pcp_servers c)"
  shows "runs (run_server_state_machine (Some i) pcpe_terminate c) (\<lambda>(r, c'). c_heap c' = c_heap c \<and> c_flows c' = c_flows c \<and>
    c_flow_cnt c' = c_flow_cnt c \<and> c_brk c' = c_brk c \<and> length (c_pcp_servers c') = length (c_pcp_servers c))"
proof -
  have "server_handler_for st pcpe_terminate = Some Pcp_terminate_server" for st
    by (simp add: server_handler_for_def server_sm_def)
  then show ?thesis
    using assms by (simp add: run_server_state_machine_def rd_server_def pcp_terminate_server_def upd_server_def)
qed

lemma terminate_servers_runs:
  "\<forall>i\<in>set js. i < length (c_pcp_servers c) \<Longrightarrow>
   runs (terminate_servers js c) (\<lambda>c'. c_heap c' = c_heap c \<and> c_flows c' = c_flows c \<and> c_flow_cnt c' = c_flow_cnt c \<and>
     c_brk c' = c_brk c)"
proof (induction js arbitrary: c)
  case (Cons i js)
  then have i: "i < length (c_pcp_servers c)" by simp
  let ?sv = "c_pcp_servers c ! i"
  from terminate_server_runs [OF i] obtain r c1 where
    c1: "run_server_state_machine (Some i) pcpe_terminate c = Some (r, c1)" "c_heap c1 = c_heap c" "c_flows c1 = c_flows c"
      "c_flow_cnt c1 = c_flow_cnt c" "c_brk c1 = c_brk c" "length (c_pcp_servers c1) = length (c_pcp_servers c)" by (auto elim!: runsE)
  define c2 where "c2 = (if s_server_state ?sv \<noteq> pss_unitialized \<and> s_server_state ?sv \<noteq> pss_allocated then c1 else c)"
  have c2: "c_heap c2 = c_heap c" "c_flows c2 = c_flows c" "c_flow_cnt c2 = c_flow_cnt c" "c_brk c2 = c_brk c"
    "length (c_pcp_servers c2) = length (c_pcp_servers c)" using c1 by (simp_all add: c2_def)
  have "terminate_servers (i # js) c = terminate_servers js c2" using i c1(1) by (simp add: rd_server_def c2_def)
  with Cons.IH [of c2] Cons.prems c2 show ?case by simp
qed simp

lemma pcp_terminate_core:
  assumes "db_inv c"
  shows "\<exists>c'. pcp_terminate False c = Some c' \<and> db_inv c' \<and> db_flows c' = {} \<and> c_flow_cnt c' = 0 \<and>
    db_alloc c' = db_alloc c - db_flows c \<and> c_pcp_servers c' = []"
proof -
  from delete_all_flows [OF assms] obtain r d c1 where
    c1: "pcp_db_foreach_flow delete_flow_iter False c = Some (r, d, c1)" "deleting c [] c1" by (auto elim!: runsE)
  from c1(2) obtain B where B: "db_rep c1 B" "concat B = []" and al: "db_alloc c1 = db_alloc c - db_flows c"
    by (auto simp: deleting_def)
  have none: "db_flows c1 = {}" "c_flow_cnt c1 = 0" using db_rep_flows [OF B(1)] B by (simp_all add: db_rep_def)
  have "\<forall>i\<in>set [0..<length (c_pcp_servers c1)]. i < length (c_pcp_servers c1)" by simp
  from terminate_servers_runs [OF this] obtain c2 where
    c2: "terminate_servers [0..<length (c_pcp_servers c1)] c1 = Some c2" "c_heap c2 = c_heap c1" "c_flows c2 = c_flows c1"
      "c_flow_cnt c2 = c_flow_cnt c1" "c_brk c2 = c_brk c1" by (auto elim!: runsE)
  let ?c = "c2\<lparr>c_pcp_servers := []\<rparr>"
  have run: "pcp_terminate False c = Some ?c" using c1(1) c2(1) by (simp add: pcp_terminate_def pcp_db_free_pcp_servers_def)
  have "same_db c1 ?c" using c2 by (simp add: same_db_def)
  then have "db_inv ?c" using B(1) same_db_inv db_inv_def by blast
  moreover have "db_flows ?c = db_flows c1" "db_alloc ?c = db_alloc c1" using c2(2) by (simp_all add: db_flows_def db_alloc_def)
  ultimately show ?thesis using run none al c2(4) by simp
qed

text \<open>C21: \<open>pcp_terminate\<close> without closing the flows returns on every context with a well-formed table, although
  its callback unlinks and frees the very flow that the iteration stands on: afterwards the table is
  empty, its counter 0, exactly the flows of the table have been freed, and the server array is
  gone.\<close>

theorem pcp_terminate_correct:
  assumes "db_inv c"
  shows "\<exists>c'. pcp_terminate False c = Some c' \<and> db_inv c' \<and> db_flows c' = {} \<and> c_flow_cnt c' = 0 \<and>
    db_alloc c' = db_alloc c - db_flows c \<and> c_pcp_servers c' = []"
  using assms by (rule pcp_terminate_core)

theorem pcp_terminate_correct_witness:
  "\<exists>c c'. db_flows c = {0} \<and> pcp_terminate False c = Some c' \<and> db_flows c' = {} \<and> 0 \<notin> db_alloc c' \<and> c_pcp_servers c' = []"
proof -
  obtain c f where c: "ctx_inv c" "db_flows c = {0}" using waiting_context by blast
  then show ?thesis using pcp_terminate_correct [of c] by (auto simp: ctx_inv_def)
qed

end
