(* ===== verification/C_Strings.thy ===== *)
theory C_Strings
  imports Prelude
begin

text \<open>
  Functions of the C library on strings that the programs use: \<open>isspace\<close>, \<open>atoi\<close> and the decimal numbers of
  \<open>printf\<close>. A string is the list of its characters without the terminator.
\<close>

text \<open>
  \<open>atoi\<close> of the C library: leading blanks, a sign, digits. A value outside the range of \<open>int\<close> is
  undefined, and \<open>None\<close> here.
\<close>

definition is_digit :: "char \<Rightarrow> bool" where
  "is_digit ch \<longleftrightarrow> 48 \<le> (of_char ch :: nat) \<and> (of_char ch :: nat) \<le> 57"

definition is_space :: "char \<Rightarrow> bool" where
  "is_space ch \<longleftrightarrow> (of_char ch :: nat) = 32 \<or> 9 \<le> (of_char ch :: nat) \<and> (of_char ch :: nat) \<le> 13"

definition digits :: "string \<Rightarrow> int" where
  "digits s = foldl (\<lambda>a ch. 10 * a + (of_char ch - 48)) 0 (takeWhile is_digit s)"

definition atoi :: "string \<Rightarrow> int option" where
  "atoi s =
     (let s = dropWhile is_space s;
          v = (case s of [] \<Rightarrow> 0
               | ch # t \<Rightarrow> if ch = CHR ''-'' then - digits t else if ch = CHR ''+'' then digits t else digits s)
      in if - (2 ^ 31) \<le> v \<and> v < 2 ^ 31 then Some v else None)"

text \<open>The text that \<open>%d\<close> prints for a number that is not negative.\<close>

fun decimal :: "nat \<Rightarrow> string" where
  "decimal n = (if n < 10 then [char_of (48 + n)] else decimal (n div 10) @ [char_of (48 + n mod 10)])"

declare decimal.simps [simp del]

lemma decimal_digits: "\<forall>ch\<in>set (decimal n). is_digit ch"
proof (induction n rule: decimal.induct)
  case (1 n)
  have "is_digit (char_of (48 + k))" if "k < 10" for k :: nat
    using that by (simp add: is_digit_def)
  then show ?case using 1 by (subst decimal.simps) auto
qed

lemma decimal_not_Nil: "decimal n \<noteq> []"
  by (subst decimal.simps) simp

lemma decimal_length: "n < 10 ^ k \<Longrightarrow> 0 < k \<Longrightarrow> length (decimal n) \<le> k"
proof (induction k arbitrary: n)
  case (Suc k)
  show ?case
  proof (cases "n < 10")
    case True
    then show ?thesis by (subst decimal.simps) simp
  next
    case False
    then have "0 < k" "n div 10 < 10 ^ k" using Suc.prems by (cases k; simp add: div_less_iff_less_mult)+
    then show ?thesis using Suc.IH [of "n div 10"] False by (subst decimal.simps) simp
  qed
qed simp

text \<open>The number that was printed is read back.\<close>

lemma digits_decimal: "digits (decimal n) = int n"
proof -
  have "foldl (\<lambda>a ch. 10 * a + (of_char ch - 48)) 0 (decimal n) = int n"
  proof (induction n rule: decimal.induct)
    case (1 n)
    have val: "of_char (char_of (48 + k) :: char) = (48 + int k)" if "k < 10" for k :: nat
    proof -
      have "of_char (char_of (48 + k) :: char) = 48 + k" using that by simp
      then show ?thesis by (metis of_nat_of_char of_nat_add of_nat_numeral)
    qed
    show ?case
    proof (cases "n < 10")
      case True
      then show ?thesis using val [of n] by (subst decimal.simps) simp
    next
      case False
      have "10 * (int n div 10) + int n mod 10 = int n" by simp
      then show ?thesis using 1 False val [of "n mod 10"]
        by (subst decimal.simps) (simp add: zdiv_int zmod_int)
    qed
  qed
  moreover have "takeWhile is_digit (decimal n) = decimal n"
    using decimal_digits by (subst takeWhile_eq_all_conv) simp
  ultimately show ?thesis by (metis digits_def)
qed

lemma atoi_decimal:
  assumes "int n < 2 ^ 31"
  shows "atoi (decimal n) = Some (int n)"
proof -
  obtain ch t where d: "decimal n = ch # t" using decimal_not_Nil by (cases "decimal n") auto
  then have "is_digit ch" using decimal_digits [of n] by simp
  then have "\<not> is_space ch" "ch \<noteq> CHR ''-''" "ch \<noteq> CHR ''+''" by (auto simp: is_digit_def is_space_def)
  then show ?thesis using digits_decimal [of n] assms d by (simp add: atoi_def)
qed

text \<open>Searching for a character.\<close>

lemma takeWhile_all: "x \<notin> set h \<Longrightarrow> takeWhile (\<lambda>ch. ch \<noteq> x) h = h"
  by (auto simp: takeWhile_eq_all_conv)

lemma takeWhile_stop: "x \<notin> set h \<Longrightarrow> takeWhile (\<lambda>ch. ch \<noteq> x) (h @ x # r) = h"
  by (induction h) auto

end
