(* ===== verification/Mock_Server.thy ===== *)
theory Mock_Server
  imports Msg_Parse C_Strings
begin

text \<open>
  The test server \<open>pcp_server/pcp_server.c\<close>. It receives a datagram into a buffer of \<open>PCP_MAX_LEN\<close>
  bytes that it keeps for its whole life, prints and checks the request, turns the request into the
  response where it stands, and sends as many bytes back as it received.

  What the server prints to its log (\<open>DUPPRINT\<close>) is a list of lines, each a label with the printed
  values; the chatter on standard output is left out. All reads that printing needs are reads of
  the buffer, and \<open>None\<close> when they leave it. Result codes, an \<open>int\<close> in the code, are the 32-bit
  words of \<open>Pcp_Types\<close>.
\<close>

section \<open>The log\<close>

text \<open>
  \<open>A_mem bs\<close>: text from a local array that starts with \<open>bs\<close> and is not initialised behind it.
\<close>

datatype log_arg = A_int int | A_ip4 u32 | A_ip6 in6_addr | A_str "u8 list" | A_mem "u8 list"

type_synonym log_line = "string \<times> log_arg list"

text \<open>A string read with \<open>%s\<close>, and one read with \<open>%.*s\<close> and the bound \<open>n\<close>.\<close>

definition cstr :: "nat \<Rightarrow> u8 list \<Rightarrow> u8 list option" where
  "cstr off b = (let s = drop off b in if 0 \<in> set s then Some (takeWhile (\<lambda>x. x \<noteq> 0) s) else None)"

definition cstrn :: "nat \<Rightarrow> nat \<Rightarrow> u8 list \<Rightarrow> u8 list option" where
  "cstrn off n b = (let s = take n (drop off b) in
     if 0 \<in> set s \<or> length s = n then Some (takeWhile (\<lambda>x. x \<noteq> 0) s) else None)"

abbreviation log_u8 :: "string \<Rightarrow> u8 \<Rightarrow> log_line" where "log_u8 l v \<equiv> (l, [A_int (uint v)])"
abbreviation log_port :: "string \<Rightarrow> u16 \<Rightarrow> log_line" where "log_port l v \<equiv> (l, [A_int (uint (ntohs v))])"

text \<open>An address that is printed as IPv4 when it is IPv4-mapped.\<close>

definition log_addr :: "string \<Rightarrow> in6_addr \<Rightarrow> log_line" where
  "log_addr l ip = (l, [if IN6_IS_ADDR_V4MAPPED ip then A_ip4 (w3 ip) else A_ip6 ip])"

section \<open>Structures\<close>

record options_occur =
  third_party_occur :: int
  pfailure_occur :: int

record server_info =
  si_server_version :: u8
  si_end_after_recv :: u8
  si_default_result_code :: u8
  si_ext_ip :: in6_addr
  si_app_bit :: u8
  si_ret_dscp :: u8
  si_log_file :: string
  si_tv :: timeval
  si_epoch_time_start :: int

definition reset_option_occur :: "options_occur \<Rightarrow> options_occur" where
  "reset_option_occur opt_occ = opt_occ\<lparr>third_party_occur := 0, pfailure_occur := 0\<rparr>"

section \<open>Printing of the opcode specific data\<close>

definition print_MAP_opcode_ver1 :: "u8 list \<Rightarrow> nat \<Rightarrow> log_line list option" where
  "print_MAP_opcode_ver1 b r = do {
     protocol \<leftarrow> get8 r b;
     int_port \<leftarrow> get16 (r + 4) b;
     ext_port \<leftarrow> get16 (r + 6) b;
     ext_ip \<leftarrow> get_in6 (r + 8) b;
     Some [(''PCP protocol VERSION 1.'', []), log_u8 ''MAP protocol'' protocol, log_port ''MAP int port'' int_port,
       log_port ''MAP ext port'' ext_port, (''MAP Ext IP'', [A_ip6 ext_ip])]
   }"

definition print_MAP_opcode_ver2 :: "u8 list \<Rightarrow> nat \<Rightarrow> log_line list option" where
  "print_MAP_opcode_ver2 b r = do {
     protocol \<leftarrow> get8 (r + 12) b;
     int_port \<leftarrow> get16 (r + 16) b;
     ext_port \<leftarrow> get16 (r + 18) b;
     ext_ip \<leftarrow> get_in6 (r + 20) b;
     Some [(''PCP protocol VERSION 2.'', []), log_u8 ''MAP protocol'' protocol, log_port ''MAP int port'' int_port,
       log_port ''MAP ext port'' ext_port, (''MAP Ext IP'', [A_ip6 ext_ip])]
   }"

definition print_PEER_opcode_ver1 :: "u8 list \<Rightarrow> nat \<Rightarrow> log_line list option" where
  "print_PEER_opcode_ver1 b r = do {
     protocol \<leftarrow> get8 r b;
     int_port \<leftarrow> get16 (r + 4) b;
     ext_ip \<leftarrow> get_in6 (r + 8) b;
     ext_port \<leftarrow> get16 (r + 6) b;
     peer_ip \<leftarrow> get_in6 (r + 28) b;
     peer_port \<leftarrow> get16 (r + 24) b;
     Some [(''PCP protocol VERSION 1.'', []), (''PEER Opcode specific information.'', []),
       log_u8 ''Protocol'' protocol, log_port ''Internal port'' int_port, (''External IP'', [A_ip6 ext_ip]),
       log_port ''External port port'' ext_port, (''PEER IP'', [A_ip6 peer_ip]), log_port ''PEER port port'' peer_port]
   }"

definition print_PEER_opcode_ver2 :: "u8 list \<Rightarrow> nat \<Rightarrow> log_line list option" where
  "print_PEER_opcode_ver2 b r = do {
     protocol \<leftarrow> get8 (r + 12) b;
     int_port \<leftarrow> get16 (r + 16) b;
     ext_ip \<leftarrow> get_in6 (r + 20) b;
     ext_port \<leftarrow> get16 (r + 18) b;
     peer_ip \<leftarrow> get_in6 (r + 40) b;
     peer_port \<leftarrow> get16 (r + 36) b;
     Some [(''PCP protocol VERSION 2.'', []), (''PEER Opcode specific information.'', []),
       log_u8 ''Protocol'' protocol, log_port ''Internal port'' int_port, (''External IP'', [A_ip6 ext_ip]),
       log_port ''External port'' ext_port, log_addr ''PEER IP'' peer_ip, log_port ''PEER port'' peer_port]
   }"

text \<open>The result is the size of the request with its name, and the log.\<close>

definition print_SADSCP_opcode_ver2 :: "u8 list \<Rightarrow> nat \<Rightarrow> (nat \<times> log_line list) option" where
  "print_SADSCP_opcode_ver2 b r = do {
     tol \<leftarrow> get8 (r + 12) b;
     app_name_length \<leftarrow> get8 (r + 13) b;
     app_name \<leftarrow> cstrn (r + 14) (unat app_name_length) b;
     Some (sz_sadscp_req + unat app_name_length,
       [(''PCP protocol VERSION 2.'', []), (''SADSCP Opcode specific information.'', []),
        log_u8 ''Jitter tolerance'' (drop_bit 2 tol AND 3), log_u8 ''Loss tolerance'' (drop_bit 4 tol AND 3),
        log_u8 ''Delay tolerance'' (drop_bit 6 tol AND 3), log_u8 ''App name length'' app_name_length,
        (''App name'', [A_str app_name])])
   }"

section \<open>Options\<close>

text \<open>
  One option: its result code, and \<open>remain\<close>, \<open>processed\<close> and the occurrences after it. An option is
  taken to have the size of its structure, whatever its length field says, except for metadata.
\<close>

definition print_PCP_options ::
    "u8 list \<Rightarrow> int \<Rightarrow> nat \<Rightarrow> options_occur \<Rightarrow> (u32 \<times> int \<times> nat \<times> options_occur \<times> log_line list) option" where
  "print_PCP_options b remain processed opt_occ = do {
     r_opcode \<leftarrow> get8 1 b;
     let opcode = r_opcode AND 0x7F;
     code \<leftarrow> get8 processed b;
     if code = PCP_OPTION_3RD_PARTY then do {
       let res = (if third_party_occur opt_occ \<noteq> 0 then PCP_RES_MALFORMED_OPTION else PCP_RES_SUCCESS);
       let occ = (if third_party_occur opt_occ \<noteq> 0 then opt_occ else opt_occ\<lparr>third_party_occur := 1\<rparr>);
       ip \<leftarrow> get_in6 (processed + 4) b;
       Some (res, remain - int sz_3rd_party_option, processed + sz_3rd_party_option, occ,
         (if third_party_occur opt_occ \<noteq> 0 then [(''THIRD PARTY OPTION was already present.'', [])] else []) @
         [(''OPTION: Third party'', []), (''Third PARTY IP'', [A_ip6 ip])])
     }
     else if code = PCP_OPTION_PREF_FAIL then do {
       let res = (if pfailure_occur opt_occ \<noteq> 0 then PCP_RES_MALFORMED_OPTION
                  else if opcode \<noteq> PCP_OPCODE_MAP then PCP_RES_MALFORMED_REQUEST else PCP_RES_SUCCESS);
       let occ = (if pfailure_occur opt_occ \<noteq> 0 then opt_occ else opt_occ\<lparr>pfailure_occur := 1\<rparr>);
       Some (res, remain - int sz_prefer_fail_option, processed + sz_prefer_fail_option, occ,
         (if opcode \<noteq> PCP_OPCODE_MAP then [(''Unsupported OPTION for given OPCODE.'', [])] else []) @
         (if pfailure_occur opt_occ \<noteq> 0 then [(''PREFER FAILURE OPTION was already present.'', [])] else []) @
         [(''OPTION: Prefer fail'', [])])
     }
     else if code = PCP_OPTION_FILTER then do {
       let res = (if opcode \<noteq> PCP_OPCODE_MAP then PCP_RES_MALFORMED_REQUEST else PCP_RES_SUCCESS);
       prefix \<leftarrow> get8 (processed + 5) b;
       port \<leftarrow> get16 (processed + 6) b;
       ip \<leftarrow> get_in6 (processed + 8) b;
       Some (res, remain - int sz_filter_option, processed + sz_filter_option, opt_occ,
         (if opcode \<noteq> PCP_OPCODE_MAP then [(''Unsupported OPTION for given OPCODE.'', [])] else []) @
         [(''OPTION: Filter'', []), log_u8 ''PREFIX'' prefix, log_port ''FILTER PORT'' port, (''FILTER IP'', [A_ip6 ip])])
     }
     else if code = PCP_OPTION_FLOW_PRIORITY then do {
       up \<leftarrow> get8 (processed + 4) b;
       down \<leftarrow> get8 (processed + 5) b;
       Some (PCP_RES_SUCCESS, remain - int sz_flow_priority_option, processed + sz_flow_priority_option, opt_occ,
         [(''OPTION: Flow priority'', []), log_u8 ''DSCP UP'' up, log_u8 ''DSCP DOWN'' down])
     }
     else if code = PCP_OPTION_METADATA then do {
       ident \<leftarrow> get32 (processed + 4) b;
       len \<leftarrow> get16 (processed + 2) b;
       md \<leftarrow> peek (processed + 8) (unat (htons len)) b;
       metadata \<leftarrow> poke 0 md (replicate PCP_MAX_LEN 0);
       Some (PCP_RES_SUCCESS, remain - int (sz_options_hdr + unat (htons len)), processed + (sz_options_hdr + unat (htons len)),
         opt_occ, [(''OPTION: Metadata'', []), (''METADATA ID'', [A_int (uint (htonl ident))]), (''METADATA'', [A_mem md])])
     }
     else if code = PCP_OPTION_LOCATION then do {
       s \<leftarrow> cstr (processed + 4) b;
       Some (PCP_RES_SUCCESS, remain - int sz_location_option, processed + sz_location_option, opt_occ,
         [(''OPTION: Location'', []), (''Location'', [A_str s])])
     }
     else if code = PCP_OPTION_USERID then do {
       s \<leftarrow> cstr (processed + 4) b;
       Some (PCP_RES_SUCCESS, remain - int sz_userid_option, processed + sz_userid_option, opt_occ,
         [(''OPTION: User ID'', []), (''User ID'', [A_str s])])
     }
     else if code = PCP_OPTION_DEVICEID then do {
       s \<leftarrow> cstr (processed + 4) b;
       Some (PCP_RES_SUCCESS, remain - int sz_deviceid_option, processed + sz_deviceid_option, opt_occ,
         [(''OPTION: Device ID'', []), (''Device ID'', [A_str s])])
     }
     else Some (PCP_RES_SUCCESS, 0, processed, opt_occ,
       [log_u8 ''Unrecognized PCP OPTION'' code, (''Unrecognized PCP OPTION remain'', [A_int remain]),
        (''Unrecognized PCP OPTION processed'', [A_int (int processed)])])
   }"

lemma uint_above [simp]: "- 4 < uint w"
  by (rule less_le_trans [OF _ uint_ge_0]) simp

lemma print_PCP_options_decreases:
  "print_PCP_options b remain processed opt_occ = Some (res, remain', processed', occ', l) \<Longrightarrow> 0 < remain \<Longrightarrow>
     remain' < remain"
  by (auto simp: print_PCP_options_def Let_def bind_Some_iff split: if_splits)

text \<open>
  \<open>while (remainingSize > 0)\<close>: the result code of the last option is the one that counts. Every
  option makes \<open>remain\<close> smaller, so that the loop ends.
\<close>

function print_options_loop ::
    "u8 list \<Rightarrow> u32 \<Rightarrow> int \<Rightarrow> nat \<Rightarrow> options_occur \<Rightarrow> (u32 \<times> options_occur \<times> log_line list) option" where
  "print_options_loop b res remain processed opt_occ =
     (if remain \<le> 0 then Some (res, opt_occ, [])
      else case print_PCP_options b remain processed opt_occ of
        None \<Rightarrow> None
      | Some (res, remain, processed, opt_occ, l) \<Rightarrow>
          map_option (\<lambda>(r, occ, l'). (r, occ, l @ l')) (print_options_loop b res remain processed opt_occ))"
  by pat_completeness auto
termination
  by (relation "measure (\<lambda>(b, res, remain, processed, occ). nat remain)")
     (auto dest!: print_PCP_options_decreases)

declare print_options_loop.simps [simp del]

section \<open>Requests\<close>

text \<open>The opcode specific part with its options; \<open>remain\<close> is what follows the common header.\<close>

definition print_v1 :: "u8 list \<Rightarrow> u8 \<Rightarrow> int \<Rightarrow> nat \<Rightarrow> options_occur \<Rightarrow> (u32 \<times> options_occur \<times> log_line list) option" where
  "print_v1 b opcode remain processed opt_occ =
     (if opcode = PCP_OPCODE_MAP then
        let remain = remain - int sz_map_v1 in
        if remain < 0 then Some (PCP_RES_MALFORMED_OPTION, opt_occ, [])
        else do {
          l \<leftarrow> print_MAP_opcode_ver1 b processed;
          (res, opt_occ, l') \<leftarrow> print_options_loop b PCP_RES_SUCCESS remain (processed + sz_map_v1) opt_occ;
          Some (res, opt_occ, l @ l')
        }
      else if opcode = PCP_OPCODE_PEER then
        let remain = remain - int sz_map_v1 in
        if remain < 0 then Some (PCP_RES_MALFORMED_OPTION, opt_occ, [])
        else do {
          l \<leftarrow> print_PEER_opcode_ver1 b processed;
          (res, opt_occ, l') \<leftarrow> print_options_loop b PCP_RES_SUCCESS remain (processed + sz_peer_v1) opt_occ;
          Some (res, opt_occ, l @ l')
        }
      else Some (PCP_RES_SUCCESS, opt_occ, []))"

definition print_v2 :: "u8 list \<Rightarrow> u8 \<Rightarrow> int \<Rightarrow> nat \<Rightarrow> options_occur \<Rightarrow> (u32 \<times> options_occur \<times> log_line list) option" where
  "print_v2 b opcode remain processed opt_occ =
     (if opcode = PCP_OPCODE_MAP then
        let remain = remain - int sz_map_v2 in
        if remain < 0 then Some (PCP_RES_MALFORMED_OPTION, opt_occ, [])
        else do {
          l \<leftarrow> print_MAP_opcode_ver2 b processed;
          (res, opt_occ, l') \<leftarrow> print_options_loop b PCP_RES_SUCCESS remain (processed + sz_map_v2) opt_occ;
          Some (res, opt_occ, l @ l')
        }
      else if opcode = PCP_OPCODE_PEER then
        let remain = remain - int sz_peer_v2 in
        if remain < 0 then Some (PCP_RES_MALFORMED_OPTION, opt_occ, [])
        else do {
          l \<leftarrow> print_PEER_opcode_ver2 b processed;
          (res, opt_occ, l') \<leftarrow> print_options_loop b PCP_RES_SUCCESS remain (processed + sz_peer_v2) opt_occ;
          Some (res, opt_occ, l @ l')
        }
      else if opcode = PCP_OPCODE_SADSCP then
        if remain < int sz_sadscp_req then Some (PCP_RES_MALFORMED_REQUEST, opt_occ, [])
        else do {
          (sadscp_size, l) \<leftarrow> print_SADSCP_opcode_ver2 b processed;
          (res, opt_occ, l') \<leftarrow> print_options_loop b PCP_RES_SUCCESS (remain - int sadscp_size) (processed + sadscp_size) opt_occ;
          Some (res, opt_occ, l @ l')
        }
      else Some (PCP_RES_SUCCESS, opt_occ, []))"

text \<open>
  \<open>printPCPreq\<close>: \<open>Inl\<close> is an exit of the program, here because the log file cannot be opened.
\<close>

definition printPCPreq :: "u8 list \<Rightarrow> nat \<Rightarrow> options_occur \<Rightarrow> u8 \<Rightarrow> string \<Rightarrow> bool \<Rightarrow>
    (int + (u32 \<times> options_occur \<times> log_line list)) option" where
  "printPCPreq b req_size opt_occ version server_log_file fopen_ok =
     (if req_size > PCP_MAX_LEN \<or> req_size < 4 \<or> req_size mod 4 \<noteq> 0
      then Some (Inr (PCP_RES_MALFORMED_REQUEST, opt_occ, []))
      else if server_log_file \<noteq> [] \<and> hd server_log_file \<noteq> CHR 0x00 \<and> \<not> fopen_ok then Some (Inl 1)
      else do {
        ver \<leftarrow> get8 0 b;
        r_opcode \<leftarrow> get8 1 b;
        req_lifetime \<leftarrow> get32 4 b;
        ip \<leftarrow> get_in6 8 b;
        let l = [log_u8 ''PCP version'' ver, log_u8 ''PCP opcode'' (r_opcode AND 0x7F),
          (''PCP R bit'', [A_int (of_bool (r_opcode AND 0x80 \<noteq> 0))]),
          (''PCP requested lifetime'', [A_int (uint (htonl req_lifetime))]), log_addr ''PEER IP'' ip];
        let remain = int req_size - int sz_request;
        (res, occ, l') \<leftarrow>
          (if ver > version then Some (PCP_RES_UNSUPP_VERSION, opt_occ, [])
           else if ver = 1 then print_v1 b (r_opcode AND 0x7F) remain sz_request opt_occ
           else if ver = 2 then print_v2 b (r_opcode AND 0x7F) remain sz_request opt_occ
           else Some (PCP_RES_UNSUPP_VERSION, opt_occ, []));
        Some (Inr (res, occ, l @ l'))
      })"

section \<open>Responses\<close>

text \<open>The request in the buffer becomes the response; \<open>now\<close> is the result of \<open>time(NULL)\<close>.\<close>

definition response_header :: "u8 list \<Rightarrow> u32 \<Rightarrow> server_info \<Rightarrow> int \<Rightarrow> u8 list option" where
  "response_header b pcp_result_code info now = do {
     b \<leftarrow> poke 2 (u8_bytes 0) b;
     b \<leftarrow> poke 12 (u32_bytes 0) b;
     b \<leftarrow> poke 16 (u32_bytes 0) b;
     b \<leftarrow> poke 20 (u32_bytes 0) b;
     r_opcode \<leftarrow> get8 1 b;
     b \<leftarrow> poke 1 (u8_bytes (r_opcode OR 0x80)) b;
     b \<leftarrow> poke 3 (u8_bytes (ucast pcp_result_code)) b;
     poke 8 (u32_bytes (htonl (word_of_int (now - si_epoch_time_start info)))) b
   }"

definition create_response :: "u8 list \<Rightarrow> u32 \<Rightarrow> server_info \<Rightarrow> int \<Rightarrow> u8 list option" where
  "create_response b pcp_result_code info now = do {
     b \<leftarrow> response_header b pcp_result_code info now;
     if pcp_result_code = PCP_RES_UNSUPP_VERSION then poke 0 (u8_bytes (si_server_version info)) b
     else do {
       r_opcode \<leftarrow> get8 1 b;
       ver \<leftarrow> get8 0 b;
       b \<leftarrow> (if r_opcode AND 0x7F = PCP_OPCODE_MAP then
               if ver = 1 then poke (sz_response + 8) (in6_bytes (si_ext_ip info)) b
               else if ver = 2 then poke (sz_response + 20) (in6_bytes (si_ext_ip info)) b
               else Some b
             else Some b);
       if r_opcode AND 0x7F = PCP_OPCODE_SADSCP then do {
         b \<leftarrow> poke (sz_response + 12) (u8_bytes (push_bit 7 (si_app_bit info))) b;
         a_r_dscp \<leftarrow> get8 (sz_response + 12) b;
         poke (sz_response + 12) (u8_bytes (a_r_dscp OR si_ret_dscp info)) b
       }
       else Some b
     }
   }"

section \<open>The server\<close>

text \<open>
  What happens to the server while it waits in \<open>recvfrom\<close>: the time of day before the call, the
  datagram or \<open>None\<close> for an error, and then \<open>time(NULL)\<close> and whether the log file can be opened.
\<close>

record server_event =
  se_tod :: timeval
  se_datagram :: "u8 list option"
  se_now :: int
  se_fopen_ok :: bool

text \<open>
  The argument of \<open>SO_RCVTIMEO\<close>, if it is set, and \<open>timeout_time\<close> as \<open>timeval_subtract\<close> leaves it; an
  argument of zero means to the system that there is no timeout.
\<close>

definition rcvtimeo :: "server_info \<Rightarrow> timeval \<Rightarrow> timeval \<Rightarrow> timeval option \<times> timeval" where
  "rcvtimeo info timeout_time tod =
     (if tv_sec (si_tv info) \<noteq> 0 \<or> tv_usec (si_tv info) \<noteq> 0 then
        (case timeval_subtract timeout_time tod of
           (late, end_time, timeout_time, _) \<Rightarrow> (Some (if late then Timeval 0 0 else end_time), timeout_time))
      else (None, timeout_time))"

text \<open>
  The body of the loop from \<open>recvfrom\<close> on: at most \<open>PCP_MAX_LEN - 1\<close> bytes of the datagram are taken,
  the answer has as many. The buffer keeps what it holds behind them.
\<close>

definition serve :: "server_info \<Rightarrow> u8 list \<Rightarrow> int \<Rightarrow> bool \<Rightarrow> options_occur \<Rightarrow> u8 list \<Rightarrow>
    (int + (u8 list \<times> log_line list \<times> options_occur \<times> u8 list)) option" where
  "serve info m now fopen_ok opt_occurence buf = do {
     let numbytes = min (length m) (PCP_MAX_LEN - 1);
     buf \<leftarrow> poke 0 (take numbytes m) buf;
     r \<leftarrow> printPCPreq buf numbytes opt_occurence (si_server_version info) (si_log_file info) fopen_ok;
     case r of
       Inl e \<Rightarrow> Some (Inl e)
     | Inr (pcp_result_code, opt_occurence, l) \<Rightarrow> do {
         buf \<leftarrow> create_response buf
                 (if si_default_result_code info = 255 then pcp_result_code else ucast (si_default_result_code info)) info now;
         Some (Inr (take numbytes buf, l, reset_option_occur opt_occurence, buf))
       }
   }"

text \<open>
  The loop of \<open>execPCPServer\<close> over a sequence of events: the answers, and the exit status, or \<open>None\<close>
  when the server still waits after them.
\<close>

fun exec_loop :: "server_info \<Rightarrow> timeval \<Rightarrow> nat \<Rightarrow> server_event list \<Rightarrow> options_occur \<Rightarrow> u8 list \<Rightarrow>
    ((timeval option \<times> u8 list \<times> log_line list) list \<times> int option) option" where
  "exec_loop info timeout_time execute [] opt_occurence buf = Some ([], if execute = 0 then Some 0 else None)"
| "exec_loop info timeout_time execute (e # es) opt_occurence buf =
     (if execute = 0 then Some ([], Some 0)
      else let execute = (if si_end_after_recv info \<noteq> 0 then execute - 1 else execute);
               (t, timeout_time) = rcvtimeo info timeout_time (se_tod e) in
        case se_datagram e of
          None \<Rightarrow> Some ([], Some 1)
        | Some m \<Rightarrow> do {
            r \<leftarrow> serve info m (se_now e) (se_fopen_ok e) opt_occurence buf;
            case r of
              Inl status \<Rightarrow> Some ([], Some status)
            | Inr (answer, l, opt_occurence, buf) \<Rightarrow> do {
                (answers, status) \<leftarrow> exec_loop info timeout_time execute es opt_occurence buf;
                Some ((t, answer, l) # answers, status)
              }
          })"

definition execPCPServer :: "server_info \<Rightarrow> timeval \<Rightarrow> server_event list \<Rightarrow>
    ((timeval option \<times> u8 list \<times> log_line list) list \<times> int option) option" where
  "execPCPServer info tod es =
     (let execute = (if si_end_after_recv info \<noteq> 0 then unat (si_end_after_recv info) else 1);
          timeout_time = Timeval (tv_sec tod + tv_sec (si_tv info)) (tv_usec tod + tv_usec (si_tv info))
      in exec_loop info timeout_time execute es \<lparr>third_party_occur = 0, pfailure_occur = 0\<rparr> (replicate PCP_MAX_LEN 0))"

section \<open>The command line\<close>

text \<open>What \<open>getopt_long\<close> delivers, with its \<open>optarg\<close>; \<open>Unknown\<close> is \<open>'?'\<close> and everything else.\<close>

datatype cli_option =
    O_ear string | O_timeout string | O_app_bit | O_ret_dscp string | O_log_file string | O_ip string
  | O_ext_ip string | O_help | O_h | O_p string | O_r string | O_v string | O_unknown

record cli_config =
  cf_port :: string
  cf_pcp_version :: u8
  cf_end_after_recv :: u8
  cf_default_result_code :: u8
  cf_timeout_us :: int
  cf_server_ip :: string
  cf_app_bit :: u8
  cf_ret_dscp :: u8
  cf_log_file :: "string option"
  cf_ext_ip :: in6_addr

text \<open>
  One round of the loop over the options; \<open>Inl\<close> is an exit. \<open>pton\<close> is \<open>inet_pton(AF_INET6, ...)\<close>, which
  leaves its result alone when it fails.
\<close>

fun main_option :: "(string \<Rightarrow> in6_addr option) \<Rightarrow> cli_option \<Rightarrow> cli_config \<Rightarrow> (int + cli_config) option" where
  "main_option pton (O_ear s) c = map_option (\<lambda>n. Inr (c\<lparr>cf_end_after_recv := word_of_int n\<rparr>)) (atoi s)"
| "main_option pton (O_timeout s) c =
     map_option (\<lambda>n. if n < 0 then Inl 1 else Inr (c\<lparr>cf_timeout_us := n\<rparr>)) (atoi s)"
| "main_option pton O_app_bit c = Some (Inr (c\<lparr>cf_app_bit := 1\<rparr>))"
| "main_option pton (O_ret_dscp s) c = map_option (\<lambda>n. Inr (c\<lparr>cf_ret_dscp := word_of_int n\<rparr>)) (atoi s)"
| "main_option pton (O_log_file s) c = Some (Inr (c\<lparr>cf_log_file := Some s\<rparr>))"
| "main_option pton (O_ip s) c = Some (Inr (c\<lparr>cf_server_ip := s\<rparr>))"
| "main_option pton (O_ext_ip s) c =
     Some (Inr (case pton s of None \<Rightarrow> c | Some ip \<Rightarrow> c\<lparr>cf_ext_ip := ip\<rparr>))"
| "main_option pton O_help c = Some (Inl 1)"
| "main_option pton O_h c = Some (Inl 1)"
| "main_option pton (O_p s) c =
     map_option (\<lambda>n. Inr (if n < 1 \<or> n > 65535 then c else c\<lparr>cf_port := s\<rparr>)) (atoi s)"
| "main_option pton (O_r s) c =
     map_option (\<lambda>n. let code = word_of_int n in
       if code > 13 \<and> code \<noteq> 255 then Inl 1 else Inr (c\<lparr>cf_default_result_code := code\<rparr>)) (atoi s)"
| "main_option pton (O_v s) c =
     map_option (\<lambda>n. let v = word_of_int n in
       if v < 1 \<or> v > 2 then Inl 1 else Inr (c\<lparr>cf_pcp_version := v\<rparr>)) (atoi s)"
| "main_option pton O_unknown c = Some (Inl 1)"

fun main_options :: "(string \<Rightarrow> in6_addr option) \<Rightarrow> cli_option list \<Rightarrow> cli_config \<Rightarrow> (int + cli_config) option" where
  "main_options pton [] c = Some (Inr c)"
| "main_options pton (opt # opts) c =
     Option.bind (main_option pton opt c) (\<lambda>r. case r of Inl e \<Rightarrow> Some (Inl e) | Inr c \<Rightarrow> main_options pton opts c)"

text \<open>
  \<open>main\<close> up to the call of \<open>execPCPServer\<close>, on the options and \<open>time(NULL)\<close>: the port, the address and the
  \<open>server_info\<close>. \<open>ext_ip\<close> is the value of the local variable that \<open>main\<close> does not initialise.
\<close>

definition main_server :: "(string \<Rightarrow> in6_addr option) \<Rightarrow> in6_addr \<Rightarrow> cli_option list \<Rightarrow> int \<Rightarrow>
    (int + (string \<times> string \<times> server_info)) option" where
  "main_server pton ext_ip opts now = do {
     r \<leftarrow> main_options pton opts \<lparr>cf_port = ''5351'', cf_pcp_version = 2, cf_end_after_recv = 0,
            cf_default_result_code = 255, cf_timeout_us = 0, cf_server_ip = ''0.0.0.0'', cf_app_bit = 0, cf_ret_dscp = 0,
            cf_log_file = None, cf_ext_ip = ext_ip\<rparr>;
     Some (case r of Inl e \<Rightarrow> Inl e
       | Inr c \<Rightarrow> Inr (cf_port c, cf_server_ip c,
           \<lparr>si_server_version = cf_pcp_version c, si_end_after_recv = cf_end_after_recv c,
            si_default_result_code = cf_default_result_code c, si_ext_ip = cf_ext_ip c, si_app_bit = cf_app_bit c,
            si_ret_dscp = cf_ret_dscp c,
            si_log_file = (case cf_log_file c of Some s \<Rightarrow> take 64 (s @ [CHR 0x00]) | None \<Rightarrow> [CHR 0x00]),
            si_tv = Timeval (cf_timeout_us c sdiv 1000) (cf_timeout_us c smod 1000 * 1000),
            si_epoch_time_start = now\<rparr>))
   }"

end
