(* ===== verification/Mock_Answers.thy ===== *)
theory Mock_Answers
  imports Mock_Server
begin

text \<open>
  What the test server answers: to a request of the library it returns the response in the wire form
  that the library parses.
\<close>

section \<open>Options of the library are accepted\<close>

text \<open>
  The buffer of the server: it has \<open>PCP_MAX_LEN\<close> bytes, and the last one is never written.
\<close>

definition sbuf_ok :: "u8 list \<Rightarrow> bool" where
  "sbuf_ok b \<longleftrightarrow> length b = PCP_MAX_LEN \<and> last b = 0"

text \<open>
  The options \<open>xs\<close> of a request with the opcode \<open>op\<close> take the loop from the occurrences \<open>occ\<close> to
  \<open>occ'\<close>, wherever they stand, and leave the result at success.
\<close>

definition accepts :: "u8 \<Rightarrow> options_occur \<Rightarrow> u8 list \<Rightarrow> options_occur \<Rightarrow> bool" where
  "accepts op occ xs occ' \<longleftrightarrow> (\<forall>b pre post remain r. b = pre @ xs @ post \<longrightarrow> sbuf_ok b \<longrightarrow> 4 \<le> length post \<longrightarrow>
     get8 1 b = Some r \<longrightarrow> r AND 0x7F = op \<longrightarrow> int (length xs) \<le> remain \<longrightarrow>
     (\<exists>l. print_options_loop b PCP_RES_SUCCESS remain (length pre) occ =
       map_option (\<lambda>(res, occ, l'). (res, occ, l @ l'))
         (print_options_loop b PCP_RES_SUCCESS (remain - int (length xs)) (length pre + length xs) occ')))"

lemma accepts_Nil: "accepts op occ [] occ"
proof -
  have "x = map_option (\<lambda>(res, occ, l'). (res, occ, l')) x" for x :: "(u32 \<times> options_occur \<times> log_line list) option"
    by (cases x) auto
  then show ?thesis unfolding accepts_def by (auto intro!: exI [of _ "[]"])
qed

lemma accepts_append:
  assumes "accepts op occ xs occ1" "accepts op occ1 ys occ2"
  shows "accepts op occ (xs @ ys) occ2"
  unfolding accepts_def
proof (intro allI impI)
  fix b pre post remain r
  assume b: "b = pre @ (xs @ ys) @ post" "sbuf_ok b" "4 \<le> length post" "get8 1 b = Some r" "r AND 0x7F = op"
    "int (length (xs @ ys)) \<le> remain"
  from assms(1) b have "\<exists>l. print_options_loop b PCP_RES_SUCCESS remain (length pre) occ =
       map_option (\<lambda>(res, occ, l'). (res, occ, l @ l'))
         (print_options_loop b PCP_RES_SUCCESS (remain - int (length xs)) (length pre + length xs) occ1)"
    unfolding accepts_def by (elim allE [of _ b] allE [of _ pre] allE [of _ "ys @ post"]) auto
  moreover from assms(2) b have "\<exists>l. print_options_loop b PCP_RES_SUCCESS (remain - int (length xs)) (length (pre @ xs)) occ1 =
       map_option (\<lambda>(res, occ, l'). (res, occ, l @ l'))
         (print_options_loop b PCP_RES_SUCCESS (remain - int (length xs) - int (length ys)) (length (pre @ xs) + length ys) occ2)"
    unfolding accepts_def by (elim allE [of _ b] allE [of _ "pre @ xs"] allE [of _ post]) auto
  ultimately obtain l l' where
    "print_options_loop b PCP_RES_SUCCESS remain (length pre) occ =
       map_option (\<lambda>(res, occ, l'). (res, occ, l @ l'))
         (print_options_loop b PCP_RES_SUCCESS (remain - int (length xs)) (length pre + length xs) occ1)"
    "print_options_loop b PCP_RES_SUCCESS (remain - int (length xs)) (length pre + length xs) occ1 =
       map_option (\<lambda>(res, occ, l''). (res, occ, l' @ l''))
         (print_options_loop b PCP_RES_SUCCESS (remain - int (length xs) - int (length ys)) (length pre + length xs + length ys) occ2)"
    by auto
  then have "print_options_loop b PCP_RES_SUCCESS remain (length pre) occ =
       map_option (\<lambda>(res, occ, l''). (res, occ, (l @ l') @ l''))
         (print_options_loop b PCP_RES_SUCCESS (remain - int (length (xs @ ys))) (length pre + length (xs @ ys)) occ2)"
    by (simp add: option.map_comp comp_def case_prod_unfold add.assoc diff_diff_eq)
  then show "\<exists>l. print_options_loop b PCP_RES_SUCCESS remain (length pre) occ =
       map_option (\<lambda>(res, occ, l'). (res, occ, l @ l'))
         (print_options_loop b PCP_RES_SUCCESS (remain - int (length (xs @ ys))) (length pre + length (xs @ ys)) occ2)" by blast
qed

text \<open>One option, by what \<open>print_PCP_options\<close> makes of it.\<close>

lemma accepts_option:
  assumes "0 < length xs"
    and step: "\<And>b pre post remain r. b = pre @ xs @ post \<Longrightarrow> sbuf_ok b \<Longrightarrow> 4 \<le> length post \<Longrightarrow> get8 1 b = Some r \<Longrightarrow>
      r AND 0x7F = op \<Longrightarrow>
      \<exists>l. print_PCP_options b remain (length pre) occ =
        Some (PCP_RES_SUCCESS, remain - int (length xs), length pre + length xs, occ', l)"
  shows "accepts op occ xs occ'"
  unfolding accepts_def
proof (intro allI impI)
  fix b pre post remain r
  assume b: "b = pre @ xs @ post" "sbuf_ok b" "4 \<le> length post" "get8 1 b = Some r" "r AND 0x7F = op" "int (length xs) \<le> remain"
  then obtain l where "print_PCP_options b remain (length pre) occ =
      Some (PCP_RES_SUCCESS, remain - int (length xs), length pre + length xs, occ', l)" using step by blast
  moreover have "\<not> remain \<le> 0" using assms(1) b(6) by linarith
  ultimately show "\<exists>l. print_options_loop b PCP_RES_SUCCESS remain (length pre) occ =
       map_option (\<lambda>(res, occ, l'). (res, occ, l @ l'))
         (print_options_loop b PCP_RES_SUCCESS (remain - int (length xs)) (length pre + length xs) occ')"
    by (subst print_options_loop.simps) auto
qed

lemma cstr_in_bounds: "sbuf_ok b \<Longrightarrow> off < length b \<Longrightarrow> \<exists>s. cstr off b = Some s"
proof -
  assume "sbuf_ok b" "off < length b"
  then have "last (drop off b) = 0" "drop off b \<noteq> []" by (auto simp: sbuf_ok_def last_drop)
  then have "0 \<in> set (drop off b)" by (metis last_in_set)
  then show ?thesis by (simp add: cstr_def)
qed

lemma be16_host: "u16_of (be16 w) = htons w"
  by (metis be16_htons ntohs_htons u16c.dec_enc)

lemma drop_option: "drop (4 + off) (wire_option code bs @ post) = drop off (bs @ post)"
proof -
  have "drop 4 (wire_option code bs @ post) = bs @ post" by (simp add: wire_option_def)
  then show ?thesis using drop_drop [of off 4 "wire_option code bs @ post"] by (simp add: add.commute)
qed

lemma option_reads:
  assumes "b = pre @ wire_option code bs @ post"
  shows "get8 (length pre) b = Some code" "get16 (length pre + 2) b = Some (htons (of_nat (length bs)))"
    "length pre + 4 + off + n \<le> length b \<Longrightarrow> peek (length pre + 4 + off) n b = Some (take n (drop off (bs @ post)))"
proof -
  show "get8 (length pre) b = Some code" "get16 (length pre + 2) b = Some (htons (of_nat (length bs)))"
    using assms by (simp_all add: get_defs peek_skip wire_option_def) (simp_all add: peek_def u8_of_def be16_host)
  show "length pre + 4 + off + n \<le> length b \<Longrightarrow> peek (length pre + 4 + off) n b = Some (take n (drop off (bs @ post)))"
    using assms drop_option [of off code bs post] by (simp add: peek_def add.assoc)
qed

lemma get_in_bounds:
  "off + 1 \<le> length b \<Longrightarrow> \<exists>v. get8 off b = Some v" "off + 2 \<le> length b \<Longrightarrow> \<exists>v. get16 off b = Some v"
  "off + 4 \<le> length b \<Longrightarrow> \<exists>v. get32 off b = Some v" "off + 16 \<le> length b \<Longrightarrow> \<exists>v. get_in6 off b = Some v"
  by (simp_all add: get_defs peek_def)

lemma accepts_3rd_party:
  assumes "third_party_occur occ = 0"
  shows "accepts op occ (wire_option PCP_OPTION_3RD_PARTY (in6_bytes ip)) (occ\<lparr>third_party_occur := 1\<rparr>)"
proof (rule accepts_option)
  fix b pre post remain r
  assume b: "b = pre @ wire_option PCP_OPTION_3RD_PARTY (in6_bytes ip) @ post" and r: "get8 1 b = Some r"
  show "\<exists>l. print_PCP_options b remain (length pre) occ = Some (PCP_RES_SUCCESS,
      remain - int (length (wire_option PCP_OPTION_3RD_PARTY (in6_bytes ip))),
      length pre + length (wire_option PCP_OPTION_3RD_PARTY (in6_bytes ip)), occ\<lparr>third_party_occur := 1\<rparr>, l)"
    using option_reads(1) [OF b] option_reads(3) [OF b, of 0 16] r assms b
    by (simp add: print_PCP_options_def Let_def get_in6_def)
qed simp

lemma accepts_prefer_failure:
  assumes "pfailure_occur occ = 0"
  shows "accepts PCP_OPCODE_MAP occ (wire_option PCP_OPTION_PREF_FAIL []) (occ\<lparr>pfailure_occur := 1\<rparr>)"
proof (rule accepts_option)
  fix b pre post remain r
  assume b: "b = pre @ wire_option PCP_OPTION_PREF_FAIL [] @ post" and r: "get8 1 b = Some r" "r AND 0x7F = PCP_OPCODE_MAP"
  show "\<exists>l. print_PCP_options b remain (length pre) occ = Some (PCP_RES_SUCCESS,
      remain - int (length (wire_option PCP_OPTION_PREF_FAIL [])),
      length pre + length (wire_option PCP_OPTION_PREF_FAIL []), occ\<lparr>pfailure_occur := 1\<rparr>, l)"
    using option_reads(1) [OF b] r assms by (simp add: print_PCP_options_def Let_def)
qed simp

lemma accepts_filter: "accepts PCP_OPCODE_MAP occ (wire_filter f) occ"
proof (rule accepts_option)
  fix b pre post remain r
  assume b: "b = pre @ wire_filter f @ post" and r: "get8 1 b = Some r" "r AND 0x7F = PCP_OPCODE_MAP"
  note b' = b [unfolded wire_filter_def]
  have "length pre + 24 \<le> length b" using b by simp
  then obtain u v w where "get8 (length pre + 5) b = Some u" "get16 (length pre + 6) b = Some v" "get_in6 (length pre + 8) b = Some w"
    using get_in_bounds(1) [of "length pre + 5" b] get_in_bounds(2) [of "length pre + 6" b] get_in_bounds(4) [of "length pre + 8" b]
    by auto
  then show "\<exists>l. print_PCP_options b remain (length pre) occ = Some (PCP_RES_SUCCESS,
      remain - int (length (wire_filter f)), length pre + length (wire_filter f), occ, l)"
    using option_reads(1) [OF b'] r
    by (simp add: print_PCP_options_def Let_def)
qed simp

lemma accepts_flowp: "accepts op occ (wire_flowp f) occ"
proof (rule accepts_option)
  fix b pre post remain r
  assume b: "b = pre @ wire_flowp f @ post" and r: "get8 1 b = Some r"
  note b' = b [unfolded wire_flowp_def]
  have "length pre + 8 \<le> length b" using b by simp
  then obtain u v where "get8 (length pre + 4) b = Some u" "get8 (length pre + 5) b = Some v"
    using get_in_bounds(1) [of "length pre + 4" b] get_in_bounds(1) [of "length pre + 5" b] by auto
  then show "\<exists>l. print_PCP_options b remain (length pre) occ = Some (PCP_RES_SUCCESS,
      remain - int (length (wire_flowp f)), length pre + length (wire_flowp f), occ, l)"
    using option_reads(1) [OF b'] r
    by (simp add: print_PCP_options_def Let_def)
qed simp

lemma accepts_string:
  assumes "code = PCP_OPTION_DEVICEID \<and> length bs = MAX_DEVICE_ID \<or> code = PCP_OPTION_USERID \<and> length bs = MAX_USER_ID \<or>
    code = PCP_OPTION_LOCATION \<and> length bs = MAX_GEO_STR"
  shows "accepts op occ (wire_option code bs) occ"
proof (rule accepts_option)
  fix b pre post remain r
  assume b: "b = pre @ wire_option code bs @ post" and ok: "sbuf_ok b" and r: "get8 1 b = Some r"
  have "length pre + 4 < length b" using b assms by auto
  then obtain s where "cstr (length pre + 4) b = Some s" using cstr_in_bounds [OF ok] by blast
  then show "\<exists>l. print_PCP_options b remain (length pre) occ = Some (PCP_RES_SUCCESS,
      remain - int (length (wire_option code bs)), length pre + length (wire_option code bs), occ, l)"
    using option_reads(1) [OF b] r assms by (auto simp: print_PCP_options_def Let_def)
qed simp

text \<open>The server copies four bytes more than the metadata option has; in a request they are still in the buffer.\<close>

lemma accepts_md:
  assumes "length (md_val_buf m) \<le> MD_VAL_MAX_LEN"
  shows "accepts op occ (wire_md m) occ"
proof (rule accepts_option)
  fix b pre post remain r
  assume b: "b = pre @ wire_md m @ post" and ok: "sbuf_ok b" "4 \<le> length post" and r: "get8 1 b = Some r"
  let ?d = "be32 (ucast (md_id m)) @ md_val_buf m @ replicate (wire_pad (length (md_val_buf m))) 0"
  note b' = b [unfolded wire_md_def]
  have "wire_pad (length (md_val_buf m)) < 4" by (simp add: wire_pad_def)
  then have n: "length ?d < 65536" "length ?d \<le> PCP_MAX_LEN" using assms by auto
  have "unat (of_nat k :: u16) = k" if "k < 65536" for k using that by (simp add: unat_of_nat take_bit_nat_eq_self)
  from this [OF n(1)] have len: "unat (of_nat (length ?d) :: u16) = length ?d" .
  then have lenu: "uint (of_nat (length ?d) :: u16) = int (length ?d)" by (simp only: uint_nat)
  have fit: "length pre + 8 + length ?d \<le> length b" using b' ok by simp
  then obtain md where md: "peek (length pre + 8) (length ?d) b = Some md" "length md = length ?d" by (auto simp: peek_def)
  then obtain arr where md: "peek (length pre + 8) (length ?d) b = Some md" "poke 0 md (replicate PCP_MAX_LEN 0) = Some arr"
    using n(2) by (auto simp: poke_def)
  obtain v where ident: "get32 (length pre + 4) b = Some v" using get_in_bounds(3) [of "length pre + 4" b] fit by auto
  show "\<exists>l. print_PCP_options b remain (length pre) occ = Some (PCP_RES_SUCCESS,
      remain - int (length (wire_md m)), length pre + length (wire_md m), occ, l)"
    using option_reads(1,2) [OF b'] r len lenu md(1) ident md(2) by (simp add: print_PCP_options_def Let_def wire_md_def)
qed (simp add: wire_md_def)

lemma accepts_mds:
  "\<forall>m\<in>set ms. length (md_val_buf m) \<le> MD_VAL_MAX_LEN \<Longrightarrow> accepts op occ (wire_mds off ms) occ"
  by (induction off ms rule: wire_mds.induct) (auto simp: accepts_Nil intro: accepts_append accepts_md)

lemma accepts_when: "(P \<Longrightarrow> accepts op occ xs occ') \<Longrightarrow> accepts op occ (if P then xs else []) (if P then occ' else occ)"
  by (simp add: accepts_Nil)

lemma accepts_when_same: "(P \<Longrightarrow> accepts op occ xs occ) \<Longrightarrow> accepts op occ (if P then xs else []) occ"
  by (simp add: accepts_Nil)

abbreviation no_occur :: options_occur where "no_occur \<equiv> \<lparr>third_party_occur = 0, pfailure_occur = 0\<rparr>"

lemma accepts_options:
  assumes "flow_wf f" "op = PCP_OPCODE_MAP \<or> \<not> f_filter_option_present f \<and> \<not> f_pfailure_option_present f"
  shows "\<exists>occ'. accepts op no_occur (wire_options off f) occ'"
proof -
  have first: "accepts op no_occur (if f_flowp_option_present f then wire_flowp f else []) no_occur"
      "accepts op no_occur (if f_filter_option_present f then wire_filter f else []) no_occur"
    using assms(2) by (auto simp: accepts_Nil intro: accepts_flowp accepts_filter)
  define o1 where "o1 = (if f_pfailure_option_present f then no_occur\<lparr>pfailure_occur := 1\<rparr> else no_occur)"
  have pf: "accepts op no_occur (if f_pfailure_option_present f then wire_option PCP_OPTION_PREF_FAIL [] else []) o1"
    unfolding o1_def using assms(2) by (intro accepts_when) (use accepts_prefer_failure [of no_occur] in auto)
  define o2 where "o2 = (if f_third_party_option_present f then o1\<lparr>third_party_occur := 1\<rparr> else o1)"
  have tp: "accepts op o1 (if f_third_party_option_present f
        then wire_option PCP_OPTION_3RD_PARTY (in6_bytes (f_third_party_ip f)) else []) o2"
    unfolding o2_def by (intro accepts_when accepts_3rd_party) (simp add: o1_def)
  have last: "accepts op o2 (if f_deviceid f ! 0 \<noteq> 0 then wire_option PCP_OPTION_DEVICEID (f_deviceid f) else []) o2"
      "accepts op o2 (if f_userid f ! 0 \<noteq> 0 then wire_option PCP_OPTION_USERID (f_userid f) else []) o2"
      "accepts op o2 (if f_location f ! 0 \<noteq> 0 then wire_option PCP_OPTION_LOCATION (f_location f) else []) o2"
      "accepts op o2 (wire_mds k (f_md_vals f)) o2" for k
    using assms(1) by (auto simp: flow_wf_def accepts_Nil intro!: accepts_string accepts_mds)
  show ?thesis
    unfolding wire_options_def wire_fixed_options_def Let_def append_assoc
    using accepts_append [OF first(1) accepts_append [OF first(2) accepts_append [OF pf accepts_append [OF tp
      accepts_append [OF last(1) accepts_append [OF last(2) accepts_append [OF last(3) last(4)]]]]]]] by blast
qed

section \<open>From the request to the response\<close>

lemma response_header_wire:
  "response_header (wire_header ver f @ rest) pcp_result_code info now =
     Some (wire_resp_header ver (k_operation (f_kd f) AND 0x7F) (ucast pcp_result_code) (f_lifetime f)
       (word_of_int (now - si_epoch_time_start info)) @ rest)"
proof -
  define ep where "ep = (word_of_int (now - si_epoch_time_start info) :: u32)"
  have four: "\<exists>a b c d. u32_bytes w = [a, b, c, d]" "\<exists>a b c d. be32 w = [a, b, c, d]" for w
    using list_of_length_4 [of "u32_bytes w"] list_of_length_4 [of "be32 w"] by simp_all
  obtain x0 x1 x2 x3 e0 e1 e2 e3 where x: "be32 (f_lifetime f) = [x0, x1, x2, x3]" and e: "be32 ep = [e0, e1, e2, e3]"
    using four(2) by meson
  obtain a0 a1 a2 a3 b0 b1 b2 b3 c0 c1 c2 c3 d0 d1 d2 d3 where
    ip: "in6_bytes (k_src_ip (f_kd f)) = [a0, a1, a2, a3, b0, b1, b2, b3, c0, c1, c2, c3, d0, d1, d2, d3]"
    using four(1) [of "w0 (k_src_ip (f_kd f))"] four(1) [of "w1 (k_src_ip (f_kd f))"] four(1) [of "w2 (k_src_ip (f_kd f))"]
      four(1) [of "w3 (k_src_ip (f_kd f))"] by (auto simp: in6_bytes_def)
  have z: "u32_bytes 0 = [0, 0, 0, 0]" by (simp add: u32_bytes_def)
  have rep: "replicate 12 (0 :: u8) = [0, 0, 0, 0, 0, 0, 0, 0, 0, 0, 0, 0]" by (simp add: eval_nat_numeral)
  show ?thesis
    unfolding response_header_def ep_def [symmetric] be32_htonl e z
    by (simp add: wire_header_def wire_resp_header_def x ip e rep poke_def u8_bytes_def get8_def peek_def u8_of_def)
qed

text \<open>A request that the server can answer: its opcode data and options are what the server expects.\<close>

definition answerable :: "u8 \<Rightarrow> pcp_flow \<Rightarrow> bool" where
  "answerable ver f \<longleftrightarrow> flow_wf f \<and> length (wire_request ver f) < PCP_MAX_LEN \<and>
     (k_operation (f_kd f) = PCP_OPCODE_MAP \<and> (ver = 1 \<or> ver = 2) \<or>
      k_operation (f_kd f) = PCP_OPCODE_PEER \<and> ver = 2 \<and> \<not> f_filter_option_present f \<and> \<not> f_pfailure_option_present f)"

lemma answerable_parts:
  assumes "answerable ver f"
  obtains k where "wire_request ver f = wire_header ver f @ wire_opdata ver f @ wire_options k f"
    "4 dvd length (wire_request ver f)" "length (wire_request ver f) + 4 \<le> PCP_MAX_LEN" "60 \<le> length (wire_request ver f) + 12"
proof -
  have op: "op_buildable ver f" "ver = 1 \<or> ver = 2" "flow_wf f" using assms by (auto simp: answerable_def op_buildable_def)
  from wire_request_length [OF op(2,3,1)] have four: "4 dvd length (wire_request ver f)" by simp
  moreover have "length (wire_request ver f) < PCP_MAX_LEN" using assms by (simp add: answerable_def)
  ultimately have "length (wire_request ver f) + 4 \<le> PCP_MAX_LEN" by (auto elim!: dvdE)
  then show ?thesis
    using that four assms by (auto simp: wire_request_def answerable_def Let_def wire_opdata_def)
qed

lemma options_loop_accepts:
  assumes "accepts op no_occur xs occ'" "b = pre @ xs @ post" "sbuf_ok b" "4 \<le> length post" "get8 1 b = Some r" "r AND 0x7F = op"
  shows "\<exists>l. print_options_loop b PCP_RES_SUCCESS (int (length xs)) (length pre) no_occur = Some (PCP_RES_SUCCESS, occ', l)"
proof -
  from assms(1) obtain l where "print_options_loop b PCP_RES_SUCCESS (int (length xs)) (length pre) no_occur =
       map_option (\<lambda>(res, occ, l'). (res, occ, l @ l'))
         (print_options_loop b PCP_RES_SUCCESS (int (length xs) - int (length xs)) (length pre + length xs) occ')"
    unfolding accepts_def using assms(2-) by blast
  then show ?thesis by (simp add: print_options_loop.simps [of _ _ 0])
qed

lemma request_header_reads:
  assumes "b = wire_header ver f @ rest"
  shows "get8 0 b = Some ver" "get8 1 b = Some (k_operation (f_kd f) AND 0x7F)" "get32 4 b = Some (htonl (f_lifetime f))"
    "get_in6 8 b = Some (k_src_ip (f_kd f))"
  using assms by (simp_all add: wire_header_def get_defs peek_def u8_of_def be32_host)

lemma print_opcode_reads:
  "\<exists>l. print_MAP_opcode_ver1 (pre @ wire_map f @ rest) (length pre) = Some l"
  "length n = 12 \<Longrightarrow> \<exists>l. print_MAP_opcode_ver2 (pre @ n @ wire_map f @ rest) (length pre) = Some l"
  "length n = 12 \<Longrightarrow> \<exists>l. print_PEER_opcode_ver2 (pre @ n @ wire_peer f @ rest) (length pre) = Some l"
  using map_reads [of "pre @ wire_map f @ rest" pre f rest "length pre"]
    map_reads [of "pre @ n @ wire_map f @ rest" "pre @ n" f rest "length pre + 12"]
    peer_reads [of "pre @ n @ wire_peer f @ rest" "pre @ n" f rest "length pre + 12"]
  by (simp_all add: print_MAP_opcode_ver1_def print_MAP_opcode_ver2_def print_PEER_opcode_ver2_def add.commute)

lemma printPCPreq_accepts:
  assumes a: "answerable ver f" and buf: "sbuf_ok (wire_request ver f @ rest)" and ver: "ver \<le> version"
    and log: "log_file = [] \<or> hd log_file = CHR 0x00 \<or> fopen_ok"
  shows "\<exists>occ l. printPCPreq (wire_request ver f @ rest) (length (wire_request ver f)) no_occur version log_file fopen_ok =
    Some (Inr (PCP_RES_SUCCESS, occ, l))"
proof -
  from answerable_parts [OF a] obtain k where
    req: "wire_request ver f = wire_header ver f @ wire_opdata ver f @ wire_options k f"
      "4 dvd length (wire_request ver f)" "length (wire_request ver f) + 4 \<le> PCP_MAX_LEN" "60 \<le> length (wire_request ver f) + 12" .
  define b where "b = wire_request ver f @ rest"
  have len: "4 \<le> length rest" using buf req(3) by (simp add: sbuf_ok_def)
  let ?op = "k_operation (f_kd f)" and ?os = "wire_options k f"
  have op: "?op AND 0x7F = ?op" using a by (auto simp: answerable_def)
  have b: "b = wire_header ver f @ wire_opdata ver f @ ?os @ rest" by (simp add: b_def req(1))
  note hdr = request_header_reads [OF b]
  from a obtain occ' where "accepts ?op no_occur ?os occ'"
    using accepts_options [of f ?op k] by (auto simp: answerable_def)
  from options_loop_accepts [OF this, of b "wire_header ver f @ wire_opdata ver f" rest] obtain l where
    loop: "print_options_loop b PCP_RES_SUCCESS (int (length ?os)) (24 + length (wire_opdata ver f)) no_occur = Some (PCP_RES_SUCCESS, occ', l)"
    using b buf len hdr(2) op by (auto simp: b_def)
  have n: "int (length (wire_request ver f)) - 24 = int (length (wire_opdata ver f)) + int (length ?os)" by (simp add: req(1))
  have "\<exists>l'. (if ver = 1 then print_v1 b ?op (int (length (wire_request ver f)) - 24) 24 no_occur
       else print_v2 b ?op (int (length (wire_request ver f)) - 24) 24 no_occur) = Some (PCP_RES_SUCCESS, occ', l')"
  proof -
    consider (m1) "ver = 1" "?op = PCP_OPCODE_MAP" | (m2) "ver = 2" "?op = PCP_OPCODE_MAP" | (p2) "ver = 2" "?op = PCP_OPCODE_PEER"
      using a by (auto simp: answerable_def)
    then show ?thesis
    proof cases
      case m1
      then have d: "wire_opdata ver f = wire_map f" "length (wire_map f) = 24" by (simp_all add: wire_opdata_def wire_map_def)
      obtain l' where "print_MAP_opcode_ver1 b 24 = Some l'"
        using print_opcode_reads(1) [of "wire_header ver f" f "?os @ rest"] b d by auto
      then show ?thesis using loop m1 d(2) unfolding n d(1) by (simp add: print_v1_def)
    next
      case m2
      then have d: "wire_opdata ver f = nonce_bytes (k_nonce (f_kd f)) @ wire_map f" "length (wire_opdata ver f) = 36"
        by (simp_all add: wire_opdata_def wire_map_def)
      obtain l' where "print_MAP_opcode_ver2 b 24 = Some l'"
        using print_opcode_reads(2) [of "nonce_bytes (k_nonce (f_kd f))" "wire_header ver f" f "?os @ rest"] b d by auto
      then show ?thesis using loop m2 unfolding n d(2) by (simp add: print_v2_def)
    next
      case p2
      then have d: "wire_opdata ver f = nonce_bytes (k_nonce (f_kd f)) @ wire_peer f" "length (wire_opdata ver f) = 56"
        by (simp_all add: wire_opdata_def wire_peer_def wire_map_def)
      obtain l' where "print_PEER_opcode_ver2 b 24 = Some l'"
        using print_opcode_reads(3) [of "nonce_bytes (k_nonce (f_kd f))" "wire_header ver f" f "?os @ rest"] b d by auto
      then show ?thesis using loop p2 unfolding n d(2) by (simp add: print_v2_def)
    qed
  qed
  then obtain l' where parts: "(if ver = 1 then print_v1 b ?op (int (length (wire_request ver f)) - 24) 24 no_occur
       else print_v2 b ?op (int (length (wire_request ver f)) - 24) 24 no_occur) = Some (PCP_RES_SUCCESS, occ', l')" by blast
  have "ver = 1 \<or> ver = 2" using a by (auto simp: answerable_def)
  then show ?thesis
    using parts hdr op req(2-4) ver log unfolding b_def [symmetric] printPCPreq_def
    by (auto simp: Let_def dvd_eq_mod_eq_0)
qed


text \<open>The external address in the answer to \<open>f\<close>: the server gives its own to a MAP request only.\<close>

definition answered_ip :: "server_info \<Rightarrow> pcp_flow \<Rightarrow> in6_addr" where
  "answered_ip info f = (if k_operation (f_kd f) = PCP_OPCODE_MAP then si_ext_ip info else f_ext_ip f)"

lemma create_response_wire:
  assumes a: "answerable ver f" and code: "code \<noteq> PCP_RES_UNSUPP_VERSION"
  shows "create_response (wire_header ver f @ wire_opdata ver f @ rest) code info now =
    Some (wire_response ver f (ucast code) (f_lifetime f) (word_of_int (now - si_epoch_time_start info)) (answered_ip info f)
      (f_ext_port f) @ rest)"
proof -
  let ?op = "k_operation (f_kd f)"
  define h where "h = wire_resp_header ver (?op AND 0x7F) (ucast code) (f_lifetime f) (word_of_int (now - si_epoch_time_start info))"
  have op: "?op AND 0x7F = ?op" "(?op OR 0x80) AND 0x7F = ?op" using a by (auto simp: answerable_def)
  have hl: "length h = 24" by (simp add: h_def)
  have rd: "get8 0 (h @ d) = Some ver" "get8 (Suc 0) (h @ d) = Some (?op OR 0x80)" for d
    using header_reads [of "h @ d"] unfolding h_def op by simp_all
  have hdr: "response_header (wire_header ver f @ d) code info now = Some (h @ d)" for d
    by (simp only: response_header_wire h_def)
  have mid: "poke (24 + k) bs (h @ m @ rest) = Some (h @ overwrite k bs m @ rest)" if "k + length bs \<le> length m" for k bs m
    using poke_mid [OF hl that] .
  let ?g = "f\<lparr>f_ext_ip := answered_ip info f, f_ext_port := f_ext_port f\<rparr>"
  consider (m1) "ver = 1" "?op = PCP_OPCODE_MAP" | (m2) "ver = 2" "?op = PCP_OPCODE_MAP" | (p2) "ver = 2" "?op = PCP_OPCODE_PEER"
    using a by (auto simp: answerable_def)
  then have "create_response (wire_header ver f @ wire_opdata ver f @ rest) code info now = Some (h @ wire_opdata ver ?g @ rest)"
  proof cases
    case m1
    then show ?thesis
      using mid [of 8 "in6_bytes (si_ext_ip info)" "wire_map f"] code
      by (simp add: create_response_def hdr [unfolded m1] rd [unfolded m1] op [unfolded m1] wire_opdata_def)
        (simp add: overwrite_def wire_map_def answered_ip_def)
  next
    case m2
    then show ?thesis
      using mid [of 20 "in6_bytes (si_ext_ip info)" "nonce_bytes (k_nonce (f_kd f)) @ wire_map f"] code
      by (simp add: create_response_def hdr [unfolded m2] rd [unfolded m2] op [unfolded m2] wire_opdata_def)
        (simp add: overwrite_def wire_map_def answered_ip_def)
  next
    case p2
    then show ?thesis
      using code by (simp add: create_response_def hdr [unfolded p2] rd [unfolded p2] op [unfolded p2] wire_opdata_def)
        (simp add: wire_peer_def wire_map_def answered_ip_def)
  qed
  then show ?thesis by (simp add: wire_response_def h_def op)
qed

lemma wire_opdata_same_length:
  "answerable ver f \<Longrightarrow> length (wire_opdata ver (f\<lparr>f_ext_ip := ip\<rparr>)) = length (wire_opdata ver f)"
  by (auto simp: answerable_def wire_opdata_def wire_map_def wire_peer_def)

definition result_sent :: "server_info \<Rightarrow> u8" where
  "result_sent info = (if si_default_result_code info = 255 then 0 else si_default_result_code info)"

lemma serve_answers:
  assumes a: "answerable ver f" and buf: "sbuf_ok buf" and ver: "ver \<le> si_server_version info"
    and log: "si_log_file info = [] \<or> hd (si_log_file info) = CHR 0x00 \<or> fopen_ok"
    and code: "si_default_result_code info \<noteq> 1"
  obtains k l buf' where "wire_request ver f = wire_header ver f @ wire_opdata ver f @ wire_options k f"
    "serve info (wire_request ver f) now fopen_ok no_occur buf =
      Some (Inr (wire_response ver f (result_sent info) (f_lifetime f) (word_of_int (now - si_epoch_time_start info))
        (answered_ip info f) (f_ext_port f) @ wire_options k f, l, no_occur, buf'))" "sbuf_ok buf'"
proof -
  from answerable_parts [OF a] obtain k where
    req: "wire_request ver f = wire_header ver f @ wire_opdata ver f @ wire_options k f"
      "length (wire_request ver f) + 4 \<le> PCP_MAX_LEN" by blast
  let ?n = "length (wire_request ver f)"
  define rest where "rest = drop ?n buf"
  have len: "length buf = PCP_MAX_LEN" "last buf = 0" using buf by (simp_all add: sbuf_ok_def)
  have pk: "poke 0 (wire_request ver f) buf = Some (wire_request ver f @ rest)"
    using req(2) len by (simp add: poke_def rest_def)
  have rest: "last rest = 0" "rest \<noteq> []" "?n + length rest = PCP_MAX_LEN" using req(2) len by (simp_all add: rest_def last_drop)
  have ok: "sbuf_ok (wire_request ver f @ rest)" using rest by (simp add: sbuf_ok_def)
  from printPCPreq_accepts [OF a ok ver log] obtain occ l where
    p: "printPCPreq (wire_request ver f @ rest) ?n no_occur (si_server_version info) (si_log_file info) fopen_ok =
      Some (Inr (PCP_RES_SUCCESS, occ, l))" by blast
  define code where "code = (if si_default_result_code info = 255 then PCP_RES_SUCCESS else ucast (si_default_result_code info))"
  have cut: "(ucast (ucast w :: u32) :: u8) = w" for w :: u8 by (rule bit_word_eqI) (simp add: bit_ucast_iff)
  have c: "code \<noteq> PCP_RES_UNSUPP_VERSION" "ucast code = result_sent info"
    using cut [of "si_default_result_code info"] assms(5) unfolding code_def result_sent_def by (auto split: if_splits)
  let ?resp = "wire_response ver f (result_sent info) (f_lifetime f) (word_of_int (now - si_epoch_time_start info))
        (answered_ip info f) (f_ext_port f)"
  have cr: "create_response (wire_request ver f @ rest) code info now = Some (?resp @ wire_options k f @ rest)"
    using create_response_wire [OF a c(1), of "wire_options k f @ rest" info now] by (simp add: req(1) c(2))
  have rl: "length ?resp + length (wire_options k f) = ?n"
    by (simp add: req(1) wire_response_def wire_opdata_same_length [OF a])
  have mn: "min ?n (PCP_MAX_LEN - 1) = ?n" using req(2) by simp
  have "serve info (wire_request ver f) now fopen_ok no_occur buf =
      Some (Inr (?resp @ wire_options k f, l, no_occur, ?resp @ wire_options k f @ rest))"
    unfolding serve_def Let_def mn take_all [OF order_refl] pk bind.simps p sum.case prod.case code_def [symmetric] cr
    using rl by (simp add: reset_option_occur_def)
  moreover have "sbuf_ok (?resp @ wire_options k f @ rest)" using rest rl by (simp add: sbuf_ok_def)
  ultimately show ?thesis using that req(1) by blast
qed

section \<open>Sessions\<close>

definition request_event :: "server_info \<Rightarrow> server_event \<Rightarrow> bool" where
  "request_event info e \<longleftrightarrow> (\<exists>ver f. answerable ver f \<and> ver \<le> si_server_version info \<and>
     se_datagram e = Some (wire_request ver f)) \<and>
     (si_log_file info = [] \<or> hd (si_log_file info) = CHR 0x00 \<or> se_fopen_ok e)"

definition answers :: "server_info \<Rightarrow> server_event \<Rightarrow> timeval option \<times> u8 list \<times> log_line list \<Rightarrow> bool" where
  "answers info e r \<longleftrightarrow> (\<exists>ver f k. se_datagram e = Some (wire_request ver f) \<and>
     fst (snd r) = wire_response ver f (result_sent info) (f_lifetime f) (word_of_int (se_now e - si_epoch_time_start info))
       (answered_ip info f) (f_ext_port f) @ wire_options k f)"

lemma exec_loop_answers:
  assumes code: "si_default_result_code info \<noteq> 1"
  shows "sbuf_ok buf \<Longrightarrow> \<forall>e\<in>set es. request_event info e \<Longrightarrow> si_end_after_recv info \<noteq> 0 \<or> execute \<noteq> 0 \<Longrightarrow>
    \<exists>rs. exec_loop info tt execute es no_occur buf =
        Some (rs, if si_end_after_recv info \<noteq> 0 \<and> execute \<le> length es then Some 0 else None) \<and>
      list_all2 (answers info) (if si_end_after_recv info \<noteq> 0 then take execute es else es) rs"
proof (induction es arbitrary: execute tt buf)
  case Nil
  then show ?case by auto
next
  case (Cons e es)
  show ?case
  proof (cases "execute = 0")
    case True
    then show ?thesis using Cons.prems(3) by simp
  next
    case False
    from Cons.prems(2) obtain ver f where e: "answerable ver f" "ver \<le> si_server_version info"
        "se_datagram e = Some (wire_request ver f)"
      and log: "si_log_file info = [] \<or> hd (si_log_file info) = CHR 0x00 \<or> se_fopen_ok e" by (auto simp: request_event_def)
    from serve_answers [OF e(1) Cons.prems(1) e(2) log code, of "se_now e"] obtain k l buf' where
      srv: "serve info (wire_request ver f) (se_now e) (se_fopen_ok e) no_occur buf =
        Some (Inr (wire_response ver f (result_sent info) (f_lifetime f) (word_of_int (se_now e - si_epoch_time_start info))
          (answered_ip info f) (f_ext_port f) @ wire_options k f, l, no_occur, buf'))" "sbuf_ok buf'" by metis
    obtain t tt' where t: "rcvtimeo info tt (se_tod e) = (t, tt')" by (cases "rcvtimeo info tt (se_tod e)")
    let ?ex = "if si_end_after_recv info \<noteq> 0 then execute - 1 else execute"
    from Cons.IH [OF srv(2), of ?ex tt'] Cons.prems(2,3) False obtain rs where
      rs: "exec_loop info tt' ?ex es no_occur buf' =
        Some (rs, if si_end_after_recv info \<noteq> 0 \<and> ?ex \<le> length es then Some 0 else None)"
        "list_all2 (answers info) (if si_end_after_recv info \<noteq> 0 then take ?ex es else es) rs" by auto
    have "execute \<le> length (e # es) \<longleftrightarrow> execute - 1 \<le> length es" using False by (cases execute) auto
    moreover have "answers info e (t, wire_response ver f (result_sent info) (f_lifetime f)
        (word_of_int (se_now e - si_epoch_time_start info)) (answered_ip info f) (f_ext_port f) @ wire_options k f, l)"
      using e(3) by (auto simp: answers_def)
    ultimately show ?thesis
      using rs srv(1) e(3) t False by (cases execute) (auto simp: Let_def)
  qed
qed



section \<open>Where the server is wrong\<close>

text \<open>
  The length of a metadata option is believed: one that points behind the end of the buffer is read, and a long one is
  copied into a local array of \<open>PCP_MAX_LEN\<close> bytes.
\<close>

lemma metadata_length_trusted:
  assumes "length b = PCP_MAX_LEN" "get8 processed b = Some PCP_OPTION_METADATA" "get16 (processed + 2) b = Some len"
    "PCP_MAX_LEN < processed + 8 + unat (ntohs len)"
  shows "print_PCP_options b remain processed occ = None"
proof -
  have "peek (processed + 8) (unat (ntohs len)) b = None" using assms(1,4) by (simp add: peek_def)
  then show ?thesis using assms(2,3)
    by (cases "get8 1 b"; cases "get32 (processed + 4) b") (simp_all add: print_PCP_options_def Let_def)
qed

text \<open>
  For a PEER request of version 1 the server subtracts the size of the MAP data: it takes the 20 bytes behind the
  request, left there by an earlier one, for options, and they decide on the result.
\<close>

lemma peer_v1_reads_on:
  assumes "wire_opdata 1 f = wire_peer f" "k_operation (f_kd f) = PCP_OPCODE_PEER" "rest \<noteq> []" "length rest \<ge> 24"
  defines "b \<equiv> wire_header 1 f @ wire_peer f @ rest"
  shows "hd rest = 0 \<Longrightarrow> map_option fst (print_v1 b PCP_OPCODE_PEER 44 24 no_occur) = Some PCP_RES_SUCCESS"
    "hd rest = PCP_OPTION_FILTER \<Longrightarrow> map_option fst (print_v1 b PCP_OPCODE_PEER 44 24 no_occur) = Some PCP_RES_MALFORMED_REQUEST"
proof -
  have pl: "length (wire_peer f) = 44" by (simp add: wire_peer_def wire_map_def)
  note reads = peer_reads [OF b_def [THEN meta_eq_to_obj_eq] wire_header_length]
  have "print_PEER_opcode_ver1 b 24 \<noteq> None" using reads by (simp add: print_PEER_opcode_ver1_def)
  then obtain l where l: "print_PEER_opcode_ver1 b 24 = Some l" by blast
  have code: "get8 68 b = Some (hd rest)"
    using pl assms(3) by (cases rest) (simp_all add: b_def get8_def peek_def u8_of_def)
  have op: "get8 1 b = Some (PCP_OPCODE_PEER AND 0x7F)"
    using request_header_reads(2) [of b 1 f "wire_peer f @ rest"] assms(2) by (simp add: b_def)
  have in_b: "get8 73 b \<noteq> None" "get16 74 b \<noteq> None" "get_in6 76 b \<noteq> None"
    using assms(4) pl by (simp_all add: b_def get_defs peek_def)
  show "hd rest = 0 \<Longrightarrow> map_option fst (print_v1 b PCP_OPCODE_PEER 44 24 no_occur) = Some PCP_RES_SUCCESS"
    using l code op
    by (simp add: print_v1_def print_options_loop.simps [of b _ 20] print_options_loop.simps [of b _ 0] print_PCP_options_def Let_def)
  show "hd rest = PCP_OPTION_FILTER \<Longrightarrow> map_option fst (print_v1 b PCP_OPCODE_PEER 44 24 no_occur) = Some PCP_RES_MALFORMED_REQUEST"
    using l code op in_b
    by (auto simp: print_v1_def print_options_loop.simps [of b _ 20] print_options_loop.simps [of b _ "- 4"]
        print_PCP_options_def Let_def)
qed

text \<open>Once the time is over, the timeout handed to the system is zero, which the system takes for none.\<close>

lemma timeout_becomes_none:
  assumes "tv_sec (si_tv info) \<noteq> 0 \<or> tv_usec (si_tv info) \<noteq> 0"
  shows "fst (rcvtimeo info timeout_time tod) = Some (Timeval 0 0) \<longleftrightarrow> tv_us timeout_time \<le> tv_us tod"
proof -
  obtain late end_time x y where t: "timeval_subtract timeout_time tod = (late, end_time, x, y)" by (cases "timeval_subtract timeout_time tod")
  have "late \<longleftrightarrow> tv_us timeout_time \<le> tv_us tod" "tv_us end_time = max 0 (tv_us timeout_time - tv_us tod)"
    using timeval_subtract_flag [of timeout_time tod] timeval_subtract_diff [of timeout_time tod] t by simp_all
  moreover have "tv_us (Timeval 0 0) = 0" by (simp add: tv_us_def)
  ultimately show ?thesis using assms t by (auto simp: rcvtimeo_def)
qed

section \<open>Command line\<close>

definition config_ok :: "cli_config \<Rightarrow> bool" where
  "config_ok c \<longleftrightarrow> cf_pcp_version c \<in> {1, 2} \<and> (cf_default_result_code c \<le> 13 \<or> cf_default_result_code c = 255) \<and>
     0 \<le> cf_timeout_us c \<and> cf_timeout_us c < 2 ^ 31 \<and> cf_app_bit c \<in> {0, 1}"

lemma version_range:
  fixes v :: u8
  assumes "v \<noteq> 0" "\<not> 2 < v"
  shows "v = 1 \<or> v = 2"
proof -
  have "uint v \<noteq> 0" using assms(1) word_uint_eq_iff [of v 0] by simp
  moreover have "uint v \<le> 2" using assms(2) by (simp add: word_less_def)
  ultimately have "uint v = 1 \<or> uint v = 2" using uint_ge_0 [of v] by linarith
  then have "uint v = uint (1 :: u8) \<or> uint v = uint (2 :: u8)" by simp
  then show ?thesis by (metis word_uint_eq_iff)
qed

lemma main_option_ok:
  assumes "main_option pton opt c = Some (Inr c')" "config_ok c"
  shows "config_ok c'"
proof (cases opt)
  case (O_v s)
  then obtain v where "c' = c\<lparr>cf_pcp_version := v\<rparr>" "v \<noteq> 0" "\<not> 2 < v" using assms(1) by (auto simp: Let_def split: if_splits)
  then show ?thesis using version_range [of v] assms(2) by (auto simp: config_ok_def)
qed (use assms in \<open>auto simp: config_ok_def Let_def atoi_def not_less split: if_splits option.splits\<close>)

lemma main_options_ok: "main_options pton opts c = Some r \<Longrightarrow> config_ok c \<Longrightarrow> (case r of Inl e \<Rightarrow> e = 1 | Inr c' \<Rightarrow> config_ok c')"
proof (induction opts arbitrary: c)
  case (Cons opt opts)
  from Cons.prems(1) obtain r1 where r1: "main_option pton opt c = Some r1"
    "(case r1 of Inl e \<Rightarrow> Some (Inl e) | Inr c \<Rightarrow> main_options pton opts c) = Some r" by (auto simp: bind_Some_iff)
  show ?case
  proof (cases r1)
    case (Inl e)
    then have "e = 1" using r1(1) by (cases opt) (auto simp: Let_def split: if_splits)
    then show ?thesis using Inl r1(2) by auto
  next
    case (Inr c1)
    then show ?thesis using Cons.IH [of c1] r1 main_option_ok [of pton opt c c1] Cons.prems(2) by auto
  qed
qed auto

text \<open>For every command line on which all numbers fit into an \<open>int\<close>, the server either exits with status 1 or runs with
  a configuration in range: version 1 or 2, a result code that is one of the protocol or 255 for none,
  a normalised timeout of the given milliseconds that is not negative, and a log file name of at most 64
  characters.\<close>

theorem server_config_valid:
  assumes "main_server pton ext_ip opts now = Some r"
  shows "case r of Inl e \<Rightarrow> e = 1 | Inr (port, ip, info) \<Rightarrow>
    si_server_version info \<in> {1, 2} \<and> (si_default_result_code info \<le> 13 \<or> si_default_result_code info = 255) \<and>
    0 \<le> tv_sec (si_tv info) \<and> tv_normal (si_tv info) \<and> tv_us (si_tv info) < 1000 * 2 ^ 31 \<and> tv_us (si_tv info) mod 1000 = 0 \<and>
    length (si_log_file info) \<le> 64 \<and> si_log_file info \<noteq> [] \<and> si_epoch_time_start info = now"
proof -
  let ?c = "\<lparr>cf_port = ''5351'', cf_pcp_version = 2, cf_end_after_recv = 0,
            cf_default_result_code = 255, cf_timeout_us = 0, cf_server_ip = ''0.0.0.0'', cf_app_bit = 0, cf_ret_dscp = 0,
            cf_log_file = None, cf_ext_ip = ext_ip\<rparr>"
  from assms obtain rc where rc: "main_options pton opts ?c = Some rc" by (auto simp: main_server_def bind_Some_iff)
  from main_options_ok [OF rc] have ok: "case rc of Inl e \<Rightarrow> e = 1 | Inr c' \<Rightarrow> config_ok c'" by (simp add: config_ok_def)
  have ms: "tv_sec t = n div 1000 \<and> tv_usec t = n mod 1000 * 1000" if "0 \<le> n" "t = Timeval (n sdiv 1000) (n smod 1000 * 1000)" for n t
    using that by (simp add: signed_divide_int_def signed_modulo_int_def sgn_if)
  have split: "n div 1000 * 1000000 + n mod 1000 * 1000 = n * 1000" for n :: int
    using div_mult_mod_eq [of n 1000] by linarith
  show ?thesis
  proof (cases rc)
    case (Inl e)
    then show ?thesis using assms rc ok by (auto simp: main_server_def)
  next
    case (Inr c)
    then have c: "config_ok c" using ok by simp
    let ?t = "Timeval (cf_timeout_us c sdiv 1000) (cf_timeout_us c smod 1000 * 1000)"
    have t: "tv_sec ?t = cf_timeout_us c div 1000" "tv_usec ?t = cf_timeout_us c mod 1000 * 1000"
      using ms [of "cf_timeout_us c" ?t] c by (auto simp: config_ok_def)
    have "0 \<le> tv_sec ?t \<and> tv_normal ?t \<and> tv_us ?t = cf_timeout_us c * 1000"
      unfolding tv_normal_def tv_us_def t using c split [of "cf_timeout_us c"] pos_mod_bound [of 1000 "cf_timeout_us c"]
      by (auto simp: config_ok_def)
    moreover have "length (take 64 (s @ [CHR 0x00])) \<le> 64" "take 64 (s @ [CHR 0x00]) \<noteq> []" for s :: string by auto
    ultimately show ?thesis
      using assms rc Inr c by (auto simp: main_server_def config_ok_def split: option.splits)
  qed
qed

theorem server_config_valid_witness:
  "\<exists>info. main_server (\<lambda>_. None) in6_zero [O_v ''1'', O_r ''8'', O_timeout ''2500''] 7 = Some (Inr (''5351'', ''0.0.0.0'', info)) \<and>
     si_server_version info \<in> {1, 2} \<and> si_tv info = Timeval 2 500000 \<and> tv_normal (si_tv info)"
proof -
  have n: "atoi ''1'' = Some 1" "atoi ''8'' = Some 8" "atoi ''2500'' = Some 2500" by code_simp+
  obtain info where i: "main_server (\<lambda>_. None) in6_zero [O_v ''1'', O_r ''8'', O_timeout ''2500''] 7 =
      Some (Inr (''5351'', ''0.0.0.0'', info))" "si_tv info = Timeval 2 500000"
    by (simp add: main_server_def n signed_divide_int_def signed_modulo_int_def)
  from server_config_valid [OF i(1)] i show ?thesis by auto
qed

end
