(* ===== verification/Full_Exchange.thy ===== *)
theory Full_Exchange
  imports Terminate Mock_Answers
begin

text \<open>
  The library and the test server together: a request that the library builds, the answer of the
  server, and what the library makes of it.
\<close>

lemma answerable_no_unions:
  "answerable ver f \<Longrightarrow> ver = 1 \<or> ver = 2" "answerable ver f \<Longrightarrow> flow_wf f" "answerable ver f \<Longrightarrow> op_buildable ver f"
  by (auto simp: answerable_def op_buildable_def)

lemma answer_valid:
  assumes "answerable ver f" "wire_request ver f = wire_header ver f @ wire_opdata ver f @ wire_options k f"
    "m_pcp_msg_buffer m = wire_response ver f code lifetime epoch ip (f_ext_port f) @ wire_options k f @ rest"
    "m_pcp_msg_len m = length (wire_response ver f code lifetime epoch ip (f_ext_port f) @ wire_options k f)"
  shows "validate_pcp_msg m = Some True"
proof -
  have n: "m_pcp_msg_len m = length (wire_request ver f)"
    using assms(2,4) wire_opdata_same_length [OF assms(1)] by (simp add: wire_response_def)
  from answerable_parts [OF assms(1)] have
    len: "4 dvd m_pcp_msg_len m" "m_pcp_msg_len m + 4 \<le> PCP_MAX_LEN" "60 \<le> m_pcp_msg_len m + 12" unfolding n by metis+
  have hd: "m_pcp_msg_buffer m = wire_resp_header ver (k_operation (f_kd f)) code lifetime epoch @
      (wire_opdata ver (f\<lparr>f_ext_ip := ip, f_ext_port := f_ext_port f\<rparr>) @ wire_options k f @ rest)"
    using assms(3) by (simp add: wire_response_def)
  have "(k_operation (f_kd f) OR 0x80) AND 0x80 \<noteq> 0" "\<not> PCP_MAX_SUPPORTED_VERSION < ver"
    using assms(1) by (auto simp: answerable_def)
  then show ?thesis using header_reads(1,2) [OF hd] len by (simp add: validate_pcp_msg_def dvd_eq_mod_eq_0)
qed

text \<open>The message of a flow that \<open>build_pcp_msg\<close> left.\<close>

definition sent_bytes :: "pcp_flow \<Rightarrow> u8 list" where
  "sent_bytes f = take (f_pcp_msg_len f) (the (f_pcp_msg_buffer f))"

text \<open>C2: a whole exchange. Let a flow wait for the response of its server, as \<open>pcp_new_flow\<close> made it, with a request that
  the test server supports. The request that the library builds for it is answered by the server; when the
  answer arrives, the library parses it, finds the flow again by the key data in it and stores the
  external address that the server was configured with, the port and the lifetime the flow had asked for, and no other flow
  changes.\<close>

theorem exchange_completes:
  assumes inv: "ctx_inv c" and s: "in_use s c" "sv = c_pcp_servers c ! s"
    and p: "p \<in> db_flows c" "c_heap c p = Some f" "f_state f = pfs_wait_resp" "f_pcp_server_indx f = s_index sv"
    and key: "requested_key src dst protocol c0 = Some (Some kd, c1)" "caasi_key kd sv = Some (f_kd f)"
    and uniq: "\<forall>q\<in>db_flows c. db_key c q = db_key c p \<longrightarrow> q = p"
    and req: "answerable ver f"
    and srv: "sbuf_ok buf" "ver \<le> si_server_version info" "si_default_result_code info = 255"
      "si_log_file info = [] \<or> hd (si_log_file info) = CHR 0x00 \<or> fopen_ok"
    and to: "addressed_to sv scope_id (m_rcvd_to_addr (c_msg c)) (f_kd f)"
  shows "\<exists>f' answer l buf'. build_request ver (f\<lparr>f_pcp_msg_buffer := Some (replicate PCP_MAX_LEN 0)\<rparr>) = Some (0, f') \<and>
    serve info (sent_bytes f') now fopen_ok no_occur buf = Some (Inr (answer, l, no_occur, buf')) \<and>
    (let c = c\<lparr>c_msg := (c_msg c)\<lparr>m_pcp_msg_buffer := answer @ rest, m_pcp_msg_len := length answer\<rparr>\<rparr> in
     validate_pcp_msg (c_msg c) = Some True \<and>
     (\<exists>m c' g. parse_response (c_msg c) = Some (PCP_ERR_SUCCESS, m) \<and>
       server_process_rcvd_pcp_msg s (c\<lparr>c_msg := complete_msg sv scope_id m\<rparr>) = Some (Some p, c') \<and>
       c_heap c' = (c_heap c)(p \<mapsto> g) \<and> flow_place g = flow_place f \<and> f_state g = pfs_wait_for_lifetime_renew \<and>
       f_ext_ip g = answered_ip info f \<and> f_ext_port g = f_ext_port f \<and> f_recv_result g = 0 \<and>
       f_recv_lifetime g = lifetime_end m \<and> m_recv_lifetime m = f_lifetime f))"
proof -
  note a = answerable_no_unions [OF req]
  let ?b = "with_buf (zfill (wire_request ver f)) f\<lparr>f_pcp_msg_len := length (wire_request ver f)\<rparr>"
  have build: "build_request ver (f\<lparr>f_pcp_msg_buffer := Some (replicate PCP_MAX_LEN 0)\<rparr>) = Some (0, ?b)"
    using build_request_wire [OF a] by (simp add: with_buf_def)
  have sent: "sent_bytes ?b = wire_request ver f" by (simp add: sent_bytes_def with_buf_def zfill_def)
  have "si_default_result_code info \<noteq> 1" using srv(3) by simp
  from serve_answers [OF req srv(1,2,4) this, of now] obtain k l buf' where
    wr: "wire_request ver f = wire_header ver f @ wire_opdata ver f @ wire_options k f" and
    serve: "serve info (wire_request ver f) now fopen_ok no_occur buf =
      Some (Inr (wire_response ver f (result_sent info) (f_lifetime f) (word_of_int (now - si_epoch_time_start info))
        (answered_ip info f) (f_ext_port f) @ wire_options k f, l, no_occur, buf'))" by metis
  let ?r = "wire_response ver f 0 (f_lifetime f) (word_of_int (now - si_epoch_time_start info)) (answered_ip info f) (f_ext_port f)"
  let ?answer = "?r @ wire_options k f"
  let ?c = "c\<lparr>c_msg := (c_msg c)\<lparr>m_pcp_msg_buffer := ?answer @ rest, m_pcp_msg_len := length ?answer\<rparr>\<rparr>"
  have same: "db_flows ?c = db_flows c" "db_key ?c = db_key c" by (simp_all add: db_flows_def db_key_def fun_eq_iff)
  have "ctx_inv ?c" using inv by simp
  moreover have "in_use s ?c" "sv = c_pcp_servers ?c ! s" using s by (simp_all add: in_use_def)
  moreover have "\<forall>q\<in>db_flows ?c. db_key ?c q = db_key ?c p \<longrightarrow> q = p" using uniq unfolding same .
  moreover have "p \<in> db_flows ?c" "c_heap ?c p = Some f" "addressed_to sv scope_id (m_rcvd_to_addr (c_msg ?c)) (f_kd f)"
    using p to unfolding same by simp_all
  ultimately have stored: "\<exists>m c' g. parse_response (c_msg ?c) = Some (PCP_ERR_SUCCESS, m) \<and>
       server_process_rcvd_pcp_msg s (?c\<lparr>c_msg := complete_msg sv scope_id m\<rparr>) = Some (Some p, c') \<and>
       c_heap c' = (c_heap ?c)(p \<mapsto> g) \<and> flow_place g = flow_place f \<and> f_state g = pfs_wait_for_lifetime_renew \<and>
       f_ext_ip g = answered_ip info f \<and> f_ext_port g = f_ext_port f \<and> f_recv_result g = 0 \<and>
       f_recv_lifetime g = lifetime_end m \<and> m_recv_lifetime m = f_lifetime f"
    by (intro response_reaches_flow_core [where src = src and dst = dst and protocol = protocol and kd = kd and ver = ver and
          epoch = "word_of_int (now - si_epoch_time_start info)" and rest = "wire_options k f @ rest" and ?c0.0 = c0 and ?c1.0 = c1])
      (use p key a(1) in simp_all)
  have valid: "validate_pcp_msg (c_msg ?c) = Some True" by (rule answer_valid [OF req wr]) simp_all
  have "build_request ver (f\<lparr>f_pcp_msg_buffer := Some (replicate PCP_MAX_LEN 0)\<rparr>) = Some (0, ?b) \<and>
    serve info (sent_bytes ?b) now fopen_ok no_occur buf = Some (Inr (?answer, l, no_occur, buf'))"
    using build serve srv(3) by (simp add: sent result_sent_def)
  then show ?thesis using valid stored unfolding Let_def by blast
qed

theorem exchange_completes_witness:
  "\<exists>c f f' info answer l buf' m c' g. ctx_inv c \<and> c_heap c 0 = Some f \<and>
     build_request 2 (f\<lparr>f_pcp_msg_buffer := Some (replicate PCP_MAX_LEN 0)\<rparr>) = Some (0, f') \<and>
     serve info (sent_bytes f') 5 False no_occur (replicate PCP_MAX_LEN 0) = Some (Inr (answer, l, no_occur, buf')) \<and>
     server_process_rcvd_pcp_msg 0 (c\<lparr>c_msg := m\<rparr>) = Some (Some 0, c') \<and>
     c_heap c' 0 = Some g \<and> f_state g = pfs_wait_for_lifetime_renew \<and> f_ext_ip g = v4mapped 77"
proof -
  obtain c f where c: "ctx_inv c" "in_use 0 c" "c_pcp_servers c = c_pcp_servers ctx_one_server" "db_flows c = {0}"
    "c_heap c 0 = Some f" "f_state f = pfs_wait_resp" "f_pcp_server_indx f = 0" "f_kd f = f_kd waiting_flow"
    and f: "f = waiting_flow\<lparr>f_next := f_next f, f_key_bucket := f_key_bucket f\<rparr>"
    using waiting_context by blast
  let ?sv = "c_pcp_servers ctx_one_server ! 0"
  let ?info = "\<lparr>si_server_version = 2, si_end_after_recv = 1, si_default_result_code = 255, si_ext_ip = v4mapped 77, si_app_bit = 0,
    si_ret_dscp = 0, si_log_file = [CHR 0x00], si_tv = Timeval 0 0, si_epoch_time_start = 0\<rparr>"
  let ?c = "c\<lparr>c_msg := msg_zero\<lparr>m_rcvd_to_addr := SA_in6 0 (In6 1 2 3 4) 0\<rparr>\<rparr>"
  obtain kd where key: "requested_key (SA_in6 80 (In6 1 2 3 4) 0) None 6 ctx_one_server = Some (Some kd, ctx_one_server)"
    "caasi_key kd ?sv = Some (f_kd f)" using waiting_flow_key(1) c(8) by auto
  have op: "k_operation (f_kd f) = PCP_OPCODE_MAP" unfolding c(8) by (simp add: waiting_flow_def)
  have "answerable 2 (waiting_flow\<lparr>f_next := n, f_key_bucket := b\<rparr>)" for n b
    by (simp add: answerable_def flow_wf_def waiting_flow_def flow_zero_def wire_request_def wire_opdata_def wire_options_def
        wire_fixed_options_def wire_header_def wire_map_def Let_def)
  then have ans: "answerable 2 f" using f by metis
  have "in_use 0 ?c" "ctx_inv ?c" "0 \<in> db_flows ?c" "\<forall>q\<in>db_flows ?c. db_key ?c q = db_key ?c 0 \<longrightarrow> q = 0" "c_heap ?c 0 = Some f"
      "?sv = c_pcp_servers ?c ! 0" "f_pcp_server_indx f = s_index ?sv"
    using c by (simp_all add: in_use_def db_flows_def ctx_one_server_def server_zero_def)
  moreover have "addressed_to ?sv 0 (m_rcvd_to_addr (c_msg ?c)) (f_kd f)" using waiting_flow_key(2) c(8) by simp
  moreover have "sbuf_ok (replicate PCP_MAX_LEN 0)" by (simp add: sbuf_ok_def)
  ultimately obtain f' answer l buf' m c' g where
    r: "build_request 2 (f\<lparr>f_pcp_msg_buffer := Some (replicate PCP_MAX_LEN 0)\<rparr>) = Some (0, f')"
      "serve ?info (sent_bytes f') 5 False no_occur (replicate PCP_MAX_LEN 0) = Some (Inr (answer, l, no_occur, buf'))"
      "server_process_rcvd_pcp_msg 0 (c\<lparr>c_msg := complete_msg ?sv 0 m\<rparr>) = Some (Some 0, c')" "c_heap c' = (c_heap c)(0 \<mapsto> g)"
      "f_state g = pfs_wait_for_lifetime_renew" "f_ext_ip g = answered_ip ?info f"
    using exchange_completes [of ?c 0 ?sv 0 f "SA_in6 80 (In6 1 2 3 4) 0" None 6 ctx_one_server kd ctx_one_server 2
        "replicate PCP_MAX_LEN 0" ?info False 0 5 "[]"] key c(6) ans by (auto simp: Let_def)
  moreover have "answered_ip ?info f = v4mapped 77" by (simp add: answered_ip_def op)
  ultimately show ?thesis using c(1,5)
    by (intro exI [of _ c] exI [of _ f] exI [of _ f'] exI [of _ ?info] exI [of _ answer] exI [of _ l] exI [of _ buf']
        exI [of _ "complete_msg ?sv 0 m"] exI [of _ c'] exI [of _ g]) simp
qed

end
