(* ===== verification/Mock_Socket.thy ===== *)
theory Mock_Socket
  imports Main
begin

text \<open>
  The socket of the test server (\<open>createPCPsocket\<close> in \<open>pcp_server/pcp_server.c\<close>), over the answers of \<open>getaddrinfo\<close>, \<open>socket\<close> and \<open>bind\<close>:
  the first address that can be bound is taken, and no socket of an earlier one stays open.
\<close>

datatype srv_call = Srv_socket nat | Srv_reuseaddr nat | Srv_bind nat | Srv_close nat

text \<open>The answers of the system: the number of addresses, or \<open>None\<close> for an error, and which of them have a socket and can be bound.\<close>

record srv_sys =
  ss_addresses :: "nat option"
  ss_socket :: "nat \<Rightarrow> bool"
  ss_bind :: "nat \<Rightarrow> bool"

text \<open>The loop from the address \<open>i\<close> on, with \<open>n\<close> left: the address whose socket is kept, and the calls.\<close>

fun create_loop :: "srv_sys \<Rightarrow> nat \<Rightarrow> nat \<Rightarrow> nat option \<times> srv_call list" where
  "create_loop w i 0 = (None, [])"
| "create_loop w i (Suc n) =
     (if \<not> ss_socket w i then
        (case create_loop w (i + 1) n of (r, calls) \<Rightarrow> (r, Srv_socket i # calls))
      else if \<not> ss_bind w i then
        (case create_loop w (i + 1) n of (r, calls) \<Rightarrow> (r, [Srv_socket i, Srv_reuseaddr i, Srv_bind i, Srv_close i] @ calls))
      else (Some i, [Srv_socket i, Srv_reuseaddr i, Srv_bind i]))"

text \<open>The program ends, the number 1 is returned after an error of \<open>getaddrinfo\<close>, or the socket of an address.\<close>

datatype srv_socket = Exit int | Number int | Socket_of nat

definition createPCPsocket :: "srv_sys \<Rightarrow> srv_socket \<times> srv_call list" where
  "createPCPsocket w =
     (case ss_addresses w of
        None \<Rightarrow> (Number 1, [])
      | Some n \<Rightarrow>
          (case create_loop w 0 n of
             (None, calls) \<Rightarrow> (Exit 2, calls)
           | (Some i, calls) \<Rightarrow> (Socket_of i, calls)))"

text \<open>The sockets that are open after the calls.\<close>

definition left_open :: "srv_sys \<Rightarrow> srv_call list \<Rightarrow> nat set" where
  "left_open w calls = {i. Srv_socket i \<in> set calls \<and> ss_socket w i \<and> Srv_close i \<notin> set calls}"

lemma create_loop_first:
  "create_loop w i n = (r, calls) \<Longrightarrow>
   (\<forall>j. Srv_socket j \<in> set calls \<or> Srv_close j \<in> set calls \<longrightarrow> i \<le> j) \<and>
   (case r of
      None \<Rightarrow> (\<forall>j. i \<le> j \<and> j < i + n \<longrightarrow> \<not> (ss_socket w j \<and> ss_bind w j)) \<and> left_open w calls = {}
    | Some k \<Rightarrow> i \<le> k \<and> k < i + n \<and> ss_socket w k \<and> ss_bind w k \<and> (\<forall>j. i \<le> j \<and> j < k \<longrightarrow> \<not> (ss_socket w j \<and> ss_bind w j)) \<and>
        left_open w calls = {k})"
proof (induction n arbitrary: i r calls)
  case 0
  then show ?case by (auto simp: left_open_def)
next
  case (Suc n)
  obtain r' calls' where rest: "create_loop w (i + 1) n = (r', calls')" by (cases "create_loop w (i + 1) n")
  note IH = Suc.IH [OF rest]
  have range: "i \<le> j \<and> j < i + Suc n \<longleftrightarrow> j = i \<or> i + 1 \<le> j \<and> j < i + 1 + n" for j by auto
  have below: "i \<le> j \<and> j < k \<longleftrightarrow> j = i \<or> i + 1 \<le> j \<and> j < k" if "i + 1 \<le> k" for j k using that by auto
  show ?case
  proof (cases "ss_socket w i \<and> ss_bind w i")
    case True
    then show ?thesis using Suc.prems by (auto simp: left_open_def)
  next
    case False
    have r: "r = r'" and c: "calls = Srv_socket i # calls' \<or> ss_socket w i \<and> calls = [Srv_socket i, Srv_reuseaddr i, Srv_bind i, Srv_close i] @ calls'"
      "\<not> ss_socket w i \<or> calls = [Srv_socket i, Srv_reuseaddr i, Srv_bind i, Srv_close i] @ calls'"
      using Suc.prems rest False by (auto split: if_splits)
    have low: "\<forall>j. Srv_socket j \<in> set calls' \<or> Srv_close j \<in> set calls' \<longrightarrow> i + 1 \<le> j" using IH by blast
    have o: "left_open w calls = left_open w calls'" using c low by (auto simp: left_open_def)
    have all: "\<forall>j. Srv_socket j \<in> set calls \<or> Srv_close j \<in> set calls \<longrightarrow> i \<le> j" using c(1) low by fastforce
    show ?thesis
    proof (cases r')
      case None
      then have "\<forall>j. i \<le> j \<and> j < i + Suc n \<longrightarrow> \<not> (ss_socket w j \<and> ss_bind w j)" using IH False unfolding range by auto
      then show ?thesis using None IH r o all by simp
    next
      case (Some k)
      then have k: "i + 1 \<le> k" "k < i + 1 + n" "ss_socket w k" "ss_bind w k" "left_open w calls' = {k}"
        "\<forall>j. i + 1 \<le> j \<and> j < k \<longrightarrow> \<not> (ss_socket w j \<and> ss_bind w j)" using IH by auto
      then have "\<forall>j. i \<le> j \<and> j < k \<longrightarrow> \<not> (ss_socket w j \<and> ss_bind w j)" using False below [OF k(1)] by auto
      then show ?thesis using Some k r o all by simp
    qed
  qed
qed

text \<open>The socket of the test server. With a list of addresses, the server gets the socket of the first one that has a socket and can be bound,
  and this is the only one that stays open; when there is none it ends with status 2 and leaves none open.\<close>

theorem createPCPsocket_first:
  assumes "ss_addresses w = Some n"
  shows "case createPCPsocket w of
      (Socket_of k, calls) \<Rightarrow> k < n \<and> ss_socket w k \<and> ss_bind w k \<and> (\<forall>j<k. \<not> (ss_socket w j \<and> ss_bind w j)) \<and> left_open w calls = {k}
    | (Exit s, calls) \<Rightarrow> s = 2 \<and> (\<forall>j<n. \<not> (ss_socket w j \<and> ss_bind w j)) \<and> left_open w calls = {}
    | (Number m, calls) \<Rightarrow> False"
proof -
  obtain r calls where l: "create_loop w 0 n = (r, calls)" by (cases "create_loop w 0 n")
  from create_loop_first [OF l] show ?thesis using assms l by (cases r) (simp_all add: createPCPsocket_def)
qed

theorem createPCPsocket_first_witness:
  "fst (createPCPsocket \<lparr>ss_addresses = Some 3, ss_socket = \<lambda>j. j \<noteq> 0, ss_bind = \<lambda>j. j = 2\<rparr>) = Socket_of 2"
proof -
  let ?w = "\<lparr>ss_addresses = Some 3, ss_socket = \<lambda>j. j \<noteq> 0, ss_bind = \<lambda>j. j = (2::nat)\<rparr>"
  obtain r calls where c: "createPCPsocket ?w = (r, calls)" by (cases "createPCPsocket ?w")
  from createPCPsocket_first [of ?w 3] show ?thesis unfolding c by (cases r) (auto dest: spec [of _ 2])
qed

end
