(* ===== verification/Gateway.thy ===== *)
theory Gateway
  imports Msg_Parse
begin

text \<open>
  Discovery of gateways on Linux (\<open>net/gateway.c\<close>): \<open>getgateways\<close> asks the kernel over a netlink socket for the
  routing table and collects the gateways of its main table. What the kernel sends is an argument of the
  model; the messages are read from the buffer of \<open>BUFSIZE\<close> bytes at the offsets of the kernel's structures. Shown
  is that for every routing table that the kernel can describe the result is the list of its gateways.
\<close>

section \<open>Netlink messages\<close>

abbreviation BUFSIZE :: nat where "BUFSIZE \<equiv> 8192"
abbreviation NLMSG_ERROR :: u16 where "NLMSG_ERROR \<equiv> 2"
abbreviation NLMSG_DONE :: u16 where "NLMSG_DONE \<equiv> 3"
abbreviation RTM_NEWROUTE :: u16 where "RTM_NEWROUTE \<equiv> 24"
abbreviation RTM_GETROUTE :: u16 where "RTM_GETROUTE \<equiv> 26"
abbreviation NLM_F_MULTI :: u16 where "NLM_F_MULTI \<equiv> 2"
abbreviation RT_TABLE_MAIN :: u8 where "RT_TABLE_MAIN \<equiv> 254"
abbreviation RTA_OIF :: u16 where "RTA_OIF \<equiv> 4"
abbreviation RTA_GATEWAY :: u16 where "RTA_GATEWAY \<equiv> 5"
abbreviation FAM_INET :: u8 where "FAM_INET \<equiv> 2"
abbreviation FAM_INET6 :: u8 where "FAM_INET6 \<equiv> 10"

text \<open>Sizes are rounded up to a multiple of four by \<open>NLMSG_ALIGN\<close> and \<open>RTA_ALIGN\<close>.\<close>

definition align4 :: "nat \<Rightarrow> nat" where
  "align4 n = (n + 3) div 4 * 4"

text \<open>\<open>NLMSG_OK(nlMsg, (unsigned)len)\<close> for the header at \<open>off\<close>.\<close>

definition NLMSG_OK :: "u8 list \<Rightarrow> nat \<Rightarrow> nat \<Rightarrow> bool option" where
  "NLMSG_OK b off len =
     (if len < 16 then Some False
      else do { l \<leftarrow> get32 off b; Some (16 \<le> unat l \<and> unat l \<le> len) })"

text \<open>
  \<open>readNlSock\<close>, on the results of the calls of \<open>recv\<close>: a datagram, or \<open>None\<close> for an error. When they are used up, \<open>recv\<close>
  does not return. \<open>bufPtr\<close> is the start of the buffer plus \<open>msgLen\<close>.
\<close>

fun readNlSock :: "u8 list option list \<Rightarrow> u8 list \<Rightarrow> nat \<Rightarrow> u32 \<Rightarrow> u32 \<Rightarrow> (int \<times> u8 list) option" where
  "readNlSock [] b msgLen seqNum pId = None"
| "readNlSock (None # rs) b msgLen seqNum pId = Some (-1, b)"
| "readNlSock (Some d # rs) b msgLen seqNum pId = do {
     let readLen = min (length d) (BUFSIZE - msgLen);
     b \<leftarrow> poke msgLen (take readLen d) b;
     ok \<leftarrow> NLMSG_OK b msgLen readLen;
     if \<not> ok then Some (-1, b)
     else do {
       nlmsg_type \<leftarrow> get16 (msgLen + 4) b;
       if nlmsg_type = NLMSG_ERROR then Some (-1, b)
       else if nlmsg_type = NLMSG_DONE then Some (int msgLen, b)
       else do {
         nlmsg_flags \<leftarrow> get16 (msgLen + 6) b;
         if nlmsg_flags AND NLM_F_MULTI = 0 then Some (int (msgLen + readLen), b)
         else do {
           nlmsg_seq \<leftarrow> get32 (msgLen + 8) b;
           nlmsg_pid \<leftarrow> get32 (msgLen + 12) b;
           if nlmsg_seq \<noteq> seqNum \<or> nlmsg_pid \<noteq> pId then readNlSock rs b (msgLen + readLen) seqNum pId
           else Some (int (msgLen + readLen), b)
         }
       }
     }
   }"

section \<open>Routes\<close>

definition TO_IPV6MAPPED :: "in6_addr \<Rightarrow> in6_addr" where
  "TO_IPV6MAPPED x = In6 0 0 (htonl 0xFFFF) (w0 x)"

text \<open>
  One attribute of a route: \<open>scope_id\<close> and \<open>addr\<close>, which is \<open>None\<close> as long as \<open>found\<close> is 0.
\<close>

definition rt_attribute :: "u8 list \<Rightarrow> nat \<Rightarrow> nat \<Rightarrow> u8 \<Rightarrow> u32 \<times> in6_addr option \<Rightarrow> (u32 \<times> in6_addr option) option" where
  "rt_attribute b off rtaLen family s =
     (if rtaLen > 16 then Some s
      else do {
        rta_type \<leftarrow> get16 (off + 2) b;
        if rta_type = RTA_OIF then do { i \<leftarrow> get32 (off + 4) b; Some (i, snd s) }
        else if rta_type = RTA_GATEWAY then do {
          bs \<leftarrow> peek (off + 4) rtaLen b;
          let addr = in6_of (bs @ replicate (16 - rtaLen) 0);
          Some (fst s, Some (if family = FAM_INET then TO_IPV6MAPPED addr else addr))
        }
        else Some s
      })"

text \<open>The loop over the attributes, with \<open>RTA_OK\<close> and \<open>RTA_NEXT\<close>; every attribute has at least four bytes.\<close>

function rt_attributes :: "u8 list \<Rightarrow> nat \<Rightarrow> int \<Rightarrow> u8 \<Rightarrow> u32 \<times> in6_addr option \<Rightarrow> (u32 \<times> in6_addr option) option" where
  "rt_attributes b off rtLen family s =
     (if rtLen < 4 then Some s
      else case get16 off b of
        None \<Rightarrow> None
      | Some rta_len \<Rightarrow>
          if unat rta_len < 4 \<or> rtLen < int (unat rta_len) then Some s
          else case rt_attribute b off (unat rta_len - 4) family s of
            None \<Rightarrow> None
          | Some s \<Rightarrow> rt_attributes b (off + align4 (unat rta_len)) (rtLen - int (align4 (unat rta_len))) family s)"
  by pat_completeness auto
termination
  by (relation "measure (\<lambda>(b, off, rtLen, family, s). nat rtLen)") (auto simp: align4_def)

declare rt_attributes.simps [simp del]

text \<open>
  The body of the loop over the messages: the gateway of the route at \<open>off\<close>, with its scope.
\<close>

definition rt_gateway :: "u8 list \<Rightarrow> nat \<Rightarrow> nat \<Rightarrow> (in6_addr \<times> u32) option option" where
  "rt_gateway b off nlmsg_len = do {
     rtm_family \<leftarrow> get8 (off + 16) b;
     rtm_table \<leftarrow> get8 (off + 20) b;
     if rtm_family \<noteq> FAM_INET \<and> rtm_family \<noteq> FAM_INET6 \<or> rtm_table \<noteq> RT_TABLE_MAIN then Some None
     else do {
       (scope_id, addr) \<leftarrow> rt_attributes b (off + 28) (int nlmsg_len - 28) rtm_family (0, None);
       Some (map_option (\<lambda>a. (a, scope_id)) addr)
     }
   }"

text \<open>
  The loop: \<open>len\<close> is signed, but the test takes it as unsigned. \<open>alloc k\<close> tells whether the reallocation for the entry
  \<open>k\<close> succeeds. The result is \<open>ret\<close> with the array.
\<close>

function nl_loop :: "(nat \<Rightarrow> bool) \<Rightarrow> u8 list \<Rightarrow> nat \<Rightarrow> int \<Rightarrow> (in6_addr \<times> u32) list \<Rightarrow> (int \<times> (in6_addr \<times> u32) list) option" where
  "nl_loop alloc b off len gws =
     (case NLMSG_OK b off (nat (len mod 2 ^ 32)) of
        None \<Rightarrow> None
      | Some False \<Rightarrow> Some (int (length gws), gws)
      | Some True \<Rightarrow>
          case get32 off b of
            None \<Rightarrow> None
          | Some l \<Rightarrow>
              case rt_gateway b off (unat l) of
                None \<Rightarrow> None
              | Some gw \<Rightarrow>
                  if gw \<noteq> None \<and> \<not> alloc (length gws) then Some (errno_code PCP_ERR_NO_MEM, [])
                  else nl_loop alloc b (off + align4 (unat l)) (len - int (align4 (unat l)))
                         (case gw of None \<Rightarrow> gws | Some g \<Rightarrow> gws @ [g]))"
  by pat_completeness auto
termination
  by (relation "measure (\<lambda>(alloc, b, off, len, gws). length b - off)")
    (auto simp: NLMSG_OK_def align4_def get32_def peek_def split: if_splits)

declare nl_loop.simps [simp del]

section \<open>Asking the kernel\<close>

text \<open>
  What the system calls return: whether the socket could be made and the request sent, the results
  of \<open>recv\<close>, the process id, and the success of the allocations.
\<close>

record gw_world =
  gw_socket :: bool
  gw_send :: bool
  gw_recv :: "u8 list option list"
  gw_pid :: u32
  gw_alloc :: "nat \<Rightarrow> bool"

text \<open>The request, as it is written into the buffer; its first 28 bytes are sent.\<close>

definition netlink_request :: "u32 \<Rightarrow> u8 list option" where
  "netlink_request pid = do {
     b \<leftarrow> poke 0 (u32_bytes 28) (replicate BUFSIZE 0);
     b \<leftarrow> poke 4 (u16_bytes RTM_GETROUTE) b;
     b \<leftarrow> poke 6 (u16_bytes 0x301) b;
     b \<leftarrow> poke 8 (u32_bytes 0) b;
     poke 12 (u32_bytes pid) b
   }"

text \<open>\<open>gws\<close> tells that the argument is not \<open>NULL\<close>; the array it points to is empty at first, as for the only caller.\<close>

definition getgateways :: "bool \<Rightarrow> gw_world \<Rightarrow> (int \<times> (in6_addr \<times> u32) list) option" where
  "getgateways gws w =
     (if \<not> gws then Some (errno_code PCP_ERR_BAD_ARGS, [])
      else if \<not> gw_socket w then Some (errno_code PCP_ERR_UNKNOWN, [])
      else do {
        b \<leftarrow> netlink_request (gw_pid w);
        if \<not> gw_send w then Some (errno_code PCP_ERR_SEND_FAILED, [])
        else do {
          (len, b) \<leftarrow> readNlSock (gw_recv w) b 0 1 (gw_pid w);
          if len < 0 then Some (errno_code PCP_ERR_RECV_FAILED, [])
          else nl_loop (gw_alloc w) b 0 len []
        }
      })"

section \<open>Routing tables\<close>

text \<open>
  What the kernel describes: a route with its address family, table and attributes; the other
  members of \<open>struct rtmsg\<close> are kept as bytes. Messages and attributes are padded to a multiple of four.
\<close>

record route =
  rt_family :: u8
  rt_pre :: "u8 list"
  rt_table :: u8
  rt_post :: "u8 list"
  rt_attrs :: "(u16 \<times> u8 list) list"

definition enc_attr :: "u16 \<times> u8 list \<Rightarrow> u8 list" where
  "enc_attr a = u16_bytes (of_nat (4 + length (snd a))) @ u16_bytes (fst a) @ snd a @ replicate (align4 (length (snd a)) - length (snd a)) 0"

definition enc_route :: "u32 \<Rightarrow> route \<Rightarrow> u8 list" where
  "enc_route pid r =
     u32_bytes (of_nat (28 + length (concat (map enc_attr (rt_attrs r))))) @ u16_bytes RTM_NEWROUTE @ u16_bytes NLM_F_MULTI @
     u32_bytes 0 @ u32_bytes pid @
     [rt_family r] @ rt_pre r @ [rt_table r] @ rt_post r @ concat (map enc_attr (rt_attrs r))"

definition enc_done :: "u32 \<Rightarrow> u8 list" where
  "enc_done pid = u32_bytes 20 @ u16_bytes NLMSG_DONE @ u16_bytes NLM_F_MULTI @ u32_bytes 0 @ u32_bytes pid @ u32_bytes 0"

definition wf_attr :: "u8 \<Rightarrow> u16 \<times> u8 list \<Rightarrow> bool" where
  "wf_attr family a \<longleftrightarrow> length (snd a) < BUFSIZE \<and> (fst a = RTA_OIF \<longrightarrow> length (snd a) = 4) \<and>
     (fst a = RTA_GATEWAY \<longrightarrow> length (snd a) = (if family = FAM_INET then 4 else 16))"

definition wf_route :: "route \<Rightarrow> bool" where
  "wf_route r \<longleftrightarrow> length (rt_pre r) = 3 \<and> length (rt_post r) = 7 \<and> (\<forall>a\<in>set (rt_attrs r). wf_attr (rt_family r) a)"

text \<open>The gateway of a route and the interface through which it is reached; the last attribute of a kind counts.\<close>

fun attr_step :: "u8 \<Rightarrow> u32 \<times> in6_addr option \<Rightarrow> u16 \<times> u8 list \<Rightarrow> u32 \<times> in6_addr option" where
  "attr_step family (scope, gw) (t, d) =
     (if t = RTA_OIF then (u32_of d, gw)
      else if t = RTA_GATEWAY then (scope, Some (if family = FAM_INET then v4mapped (u32_of d) else in6_of d))
      else (scope, gw))"

definition route_gw :: "route \<Rightarrow> (in6_addr \<times> u32) option" where
  "route_gw r =
     (if (rt_family r = FAM_INET \<or> rt_family r = FAM_INET6) \<and> rt_table r = RT_TABLE_MAIN
      then case foldl (attr_step (rt_family r)) (0, None) (rt_attrs r) of (scope, gw) \<Rightarrow> map_option (\<lambda>a. (a, scope)) gw
      else None)"

definition gateways_of :: "route list \<Rightarrow> (in6_addr \<times> u32) list" where
  "gateways_of rs = List.map_filter route_gw rs"

section \<open>Reading routes\<close>

lemma align4_bounds: "n \<le> align4 n" "align4 n \<le> n + 3" "4 dvd align4 n"
  by (simp_all add: align4_def)

lemma align4_add4: "align4 (4 + n) = 4 + align4 n"
  unfolding align4_def by presburger

lemma align4_id: "4 dvd n \<Longrightarrow> align4 n = n"
  by (auto simp: align4_def elim!: dvdE)

lemma enc_attr_length [simp]: "length (enc_attr a) = 4 + align4 (length (snd a))"
  using align4_bounds(1) [of "length (snd a)"] by (simp add: enc_attr_def)

lemma attrs_dvd: "4 dvd length (concat (map enc_attr as))"
  by (induction as) (simp_all add: align4_bounds)

lemma u16_of_nat: "n < 65536 \<Longrightarrow> unat (of_nat n :: u16) = n"
  by (simp add: unat_of_nat take_bit_nat_eq_self)

lemma u32_of_nat: "n < 2 ^ 32 \<Longrightarrow> unat (of_nat n :: u32) = n"
  by (simp add: unat_of_nat take_bit_nat_eq_self)

lemma attr_reads:
  assumes "b = pre @ enc_attr a @ post"
  shows "get16 (length pre) b = Some (of_nat (4 + length (snd a)))" "get16 (length pre + 2) b = Some (fst a)"
    "peek (length pre + 4) (length (snd a)) b = Some (snd a)"
  using assms by (simp_all add: get_defs peek_skip enc_attr_def) (simp_all add: peek_def)

lemma rt_attribute_step:
  assumes b: "b = pre @ enc_attr a @ post" and wf: "wf_attr family a"
  shows "rt_attribute b (length pre) (length (snd a)) family s = Some (attr_step family s a)"
proof -
  note rd = attr_reads [OF b]
  obtain t d scope gw where a: "a = (t, d)" "s = (scope, gw)" by (cases a, cases s)
  have four: "in6_of (d @ replicate 12 0) = In6 (u32_of d) 0 0 0" if "length d = 4" for d
    using that by (auto simp: in6_of_def u32_of_def list_of_length_4 eval_nat_numeral)
  show ?thesis
  proof (cases "length d > 16")
    case True
    then show ?thesis using wf a by (auto simp: rt_attribute_def wf_attr_def split: if_splits)
  next
    case False
    then show ?thesis
      using rd wf a four [of d]
      by (auto simp: rt_attribute_def wf_attr_def get32_def TO_IPV6MAPPED_def v4mapped_def Let_def split: if_splits)
  qed
qed

lemma rt_attributes_fold:
  "b = pre @ concat (map enc_attr as) @ post \<Longrightarrow> \<forall>a\<in>set as. wf_attr family a \<Longrightarrow>
   rt_attributes b (length pre) (int (length (concat (map enc_attr as)))) family s = Some (foldl (attr_step family) s as)"
proof (induction as arbitrary: pre s)
  case Nil
  then show ?case by (simp add: rt_attributes.simps)
next
  case (Cons a as)
  then have b: "b = pre @ enc_attr a @ concat (map enc_attr as) @ post" and wf: "wf_attr family a" by simp_all
  let ?n = "4 + length (snd a)"
  have n: "unat (of_nat ?n :: u16) = ?n" using wf by (intro u16_of_nat) (simp add: wf_attr_def)
  have al: "align4 ?n = length (enc_attr a)" by (simp add: align4_add4)
  have le: "int ?n \<le> int (length (concat (map enc_attr (a # as))))" using align4_bounds(1) [of "length (snd a)"] by simp
  have len: "int (length (concat (map enc_attr (a # as)))) - int (length (enc_attr a)) = int (length (concat (map enc_attr as)))" by simp
  have "rt_attributes b (length (pre @ enc_attr a)) (int (length (concat (map enc_attr as)))) family (attr_step family s a) =
      Some (foldl (attr_step family) (attr_step family s a) as)"
    using Cons.IH [of "pre @ enc_attr a"] Cons.prems b by simp
  moreover have "rt_attribute b (length pre) (unat (of_nat ?n :: u16) - 4) family s = Some (attr_step family s a)"
    using rt_attribute_step [OF b wf] unfolding n by simp
  moreover have "\<not> int (length (concat (map enc_attr (a # as)))) < 4" by simp
  ultimately show ?case
    using attr_reads(1) [OF b] le n al len by (subst rt_attributes.simps) (simp only: option.case if_False foldl.simps length_append, simp)
qed

lemma enc_route_length: "wf_route r \<Longrightarrow> length (enc_route pid r) = 28 + length (concat (map enc_attr (rt_attrs r)))"
  by (simp add: enc_route_def wf_route_def)

lemma route_reads:
  assumes b: "b = pre @ enc_route pid r @ post" and wf: "wf_route r"
  shows "get32 (length pre) b = Some (of_nat (length (enc_route pid r)))" "get16 (length pre + 4) b = Some RTM_NEWROUTE"
    "get16 (length pre + 6) b = Some NLM_F_MULTI" "get32 (length pre + 8) b = Some 0" "get32 (length pre + 12) b = Some pid"
    "get8 (length pre + 16) b = Some (rt_family r)" "get8 (length pre + 20) b = Some (rt_table r)"
proof -
  have len: "length (rt_pre r) = 3" using wf by (simp add: wf_route_def)
  show "get32 (length pre) b = Some (of_nat (length (enc_route pid r)))" unfolding enc_route_length [OF wf]
    using b by (simp add: get_defs peek_skip enc_route_def) (simp add: peek_def)
  show "get16 (length pre + 4) b = Some RTM_NEWROUTE" "get16 (length pre + 6) b = Some NLM_F_MULTI" "get32 (length pre + 8) b = Some 0"
    "get32 (length pre + 12) b = Some pid" "get8 (length pre + 16) b = Some (rt_family r)" "get8 (length pre + 20) b = Some (rt_table r)"
    using b len by (simp_all add: get_defs peek_skip enc_route_def) (simp_all add: peek_def u8_of_def)
qed

lemma rt_gateway_route:
  assumes b: "b = pre @ enc_route pid r @ post" and wf: "wf_route r"
  shows "rt_gateway b (length pre) (length (enc_route pid r)) = Some (route_gw r)"
proof -
  let ?h = "u32_bytes (of_nat (28 + length (concat (map enc_attr (rt_attrs r))))) @ u16_bytes RTM_NEWROUTE @ u16_bytes NLM_F_MULTI @
     u32_bytes 0 @ u32_bytes pid @ [rt_family r] @ rt_pre r @ [rt_table r] @ rt_post r"
  have h: "length ?h = 28" using wf by (simp add: wf_route_def)
  have b': "b = (pre @ ?h) @ concat (map enc_attr (rt_attrs r)) @ post" using b by (simp add: enc_route_def)
  have "int (length (enc_route pid r)) - 28 = int (length (concat (map enc_attr (rt_attrs r))))" using enc_route_length [OF wf] by simp
  then have "rt_attributes b (length pre + 28) (int (length (enc_route pid r)) - 28) (rt_family r) (0, None) =
      Some (foldl (attr_step (rt_family r)) (0, None) (rt_attrs r))"
    using rt_attributes_fold [OF b', of "rt_family r" "(0, None)"] wf h by (simp add: wf_route_def)
  then show ?thesis
    using route_reads(6,7) [OF assms] by (auto simp: rt_gateway_def route_gw_def split: prod.split)
qed

definition routes_bytes :: "u32 \<Rightarrow> route list \<Rightarrow> u8 list" where
  "routes_bytes pid rs = concat (map (enc_route pid) rs)"

text \<open>The array grows by one entry per gateway, as long as the allocations succeed.\<close>

definition collected :: "(nat \<Rightarrow> bool) \<Rightarrow> (in6_addr \<times> u32) list \<Rightarrow> (in6_addr \<times> u32) list \<Rightarrow> int \<times> (in6_addr \<times> u32) list" where
  "collected alloc gws new =
     (if \<forall>k. length gws \<le> k \<and> k < length gws + length new \<longrightarrow> alloc k then (int (length (gws @ new)), gws @ new)
      else (errno_code PCP_ERR_NO_MEM, []))"

lemma collected_Cons:
  "collected alloc gws (g # new) = (if alloc (length gws) then collected alloc (gws @ [g]) new else (errno_code PCP_ERR_NO_MEM, []))"
proof -
  define all where "all n m \<longleftrightarrow> (\<forall>k. n \<le> k \<and> k < n + m \<longrightarrow> alloc k)" for n m
  have "all n (Suc m) \<longleftrightarrow> alloc n \<and> all (Suc n) m" for n m
    by (auto simp: all_def Suc_le_eq) (metis le_neq_implies_less)
  moreover have "collected alloc gws new = (if all (length gws) (length new) then (int (length (gws @ new)), gws @ new)
      else (errno_code PCP_ERR_NO_MEM, []))" for gws new
    by (simp only: collected_def all_def)
  ultimately show ?thesis by simp
qed

lemma nl_loop_routes:
  "b = pre @ routes_bytes pid rs @ post \<Longrightarrow> \<forall>r\<in>set rs. wf_route r \<Longrightarrow> length (routes_bytes pid rs) \<le> BUFSIZE \<Longrightarrow>
   nl_loop alloc b (length pre) (int (length (routes_bytes pid rs))) gws = Some (collected alloc gws (gateways_of rs))"
proof (induction rs arbitrary: pre gws)
  case Nil
  then show ?case by (simp add: nl_loop.simps NLMSG_OK_def routes_bytes_def collected_def gateways_of_def List.map_filter_def)
next
  case (Cons r rs)
  then have b: "b = pre @ enc_route pid r @ routes_bytes pid rs @ post" and wf: "wf_route r" by (simp_all add: routes_bytes_def)
  let ?n = "length (enc_route pid r)" and ?m = "length (routes_bytes pid rs)"
  have m: "length (routes_bytes pid (r # rs)) = ?n + ?m" by (simp add: routes_bytes_def)
  have n: "unat (of_nat ?n :: u32) = ?n" "16 \<le> ?n" "align4 ?n = ?n"
    using Cons.prems(3) m u32_of_nat [of ?n] enc_route_length [OF wf] attrs_dvd [of "rt_attrs r"] by (simp_all add: align4_id)
  have len: "nat (int (length (routes_bytes pid (r # rs))) mod 2 ^ 32) = ?n + ?m"
    using Cons.prems(3) unfolding m by (simp add: mod_pos_pos_trivial)
  have IH: "nl_loop alloc b (length (pre @ enc_route pid r)) (int ?m) gws' = Some (collected alloc gws' (gateways_of rs))" for gws'
    using Cons.IH [of "pre @ enc_route pid r" gws'] Cons.prems b m by simp
  have ok: "NLMSG_OK b (length pre) (?n + ?m) = Some True" using route_reads(1) [OF b wf] n by (simp add: NLMSG_OK_def)
  have go: "gateways_of (r # rs) = (case route_gw r of None \<Rightarrow> gateways_of rs | Some g \<Rightarrow> g # gateways_of rs)"
    by (simp add: gateways_of_def List.map_filter_def split: option.split)
  have "int (length (routes_bytes pid (r # rs))) - int ?n = int ?m" by (simp add: m)
  then show ?case
    using IH route_reads(1) [OF b wf] rt_gateway_route [OF b wf] n go unfolding nl_loop.simps [of alloc b "length pre"] len ok
    by (auto simp: collected_Cons split: option.split)
qed

section \<open>Receiving the dump\<close>

text \<open>The kernel sends the routes in parts, and then a message that ends the dump.\<close>

lemma readNlSock_dump:
  "\<forall>rs\<in>set parts. rs \<noteq> [] \<and> (\<forall>r\<in>set rs. wf_route r) \<Longrightarrow> length b = BUFSIZE \<Longrightarrow>
   msgLen + length (routes_bytes pid (concat parts)) + 20 \<le> BUFSIZE \<Longrightarrow>
   \<exists>rest. readNlSock (map (Some \<circ> routes_bytes pid) parts @ Some (enc_done pid) # further) b msgLen 1 pid =
     Some (int (msgLen + length (routes_bytes pid (concat parts))), take msgLen b @ routes_bytes pid (concat parts) @ rest)"
proof (induction parts arbitrary: b msgLen)
  case Nil
  have d: "length (enc_done pid) = 20" by (simp add: enc_done_def)
  let ?b = "take msgLen b @ enc_done pid @ drop (msgLen + 20) b"
  have "length (take msgLen b) = msgLen" using Nil.prems by simp
  then have "get32 msgLen ?b = Some 20" "get16 (msgLen + 4) ?b = Some NLMSG_DONE"
    by (simp_all add: get_defs peek_skip enc_done_def) (simp_all add: peek_def)
  moreover have "poke msgLen (enc_done pid) b = Some ?b" using Nil.prems d by (simp add: poke_def)
  ultimately have "readNlSock (Some (enc_done pid) # further) b msgLen 1 pid = Some (int msgLen, ?b)"
    using Nil.prems d by (simp add: NLMSG_OK_def)
  then show ?case by (simp add: routes_bytes_def)
next
  case (Cons rs parts)
  then obtain r rs' where rs: "rs = r # rs'" "wf_route r" by (cases rs) auto
  let ?d = "routes_bytes pid rs" and ?all = "routes_bytes pid (concat (rs # parts))"
  let ?b = "take msgLen b @ ?d @ drop (msgLen + length ?d) b"
  have all: "?all = ?d @ routes_bytes pid (concat parts)" by (simp add: routes_bytes_def)
  have tk: "length (take msgLen b) = msgLen" using Cons.prems by simp
  have d: "msgLen + length ?d \<le> BUFSIZE" using Cons.prems(3) all by simp
  have bb: "?b = take msgLen b @ enc_route pid r @ routes_bytes pid rs' @ drop (msgLen + length ?d) b"
    by (simp add: rs routes_bytes_def)
  note reads = route_reads [OF bb rs(2), unfolded tk]
  have n: "unat (of_nat (length (enc_route pid r)) :: u32) = length (enc_route pid r)" "16 \<le> length (enc_route pid r)"
      "length (enc_route pid r) \<le> length ?d"
    using d u32_of_nat [of "length (enc_route pid r)"] enc_route_length [OF rs(2)] by (simp_all add: rs routes_bytes_def)
  have pk: "poke msgLen ?d b = Some ?b" using Cons.prems d by (simp add: poke_def)
  have step: "readNlSock (Some ?d # further') b msgLen 1 pid = readNlSock further' ?b (msgLen + length ?d) 1 pid" for further'
    using pk reads(1-5) n d by (simp add: NLMSG_OK_def min_absorb1 Let_def)
  have lb: "length ?b = BUFSIZE" using Cons.prems(2) d by simp
  have "take (msgLen + length ?d) ?b = take msgLen b @ ?d" using tk by simp
  then show ?case
    using Cons.IH [of ?b "msgLen + length ?d"] Cons.prems lb all step by (auto simp: comp_def add.assoc)
qed

lemma getgateways_dump:
  assumes "gw_socket w" "gw_send w" "\<forall>rs\<in>set parts. rs \<noteq> [] \<and> (\<forall>r\<in>set rs. wf_route r)"
    "length (routes_bytes (gw_pid w) (concat parts)) + 20 \<le> BUFSIZE"
    "gw_recv w = map (Some \<circ> routes_bytes (gw_pid w)) parts @ Some (enc_done (gw_pid w)) # further"
  shows "getgateways True w =
    Some (if \<forall>k < length (gateways_of (concat parts)). gw_alloc w k
          then (int (length (gateways_of (concat parts))), gateways_of (concat parts)) else (errno_code PCP_ERR_NO_MEM, []))"
proof -
  let ?bs = "routes_bytes (gw_pid w) (concat parts)"
  have "\<exists>b. netlink_request (gw_pid w) = Some b \<and> length b = BUFSIZE" by (simp add: netlink_request_def poke_def)
  then obtain b where b: "netlink_request (gw_pid w) = Some b" "length b = BUFSIZE" by blast
  from readNlSock_dump [OF assms(3) b(2), of 0 "gw_pid w" further] assms(4) obtain rest where
    rd: "readNlSock (gw_recv w) b 0 1 (gw_pid w) = Some (int (length ?bs), ?bs @ rest)" unfolding assms(5) by auto
  have "nl_loop (gw_alloc w) (?bs @ rest) 0 (int (length ?bs)) [] = Some (collected (gw_alloc w) [] (gateways_of (concat parts)))"
    using nl_loop_routes [of "?bs @ rest" "[]" "gw_pid w" "concat parts" rest "gw_alloc w" "[]"] assms(3,4) by auto
  then show ?thesis using assms(1,2) b(1) rd by (simp add: getgateways_def collected_def)
qed

text \<open>Gateway discovery refines the routing table. Whatever routes of any family and table the kernel describes, with any
  attributes, in however many parts, as long as the dump fits into the buffer, \<open>getgateways\<close> returns their gateways: those
  of the IPv4 and IPv6 routes of the main table, in order, IPv4 addresses in mapped form and each with
  the interface of its route; the count is the length of the array. When an allocation fails it returns
  \<open>PCP_ERR_NO_MEM\<close> and no array.\<close>

theorem getgateways_correct:
  assumes "gw_socket w" "gw_send w" "\<forall>rs\<in>set parts. rs \<noteq> [] \<and> (\<forall>r\<in>set rs. wf_route r)"
    "length (routes_bytes (gw_pid w) (concat parts)) + 20 \<le> BUFSIZE"
    "gw_recv w = map (Some \<circ> routes_bytes (gw_pid w)) parts @ Some (enc_done (gw_pid w)) # further"
  shows "getgateways True w =
    Some (if \<forall>k < length (gateways_of (concat parts)). gw_alloc w k
          then (int (length (gateways_of (concat parts))), gateways_of (concat parts)) else (errno_code PCP_ERR_NO_MEM, []))"
  using assms by (rule getgateways_dump)

theorem getgateways_correct_witness:
  "\<exists>w. getgateways True w = Some (1, [(v4mapped (u32_of [192, 0, 2, 1]), 3)])"
proof -
  let ?a = "\<lparr>rt_family = FAM_INET, rt_pre = [0, 0, 0], rt_table = RT_TABLE_MAIN, rt_post = replicate 7 0,
    rt_attrs = [(RTA_GATEWAY, [192, 0, 2, 1]), (RTA_OIF, [3, 0, 0, 0])]\<rparr>"
  let ?b = "\<lparr>rt_family = FAM_INET6, rt_pre = [0, 0, 0], rt_table = 255, rt_post = replicate 7 0, rt_attrs = [(RTA_GATEWAY, replicate 16 1)]\<rparr>"
  let ?w = "\<lparr>gw_socket = True, gw_send = True, gw_recv = map (Some \<circ> routes_bytes 9) [[?a, ?b]] @ Some (enc_done 9) # [],
    gw_pid = 9, gw_alloc = \<lambda>_. True\<rparr>"
  have wf: "wf_route ?a" "wf_route ?b" by (simp_all add: wf_route_def wf_attr_def)
  have "route_gw ?a = Some (v4mapped (u32_of [192, 0, 2, 1]), 3)" "route_gw ?b = None"
    by (simp_all add: route_gw_def) (simp add: u32_of_def)
  then have gw: "gateways_of (concat [[?a, ?b]]) = [(v4mapped (u32_of [192, 0, 2, 1]), 3)]" by (simp add: gateways_of_def List.map_filter_def)
  have "length (routes_bytes 9 (concat [[?a, ?b]])) = 92"
    using enc_route_length [OF wf(1), of 9] enc_route_length [OF wf(2), of 9] by (simp add: routes_bytes_def align4_def)
  then have "getgateways True ?w = Some (1, [(v4mapped (u32_of [192, 0, 2, 1]), 3)])"
    using getgateways_correct [of ?w "[[?a, ?b]]" "[]"] wf unfolding gw by simp
  then show ?thesis by blast
qed

end
