(* ===== verification/Gateway_Systems.thy ===== *)
theory Gateway_Systems
  imports Gateway
begin

text \<open>
  Discovery of gateways on the other systems (\<open>net/gateway.c\<close>): the routing table that \<open>sysctl\<close> delivers on BSD and macOS, and the
  table of \<open>GetIpForwardTable2\<close> on Windows. The size of \<open>struct rt_msghdr\<close> and the number of the family IPv6 differ between these
  systems and are arguments. Shown is, as for Linux, that the result is the list of the gateways of the routes.
\<close>

section \<open>Routing messages of BSD\<close>

abbreviation RTAX_MAX :: nat where "RTAX_MAX \<equiv> 8"
abbreviation RTAX_GATEWAY :: nat where "RTAX_GATEWAY \<equiv> 1"
abbreviation BSD_RTA_DST :: u32 where "BSD_RTA_DST \<equiv> 1"
abbreviation BSD_RTA_GATEWAY :: u32 where "BSD_RTA_GATEWAY \<equiv> 2"

text \<open>The size of the header, and \<open>AF_INET6\<close>.\<close>

record bsd_layout =
  sz_rt_msghdr :: nat
  bsd_AF_INET6 :: u8

definition ROUNDUP :: "nat \<Rightarrow> nat \<Rightarrow> nat" where
  "ROUNDUP a sz = (if a AND (sz - 1) \<noteq> 0 then 1 + (a OR (sz - 1)) else a)"

text \<open>\<open>NEXT_SA\<close>: \<open>sa_len\<close> is the first byte of an address.\<close>

definition NEXT_SA :: "u8 list \<Rightarrow> nat \<Rightarrow> nat option" where
  "NEXT_SA b ap = do {
     sa_len \<leftarrow> get8 ap b;
     Some (ap + (if sa_len \<noteq> 0 then ROUNDUP (unat sa_len) 4 else 4))
   }"

text \<open>The array \<open>rti_info\<close> from the entry \<open>i\<close> on, as positions in the buffer; \<open>n\<close> entries are left.\<close>

fun rtaddrs_loop :: "u8 list \<Rightarrow> u32 \<Rightarrow> nat \<Rightarrow> nat \<Rightarrow> nat \<Rightarrow> nat option list option" where
  "rtaddrs_loop b addrs sa i 0 = Some []"
| "rtaddrs_loop b addrs sa i (Suc n) =
     (if addrs AND push_bit i 1 \<noteq> 0 then do {
        next_sa \<leftarrow> NEXT_SA b sa;
        rti_info \<leftarrow> rtaddrs_loop b addrs next_sa (i + 1) n;
        Some (Some sa # rti_info)
      }
      else do {
        rti_info \<leftarrow> rtaddrs_loop b addrs sa (i + 1) n;
        Some (None # rti_info)
      })"

definition get_rtaddrs :: "u8 list \<Rightarrow> u32 \<Rightarrow> nat \<Rightarrow> nat option list option" where
  "get_rtaddrs b addrs sa = rtaddrs_loop b addrs sa 0 RTAX_MAX"

text \<open>
  What the system calls return: the size that the first \<open>sysctl\<close> reports, the success of \<open>malloc\<close>, what the second \<open>sysctl\<close>
  stores, which fails when the memory is too small, and the success of the reallocations.
\<close>

record bsd_world =
  bw_size :: "nat option"
  bw_malloc :: bool
  bw_dump :: "u8 list option"
  bw_realloc :: "nat \<Rightarrow> bool"

definition net_rt_dump :: "bsd_world \<Rightarrow> u8 list option" where
  "net_rt_dump w =
     (case bw_size w of
        None \<Rightarrow> None
      | Some len \<Rightarrow>
          if \<not> bw_malloc w then None
          else case bw_dump w of
            None \<Rightarrow> None
          | Some d \<Rightarrow> if length d \<le> len then Some d else None)"

text \<open>
  The body of the loop for the message at \<open>next\<close>: the position of the gateway, if the message has both it and a destination, and
  the entry that is made of the gateway.
\<close>

definition rt_message_gateway :: "bsd_layout \<Rightarrow> u8 list \<Rightarrow> nat \<Rightarrow> nat option option" where
  "rt_message_gateway L b pos = do {
     rtm_addrs \<leftarrow> get32 (pos + 12) b;
     rti_info \<leftarrow> get_rtaddrs b rtm_addrs (pos + sz_rt_msghdr L);
     Some (case rti_info ! RTAX_GATEWAY of
             None \<Rightarrow> None
           | Some sa \<Rightarrow> if rtm_addrs AND (BSD_RTA_DST OR BSD_RTA_GATEWAY) = (BSD_RTA_DST OR BSD_RTA_GATEWAY) then Some sa else None)
   }"

definition bsd_gateway_entry :: "bsd_layout \<Rightarrow> u8 list \<Rightarrow> nat \<Rightarrow> (in6_addr \<times> u32) option option" where
  "bsd_gateway_entry L b sa = do {
     sa_family \<leftarrow> get8 (sa + 1) b;
     if sa_family = FAM_INET then do {
       s_addr \<leftarrow> get32 (sa + 4) b;
       Some (Some (TO_IPV6MAPPED (In6 s_addr 0 0 0), 0))
     }
     else if sa_family = bsd_AF_INET6 L then do {
       in6 \<leftarrow> peek sa 28 b;
       Some (Some (in6_of (take 16 (drop 8 in6)), u32_of (drop 24 in6)))
     }
     else Some None
   }"

text \<open>
  The loop; \<open>k\<close> counts the reallocations, and a message of length zero keeps it from ending. The result is \<open>rtcount\<close> with the
  entries of the array that were written.
\<close>

partial_function (option) rt_loop :: "bsd_layout \<Rightarrow> (nat \<Rightarrow> bool) \<Rightarrow> u8 list \<Rightarrow> nat \<Rightarrow> nat \<Rightarrow> (in6_addr \<times> u32) list \<Rightarrow>
    (int \<times> (in6_addr \<times> u32) list) option" where
  "rt_loop L realloc b pos k gws =
     (if pos \<ge> length b then Some (int (length gws), gws)
      else do {
        rtm_msglen \<leftarrow> get16 pos b;
        gw \<leftarrow> rt_message_gateway L b pos;
        case gw of
          None \<Rightarrow> rt_loop L realloc b (pos + unat rtm_msglen) k gws
        | Some sa \<Rightarrow>
            if \<not> realloc k then Some (errno_code PCP_ERR_NO_MEM, [])
            else do {
              e \<leftarrow> bsd_gateway_entry L b sa;
              rt_loop L realloc b (pos + unat rtm_msglen) (k + 1) (case e of None \<Rightarrow> gws | Some g \<Rightarrow> gws @ [g])
            }
      })"

definition bsd_getgateways :: "bsd_layout \<Rightarrow> bool \<Rightarrow> bsd_world \<Rightarrow> (int \<times> (in6_addr \<times> u32) list) option" where
  "bsd_getgateways L gws w =
     (if \<not> gws then Some (errno_code PCP_ERR_UNKNOWN, [])
      else case net_rt_dump w of
        None \<Rightarrow> Some (errno_code PCP_ERR_UNKNOWN, [])
      | Some buf \<Rightarrow> rt_loop L (bw_realloc w) buf 0 0 [])"

section \<open>The table of Windows\<close>

text \<open>The next hop of a row, and what the system returns: the table, if there is one, and the success of \<open>calloc\<close>.\<close>

datatype next_hop = NH_in u32 | NH_in6 in6_addr u32 | NH_other

record win_world =
  ww_ok :: bool
  ww_table :: "next_hop list option"
  ww_calloc :: bool

text \<open>
  The test for the IPv4 wildcard compares the address of the field with \<open>INADDR_ANY\<close>; since that is not a null pointer, it never
  holds, and the row is taken.
\<close>

fun win_loop :: "next_hop list \<Rightarrow> (in6_addr \<times> u32) list \<Rightarrow> (in6_addr \<times> u32) list" where
  "win_loop [] gws = gws"
| "win_loop (NH_in6 a scope # rows) gws =
     (if IPV6_IS_ADDR_ANY a then win_loop rows gws else win_loop rows (gws @ [(a, scope)]))"
| "win_loop (NH_in a # rows) gws = win_loop rows (gws @ [(TO_IPV6MAPPED (In6 a 0 0 0), 0)])"
| "win_loop (NH_other # rows) gws = win_loop rows gws"

definition win_getgateways :: "bool \<Rightarrow> win_world \<Rightarrow> int \<times> (in6_addr \<times> u32) list" where
  "win_getgateways gws w =
     (if \<not> gws then (errno_code PCP_ERR_UNKNOWN, [])
      else if \<not> ww_ok w then (errno_code PCP_ERR_UNKNOWN, [])
      else case ww_table w of
        None \<Rightarrow> (errno_code PCP_ERR_UNKNOWN, [])
      | Some rows \<Rightarrow>
          if \<not> ww_calloc w then (errno_code PCP_ERR_NO_MEM, [])
          else let entries = win_loop rows [] in (int (length entries), entries))"

section \<open>Routing tables\<close>

text \<open>
  A route as BSD describes it: the header around \<open>rtm_msglen\<close> and \<open>rtm_addrs\<close>, and the addresses that are present, in order. An
  address starts with its length, or is four zero bytes, and is padded to a multiple of four.
\<close>

record bsd_route =
  br_head :: "u8 list"
  br_tail :: "u8 list"
  br_addrs :: "u8 list option list"

definition addr_bits :: "u8 list option list \<Rightarrow> u32" where
  "addr_bits as = horner_sum of_bool 2 (map (\<lambda>a. a \<noteq> None) as)"

definition enc_addr :: "u8 list option \<Rightarrow> u8 list" where
  "enc_addr a = (case a of None \<Rightarrow> [] | Some bs \<Rightarrow> bs @ replicate (align4 (length bs) - length bs) 0)"

definition bsd_length :: "bsd_layout \<Rightarrow> bsd_route \<Rightarrow> nat" where
  "bsd_length L r = sz_rt_msghdr L + length (concat (map enc_addr (br_addrs r)))"

definition enc_bsd_route :: "bsd_layout \<Rightarrow> bsd_route \<Rightarrow> u8 list" where
  "enc_bsd_route L r =
     u16_bytes (of_nat (bsd_length L r)) @ br_head r @ u32_bytes (addr_bits (br_addrs r)) @ br_tail r @ concat (map enc_addr (br_addrs r))"

definition wf_addr :: "u8 list \<Rightarrow> bool" where
  "wf_addr bs \<longleftrightarrow> bs = [0, 0, 0, 0] \<or> 0 < length bs \<and> length bs < 256 \<and> bs ! 0 = of_nat (length bs)"

text \<open>The gateway of a route that has a destination.\<close>

definition bsd_gw :: "bsd_route \<Rightarrow> u8 list option" where
  "bsd_gw r = (if br_addrs r ! 0 = None then None else br_addrs r ! RTAX_GATEWAY)"

text \<open>A gateway is as long as its family asks for; masks and destinations may be cut off.\<close>

definition wf_gw :: "bsd_layout \<Rightarrow> u8 list \<Rightarrow> bool" where
  "wf_gw L bs \<longleftrightarrow> 2 \<le> length bs \<and> (bs ! 1 = FAM_INET \<longrightarrow> 8 \<le> length bs) \<and> (bs ! 1 = bsd_AF_INET6 L \<longrightarrow> 28 \<le> length bs)"

definition wf_bsd_route :: "bsd_layout \<Rightarrow> bsd_route \<Rightarrow> bool" where
  "wf_bsd_route L r \<longleftrightarrow> length (br_head r) = 10 \<and> 16 + length (br_tail r) = sz_rt_msghdr L \<and> length (br_addrs r) = RTAX_MAX \<and>
     (\<forall>bs. Some bs \<in> set (br_addrs r) \<longrightarrow> wf_addr bs) \<and> (\<forall>bs. bsd_gw r = Some bs \<longrightarrow> wf_gw L bs) \<and> bsd_length L r < 65536"

text \<open>The entry for it, if it is an IPv4 or IPv6 address.\<close>

definition bsd_entry :: "bsd_layout \<Rightarrow> u8 list \<Rightarrow> (in6_addr \<times> u32) option" where
  "bsd_entry L bs =
     (if bs ! 1 = FAM_INET then Some (v4mapped (u32_of (take 4 (drop 4 bs))), 0)
      else if bs ! 1 = bsd_AF_INET6 L then Some (in6_of (take 16 (drop 8 bs)), u32_of (take 4 (drop 24 bs)))
      else None)"

definition bsd_gateways :: "bsd_layout \<Rightarrow> bsd_route list \<Rightarrow> (in6_addr \<times> u32) list" where
  "bsd_gateways L rs = List.map_filter (bsd_entry L) (List.map_filter bsd_gw rs)"

section \<open>Reading addresses\<close>

lemma ROUNDUP_align: "ROUNDUP n 4 = align4 n"
proof -
  have "take_bit 2 (int n) = int n AND 3" by (simp add: take_bit_eq_mask mask_eq_exp_minus_1)
  then have a: "int n AND 3 = int n mod 4" by (simp add: take_bit_eq_mod)
  then have "int (n AND 3) = int (n mod 4)" by (simp add: of_nat_and_eq zmod_int)
  then have an: "n AND 3 = n mod 4" by linarith
  have "(int n AND 3) + (int n OR 3) = int n + 3" by (simp add: plus_and_or)
  then have "int (n OR 3) = int n + 3 - int n mod 4" using a by (simp add: of_nat_or_eq)
  then have "n OR 3 = n + 3 - n mod 4" by presburger
  then show ?thesis using an unfolding ROUNDUP_def align4_def by simp presburger
qed

lemma and_bit: "(w :: u32) AND push_bit i 1 \<noteq> 0 \<longleftrightarrow> bit w i"
  unfolding push_bit_of_1 by (simp add: and_exp_eq_0_iff_not_bit)

lemma addr_bit: "length as \<le> 32 \<Longrightarrow> addr_bits as AND push_bit i 1 \<noteq> 0 \<longleftrightarrow> i < length as \<and> as ! i \<noteq> None"
  unfolding and_bit addr_bits_def bit_horner_sum_bit_iff by auto

lemma both_bits: "(w :: u32) AND 3 = 3 \<longleftrightarrow> bit w 0 \<and> bit w 1"
proof -
  have three: "bit (3 :: u32) n \<longleftrightarrow> n = 0 \<or> n = 1" for n
    by (cases n; cases "n - 1") (simp_all add: bit_Suc bit_0)
  show ?thesis
  proof
    assume "w AND 3 = 3"
    then have "bit w n \<and> bit (3 :: u32) n \<longleftrightarrow> bit (3 :: u32) n" for n using bit_and_iff [of w 3 n] by metis
    then show "bit w 0 \<and> bit w 1" unfolding three by blast
  next
    assume "bit w 0 \<and> bit w 1"
    then show "w AND 3 = 3" by (intro bit_word_eqI) (use three in \<open>metis bit_and_iff\<close>)
  qed
qed

lemma enc_addr_None [simp]: "enc_addr None = []"
  by (simp add: enc_addr_def)

lemma enc_addr_length: "length (enc_addr (Some bs)) = align4 (length bs)"
  using align4_bounds(1) [of "length bs"] by (simp add: enc_addr_def)

lemma get8_at: "b = pre @ bs @ post \<Longrightarrow> j < length bs \<Longrightarrow> get8 (length pre + j) b = Some (bs ! j)"
  by (simp add: get8_def peek_def u8_of_def nth_append take_Suc_conv_app_nth hd_drop_conv_nth)

lemma peek_at: "b = pre @ bs @ post \<Longrightarrow> j + n \<le> length bs \<Longrightarrow> peek (length pre + j) n b = Some (take n (drop j bs))"
  by (simp add: peek_def)

lemma NEXT_SA_addr:
  assumes "b = pre @ enc_addr (Some bs) @ post" "wf_addr bs"
  shows "NEXT_SA b (length pre) = Some (length pre + length (enc_addr (Some bs)))"
proof -
  have b: "b = pre @ bs @ (replicate (align4 (length bs) - length bs) 0 @ post)" using assms(1) by (simp add: enc_addr_def)
  have l: "0 < length bs" using assms(2) by (auto simp: wf_addr_def)
  have g: "get8 (length pre) b = Some (bs ! 0)" using get8_at [OF b l] by simp
  show ?thesis
  proof (cases "bs = [0, 0, 0, 0]")
    case True
    then show ?thesis using g unfolding enc_addr_length by (simp add: NEXT_SA_def align4_def)
  next
    case False
    then have w: "length bs < 256" "bs ! 0 = of_nat (length bs)" using assms(2) by (auto simp: wf_addr_def)
    then have u: "unat (bs ! 0) = length bs" by (simp add: unat_of_nat take_bit_nat_eq_self)
    then have "bs ! 0 \<noteq> 0" using l by (metis less_not_refl unat_0)
    then show ?thesis using g u w(1) unfolding enc_addr_length by (simp add: NEXT_SA_def ROUNDUP_align)
  qed
qed

text \<open>Where the addresses of a message are.\<close>

fun positions :: "nat \<Rightarrow> u8 list option list \<Rightarrow> nat option list" where
  "positions p [] = []"
| "positions p (None # as) = None # positions p as"
| "positions p (Some bs # as) = Some p # positions (p + align4 (length bs)) as"

lemma positions_nth:
  "j < length as \<Longrightarrow> positions p as ! j = (if as ! j = None then None else Some (p + length (concat (map enc_addr (take j as)))))"
proof (induction p as arbitrary: j rule: positions.induct)
  case (2 p as)
  then show ?case by (cases j) simp_all
next
  case (3 p bs as)
  then show ?case by (cases j) (simp_all add: enc_addr_length)
qed simp

lemma rtaddrs_loop_positions:
  "b = pre @ concat (map enc_addr as) @ post \<Longrightarrow> \<forall>bs. Some bs \<in> set as \<longrightarrow> wf_addr bs \<Longrightarrow>
   \<forall>j<length as. w AND push_bit (i + j) 1 \<noteq> 0 \<longleftrightarrow> as ! j \<noteq> None \<Longrightarrow>
   rtaddrs_loop b w (length pre) i (length as) = Some (positions (length pre) as)"
proof (induction as arbitrary: pre i)
  case (Cons a as)
  have bits: "\<forall>j<length as. w AND push_bit (Suc i + j) 1 \<noteq> 0 \<longleftrightarrow> as ! j \<noteq> None"
  proof (intro allI impI)
    fix j
    assume "j < length as"
    then show "w AND push_bit (Suc i + j) 1 \<noteq> 0 \<longleftrightarrow> as ! j \<noteq> None" using Cons.prems(3) [rule_format, of "Suc j"] by simp
  qed
  have bit: "w AND push_bit i 1 \<noteq> 0 \<longleftrightarrow> a \<noteq> None" using Cons.prems(3) [rule_format, of 0] by simp
  show ?case
  proof (cases a)
    case None
    then show ?thesis using Cons.IH [of pre "Suc i"] Cons.prems bits bit by simp
  next
    case (Some bs)
    have b: "b = pre @ enc_addr (Some bs) @ (concat (map enc_addr as) @ post)" using Cons.prems(1) Some by simp
    have "wf_addr bs" using Cons.prems(2) Some by simp
    then have "NEXT_SA b (length pre) = Some (length (pre @ enc_addr (Some bs)))" using NEXT_SA_addr [OF b] by simp
    moreover have "rtaddrs_loop b w (length (pre @ enc_addr (Some bs))) (Suc i) (length as) = Some (positions (length (pre @ enc_addr (Some bs))) as)"
      using Cons.IH [of "pre @ enc_addr (Some bs)" "Suc i"] Cons.prems b bits by simp
    ultimately show ?thesis using bit Some by (simp add: enc_addr_length)
  qed
qed simp

section \<open>Reading routes of BSD\<close>

lemma enc_bsd_length: "wf_bsd_route L r \<Longrightarrow> length (enc_bsd_route L r) = bsd_length L r"
  by (simp add: enc_bsd_route_def bsd_length_def wf_bsd_route_def)

lemma bsd_route_reads:
  assumes b: "b = pre @ enc_bsd_route L r @ post" and wf: "wf_bsd_route L r"
  shows "get16 (length pre) b = Some (of_nat (bsd_length L r))" "get32 (length pre + 12) b = Some (addr_bits (br_addrs r))"
proof -
  have len: "length (br_head r) = 10" using wf by (simp add: wf_bsd_route_def)
  show "get16 (length pre) b = Some (of_nat (bsd_length L r))" using b
    by (simp add: get_defs peek_skip enc_bsd_route_def) (simp add: peek_def)
  show "get32 (length pre + 12) b = Some (addr_bits (br_addrs r))"
    using b len by (simp add: get_defs peek_skip enc_bsd_route_def) (simp add: peek_def)
qed

text \<open>The place of the gateway in the message.\<close>

definition gw_offset :: "bsd_layout \<Rightarrow> bsd_route \<Rightarrow> nat" where
  "gw_offset L r = sz_rt_msghdr L + length (concat (map enc_addr (take RTAX_GATEWAY (br_addrs r))))"

lemma rt_message_gateway_pos:
  assumes b: "b = pre @ enc_bsd_route L r @ post" and wf: "wf_bsd_route L r"
  shows "rt_message_gateway L b (length pre) = Some (map_option (\<lambda>_. length pre + gw_offset L r) (bsd_gw r))"
proof -
  let ?h = "u16_bytes (of_nat (bsd_length L r)) @ br_head r @ u32_bytes (addr_bits (br_addrs r)) @ br_tail r"
  have h: "length ?h = sz_rt_msghdr L" and eight: "length (br_addrs r) = 8" using wf by (simp_all add: wf_bsd_route_def)
  have b': "b = (pre @ ?h) @ concat (map enc_addr (br_addrs r)) @ post" using b by (simp add: enc_bsd_route_def)
  have bits: "\<forall>j<length (br_addrs r). addr_bits (br_addrs r) AND push_bit (0 + j) 1 \<noteq> 0 \<longleftrightarrow> br_addrs r ! j \<noteq> None"
    using addr_bit [of "br_addrs r"] eight by simp
  have "\<forall>bs. Some bs \<in> set (br_addrs r) \<longrightarrow> wf_addr bs" using wf by (simp add: wf_bsd_route_def)
  from rtaddrs_loop_positions [OF b' this bits] have
    rti: "get_rtaddrs b (addr_bits (br_addrs r)) (length pre + sz_rt_msghdr L) = Some (positions (length pre + sz_rt_msghdr L) (br_addrs r))"
    using h eight by (simp add: get_rtaddrs_def)
  have "addr_bits (br_addrs r) AND 3 = 3 \<longleftrightarrow> br_addrs r ! 0 \<noteq> None \<and> br_addrs r ! 1 \<noteq> None"
    unfolding both_bits using addr_bit [of "br_addrs r", unfolded and_bit] eight by simp
  moreover have "(BSD_RTA_DST OR BSD_RTA_GATEWAY) = (3 :: u32)" by simp
  ultimately show ?thesis
    using bsd_route_reads(2) [OF assms] rti positions_nth [of 1 "br_addrs r"] eight
    by (auto simp: rt_message_gateway_def bsd_gw_def gw_offset_def)
qed

lemma gateway_at:
  assumes b: "b = pre @ enc_bsd_route L r @ post" and wf: "wf_bsd_route L r" and gw: "bsd_gw r = Some bs"
  shows "\<exists>pre' post'. b = pre' @ bs @ post' \<and> length pre' = length pre + gw_offset L r \<and> wf_gw L bs"
proof -
  let ?h = "u16_bytes (of_nat (bsd_length L r)) @ br_head r @ u32_bytes (addr_bits (br_addrs r)) @ br_tail r"
  have h: "length ?h = sz_rt_msghdr L" and eight: "1 < length (br_addrs r)" using wf by (simp_all add: wf_bsd_route_def)
  have nth: "br_addrs r ! 1 = Some bs" using gw by (simp add: bsd_gw_def split: if_splits)
  have "br_addrs r = take 1 (br_addrs r) @ Some bs # drop 2 (br_addrs r)"
    using id_take_nth_drop [OF eight] nth by (simp add: numeral_2_eq_2)
  then have "concat (map enc_addr (br_addrs r)) =
      concat (map enc_addr (take 1 (br_addrs r))) @ enc_addr (Some bs) @ concat (map enc_addr (drop 2 (br_addrs r)))"
    by (metis concat.simps(2) concat_append list.simps(9) map_append)
  then have "b = (pre @ ?h @ concat (map enc_addr (take 1 (br_addrs r)))) @ bs @
      (replicate (align4 (length bs) - length bs) 0 @ concat (map enc_addr (drop 2 (br_addrs r))) @ post)"
    using b by (simp add: enc_bsd_route_def enc_addr_def)
  moreover have "length (pre @ ?h @ concat (map enc_addr (take 1 (br_addrs r)))) = length pre + gw_offset L r"
    using h by (simp add: gw_offset_def)
  moreover have "wf_gw L bs" using wf gw by (simp add: wf_bsd_route_def)
  ultimately show ?thesis by blast
qed

lemma bsd_gateway_entry_addr:
  assumes b: "b = pre @ bs @ post" and wf: "wf_gw L bs"
  shows "bsd_gateway_entry L b (length pre) = Some (bsd_entry L bs)"
proof -
  have f: "get8 (length pre + 1) b = Some (bs ! 1)" using get8_at [OF b, of 1] wf by (auto simp: wf_gw_def)
  show ?thesis
  proof (cases "bs ! 1 = FAM_INET")
    case True
    then have "peek (length pre + 4) 4 b = Some (take 4 (drop 4 bs))" using peek_at [OF b, of 4 4] wf by (simp add: wf_gw_def)
    then show ?thesis using f True by (simp add: bsd_gateway_entry_def bsd_entry_def get32_def TO_IPV6MAPPED_def v4mapped_def)
  next
    case False
    show ?thesis
    proof (cases "bs ! 1 = bsd_AF_INET6 L")
      case True
      then have "peek (length pre) 28 b = Some (take 28 bs)" using peek_at [OF b, of 0 28] wf by (simp add: wf_gw_def)
      then show ?thesis using f True False by (simp add: bsd_gateway_entry_def bsd_entry_def drop_take)
    next
      case other: False
      then show ?thesis using f False by (simp add: bsd_gateway_entry_def bsd_entry_def)
    qed
  qed
qed

text \<open>The array grows with every gateway, of whatever family, as long as the reallocations succeed.\<close>

lemma rt_loop_routes:
  "b = pre @ concat (map (enc_bsd_route L) rs) \<Longrightarrow> \<forall>r\<in>set rs. wf_bsd_route L r \<Longrightarrow>
   rt_loop L realloc b (length pre) k gws =
     Some (if \<forall>j<length (List.map_filter bsd_gw rs). realloc (k + j)
           then (int (length (gws @ bsd_gateways L rs)), gws @ bsd_gateways L rs) else (errno_code PCP_ERR_NO_MEM, []))"
proof (induction rs arbitrary: pre k gws)
  case Nil
  then show ?case by (simp add: rt_loop.simps bsd_gateways_def List.map_filter_def)
next
  case (Cons r rs)
  let ?rest = "concat (map (enc_bsd_route L) rs)"
  have b: "b = pre @ enc_bsd_route L r @ ?rest" and wf: "wf_bsd_route L r" using Cons.prems by simp_all
  have n: "unat (of_nat (bsd_length L r) :: u16) = length (enc_bsd_route L r)" "0 < length (enc_bsd_route L r)"
    using wf u16_of_nat [of "bsd_length L r"] enc_bsd_length [OF wf] by (auto simp: wf_bsd_route_def bsd_length_def)
  have IH: "rt_loop L realloc b (length pre + length (enc_bsd_route L r)) k' gws' =
      Some (if \<forall>j<length (List.map_filter bsd_gw rs). realloc (k' + j)
           then (int (length (gws' @ bsd_gateways L rs)), gws' @ bsd_gateways L rs) else (errno_code PCP_ERR_NO_MEM, []))" for k' gws'
    using Cons.IH [of "pre @ enc_bsd_route L r" k' gws'] Cons.prems b by simp
  have more: "\<not> length pre \<ge> length b" using b n by simp
  note step = rt_loop.simps [of L realloc b "length pre" k gws] bsd_route_reads(1) [OF b wf] rt_message_gateway_pos [OF b wf] more n(1)
  show ?case
  proof (cases "bsd_gw r")
    case None
    then have "List.map_filter bsd_gw (r # rs) = List.map_filter bsd_gw rs" "bsd_gateways L (r # rs) = bsd_gateways L rs"
      by (simp_all add: List.map_filter_def bsd_gateways_def)
    then show ?thesis using None IH [of k gws] by (simp add: step)
  next
    case (Some bs)
    from gateway_at [OF b wf this] obtain pre' post' where
      at: "b = pre' @ bs @ post'" "length pre' = length pre + gw_offset L r" "wf_gw L bs" by blast
    have e: "bsd_gateway_entry L b (length pre + gw_offset L r) = Some (bsd_entry L bs)"
      using bsd_gateway_entry_addr [OF at(1,3)] at(2) by simp
    have mf: "List.map_filter bsd_gw (r # rs) = bs # List.map_filter bsd_gw rs" using Some by (simp add: List.map_filter_def)
    have all: "(\<forall>j<Suc m. realloc (k + j)) \<longleftrightarrow> realloc k \<and> (\<forall>j<m. realloc (Suc k + j))" for m
      by (auto simp: less_Suc_eq_0_disj)
    have gs: "gws @ bsd_gateways L (r # rs) = (case bsd_entry L bs of None \<Rightarrow> gws | Some g \<Rightarrow> gws @ [g]) @ bsd_gateways L rs"
      using mf by (simp add: bsd_gateways_def List.map_filter_def split: option.split)
    show ?thesis
    proof (cases "realloc k")
      case True
      then show ?thesis using Some e IH [of "Suc k" "case bsd_entry L bs of None \<Rightarrow> gws | Some g \<Rightarrow> gws @ [g]"]
        unfolding mf gs list.size(4) add_0_right Nat.add_Suc_right all by (simp add: step)
    next
      case False
      then show ?thesis using Some unfolding mf list.size(4) add_0_right Nat.add_Suc_right all by (simp add: step)
    qed
  qed
qed

lemma bsd_getgateways_dump:
  assumes "bw_size w = Some n" "bw_malloc w" "bw_dump w = Some (concat (map (enc_bsd_route L) rs))"
    "length (concat (map (enc_bsd_route L) rs)) \<le> n" "\<forall>r\<in>set rs. wf_bsd_route L r"
  shows "bsd_getgateways L True w =
    Some (if \<forall>j<length (List.map_filter bsd_gw rs). bw_realloc w j
          then (int (length (bsd_gateways L rs)), bsd_gateways L rs) else (errno_code PCP_ERR_NO_MEM, []))"
  using assms rt_loop_routes [of "concat (map (enc_bsd_route L) rs)" "[]" L rs "bw_realloc w" 0 "[]"]
  by (simp add: bsd_getgateways_def net_rt_dump_def)

text \<open>Gateway discovery on BSD and macOS refines the routing table. Whatever routes the system describes, with any of the eight kinds
  of addresses of any length, \<open>getgateways\<close> returns the gateways of the routes that have a destination, in order: IPv4 addresses in
  mapped form, IPv6 addresses with their scope, and none of another family such as the link layer. When a
  reallocation fails it returns \<open>PCP_ERR_NO_MEM\<close> and no array.\<close>

theorem bsd_getgateways_correct:
  assumes "bw_size w = Some n" "bw_malloc w" "bw_dump w = Some (concat (map (enc_bsd_route L) rs))"
    "length (concat (map (enc_bsd_route L) rs)) \<le> n" "\<forall>r\<in>set rs. wf_bsd_route L r"
  shows "bsd_getgateways L True w =
    Some (if \<forall>j<length (List.map_filter bsd_gw rs). bw_realloc w j
          then (int (length (bsd_gateways L rs)), bsd_gateways L rs) else (errno_code PCP_ERR_NO_MEM, []))"
  using assms by (rule bsd_getgateways_dump)

definition freebsd :: bsd_layout where
  "freebsd = \<lparr>sz_rt_msghdr = 152, bsd_AF_INET6 = 28\<rparr>"

definition bsd_default_route :: bsd_route where
  "bsd_default_route = \<lparr>br_head = replicate 10 0, br_tail = replicate 136 0,
     br_addrs = [Some [5, 2, 0, 0, 0], Some [16, 2, 0, 0, 192, 0, 2, 1, 0, 0, 0, 0, 0, 0, 0, 0], Some [0, 0, 0, 0], None, None, None, None, None]\<rparr>"

definition bsd_link_route :: bsd_route where
  "bsd_link_route = \<lparr>br_head = replicate 10 0, br_tail = replicate 136 0,
     br_addrs = [Some [8, 2, 0, 0, 10, 0, 0, 0], Some [20, 18, 1, 0, 6, 3, 6, 0, 101, 109, 48, 8, 0, 39, 1, 2, 3, 0, 0, 0], None, None, None, None, None, None]\<rparr>"

lemma bsd_routes_wf: "wf_bsd_route freebsd bsd_link_route" "wf_bsd_route freebsd bsd_default_route"
  by (auto simp: wf_bsd_route_def bsd_link_route_def bsd_default_route_def freebsd_def wf_addr_def wf_gw_def bsd_gw_def bsd_length_def
    enc_addr_def align4_def)

lemma bsd_routes_gateways: "bsd_gateways freebsd [bsd_link_route, bsd_default_route] = [(v4mapped (u32_of [192, 0, 2, 1]), 0)]"
  by (simp add: bsd_gateways_def List.map_filter_def bsd_gw_def bsd_entry_def bsd_link_route_def bsd_default_route_def freebsd_def)

definition bsd_example :: bsd_world where
  "bsd_example = \<lparr>bw_size = Some 1000, bw_malloc = True, bw_dump = Some (concat (map (enc_bsd_route freebsd) [bsd_link_route, bsd_default_route])),
     bw_realloc = \<lambda>_. True\<rparr>"

lemma bsd_example_fits: "length (concat (map (enc_bsd_route freebsd) [bsd_link_route, bsd_default_route])) \<le> 1000"
  using enc_bsd_length [OF bsd_routes_wf(1)] enc_bsd_length [OF bsd_routes_wf(2)]
  by (simp add: bsd_length_def bsd_link_route_def bsd_default_route_def freebsd_def enc_addr_def align4_def)

theorem bsd_getgateways_correct_witness:
  "bsd_getgateways freebsd True bsd_example = Some (1, [(v4mapped (u32_of [192, 0, 2, 1]), 0)])"
  using bsd_getgateways_correct [of bsd_example 1000 freebsd "[bsd_link_route, bsd_default_route]"] bsd_routes_wf bsd_example_fits
  unfolding bsd_routes_gateways by (simp add: bsd_example_def)

section \<open>Rows of Windows\<close>

definition win_listed :: "next_hop \<Rightarrow> (in6_addr \<times> u32) option" where
  "win_listed h =
     (case h of NH_in a \<Rightarrow> Some (v4mapped a, 0) | NH_in6 a scope \<Rightarrow> if IPV6_IS_ADDR_ANY a then None else Some (a, scope) | NH_other \<Rightarrow> None)"

lemma win_loop_listed: "win_loop rows gws = gws @ List.map_filter win_listed rows"
  by (induction rows gws rule: win_loop.induct) (simp_all add: List.map_filter_def win_listed_def TO_IPV6MAPPED_def v4mapped_def)

end
