(* ===== verification/Auto_Discovery.thy ===== *)
theory Auto_Discovery
  imports Gateway_Systems Api_Runs
begin

text \<open>
  The discovery of servers as a whole (\<open>psd_add_gws\<close> in \<open>pcp_server_discovery.c\<close> with \<open>getgateways\<close>): from the routing table of the system to
  the array of servers of a new context. What a system has to deliver for that is the locale \<open>gateway_source\<close>, with the three
  variants of \<open>getgateways\<close> as its instances.
\<close>

section \<open>Discovery\<close>

text \<open>The argument is what \<open>getgateways\<close> returns, with the array.\<close>

definition discover_gateways :: "(int \<times> (in6_addr \<times> u32) list) option \<Rightarrow> pcp_ctx \<Rightarrow> pcp_ctx option" where
  "discover_gateways r c = do {
     (rcount, gws) \<leftarrow> r;
     psd_add_gws (take (nat rcount) gws) c
   }"

text \<open>\<open>pcp_init\<close> with autodiscovery.\<close>

definition init_discovering :: "bool \<Rightarrow> (int \<times> (in6_addr \<times> u32) list) option \<Rightarrow> pcp_ctx \<Rightarrow> bool result" where
  "init_discovering socket_created r w =
     (let (ok, w) = alloc_next w in
      if \<not> ok then Some (False, w)
      else if \<not> socket_created then Some (False, ctx_calloc w)
      else do { c \<leftarrow> discover_gateways r (ctx_calloc w); Some (True, c) })"

lemma init_discovering_gws: "init_discovering socket_created (Some (n, gws)) w = pcp_init True socket_created (take (nat n) gws) w"
  by (simp add: init_discovering_def pcp_init_def discover_gateways_def Let_def case_prod_unfold)

text \<open>Wildcard addresses are left out.\<close>

lemma psd_add_gws_real: "psd_add_gws (filter (\<lambda>(addr, scope). real_gateway addr) gws) c = psd_add_gws gws c"
proof (induction gws arbitrary: c)
  case (Cons gw gws)
  obtain addr scope where gw: "gw = (addr, scope)" by (cases gw)
  have "psd_add_gw addr scope c = Some c" if "\<not> real_gateway addr"
    using that by (auto simp: real_gateway_def psd_add_gw_def)
  moreover have "psd_add_gws (filter (\<lambda>(addr, scope). real_gateway addr) gws) = psd_add_gws gws" using Cons by (rule ext)
  ultimately show ?case by (simp add: gw)
qed simp

section \<open>Sources of gateways\<close>

locale gateway_source =
  fixes getgws :: "'w \<Rightarrow> (int \<times> (in6_addr \<times> u32) list) option"
    and answers :: "'w \<Rightarrow> (in6_addr \<times> u32) list \<Rightarrow> bool"
  assumes found: "answers g gws \<Longrightarrow> getgws g = Some (int (length gws), gws)"
begin

lemma become_servers:
  assumes "world_ok w" "\<forall>k. w_alloc w k" "answers g gws"
  shows "\<exists>c. init_discovering True (getgws g) w = Some (True, c) \<and> core_inv c \<and> db_flows c = {} \<and>
    (\<forall>(addr, scope)\<in>set gws. real_gateway addr \<longrightarrow> (\<exists>i. in_use i c \<and> s_pcp_ip (c_pcp_servers c ! i) = addr))"
proof -
  let ?c = "ctx_calloc (w\<lparr>w_alloc_i := Suc (w_alloc_i w)\<rparr>)"
  have core: "core_inv ?c" using assms(1) by (simp add: ctx_calloc_core world_ok_def)
  from psd_add_gws_all [OF this, of gws] obtain c where
    c: "psd_add_gws gws ?c = Some c" "kept ?c c" "\<forall>(addr, scope)\<in>set gws. real_gateway addr \<longrightarrow> entered_gw addr ?c c" by blast
  have "init_discovering True (getgws g) w = Some (True, c)"
    using found [OF assms(3)] c(1) assms(2) by (simp add: init_discovering_gws pcp_init_def alloc_next_def)
  moreover have "core_inv c" "c_heap c = c_heap ?c" using c(2) only_servers_frame(1) by (auto simp: kept_def)
  moreover have "db_flows c = {}" using calculation(3) by (simp add: db_flows_def ctx_calloc_def)
  moreover have "\<forall>(addr, scope)\<in>set gws. real_gateway addr \<longrightarrow> (\<exists>i. in_use i c \<and> s_pcp_ip (c_pcp_servers c ! i) = addr)"
    using c(3) assms(2) by (auto simp: entered_gw_def ctx_calloc_def)
  ultimately show ?thesis by blast
qed

end

text \<open>Linux: a dump of routes in parts that fits into the buffer.\<close>

definition linux_answers :: "gw_world \<Rightarrow> (in6_addr \<times> u32) list \<Rightarrow> bool" where
  "linux_answers g gws \<longleftrightarrow> gw_socket g \<and> gw_send g \<and> (\<forall>k. gw_alloc g k) \<and>
     (\<exists>parts further. (\<forall>rs\<in>set parts. rs \<noteq> [] \<and> (\<forall>r\<in>set rs. wf_route r)) \<and>
        length (routes_bytes (gw_pid g) (concat parts)) + 20 \<le> BUFSIZE \<and>
        gw_recv g = map (Some \<circ> routes_bytes (gw_pid g)) parts @ Some (enc_done (gw_pid g)) # further \<and>
        gws = gateways_of (concat parts))"

interpretation linux: gateway_source "getgateways True" linux_answers
  by unfold_locales (auto simp: linux_answers_def getgateways_dump)

text \<open>BSD and macOS: a table that did not grow between the two calls.\<close>

definition bsd_answers :: "bsd_layout \<Rightarrow> bsd_world \<Rightarrow> (in6_addr \<times> u32) list \<Rightarrow> bool" where
  "bsd_answers L g gws \<longleftrightarrow> bw_malloc g \<and> (\<forall>k. bw_realloc g k) \<and>
     (\<exists>n rs. bw_size g = Some n \<and> bw_dump g = Some (concat (map (enc_bsd_route L) rs)) \<and> length (concat (map (enc_bsd_route L) rs)) \<le> n \<and>
        (\<forall>r\<in>set rs. wf_bsd_route L r) \<and> gws = bsd_gateways L rs)"

interpretation bsd: gateway_source "bsd_getgateways L True" "bsd_answers L" for L
proof unfold_locales
  fix g gws
  assume "bsd_answers L g gws"
  then show "bsd_getgateways L True g = Some (int (length gws), gws)"
    unfolding bsd_answers_def using bsd_getgateways_dump [of g _ L] by auto
qed

text \<open>Windows: the rows of the table.\<close>

definition win_answers :: "win_world \<Rightarrow> (in6_addr \<times> u32) list \<Rightarrow> bool" where
  "win_answers g gws \<longleftrightarrow> ww_ok g \<and> ww_calloc g \<and> (\<exists>rows. ww_table g = Some rows \<and> gws = List.map_filter win_listed rows)"

interpretation windows: gateway_source "Some \<circ> win_getgateways True" win_answers
  by unfold_locales (auto simp: win_answers_def win_getgateways_def win_loop_listed Let_def)

section \<open>From routes to servers\<close>





text \<open>The next hops that are gateways: neither the wildcard of IPv4 nor that of IPv6, which mark a route to a network that is attached.\<close>

definition hop_gateway :: "next_hop \<Rightarrow> (in6_addr \<times> u32) option" where
  "hop_gateway h =
     (case h of NH_in a \<Rightarrow> if a = 0 then None else Some (v4mapped a, 0)
      | NH_in6 a scope \<Rightarrow> if IPV6_IS_ADDR_ANY a then None else Some (a, scope)
      | NH_other \<Rightarrow> None)"

lemma listed_real:
  "filter (\<lambda>(addr, scope). real_gateway addr) (List.map_filter win_listed rows) =
   filter (\<lambda>(addr, scope). real_gateway addr) (List.map_filter hop_gateway rows)"
proof -
  have any: "\<not> real_gateway (v4mapped 0)" by code_simp
  show ?thesis
    by (induction rows) (auto simp: List.map_filter_def win_listed_def hop_gateway_def any split: next_hop.split)
qed

text \<open>C34: on Windows the test for the IPv4 wildcard never holds, so that \<open>getgateways\<close> also returns a gateway for every row of an attached network;
  the discovery of servers nevertheless ends in the same context as with the list of the real gateways, for every table and
  every state of the system.\<close>

theorem windows_discovery_equivalent:
  "init_discovering socket_created (Some (win_getgateways True \<lparr>ww_ok = True, ww_table = Some rows, ww_calloc = True\<rparr>)) w =
   pcp_init True socket_created (List.map_filter hop_gateway rows) w"
proof -
  have "psd_add_gws (List.map_filter win_listed rows) c = psd_add_gws (List.map_filter hop_gateway rows) c" for c
    by (metis listed_real psd_add_gws_real)
  then show ?thesis
    by (simp add: win_getgateways_def win_loop_listed init_discovering_gws pcp_init_def case_prod_unfold Let_def)
qed

end
