(* ===== verification/Sock_Impl.thy ===== *)
theory Sock_Impl
  imports Pulse
begin

text \<open>
  The socket functions behind the virtual table of a context (\<open>net/pcp_socket.c\<close>, \<open>default_socket_vt\<close>), with the options of Linux.
  What the system calls answer is given: the results of \<open>fcntl\<close>, \<open>setsockopt\<close> and \<open>bind\<close> as fields of a record, \<open>sendmsg\<close> as a function
  and the result of \<open>recvmsg\<close> as a value. Shown are which port a socket is bound to, that no descriptor is lost on errors, and that
  these functions fulfil the contract that the state machines rely on.
\<close>

section \<open>Errors\<close>

datatype errnum = EADDRINUSE | EWOULDBLOCK | E_other nat

fun pcp_get_error :: "errnum \<Rightarrow> pcp_errno" where
  "pcp_get_error EADDRINUSE = PCP_ERR_ADDRINUSE"
| "pcp_get_error EWOULDBLOCK = PCP_ERR_WOULDBLOCK"
| "pcp_get_error (E_other _) = PCP_ERR_UNKNOWN"

section \<open>Creation\<close>

abbreviation AF_INET :: u16 where "AF_INET \<equiv> 2"
abbreviation AF_INET6 :: u16 where "AF_INET6 \<equiv> 10"

text \<open>
  The answers of the system calls; \<open>cs_bind n port\<close> is the answer to the call number \<open>n\<close> of \<open>bind\<close>, for a port in network order, where
  \<open>None\<close> is success. The result is the port that the socket is bound to, or \<open>None\<close> for \<open>PCP_INVALID_SOCKET\<close>, and the calls made.
  A failure to set \<open>IP_PKTINFO\<close> is logged only.
\<close>

record create_sys =
  cs_socket :: bool
  cs_nonblock :: bool
  cs_v6only :: bool
  cs_recvpktinfo :: bool
  cs_bind :: "nat \<Rightarrow> u16 \<Rightarrow> errnum option"

datatype sock_call = Sys_socket | Sys_nonblock | Sys_v6only | Sys_pktinfo | Sys_recvpktinfo | Sys_bind u16 | Sys_close

definition next_port :: "u16 \<Rightarrow> u16" where
  "next_port port = htons (ntohs port + 1)"

partial_function (option) bind_loop :: "(nat \<Rightarrow> u16 \<Rightarrow> errnum option) \<Rightarrow> nat \<Rightarrow> u16 \<Rightarrow> sock_call list \<Rightarrow> (u16 option \<times> sock_call list) option" where
  "bind_loop binds n port calls =
     (case binds n port of
        None \<Rightarrow> Some (Some port, calls @ [Sys_bind port])
      | Some e \<Rightarrow>
          if pcp_get_error e = PCP_ERR_ADDRINUSE then bind_loop binds (n + 1) (next_port port) (calls @ [Sys_bind port])
          else Some (None, calls @ [Sys_bind port, Sys_close]))"

definition pcp_socket_create_impl :: "u16 \<Rightarrow> create_sys \<Rightarrow> (u16 option \<times> sock_call list) option" where
  "pcp_socket_create_impl domain w =
     (let port = (if domain = AF_INET \<or> domain = AF_INET6 then htons 5350 else 0) in
      if \<not> cs_socket w then Some (None, [Sys_socket])
      else if \<not> cs_nonblock w then Some (None, [Sys_socket, Sys_nonblock, Sys_close])
      else if \<not> cs_v6only w then Some (None, [Sys_socket, Sys_nonblock, Sys_v6only, Sys_close])
      else if \<not> cs_recvpktinfo w then Some (None, [Sys_socket, Sys_nonblock, Sys_v6only, Sys_pktinfo, Sys_recvpktinfo, Sys_close])
      else bind_loop (cs_bind w) 0 port [Sys_socket, Sys_nonblock, Sys_v6only, Sys_pktinfo, Sys_recvpktinfo])"

section \<open>Receiving\<close>

text \<open>Control messages: the two kinds of packet information, with the address and for IPv6 the interface, and any other.\<close>

datatype cmsg = Ip_pktinfo u32 | Ipv6_pktinfo in6_addr u32 | Cmsg_other

datatype recvmsg_result =
    Recvmsg_fail errnum
  | Recvmsg_ok "u8 list" sockaddr "cmsg list" \<comment> \<open>datagram, source, control messages\<close>

text \<open>One round of the loop over the control messages, on the destination address; the port of that object is not written.\<close>

fun dst_port :: "sockaddr \<Rightarrow> u16" where
  "dst_port (SA_in6 port _ _) = port"
| "dst_port _ = 0"

fun process_cmsg :: "cmsg \<Rightarrow> sockaddr \<Rightarrow> sockaddr" where
  "process_cmsg (Ip_pktinfo a) dst = SA_in6 (dst_port dst) (In6 0 0 (htonl 0xFFFF) a) 0"
| "process_cmsg (Ipv6_pktinfo a ifindex) dst = SA_in6 (dst_port dst) a (if IN6_IS_ADDR_LINKLOCAL a then ifindex else 0)"
| "process_cmsg Cmsg_other dst = dst"

definition pcp_socket_recvfrom_impl :: "recvmsg_result \<Rightarrow> nat \<Rightarrow> sockaddr \<Rightarrow> recv_result" where
  "pcp_socket_recvfrom_impl r len dst_addr =
     (case r of
        Recvmsg_ok d src cmsgs \<Rightarrow>
          let buf = take len d in Recv_ok buf src (if length buf > 0 then fold process_cmsg cmsgs dst_addr else dst_addr)
      | Recvmsg_fail e \<Rightarrow>
          if pcp_get_error e = PCP_ERR_WOULDBLOCK then Recv_fail (errno_code PCP_ERR_WOULDBLOCK)
          else Recv_fail (errno_code PCP_ERR_RECV_FAILED))"

section \<open>Sending\<close>

text \<open>
  What \<open>sendmsg\<close> is given: the data, the destination and the control message with the source. The last branch of the function
  belongs to the missing source address: without one nothing is sent, and the error is made from the old
  value of \<open>errno\<close>; with one, an error of \<open>sendmsg\<close> is returned as it is, -1.
\<close>

record msghdr =
  mh_data :: "u8 list"
  mh_name :: sockaddr
  mh_control :: cmsg

definition pcp_socket_sendto_impl :: "(msghdr \<Rightarrow> errnum + nat) \<Rightarrow> errnum \<Rightarrow> u8 list \<Rightarrow> (in6_addr \<times> u32) option \<Rightarrow> sockaddr \<Rightarrow> int" where
  "pcp_socket_sendto_impl sendmsg errno buf src_addr dest_addr =
     (case src_addr of
        Some (addr, scope) \<Rightarrow>
          (case sendmsg \<lparr>mh_data = buf, mh_name = dest_addr, mh_control = Ipv6_pktinfo addr scope\<rparr> of
             Inl e \<Rightarrow> -1
           | Inr n \<Rightarrow> int n)
      | None \<Rightarrow>
          if pcp_get_error errno = PCP_ERR_WOULDBLOCK then errno_code PCP_ERR_WOULDBLOCK
          else errno_code PCP_ERR_SEND_FAILED)"

text \<open>Closing hands the answer of the system call on.\<close>

definition pcp_socket_close_impl :: "int \<Rightarrow> int \<times> sock_call list" where
  "pcp_socket_close_impl answer = (answer, [Sys_close])"

section \<open>The bound port\<close>

text \<open>The ports in the order in which they are tried.\<close>

definition tried_port :: "nat \<Rightarrow> u16" where
  "tried_port k = htons (5350 + of_nat k)"

lemma next_tried: "next_port (tried_port k) = tried_port (Suc k)"
  by (simp add: next_port_def tried_port_def algebra_simps)

lemma bind_loop_tries:
  "\<forall>j<k. binds (n + j) (tried_port (n + j)) = Some EADDRINUSE \<Longrightarrow>
     bind_loop binds n (tried_port n) calls =
     bind_loop binds (n + k) (tried_port (n + k)) (calls @ map (\<lambda>j. Sys_bind (tried_port (n + j))) [0..<k])"
proof (induction k)
  case (Suc k)
  have "binds (n + k) (tried_port (n + k)) = Some EADDRINUSE" using Suc.prems by simp
  with Suc show ?case by (simp add: bind_loop.simps [of binds "n + k"] next_tried)
qed simp

text \<open>C18: the creation of a socket. Unless the socket itself cannot be made, either everything succeeds and the socket is bound
  to the first port from 5350 on that is not in use, the next ones being tried in turn for as long
  as the port is taken; or the socket is closed, exactly once and as the last thing,
  before \<open>PCP_INVALID_SOCKET\<close> is returned.\<close>

theorem socket_create_correct:
  assumes "domain = AF_INET \<or> domain = AF_INET6"
    and "\<forall>j<k. cs_bind w j (tried_port j) = Some EADDRINUSE" "cs_bind w k (tried_port k) \<noteq> Some EADDRINUSE"
  shows "\<exists>port calls. pcp_socket_create_impl domain w = Some (port, Sys_socket # calls) \<and>
    (if cs_socket w \<and> cs_nonblock w \<and> cs_v6only w \<and> cs_recvpktinfo w \<and> cs_bind w k (tried_port k) = None
     then port = Some (tried_port k) \<and> Sys_close \<notin> set calls \<and>
       filter (\<lambda>x. \<exists>p. x = Sys_bind p) calls = map (\<lambda>j. Sys_bind (tried_port j)) [0..<Suc k]
     else port = None \<and> (cs_socket w \<longrightarrow> calls \<noteq> [] \<and> last calls = Sys_close \<and> Sys_close \<notin> set (butlast calls)))"
proof -
  let ?base = "[Sys_socket, Sys_nonblock, Sys_v6only, Sys_pktinfo, Sys_recvpktinfo]"
  have start: "(if domain = AF_INET \<or> domain = AF_INET6 then htons 5350 else 0) = tried_port 0"
    using assms(1) by (simp add: tried_port_def)
  have run: "bind_loop (cs_bind w) 0 (tried_port 0) ?base =
      bind_loop (cs_bind w) k (tried_port k) (?base @ map (\<lambda>j. Sys_bind (tried_port j)) [0..<k])"
    using bind_loop_tries [of k "cs_bind w" 0 ?base] assms(2) by simp
  show ?thesis
  proof (cases "cs_socket w \<and> cs_nonblock w \<and> cs_v6only w \<and> cs_recvpktinfo w")
    case False
    then show ?thesis by (auto simp: pcp_socket_create_impl_def)
  next
    case True
    then have r: "pcp_socket_create_impl domain w =
        bind_loop (cs_bind w) k (tried_port k) (?base @ map (\<lambda>j. Sys_bind (tried_port j)) [0..<k])"
      unfolding pcp_socket_create_impl_def Let_def start run by simp
    show ?thesis
    proof (cases "cs_bind w k (tried_port k)")
      case None
      with True r show ?thesis by (auto simp: bind_loop.simps [of "cs_bind w" k] filter_map comp_def)
    next
      case (Some e)
      then have "e \<noteq> EADDRINUSE" using assms(3) by simp
      then have "pcp_get_error e \<noteq> PCP_ERR_ADDRINUSE" by (cases e) auto
      with True Some r show ?thesis by (auto simp: bind_loop.simps [of "cs_bind w" k] butlast_append)
    qed
  qed
qed

theorem socket_create_correct_witness:
  "\<exists>calls. pcp_socket_create_impl AF_INET6 \<lparr>cs_socket = True, cs_nonblock = True, cs_v6only = True, cs_recvpktinfo = True,
      cs_bind = \<lambda>n port. if n < 1 then Some EADDRINUSE else None\<rparr> = Some (Some (htons 5351), calls)"
  using socket_create_correct [of AF_INET6 1 "\<lparr>cs_socket = True, cs_nonblock = True, cs_v6only = True, cs_recvpktinfo = True,
      cs_bind = \<lambda>n port. if n < 1 then Some EADDRINUSE else None\<rparr>"]
  by (auto simp: tried_port_def)

section \<open>The contract of the state machines\<close>

text \<open>C17: the default sockets keep the contract. For every behaviour of the kernel that agrees with its documentation, \<open>sendmsg\<close> reporting
  no more bytes than it was given and \<open>recvmsg\<close> delivering IPv4 and IPv6 sources only, a context whose
  virtual table has the default functions satisfies the assumptions on sockets under which the pump was
  shown to return: the answers to \<open>sendto\<close> are in range, and every received packet fits the buffer.
  A packet carries the address it was sent to, in mapped form for IPv4 and with the interface for link-local addresses.\<close>

theorem default_sockets_contract:
  assumes "\<forall>i h n. sendmsg i h = Inr n \<longrightarrow> n \<le> length (mh_data h)"
    and "\<forall>i d src cmsgs. recvmsg i = Recvmsg_ok d src cmsgs \<longrightarrow> (\<forall>fam. src \<noteq> SA_other fam)"
    and "w_sendto c = (\<lambda>i bs. pcp_socket_sendto_impl (sendmsg i) (errno i) bs (Some (src i)) (dst i))"
    and "w_recvfrom c = (\<lambda>i. pcp_socket_recvfrom_impl (recvmsg i) PCP_MAX_LEN (SA_other 0))"
  shows "world_ok c \<and> (\<forall>i. recv_ok (w_recvfrom c i)) \<and>
    (\<forall>i d from a j. d \<noteq> [] \<and> recvmsg i = Recvmsg_ok d from [Ipv6_pktinfo a j] \<longrightarrow>
       w_recvfrom c i = Recv_ok (take PCP_MAX_LEN d) from (SA_in6 0 a (if IN6_IS_ADDR_LINKLOCAL a then j else 0))) \<and>
    (\<forall>i d from a. d \<noteq> [] \<and> recvmsg i = Recvmsg_ok d from [Ip_pktinfo a] \<longrightarrow>
       w_recvfrom c i = Recv_ok (take PCP_MAX_LEN d) from (SA_in6 0 (v4mapped a) 0))"
proof -
  have "pcp_socket_sendto_impl (sendmsg i) e bs (Some s) t \<le> int (length bs)" for i e bs s t
    using assms(1) by (cases s) (force simp: pcp_socket_sendto_impl_def split: sum.split)
  then have "world_ok c" by (simp add: world_ok_def assms(3))
  moreover have "recv_ok (w_recvfrom c i)" for i
    using assms(2) by (auto simp: assms(4) pcp_socket_recvfrom_impl_def recv_ok_def Let_def split: recvmsg_result.split)
  ultimately show ?thesis
    by (auto simp: assms(4) pcp_socket_recvfrom_impl_def v4mapped_def)
qed

theorem default_sockets_contract_witness:
  "world_ok (ctx_start\<lparr>w_sendto := \<lambda>i bs. pcp_socket_sendto_impl (\<lambda>h. Inr (length (mh_data h))) EWOULDBLOCK bs (Some (in6_zero, 0)) (SA_in 1 2),
     w_recvfrom := \<lambda>i. pcp_socket_recvfrom_impl (Recvmsg_fail EWOULDBLOCK) PCP_MAX_LEN (SA_other 0)\<rparr>)"
  using default_sockets_contract [of "\<lambda>i h. Inr (length (mh_data h))" "\<lambda>i. Recvmsg_fail EWOULDBLOCK"
      "ctx_start\<lparr>w_sendto := \<lambda>i bs. pcp_socket_sendto_impl (\<lambda>h. Inr (length (mh_data h))) EWOULDBLOCK bs (Some (in6_zero, 0)) (SA_in 1 2),
     w_recvfrom := \<lambda>i. pcp_socket_recvfrom_impl (Recvmsg_fail EWOULDBLOCK) PCP_MAX_LEN (SA_other 0)\<rparr>"
      "\<lambda>_. EWOULDBLOCK" "\<lambda>_. (in6_zero, 0)" "\<lambda>_. SA_in 1 2"] by simp

end
