(* ===== verification/Sock_Text.thy ===== *)
theory Sock_Text
  imports Net_Addr C_Strings
begin

text \<open>
  Printing and parsing of socket addresses (\<open>net/sock_ntop.c\<close>). \<open>inet_ntop\<close> and \<open>getaddrinfo\<close> are parameters: \<open>ntop4\<close>
  and \<open>ntop6\<close> give the text of an address, \<open>gai\<close> the addresses for a host and a service, or \<open>None\<close> on errors.
  Shown are how an address is split into host and port in all its forms, and that a printed address is
  read back. Allocations of host names are taken to succeed.
\<close>

section \<open>Printing\<close>

text \<open>
  \<open>strcat\<close> onto the static buffer of 128 bytes; \<open>pos\<close> characters of it stand in front of \<open>s\<close>.
\<close>

definition strcat :: "nat \<Rightarrow> string \<Rightarrow> string \<Rightarrow> string option" where
  "strcat pos s t = (if pos + length s + length t < 128 then Some (s @ t) else None)"

text \<open>The result \<open>Some None\<close> is \<open>NULL\<close>.\<close>

fun sock_ntop :: "(u32 \<Rightarrow> string option) \<Rightarrow> (in6_addr \<Rightarrow> string option) \<Rightarrow> sockaddr \<Rightarrow> nat \<Rightarrow> string option option" where
  "sock_ntop ntop4 ntop6 (SA_in port addr) salen =
     (case ntop4 addr of
        None \<Rightarrow> Some None
      | Some str \<Rightarrow>
          if ntohs port \<noteq> 0 then
            let portstr = take 6 (CHR '':'' # decimal (unat (ntohs port))) in map_option Some (strcat 0 str portstr)
          else Some (Some str))"
| "sock_ntop ntop4 ntop6 (SA_in6 port addr scope) salen =
     (case ntop6 addr of
        None \<Rightarrow> Some None
      | Some str \<Rightarrow>
          if ntohs port \<noteq> 0 then
            let portstr = take 7 (CHR '']'' # CHR '':'' # decimal (unat (ntohs port)))
            in map_option Some (strcat 0 (CHR ''['' # str) portstr)
          else Some (Some str))"
| "sock_ntop ntop4 ntop6 (SA_other fam) salen =
     Some (Some (take 126 (''sock_ntop: unknown AF_xxx: '' @ decimal (unat fam) @ '', len '' @ decimal salen)))"

text \<open>\<open>Sock_ntop\<close> reports a failure with \<open>perror\<close>: the second component.\<close>

definition Sock_ntop :: "(u32 \<Rightarrow> string option) \<Rightarrow> (in6_addr \<Rightarrow> string option) \<Rightarrow> sockaddr \<Rightarrow> nat \<Rightarrow> (string option \<times> bool) option" where
  "Sock_ntop ntop4 ntop6 sa salen = map_option (\<lambda>ptr. (ptr, ptr = None)) (sock_ntop ntop4 ntop6 sa salen)"

section \<open>Splitting host and port\<close>

text \<open>
  The loop that looks for the port, over the characters from \<open>ip_end\<close> on, which is the position \<open>i\<close>: the
  position where it stops, the start of the port, and whether it stopped at a second colon of
  an address without brackets. \<open>host\<close> tells that \<open>host_name\<close> is known.
\<close>

fun port_scan :: "string \<Rightarrow> nat \<Rightarrow> nat option \<Rightarrow> bool \<Rightarrow> nat \<times> nat option \<times> bool" where
  "port_scan [] i port host = (i, port, False)"
| "port_scan (ch # cs) i port host =
     (if ch = CHR '':'' then
        case port of
          None \<Rightarrow> port_scan cs (i + 1) (Some (i + 1)) host
        | Some q \<Rightarrow> if \<not> host then (i, None, True) else port_scan cs (i + 1) port host
      else port_scan cs (i + 1) port host)"

text \<open>
  \<open>find_port s cp ip_end host_name\<close>: host and port of the string \<open>s\<close>, where \<open>cp\<close> and \<open>ip_end\<close> are positions in it.
\<close>

definition find_port :: "string \<Rightarrow> nat \<Rightarrow> nat \<Rightarrow> string option \<Rightarrow> string option \<times> string option" where
  "find_port s cp ip_end host_name =
     (case port_scan (drop ip_end s) ip_end None (host_name \<noteq> None) of (stop, port, whole) \<Rightarrow>
        (case host_name of
           Some h \<Rightarrow> Some h
         | None \<Rightarrow>
             if whole then Some (drop cp s)
             else case port of
               Some q \<Rightarrow> if q - cp > 1 then Some (take (q - cp - 1) (drop cp s)) else None
             | None \<Rightarrow> Some (take (stop - cp) (drop cp s)),
         map_option (\<lambda>q. drop q s) port))"

text \<open>The first part of \<open>sock_pton\<close>; \<open>None\<close> stands for the return value -2.\<close>

definition split_address :: "string \<Rightarrow> (string option \<times> string option) option" where
  "split_address s0 =
     (let s = dropWhile is_space s0 in
      if s \<noteq> [] \<and> hd s = CHR ''['' then
        let ip_end = length (takeWhile (\<lambda>ch. ch \<noteq> CHR '']'') s) in
        if ip_end = length s then None
        else Some (find_port s 1 (ip_end + 1) (Some (take (ip_end - 1) (drop 1 s))))
      else Some (find_port s 0 0 None))"

section \<open>Parsing\<close>

text \<open>
  The addresses of the two families are copied into an object of \<open>sa_size\<close> bytes; without a host the
  address is cleared, with 28 bytes from \<open>sin6_addr\<close> on for IPv6, among them the scope.
\<close>

fun first_inet :: "sockaddr list \<Rightarrow> sockaddr option" where
  "first_inet [] = None"
| "first_inet (SA_other fam # ps) = first_inet ps"
| "first_inet (SA_in port a # ps) = Some (SA_in port a)"
| "first_inet (SA_in6 port a scope # ps) = Some (SA_in6 port a scope)"

definition store_address :: "nat \<Rightarrow> bool \<Rightarrow> sockaddr \<Rightarrow> sockaddr option" where
  "store_address sa_size no_host p =
     (case p of
        SA_in port a \<Rightarrow> if sa_size < 16 then None else Some (SA_in port (if no_host then 0 else a))
      | SA_in6 port a scope \<Rightarrow>
          if sa_size < (if no_host then 36 else 28) then None
          else Some (if no_host then SA_in6 port in6_zero 0 else p)
      | SA_other fam \<Rightarrow> None)"

text \<open>
  The arguments \<open>cp\<close> and \<open>sa\<close> may be \<open>NULL\<close>; \<open>sa\<close> otherwise gives what the object held before. The result is
  the returned code and the object.
\<close>

definition sock_pton :: "(string option \<Rightarrow> string option \<Rightarrow> sockaddr list option) \<Rightarrow> string option \<Rightarrow> nat \<Rightarrow>
    sockaddr option \<Rightarrow> (int \<times> sockaddr option) option" where
  "sock_pton gai cp sa_size sa =
     (if cp = None \<or> sa = None then Some (-1, sa)
      else case split_address (the cp) of
          None \<Rightarrow> Some (-2, sa)
        | Some (host_name, port) \<Rightarrow>
            case gai host_name port of
              None \<Rightarrow> Some (-2, sa)
            | Some servinfo \<Rightarrow>
                case first_inet servinfo of
                  None \<Rightarrow> Some (0, sa)
                | Some p \<Rightarrow> map_option (\<lambda>sa. (0, Some sa)) (store_address sa_size (host_name = None) p))"

text \<open>
  The variant with the static object, which is a \<open>sockaddr_storage\<close>; \<open>sa_s\<close> is what it holds. In the result, \<open>None\<close>
  in the first component is \<open>NULL\<close>.
\<close>

definition Sock_pton :: "(string option \<Rightarrow> string option \<Rightarrow> sockaddr list option) \<Rightarrow> string option \<Rightarrow> sockaddr \<Rightarrow>
    (sockaddr option \<times> sockaddr option) option" where
  "Sock_pton gai cp sa_s =
     map_option (\<lambda>(ret, sa). (if ret = 0 then sa else None, sa)) (sock_pton gai cp 128 (Some sa_s))"

text \<open>
  \<open>sock_pton_with_prefix\<close>: an address in brackets, with a prefix length behind the last slash in them. The text \<open>s\<close> of
  \<open>split_prefix\<close> begins with the bracket. Its value \<open>Some None\<close> stands for the return value -2; otherwise it gives the
  host, the prefix length and the text behind the brackets.
\<close>

definition split_prefix :: "string \<Rightarrow> (string \<times> int \<times> string) option option" where
  "split_prefix s =
     (let inner = takeWhile (\<lambda>ch. ch \<noteq> CHR '']'') s; ip_end = length inner in
      if ip_end = length s then Some None
      else
        (let rest = drop (ip_end + 1) s in
         if CHR ''/'' \<in> set inner then
           let prefix = rev (takeWhile (\<lambda>ch. ch \<noteq> CHR ''/'') (rev inner)); prefix_begin = ip_end - length prefix
           in map_option (\<lambda>n. Some (take (prefix_begin - 2) (drop 1 s), n, rest)) (atoi prefix)
         else Some (Some (take (ip_end - 1) (drop 1 s), 128, rest))))"

text \<open>The last test: the prefix length must suit the family of the address.\<close>

definition prefix_checked :: "sockaddr \<Rightarrow> int \<Rightarrow> int" where
  "prefix_checked sa int_prefix =
     (case sa of
        SA_in _ _ \<Rightarrow> if int_prefix > 32 then -2 else 0
      | SA_in6 _ _ _ \<Rightarrow> if int_prefix > 128 then -2 else 0
      | SA_other _ \<Rightarrow> 0)"

text \<open>The third component of the result is \<open>*int_prefix\<close>; \<open>int_prefix\<close> may be \<open>NULL\<close> as well.\<close>

definition sock_pton_with_prefix :: "(string option \<Rightarrow> string option \<Rightarrow> sockaddr list option) \<Rightarrow> string option \<Rightarrow> nat \<Rightarrow>
    sockaddr option \<Rightarrow> int option \<Rightarrow> (int \<times> sockaddr option \<times> int option) option" where
  "sock_pton_with_prefix gai cp sa_size sa int_prefix =
     (if cp = None \<or> sa = None \<or> int_prefix = None then Some (-1, sa, int_prefix)
      else
        let s = dropWhile is_space (the cp) in
        if s = [] \<or> hd s \<noteq> CHR ''['' then Some (-2, sa, int_prefix)
        else case split_prefix s of
          None \<Rightarrow> None
        | Some None \<Rightarrow> Some (-2, sa, int_prefix)
        | Some (Some (host_name, n, rest)) \<Rightarrow>
            let port = snd (find_port s 1 (length s - length rest) (Some host_name)) in
            case gai (Some host_name) port of
              None \<Rightarrow> Some (-2, sa, Some n)
            | Some servinfo \<Rightarrow>
                case first_inet servinfo of
                  None \<Rightarrow> Some (prefix_checked (the sa) n, sa, Some n)
                | Some p \<Rightarrow> map_option (\<lambda>sa. (prefix_checked sa n, Some sa, Some n)) (store_address sa_size False p))"

section \<open>The forms of an address\<close>

abbreviation colon :: char where "colon \<equiv> CHR '':''"

lemma scan_plain: "colon \<notin> set xs \<Longrightarrow> port_scan (xs @ ys) i port host = port_scan ys (i + length xs) port host"
  by (induction xs arbitrary: i) auto

lemma scan_no_colon: "colon \<notin> set xs \<Longrightarrow> port_scan xs i port host = (i + length xs, port, False)"
  using scan_plain [of xs "[]"] by simp

lemma scan_host_known: "\<exists>j. port_scan xs i (Some q) True = (j, Some q, False)"
  by (induction xs arbitrary: i) auto

text \<open>A text that does not begin with a blank or a bracket.\<close>

definition bare :: "string \<Rightarrow> bool" where
  "bare s \<longleftrightarrow> s \<noteq> [] \<and> \<not> is_space (hd s) \<and> hd s \<noteq> CHR ''[''"

lemma bare_strip: "bare s \<Longrightarrow> dropWhile is_space s = s"
  by (cases s) (auto simp: bare_def)

lemma split_bare: "bare s \<Longrightarrow> split_address s = Some (find_port s 0 0 None)"
  by (simp add: split_address_def bare_strip) (simp add: bare_def)

lemma bare_append: "bare s \<Longrightarrow> bare (s @ t)"
  by (auto simp: bare_def)

lemma not_space: "\<not> is_space colon" "\<not> is_space (CHR ''['')"
  by (simp_all add: is_space_def)

lemma split_host: "bare h \<Longrightarrow> colon \<notin> set h \<Longrightarrow> split_address h = Some (Some h, None)"
  by (simp add: split_bare find_port_def scan_no_colon)

lemma split_host_port:
  assumes "bare h" "colon \<notin> set h" "colon \<notin> set p"
  shows "split_address (h @ colon # p) = Some (Some h, Some p)"
proof -
  have "h \<noteq> []" using assms(1) by (simp add: bare_def)
  then show ?thesis
    using assms by (simp add: split_bare bare_append find_port_def scan_plain scan_no_colon)
qed

lemma split_port: "colon \<notin> set p \<Longrightarrow> split_address (colon # p) = Some (None, Some p)"
  by (simp add: split_address_def not_space find_port_def scan_no_colon)

lemma split_colons:
  assumes "bare (a @ colon # b @ colon # c)" "colon \<notin> set a" "colon \<notin> set b"
  shows "split_address (a @ colon # b @ colon # c) = Some (Some (a @ colon # b @ colon # c), None)"
  using assms by (simp add: split_bare find_port_def scan_plain)

lemma split_brackets:
  assumes "CHR '']'' \<notin> set h"
  shows "split_address (CHR ''['' # h @ CHR '']'' # colon # p) = Some (Some h, Some p)"
    "split_address (CHR ''['' # h @ [CHR '']'']) = Some (Some h, None)"
    "split_address (CHR ''['' # h) = None"
proof -
  have tk: "takeWhile (\<lambda>ch. ch \<noteq> CHR '']'') (CHR ''['' # h @ CHR '']'' # r) = CHR ''['' # h" for r
    using takeWhile_stop [OF assms] by simp
  obtain j where j: "port_scan p (Suc (Suc (Suc (length h)))) (Some (Suc (Suc (Suc (length h))))) True =
      (j, Some (Suc (Suc (Suc (length h)))), False)" using scan_host_known by blast
  show "split_address (CHR ''['' # h @ CHR '']'' # colon # p) = Some (Some h, Some p)"
    using tk [of "colon # p"] j by (simp add: split_address_def not_space find_port_def)
  show "split_address (CHR ''['' # h @ [CHR '']'']) = Some (Some h, None)"
    using tk [of "[]"] by (simp add: split_address_def not_space find_port_def)
  show "split_address (CHR ''['' # h) = None"
    using assms by (simp add: split_address_def not_space Let_def takeWhile_all)
qed

lemma split_blanks: "split_address (dropWhile is_space s) = split_address s"
  by (simp add: split_address_def)

text \<open>What \<open>sock_pton\<close> makes of the addresses of a host.\<close>

definition resolved :: "(string option \<Rightarrow> string option \<Rightarrow> sockaddr list option) \<Rightarrow> nat \<Rightarrow> sockaddr \<Rightarrow>
    string option \<Rightarrow> string option \<Rightarrow> (int \<times> sockaddr option) option" where
  "resolved gai sa_size sa host port =
     (case gai host port of
        None \<Rightarrow> Some (-2, Some sa)
      | Some servinfo \<Rightarrow>
          case first_inet servinfo of
            None \<Rightarrow> Some (0, Some sa)
          | Some p \<Rightarrow> map_option (\<lambda>sa. (0, Some sa)) (store_address sa_size (host = None) p))"

lemma sock_pton_resolves:
  "split_address s = Some (host, port) \<Longrightarrow> sock_pton gai (Some s) sa_size (Some sa) = resolved gai sa_size sa host port"
  by (simp add: sock_pton_def resolved_def)

text \<open>The forms of an address. \<open>sock_pton\<close> resolves a host alone, a host and a port separated by the only colon, a port
  alone, for which the address becomes the wildcard, an IPv6 address with two or more colons and no port, and an address in brackets with
  or without a port; blanks in front do not matter, and an opening bracket without a closing one is
  refused with -2.\<close>

theorem sock_pton_forms:
  assumes "bare h" "colon \<notin> set h" "colon \<notin> set p" "CHR '']'' \<notin> set i"
    "bare (a @ colon # b @ colon # r)" "colon \<notin> set a" "colon \<notin> set b"
  shows "sock_pton gai (Some h) sa_size (Some sa) = resolved gai sa_size sa (Some h) None \<and>
    sock_pton gai (Some (h @ colon # p)) sa_size (Some sa) = resolved gai sa_size sa (Some h) (Some p) \<and>
    sock_pton gai (Some (colon # p)) sa_size (Some sa) = resolved gai sa_size sa None (Some p) \<and>
    sock_pton gai (Some (a @ colon # b @ colon # r)) sa_size (Some sa) = resolved gai sa_size sa (Some (a @ colon # b @ colon # r)) None \<and>
    sock_pton gai (Some (CHR ''['' # i @ CHR '']'' # colon # p)) sa_size (Some sa) = resolved gai sa_size sa (Some i) (Some p) \<and>
    sock_pton gai (Some (CHR ''['' # i @ [CHR '']''])) sa_size (Some sa) = resolved gai sa_size sa (Some i) None \<and>
    sock_pton gai (Some (CHR ''['' # i)) sa_size (Some sa) = Some (-2, Some sa) \<and>
    sock_pton gai (Some (dropWhile is_space s)) sa_size (Some sa) = sock_pton gai (Some s) sa_size (Some sa)"
  using split_host [OF assms(1,2)] split_host_port [OF assms(1-3)] split_port [OF assms(3)] split_colons [OF assms(5-7)]
    split_brackets [OF assms(4)]
  by (simp add: sock_pton_resolves) (simp add: sock_pton_def split_blanks)

theorem sock_pton_forms_witness:
  "sock_pton (\<lambda>host port. if host = Some ''h'' \<and> port = Some ''80'' then Some [SA_other 1, SA_in (htons 80) 9] else None)
     (Some ''h:80'') 128 (Some (SA_other 0)) = Some (0, Some (SA_in (htons 80) 9))"
proof -
  have "bare ''h''" "bare ([] @ colon # [] @ colon # ''1'')" by (simp_all add: bare_def is_space_def)
  from sock_pton_forms [OF this(1) _ _ _ this(2), of "''80''" "[]"
      "\<lambda>host port. if host = Some ''h'' \<and> port = Some ''80'' then Some [SA_other 1, SA_in (htons 80) 9] else None" 128 "SA_other 0" "[]"]
  show ?thesis by (simp add: resolved_def store_address_def)
qed

section \<open>Reading back what was printed\<close>

lemma decimal_no_colon: "colon \<notin> set (decimal n)"
  using decimal_digits [of n] by (auto simp: is_digit_def)

text \<open>The service that \<open>getaddrinfo\<close> is asked for.\<close>

definition service :: "u16 \<Rightarrow> string option" where
  "service port = (if ntohs port = 0 then None else Some (decimal (unat (ntohs port))))"

lemma split_ipv6:
  assumes "bare t" "\<exists>u v w. t = u @ colon # v @ colon # w"
  shows "split_address t = Some (Some t, None)"
proof -
  from assms(2) obtain u v w where t: "t = u @ colon # v @ colon # w" by blast
  then have "colon \<in> set t" by simp
  from split_list_first [OF this] obtain a r where r: "t = a @ colon # r" "colon \<notin> set a" by blast
  have "count_list t colon \<ge> 2" using t by simp
  then have "colon \<in> set r" using r count_list_0_iff [of r colon] count_list_0_iff [of a colon] by (cases "colon \<in> set r") auto
  from split_list_first [OF this] obtain b r' where "r = b @ colon # r'" "colon \<notin> set b" by blast
  then show ?thesis using split_colons [of a b r'] r assms(1) by simp
qed

text \<open>C37: a round trip. When the text of an address has the shape that \<open>inet_ntop\<close> gives it (for IPv4 no colon, for IPv6 at least two and no
  bracket, at most 45 characters), and the resolver takes that text back to the address, then \<open>sock_ntop\<close>
  prints the address within its buffer, and \<open>sock_pton\<close> reads the printed text as the same address and port, whether
  the port is zero and left out or not.\<close>

theorem sock_text_round_trip:
  assumes "ntop4 a4 = Some t4" "bare t4" "colon \<notin> set t4" "length t4 \<le> 15"
    and "ntop6 a6 = Some t6" "bare t6" "\<exists>u v w. t6 = u @ colon # v @ colon # w" "CHR '']'' \<notin> set t6" "length t6 \<le> 45"
    and "gai (Some t4) (service port) = Some (SA_in port a4 # ps)" "gai (Some t6) (service port) = Some (SA_in6 port a6 scope # qs)"
    and "28 \<le> sa_size"
  shows "\<exists>s4 s6. sock_ntop ntop4 ntop6 (SA_in port a4) n = Some (Some s4) \<and>
    sock_pton gai (Some s4) sa_size (Some sa) = Some (0, Some (SA_in port a4)) \<and>
    sock_ntop ntop4 ntop6 (SA_in6 port a6 sc) m = Some (Some s6) \<and>
    sock_pton gai (Some s6) sa_size (Some sa) = Some (0, Some (SA_in6 port a6 scope))"
proof -
  let ?p = "decimal (unat (ntohs port))"
  have "unat (ntohs port) < 2 ^ 16" using unsigned_less [of "ntohs port"] by simp
  then have pl: "length ?p \<le> 5" using decimal_length [of "unat (ntohs port)" 5] by simp
  show ?thesis
  proof (cases "ntohs port = 0")
    case True
    then show ?thesis
      using assms split_ipv6 [OF assms(6,7)] split_host [OF assms(2,3)]
      by (intro exI [of _ t4] exI [of _ t6]) (simp add: sock_pton_resolves resolved_def store_address_def service_def)
  next
    case False
    have "take 6 (colon # ?p) = colon # ?p" "take 7 (CHR '']'' # colon # ?p) = CHR '']'' # colon # ?p" using pl by simp_all
    then have "sock_ntop ntop4 ntop6 (SA_in port a4) n = Some (Some (t4 @ colon # ?p))"
      "sock_ntop ntop4 ntop6 (SA_in6 port a6 sc) m = Some (Some (CHR ''['' # t6 @ CHR '']'' # colon # ?p))"
      using False assms(1,4,5,9) pl by (simp_all add: strcat_def)
    moreover have "sock_pton gai (Some (t4 @ colon # ?p)) sa_size (Some sa) = Some (0, Some (SA_in port a4))"
      using split_host_port [OF assms(2,3) decimal_no_colon] assms(10,12) False
      by (simp add: sock_pton_resolves resolved_def store_address_def service_def)
    moreover have "sock_pton gai (Some (CHR ''['' # t6 @ CHR '']'' # colon # ?p)) sa_size (Some sa) = Some (0, Some (SA_in6 port a6 scope))"
      using split_brackets(1) [OF assms(8)] assms(11,12) False
      by (simp add: sock_pton_resolves resolved_def store_address_def service_def)
    ultimately show ?thesis by blast
  qed
qed

theorem sock_text_round_trip_witness:
  "\<exists>gai s4. sock_ntop (\<lambda>_. Some ''1.2.3.4'') (\<lambda>_. Some ''::1'') (SA_in (htons 80) 7) 16 = Some (Some s4) \<and>
     sock_pton gai (Some s4) 128 (Some (SA_other 0)) = Some (0, Some (SA_in (htons 80) 7))"
proof -
  let ?gai = "\<lambda>host port. if host = Some ''1.2.3.4'' then Some [SA_in (htons 80) 7]
    else if host = Some ''::1'' then Some [SA_in6 (htons 80) in6_zero 0] else None"
  have "\<exists>u v w. ''::1'' = u @ colon # v @ colon # w" by (rule exI [of _ "[]"], rule exI [of _ "[]"], rule exI [of _ "''1''"]) simp
  moreover have "bare ''1.2.3.4''" "bare ''::1''" by (simp_all add: bare_def is_space_def)
  ultimately show ?thesis
    using sock_text_round_trip [of "\<lambda>_. Some ''1.2.3.4''" 7 "''1.2.3.4''" "\<lambda>_. Some ''::1''" in6_zero "''::1''" ?gai "htons 80" "[]" 0 "[]" 128
        16 "SA_other 0" 0 28] by auto
qed

section \<open>Prefix lengths\<close>

lemma prefix_of_text:
  assumes "CHR '']'' \<notin> set h" "int n < 2 ^ 31"
  shows "split_prefix (CHR ''['' # h @ CHR ''/'' # decimal n @ CHR '']'' # r) = Some (Some (h, int n, r))"
proof -
  have d: "CHR '']'' \<notin> set (decimal n)" "CHR ''/'' \<notin> set (decimal n)"
    using decimal_digits [of n] by (auto simp: is_digit_def)
  have tk: "takeWhile (\<lambda>ch. ch \<noteq> CHR '']'') (CHR ''['' # h @ CHR ''/'' # decimal n @ CHR '']'' # r) =
      CHR ''['' # h @ CHR ''/'' # decimal n"
    using takeWhile_stop [of "CHR '']''" "CHR ''['' # h @ CHR ''/'' # decimal n" r] assms(1) d(1) by simp
  have "takeWhile (\<lambda>ch. ch \<noteq> CHR ''/'') (rev (decimal n) @ CHR ''/'' # rev h @ ''['') = rev (decimal n)"
    using takeWhile_stop [of "CHR ''/''" "rev (decimal n)"] d(2) by simp
  then show ?thesis
    unfolding split_prefix_def tk Let_def using atoi_decimal [OF assms(2)] by simp
qed

text \<open>Prefix lengths. For an address with a prefix length in brackets and a port, \<open>sock_pton_with_prefix\<close> stores the address that
  the resolver gives for the part before the slash and the prefix length, and succeeds exactly when the
  length fits the address family, up to 32 for IPv4 and 128 for IPv6. Without a
  prefix length it takes 128, so it refuses every IPv4 address.\<close>

theorem sock_prefix_read:
  assumes "CHR '']'' \<notin> set h" "int n < 2 ^ 31" "CHR '']'' \<notin> set g" "CHR ''/'' \<notin> set g"
    and "gai (Some h) (Some p) = Some servinfo" "first_inet servinfo = Some a"
    and "gai (Some g) (Some p) = Some info" "first_inet info = Some b" and "28 \<le> sa_size"
  shows "sock_pton_with_prefix gai (Some (CHR ''['' # h @ CHR ''/'' # decimal n @ CHR '']'' # colon # p)) sa_size (Some sa) (Some k) =
      Some (if n \<le> (case a of SA_in _ _ \<Rightarrow> 32 | _ \<Rightarrow> 128) then 0 else -2, Some a, Some (int n)) \<and>
    sock_pton_with_prefix gai (Some (CHR ''['' # g @ CHR '']'' # colon # p)) sa_size (Some sa) (Some k) =
      Some (case b of SA_in _ _ \<Rightarrow> -2 | _ \<Rightarrow> 0, Some b, Some 128)"
proof -
  have store: "store_address sa_size False c = Some c \<and> (\<forall>fam. c \<noteq> SA_other fam)" if "first_inet ps = Some c" for c ps
    using that assms(9) by (induction ps rule: first_inet.induct) (auto simp: store_address_def)
  have one: "split_prefix (CHR ''['' # g @ CHR '']'' # colon # p) = Some (Some (g, 128, colon # p))"
  proof -
    have "takeWhile (\<lambda>ch. ch \<noteq> CHR '']'') (CHR ''['' # g @ CHR '']'' # colon # p) = CHR ''['' # g"
      using takeWhile_stop [OF assms(3)] by simp
    then show ?thesis unfolding split_prefix_def Let_def using assms(4) by simp
  qed
  have body: "sock_pton_with_prefix gai (Some (x @ colon # p)) sa_size (Some sa) (Some k) = Some (prefix_checked d m, Some d, Some m)"
    if "x \<noteq> []" "hd x = CHR ''[''" "split_prefix (x @ colon # p) = Some (Some (c, m, colon # p))"
      "gai (Some c) (Some p) = Some ps" "first_inet ps = Some d" for x c m ps d
  proof -
    obtain j where "port_scan p (Suc (length x)) (Some (Suc (length x))) True = (j, Some (Suc (length x)), False)"
      using scan_host_known by blast
    then have "snd (find_port (x @ colon # p) 1 (length x) (Some c)) = Some p" by (simp add: find_port_def)
    moreover have "dropWhile is_space (x @ colon # p) = x @ colon # p" using that(1,2) not_space by (cases x) auto
    ultimately show ?thesis using that store [OF that(5)] by (simp add: sock_pton_with_prefix_def)
  qed
  show ?thesis
    using body [of "CHR ''['' # h @ CHR ''/'' # decimal n @ '']''" h "int n" servinfo a] body [of "CHR ''['' # g @ '']''" g 128 info b]
      prefix_of_text [OF assms(1,2), of "colon # p"] one store [OF assms(6)] store [OF assms(8)] assms(5-8)
    by (simp add: prefix_checked_def split: sockaddr.splits)
qed

theorem sock_prefix_read_witness:
  "sock_pton_with_prefix (\<lambda>_ _. Some [SA_in (htons 1234) 9]) (Some (''[h/34]:1234'')) 128 (Some (SA_other 0)) (Some 0) =
     Some (-2, Some (SA_in (htons 1234) 9), Some 34)"
proof -
  have "decimal 34 = ''34''" by (simp add: decimal.simps) code_simp
  then show ?thesis
    using sock_prefix_read [of "''h''" 34 "''h''" "\<lambda>_ _. Some [SA_in (htons 1234) 9]" "''1234''" "[SA_in (htons 1234) 9]"
      "SA_in (htons 1234) 9" "[SA_in (htons 1234) 9]" "SA_in (htons 1234) 9" 128 "SA_other 0" 0] by simp
qed

end
