(* ===== verification/Client_App.thy ===== *)
theory Client_App
  imports Api_Runs Sock_Text
begin

text \<open>
  The command line client (\<open>pcp_app/pcp_app.c\<close>): its options, the checks of the addresses, the calls of the library and the exit
  status. \<open>getopt_long\<close> delivers the options in order, each with \<open>optarg\<close> (\<open>Client_Options\<close> has a variant of it); \<open>getaddrinfo\<close>, \<open>inet_ntop\<close>, \<open>ctime_r\<close> and \<open>uname\<close>
  are parameters. Texts that go to the standard error output and the usage text are left out, the standard output is a list of
  texts. Shown is that every command line is refused or gives parameters in range, within all arrays;
  \<open>Client_Runs\<close> shows that the session with the library returns.
\<close>

section \<open>Options\<close>

datatype e_options =
    E_help | E_server | E_version | E_disdisc | E_timeout | E_fast_ret | E_int | E_peer | E_ext | E_tcp | E_udp | E_prot
  | E_lifetime | E_dscp_up | E_dscp_down | E_pfailure | E_filter | E_thirdparty | E_md_id | E_md_val | E_dev_id | E_location
  | E_user_id | E_sadscp_jit | E_sadscp_los | E_sadscp_del | E_sadscp_app

record pcp_params =
  pp_hostname :: "string option"
  pp_int_addr :: "string option"
  pp_ext_addr :: "string option"
  pp_peer_addr :: "string option"
  pp_filter_addr :: "string option"
  pp_opt_thirdparty_addr :: "string option"
  pp_opt_pfailure :: bool
  pp_opt_filter :: bool
  pp_opt_filter_prefix :: int
  pp_opt_dscp_up :: u8
  pp_opt_dscp_down :: u8
  pp_opt_flowp :: bool
  pp_dis_auto_discovery :: bool
  pp_opt_protocol :: u8
  pp_opt_lifetime :: u32
  pp_pcp_version :: u8
  pp_fast_return :: bool
  pp_timeout :: u32
  pp_opt_mdid :: u32
  pp_opt_md_val :: "u8 list"
  pp_opt_md_val_len :: nat
  pp_is_md :: bool
  pp_has_sadscp_data :: bool
  pp_delay_tolerance :: u8
  pp_loss_tolerance :: u8
  pp_jitter_tolerance :: u8
  pp_app_name :: "string option"
  pp_app_deviceid :: "u8 list"
  pp_app_userid :: "u8 list"
  pp_app_location :: "u8 list"
  pp_has_mappeer_data :: bool
  pp_pcp_servers :: "(string option \<times> u8) list"

text \<open>Characters as bytes, and a string with its terminator.\<close>

definition bytes_of :: "string \<Rightarrow> u8 list" where
  "bytes_of s = map of_char s"

definition cstr :: "string \<Rightarrow> u8 list" where
  "cstr s = bytes_of s @ [0]"

text \<open>
  The functions that store an option; \<open>optarg\<close> may be \<open>NULL\<close>. An error is an exit status; \<open>None\<close> is a number or product that does not fit
  an \<open>int\<close>, or a string that is read though there is none.
\<close>

definition arg_number :: "string option \<Rightarrow> int option" where
  "arg_number optarg = Option.bind optarg atoi"

definition parse_opt_server :: "bool \<Rightarrow> string option \<Rightarrow> pcp_params \<Rightarrow> pcp_params" where
  "parse_opt_server allocated optarg p =
     (if allocated then p\<lparr>pp_pcp_servers := (optarg, pp_pcp_version p) # pp_pcp_servers p\<rparr> else p)"

definition parse_opt_version :: "string option \<Rightarrow> pcp_params \<Rightarrow> (int + pcp_params) option" where
  "parse_opt_version optarg p = do {
     n \<leftarrow> arg_number optarg;
     let p = p\<lparr>pp_pcp_version := word_of_int n\<rparr>;
     Some (if pp_pcp_version p > PCP_MAX_SUPPORTED_VERSION then Inl 1 else Inr p)
   }"

definition parse_opt_timeout :: "string option \<Rightarrow> pcp_params \<Rightarrow> (int + pcp_params) option" where
  "parse_opt_timeout optarg p = do {
     n \<leftarrow> arg_number optarg;
     if n * 1000 < - (2 ^ 31) \<or> n * 1000 \<ge> 2 ^ 31 then None
     else Some (Inr (p\<lparr>pp_timeout := word_of_int (n * 1000)\<rparr>))
   }"

definition parse_opt_md_val :: "string option \<Rightarrow> pcp_params \<Rightarrow> (int + pcp_params) option" where
  "parse_opt_md_val optarg p = do {
     let optarg = (case optarg of None \<Rightarrow> [] | Some s \<Rightarrow> s);
     let len = (if length optarg > 256 then 256 else length optarg);
     buf \<leftarrow> poke 0 (take len (bytes_of optarg)) (pp_opt_md_val p);
     Some (Inr (p\<lparr>pp_opt_md_val_len := len, pp_opt_md_val := buf, pp_is_md := True, pp_has_mappeer_data := True\<rparr>))
   }"

text \<open>The system name and the machine of \<open>uname\<close>, as far as they fit.\<close>

definition parse_opt_dev_id :: "string \<times> string \<Rightarrow> pcp_params \<Rightarrow> (int + pcp_params) option" where
  "parse_opt_dev_id sysinfo p = do {
     let sysname_len = length (fst sysinfo);
     let dev_len = int MAX_DEVICE_ID - int sysname_len - 1;
     if dev_len > 0 then do {
       d \<leftarrow> poke 0 (cstr (fst sysinfo)) (pp_app_deviceid p);
       d \<leftarrow> poke sysname_len (cstr '' '') d;
       d \<leftarrow> (if dev_len - int (length (snd sysinfo)) > 0 then poke (sysname_len + 1) (cstr (snd sysinfo)) d else Some d);
       Some (Inr (p\<lparr>pp_app_deviceid := d\<rparr>))
     }
     else Some (Inr p)
   }"

definition parse_opt_location :: "pcp_params \<Rightarrow> (int + pcp_params) option" where
  "parse_opt_location p = do {
     let loc = ''37.4111, -121.9262'';
     l \<leftarrow> poke 0 (take (min MAX_GEO_STR (length loc)) (bytes_of loc)) (pp_app_location p);
     Some (Inr (p\<lparr>pp_app_location := l\<rparr>))
   }"

definition parse_opt_user_id :: "string option \<Rightarrow> pcp_params \<Rightarrow> (int + pcp_params) option" where
  "parse_opt_user_id optarg p = do {
     optarg \<leftarrow> optarg;
     u \<leftarrow> poke 0 (take (MAX_USER_ID - 1) (bytes_of optarg @ replicate (MAX_USER_ID - 1) 0)) (pp_app_userid p);
     u \<leftarrow> poke (MAX_USER_ID - 1) [0] u;
     Some (Inr (p\<lparr>pp_app_userid := u\<rparr>))
   }"

text \<open>
  One option; \<open>allocated\<close> tells whether the \<open>malloc\<close> of \<open>parse_opt_server\<close> succeeds.
\<close>

fun parse_opt :: "string \<times> string \<Rightarrow> bool \<Rightarrow> e_options \<Rightarrow> string option \<Rightarrow> pcp_params \<Rightarrow> (int + pcp_params) option" where
  "parse_opt sysinfo allocated E_help optarg p = Some (Inl 0)"
| "parse_opt sysinfo allocated E_fast_ret optarg p = Some (Inr (p\<lparr>pp_fast_return := True\<rparr>))"
| "parse_opt sysinfo allocated E_server optarg p = Some (Inr (parse_opt_server allocated optarg p))"
| "parse_opt sysinfo allocated E_version optarg p = parse_opt_version optarg p"
| "parse_opt sysinfo allocated E_disdisc optarg p = Some (Inr (p\<lparr>pp_dis_auto_discovery := True\<rparr>))"
| "parse_opt sysinfo allocated E_timeout optarg p = parse_opt_timeout optarg p"
| "parse_opt sysinfo allocated E_int optarg p = Some (Inr (p\<lparr>pp_int_addr := optarg, pp_has_mappeer_data := True\<rparr>))"
| "parse_opt sysinfo allocated E_peer optarg p = Some (Inr (p\<lparr>pp_peer_addr := optarg, pp_has_mappeer_data := True\<rparr>))"
| "parse_opt sysinfo allocated E_ext optarg p = Some (Inr (p\<lparr>pp_ext_addr := optarg, pp_has_mappeer_data := True\<rparr>))"
| "parse_opt sysinfo allocated E_tcp optarg p = Some (Inr (p\<lparr>pp_opt_protocol := 6, pp_has_mappeer_data := True\<rparr>))"
| "parse_opt sysinfo allocated E_udp optarg p = Some (Inr (p\<lparr>pp_opt_protocol := 17, pp_has_mappeer_data := True\<rparr>))"
| "parse_opt sysinfo allocated E_prot optarg p =
     map_option (\<lambda>n. Inr (p\<lparr>pp_opt_protocol := word_of_int n, pp_has_mappeer_data := True\<rparr>)) (arg_number optarg)"
| "parse_opt sysinfo allocated E_lifetime optarg p =
     map_option (\<lambda>n. Inr (p\<lparr>pp_opt_lifetime := word_of_int n\<rparr>)) (arg_number optarg)"
| "parse_opt sysinfo allocated E_dscp_up optarg p =
     map_option (\<lambda>n. Inr (p\<lparr>pp_opt_dscp_up := word_of_int n, pp_opt_flowp := True, pp_has_mappeer_data := True\<rparr>)) (arg_number optarg)"
| "parse_opt sysinfo allocated E_dscp_down optarg p =
     map_option (\<lambda>n. Inr (p\<lparr>pp_opt_dscp_down := word_of_int n, pp_opt_flowp := True, pp_has_mappeer_data := True\<rparr>)) (arg_number optarg)"
| "parse_opt sysinfo allocated E_md_id optarg p =
     map_option (\<lambda>n. Inr (p\<lparr>pp_opt_mdid := word_of_int n, pp_is_md := True, pp_has_mappeer_data := True\<rparr>)) (arg_number optarg)"
| "parse_opt sysinfo allocated E_md_val optarg p = parse_opt_md_val optarg p"
| "parse_opt sysinfo allocated E_dev_id optarg p = parse_opt_dev_id sysinfo p"
| "parse_opt sysinfo allocated E_location optarg p = parse_opt_location p"
| "parse_opt sysinfo allocated E_user_id optarg p = parse_opt_user_id optarg p"
| "parse_opt sysinfo allocated E_filter optarg p =
     Some (Inr (p\<lparr>pp_filter_addr := optarg, pp_opt_filter := True, pp_has_mappeer_data := True\<rparr>))"
| "parse_opt sysinfo allocated E_pfailure optarg p = Some (Inr (p\<lparr>pp_opt_pfailure := True, pp_has_mappeer_data := True\<rparr>))"
| "parse_opt sysinfo allocated E_thirdparty optarg p =
     Some (Inr (p\<lparr>pp_opt_thirdparty_addr := optarg, pp_has_mappeer_data := True\<rparr>))"
| "parse_opt sysinfo allocated E_sadscp_jit optarg p =
     map_option (\<lambda>n. Inr (p\<lparr>pp_jitter_tolerance := word_of_int n, pp_has_sadscp_data := True\<rparr>)) (arg_number optarg)"
| "parse_opt sysinfo allocated E_sadscp_los optarg p =
     map_option (\<lambda>n. Inr (p\<lparr>pp_loss_tolerance := word_of_int n, pp_has_sadscp_data := True\<rparr>)) (arg_number optarg)"
| "parse_opt sysinfo allocated E_sadscp_del optarg p =
     map_option (\<lambda>n. Inr (p\<lparr>pp_delay_tolerance := word_of_int n, pp_has_sadscp_data := True\<rparr>)) (arg_number optarg)"
| "parse_opt sysinfo allocated E_sadscp_app optarg p = Some (Inr (p\<lparr>pp_app_name := optarg, pp_has_sadscp_data := True\<rparr>))"

text \<open>
  What \<open>getopt_long\<close> returned: an option with its argument (by its letter or its name), or \<open>None\<close> for an unknown one; the argument is \<open>NULL\<close> where there is none. \<open>malloc n\<close> is
  the answer for the option number \<open>n\<close>.
\<close>

fun parse_loop :: "string \<times> string \<Rightarrow> (nat \<Rightarrow> bool) \<Rightarrow> nat \<Rightarrow> (e_options \<times> string option) option list \<Rightarrow> pcp_params \<Rightarrow> (int + pcp_params) option" where
  "parse_loop sysinfo malloc n [] p = Some (Inr p)"
| "parse_loop sysinfo malloc n (None # opts) p = Some (Inl 1)"
| "parse_loop sysinfo malloc n (Some (opt, optarg) # opts) p =
     (case parse_opt sysinfo (malloc n) opt optarg p of
        None \<Rightarrow> None
      | Some (Inl status) \<Rightarrow> Some (Inl status)
      | Some (Inr p) \<Rightarrow> parse_loop sysinfo malloc (n + 1) opts p)"

definition params_init :: pcp_params where
  "params_init = \<lparr>pp_hostname = None, pp_int_addr = None, pp_ext_addr = None, pp_peer_addr = None, pp_filter_addr = None, pp_opt_thirdparty_addr = None,
     pp_opt_pfailure = False, pp_opt_filter = False, pp_opt_filter_prefix = 0, pp_opt_dscp_up = 0, pp_opt_dscp_down = 0,
     pp_opt_flowp = False, pp_dis_auto_discovery = False, pp_opt_protocol = 6, pp_opt_lifetime = 900,
     pp_pcp_version = PCP_MAX_SUPPORTED_VERSION, pp_fast_return = False, pp_timeout = 1000, pp_opt_mdid = 0,
     pp_opt_md_val = replicate 256 0, pp_opt_md_val_len = 0, pp_is_md = False, pp_has_sadscp_data = False, pp_delay_tolerance = 3,
     pp_loss_tolerance = 3, pp_jitter_tolerance = 3, pp_app_name = None, pp_app_deviceid = replicate MAX_DEVICE_ID 0,
     pp_app_userid = replicate MAX_USER_ID 0, pp_app_location = replicate MAX_GEO_STR 0, pp_has_mappeer_data = False,
     pp_pcp_servers = []\<rparr>"

definition parse_params :: "string \<times> string \<Rightarrow> (nat \<Rightarrow> bool) \<Rightarrow> nat \<Rightarrow> (e_options \<times> string option) option list \<Rightarrow> (int + pcp_params) option" where
  "parse_params sysinfo malloc argc opts =
     (if argc = 1 then Some (Inl 1)
      else do {
        r \<leftarrow> parse_loop sysinfo malloc 0 opts params_init;
        Some (case r of
            Inl status \<Rightarrow> Inl status
          | Inr p \<Rightarrow>
              if pp_has_mappeer_data p \<and> pp_has_sadscp_data p then Inl 1
              else if \<not> pp_has_mappeer_data p \<and> \<not> pp_has_sadscp_data p then Inl 1
              else Inr p)
      })"

section \<open>Addresses\<close>

text \<open>
  The address objects of \<open>main\<close>; only the first two are cleared at first, the others hold what was on the stack.
\<close>

record app_addrs =
  aa_source :: sockaddr
  aa_destination :: sockaddr
  aa_ext :: sockaddr
  aa_filter :: sockaddr
  aa_thirdparty :: sockaddr

text \<open>\<open>(arg) && (0 != sock_pton(arg, sa))\<close>, with the object afterwards.\<close>

definition read_address :: "(string option \<Rightarrow> string option \<Rightarrow> sockaddr list option) \<Rightarrow> string option \<Rightarrow> sockaddr \<Rightarrow>
    (bool \<times> sockaddr) option" where
  "read_address gai arg sa =
     (if arg = None then Some (False, sa)
      else map_option (\<lambda>(ret, sa'). (ret \<noteq> 0, the sa')) (sock_pton gai arg 128 (Some sa)))"

definition read_filter :: "(string option \<Rightarrow> string option \<Rightarrow> sockaddr list option) \<Rightarrow> pcp_params \<Rightarrow> sockaddr \<Rightarrow>
    (bool \<times> sockaddr \<times> int) option" where
  "read_filter gai p sa =
     (if pp_opt_filter p \<and> pp_filter_addr p \<noteq> None then
        map_option (\<lambda>(ret, sa', prefix). (ret \<noteq> 0, the sa', the prefix))
          (sock_pton_with_prefix gai (pp_filter_addr p) 128 (Some sa) (Some (pp_opt_filter_prefix p)))
      else Some (False, sa, pp_opt_filter_prefix p))"

definition app_addresses :: "(string option \<Rightarrow> string option \<Rightarrow> sockaddr list option) \<Rightarrow> pcp_params \<Rightarrow> app_addrs \<Rightarrow>
    (int + pcp_params \<times> app_addrs) option" where
  "app_addresses gai p stack = do {
     (bad, source) \<leftarrow> read_address gai (pp_int_addr p) (SA_other 0);
     if bad then Some (Inl 1) else do {
     (bad, destination) \<leftarrow> read_address gai (pp_peer_addr p) (SA_other 0);
     if bad then Some (Inl 1) else do {
     (bad, ext) \<leftarrow> read_address gai (pp_ext_addr p) (aa_ext stack);
     if bad then Some (Inl 1)
     else if pp_peer_addr p \<noteq> None \<and> pp_opt_pfailure p then Some (Inl 1)
     else if pp_peer_addr p \<noteq> None \<and> pp_opt_filter p then Some (Inl 1)
     else do {
     (bad, filter_ip, prefix) \<leftarrow> read_filter gai p (aa_filter stack);
     if bad then Some (Inl 1) else do {
     (bad, thirdparty) \<leftarrow> read_address gai (pp_opt_thirdparty_addr p) (aa_thirdparty stack);
     if bad then Some (Inl 1)
     else Some (Inr (p\<lparr>pp_opt_filter_prefix := prefix\<rparr>,
       \<lparr>aa_source = source, aa_destination = destination, aa_ext = ext, aa_filter = filter_ip, aa_thirdparty = thirdparty\<rparr>))
     }}}}}"

section \<open>Calls of the library\<close>

text \<open>The loop over the servers; \<open>sa_s\<close> is what the static object of \<open>Sock_pton\<close> holds.\<close>

fun app_servers :: "(string option \<Rightarrow> string option \<Rightarrow> sockaddr list option) \<Rightarrow> sockaddr \<Rightarrow> (string option \<times> u8) list \<Rightarrow> pcp_ctx \<Rightarrow>
    pcp_ctx option" where
  "app_servers gai sa_s [] c = Some c"
| "app_servers gai sa_s ((server, version) # servers) c =
     (case Sock_pton gai server sa_s of
        None \<Rightarrow> None
      | Some (None, sa_s') \<Rightarrow> app_servers gai (the sa_s') servers c
      | Some (Some sa, sa_s') \<Rightarrow>
          (case pcp_add_server sa version c of
             None \<Rightarrow> None
           | Some (_, c) \<Rightarrow> app_servers gai (the sa_s') servers c))"

text \<open>The options of the flow, in the order of the code.\<close>

definition app_options :: "pcp_params \<Rightarrow> app_addrs \<Rightarrow> fid \<Rightarrow> pcp_ctx \<Rightarrow> pcp_ctx option" where
  "app_options p a f c = do {
     c \<leftarrow> (if pp_opt_flowp p then pcp_flow_set_flowp (Some f) (pp_opt_dscp_up p) (pp_opt_dscp_down p) c else Some c);
     c \<leftarrow> (if pp_is_md p then pcp_flow_add_md (Some f) (pp_opt_mdid p) (Some (take (pp_opt_md_val_len p) (pp_opt_md_val p))) c else Some c);
     c \<leftarrow> (if pp_app_deviceid p ! 0 \<noteq> 0 then map_option snd (pcp_flow_set_deviceid (Some f) (pp_app_deviceid p) c) else Some c);
     c \<leftarrow> (if pp_app_location p ! 0 \<noteq> 0 then map_option snd (pcp_flow_set_location (Some f) (pp_app_location p) c) else Some c);
     c \<leftarrow> (if pp_app_userid p ! 0 \<noteq> 0 then map_option snd (pcp_flow_set_userid (Some f) (pp_app_userid p) c) else Some c);
     c \<leftarrow> (if pp_opt_filter p then pcp_flow_set_filter_opt (Some f) (aa_filter a) (word_of_int (pp_opt_filter_prefix p)) c else Some c);
     c \<leftarrow> (if pp_opt_pfailure p then pcp_flow_set_prefer_failure_opt (Some f) c else Some c);
     if pp_opt_thirdparty_addr p \<noteq> None then pcp_flow_set_3rd_party_opt (Some f) (aa_thirdparty a) c else Some c
   }"

text \<open>The creation of the flow; \<open>Inl\<close> is an exit, with its status. The user data is the context, here 0.\<close>

definition app_flow :: "pcp_params \<Rightarrow> app_addrs \<Rightarrow> pcp_ctx \<Rightarrow> ((int + fid option) \<times> pcp_ctx) option" where
  "app_flow p a c =
     (if pp_has_mappeer_data p then do {
        (flow, c) \<leftarrow> pcp_new_flow (Some (aa_source a)) (Some (aa_destination a))
          (if pp_ext_addr p \<noteq> None then Some (aa_ext a) else None) (pp_opt_protocol p) (pp_opt_lifetime p) 0 c;
        (case flow of
           None \<Rightarrow> Some (Inl 1, c)
         | Some f \<Rightarrow> do { c \<leftarrow> app_options p a f c; Some (Inr (Some f), c) })
      }
      else if pp_has_sadscp_data p then do {
        (flow, c) \<leftarrow> pcp_learn_dscp (pp_delay_tolerance p) (pp_loss_tolerance p) (pp_jitter_tolerance p)
          (map_option bytes_of (pp_app_name p)) c;
        Some (Inr flow, c)
      }
      else Some (Inr None, c))"

section \<open>Results\<close>

fun decode_fresult :: "pcp_fstate_e \<Rightarrow> string" where
  "decode_fresult pcp_state_short_lifetime_error = ''slerr''"
| "decode_fresult pcp_state_succeeded = ''succ''"
| "decode_fresult pcp_state_failed = ''fail''"
| "decode_fresult _ = ''proc''"

abbreviation newline :: string where "newline \<equiv> [char_of (10 :: nat)]"

definition signaling :: "string \<Rightarrow> string" where
  "signaling s = newline @ ''Flow signaling '' @ s @ newline"

text \<open>The loop of \<open>check_flow_info\<close>: the status, and the text that is printed.\<close>

fun check_infos :: "pcp_flow_info list \<Rightarrow> int \<times> string" where
  "check_infos [] = (2, '''')"
| "check_infos (i # is) =
     (case i_result i of
        pcp_state_succeeded \<Rightarrow> (0, signaling ''succeeded.'')
      | pcp_state_short_lifetime_error \<Rightarrow> (3, signaling ''failed. Short lifetime error received.'')
      | pcp_state_failed \<Rightarrow> (4, signaling ''failed.'')
      | _ \<Rightarrow> check_infos is)"

definition check_flow_info :: "fid option \<Rightarrow> pcp_ctx \<Rightarrow> (int \<times> string) result" where
  "check_flow_info f c = do {
     (info, c) \<leftarrow> pcp_flow_get_info f c;
     Some (check_infos (case info of None \<Rightarrow> [] | Some is \<Rightarrow> is), c)
   }"

text \<open>Columns of \<open>printf\<close>: \<open>%-20s\<close> and \<open>%5s\<close>.\<close>

definition left_col :: "nat \<Rightarrow> string \<Rightarrow> string" where
  "left_col n s = s @ replicate (n - length s) (CHR '' '')"

definition right_col :: "nat \<Rightarrow> string \<Rightarrow> string" where
  "right_col n s = replicate (n - length s) (CHR '' '') @ s"

definition ends_text :: "(int \<Rightarrow> string) \<Rightarrow> pcp_flow_info \<Rightarrow> string" where
  "ends_text ctime i = (if i_recv_lifetime_end i = 0 then '' -'' @ newline else ctime (i_recv_lifetime_end i))"

definition ext_addr_row :: "(in6_addr \<Rightarrow> string) \<Rightarrow> (int \<Rightarrow> string) \<Rightarrow> pcp_flow_info \<Rightarrow> string" where
  "ext_addr_row ntop ctime i =
     left_col 20 (ntop (i_pcp_server_ip i)) @ '' '' @
     left_col 4 (if i_protocol i = 6 then ''TCP'' else if i_protocol i = 17 then ''UDP'' else ''UNK'') @ '' '' @
     left_col 20 (ntop (i_int_ip i)) @ '' '' @ right_col 5 (decimal (unat (ntohs (i_int_port i)))) @ ''   '' @
     left_col 20 (ntop (i_dst_ip i)) @ '' '' @ right_col 5 (decimal (unat (ntohs (i_dst_port i)))) @ ''   '' @
     left_col 20 (ntop (i_ext_ip i)) @ '' '' @ right_col 5 (decimal (unat (ntohs (i_ext_port i)))) @ '' '' @
     right_col 3 (decimal (unat (i_pcp_result_code i))) @ '' '' @ right_col 5 (decode_fresult (i_result i)) @ '' '' @
     ends_text ctime i"

definition ext_addr_head :: string where
  "ext_addr_head =
     left_col 20 ''PCP Server IP'' @ '' '' @ left_col 4 ''Prot'' @ '' '' @ left_col 20 ''Int. IP'' @ '' '' @ right_col 5 ''port'' @ ''   '' @
     left_col 20 ''Dst. IP'' @ '' '' @ right_col 5 ''port'' @ ''   '' @ left_col 20 ''Ext. IP'' @ '' '' @ right_col 5 ''port'' @ '' '' @
     right_col 3 ''Res'' @ '' '' @ right_col 5 ''State'' @ '' '' @ ''Ends'' @ newline"

definition print_ext_addr :: "(in6_addr \<Rightarrow> string) \<Rightarrow> (int \<Rightarrow> string) \<Rightarrow> fid option \<Rightarrow> pcp_ctx \<Rightarrow> string list result" where
  "print_ext_addr ntop ctime f c = do {
     (info, c) \<leftarrow> pcp_flow_get_info f c;
     Some (ext_addr_head # map (ext_addr_row ntop ctime) (case info of None \<Rightarrow> [] | Some is \<Rightarrow> is), c)
   }"

definition dscp_row :: "(in6_addr \<Rightarrow> string) \<Rightarrow> (int \<Rightarrow> string) \<Rightarrow> pcp_flow_info \<Rightarrow> string" where
  "dscp_row ntop ctime i =
     left_col 20 (ntop (i_int_ip i)) @ '' '' @ right_col 5 (decimal (unat (i_learned_dscp i))) @ '' '' @
     right_col 3 (decimal (unat (i_pcp_result_code i))) @ '' '' @ right_col 5 (decode_fresult (i_result i)) @ '' '' @
     ends_text ctime i"

definition dscp_head :: string where
  "dscp_head = left_col 20 ''Int. IP'' @ '' '' @ right_col 5 ''DSCP'' @ '' '' @ right_col 3 ''Res'' @ '' '' @ right_col 5 ''State'' @ '' '' @
     ''Ends'' @ newline"

definition print_get_dscp :: "(in6_addr \<Rightarrow> string) \<Rightarrow> (int \<Rightarrow> string) \<Rightarrow> fid option \<Rightarrow> pcp_ctx \<Rightarrow> string list result" where
  "print_get_dscp ntop ctime f c = do {
     (info, c) \<leftarrow> pcp_flow_get_info f c;
     Some (dscp_head # map (dscp_row ntop ctime) (case info of None \<Rightarrow> [] | Some is \<Rightarrow> is), c)
   }"

text \<open>The switch over the result of \<open>pcp_wait\<close>.\<close>

definition app_status :: "pcp_fstate_e \<Rightarrow> fid option \<Rightarrow> pcp_ctx \<Rightarrow> (int \<times> string) result" where
  "app_status r f c =
     (case r of
        pcp_state_processing \<Rightarrow> Some ((2, signaling ''timed out.''), c)
      | pcp_state_succeeded \<Rightarrow> Some ((0, signaling ''succeeded.''), c)
      | pcp_state_short_lifetime_error \<Rightarrow> Some ((3, signaling ''failed. Short lifetime error received.''), c)
      | pcp_state_failed \<Rightarrow> Some ((4, signaling ''failed.''), c)
      | pcp_state_partial_result \<Rightarrow> check_flow_info f c)"

section \<open>The program\<close>

text \<open>
  What the program gets from outside: the resolver, the texts of addresses and times, the system name, the success of
  allocations for the list of servers and of the socket, the gateways of the host and the contents
  of the stack.
\<close>

record app_env =
  ae_gai :: "string option \<Rightarrow> string option \<Rightarrow> sockaddr list option"
  ae_ntop :: "in6_addr \<Rightarrow> string"
  ae_ctime :: "int \<Rightarrow> string"
  ae_sysinfo :: "string \<times> string"
  ae_malloc :: "nat \<Rightarrow> bool"
  ae_socket :: bool
  ae_gws :: "(in6_addr \<times> u32) list"
  ae_stack :: app_addrs

text \<open>From the wait to the end. The result is the exit status, the output and the context.\<close>

definition app_finish :: "app_env \<Rightarrow> pcp_params \<Rightarrow> fid option \<Rightarrow> pcp_ctx \<Rightarrow> (int \<times> string list \<times> pcp_ctx) option" where
  "app_finish env p flow c = do {
     (r, c) \<leftarrow> pcp_wait flow (sint (pp_timeout p)) (pp_fast_return p) c;
     ((ret_val, text), c) \<leftarrow> app_status r flow c;
     (ext, c) \<leftarrow> (if pp_has_mappeer_data p then print_ext_addr (ae_ntop env) (ae_ctime env) flow c else Some ([], c));
     (dscp, c) \<leftarrow> (if pp_has_sadscp_data p then print_get_dscp (ae_ntop env) (ae_ctime env) flow c else Some ([], c));
     c \<leftarrow> pcp_terminate False c;
     Some (ret_val, text # ext @ dscp @ [newline], c)
   }"

text \<open>
  From \<open>pcp_init\<close> on. Without a context \<open>pcp_new_flow\<close> returns the null pointer, but \<open>pcp_learn_dscp\<close> runs into an assertion.
\<close>

definition app_session :: "app_env \<Rightarrow> pcp_params \<Rightarrow> app_addrs \<Rightarrow> pcp_ctx \<Rightarrow> (int \<times> string list \<times> pcp_ctx) option" where
  "app_session env p a w = do {
     (ok, c) \<leftarrow> pcp_init (\<not> pp_dis_auto_discovery p) (ae_socket env) (ae_gws env) w;
     if \<not> ok then (if pp_has_mappeer_data p then Some (1, [], c) else None)
     else do {
       c \<leftarrow> app_servers (ae_gai env) (SA_other 0) (pp_pcp_servers p) c;
       (r, c) \<leftarrow> app_flow p a c;
       (case r of
          Inl status \<Rightarrow> Some (status, [], c)
        | Inr flow \<Rightarrow> app_finish env p flow c)
     }
   }"

definition app_main :: "app_env \<Rightarrow> nat \<Rightarrow> (e_options \<times> string option) option list \<Rightarrow> pcp_ctx \<Rightarrow> (int \<times> string list \<times> pcp_ctx) option" where
  "app_main env argc opts w = do {
     r \<leftarrow> parse_params (ae_sysinfo env) (ae_malloc env) argc opts;
     (case r of
        Inl status \<Rightarrow> Some (status, [], w)
      | Inr p \<Rightarrow> do {
          r \<leftarrow> app_addresses (ae_gai env) p (ae_stack env);
          (case r of
             Inl status \<Rightarrow> Some (status, [], w)
           | Inr (p, a) \<Rightarrow> app_session env p a w)
        })
   }"

section \<open>Command lines\<close>

text \<open>
  What the rest of the program relies on, and the numbers that \<open>atoi\<close> can represent.
\<close>

definition params_ok :: "pcp_params \<Rightarrow> bool" where
  "params_ok p \<longleftrightarrow> length (pp_opt_md_val p) = 256 \<and> pp_opt_md_val_len p \<le> 256 \<and> length (pp_app_deviceid p) = MAX_DEVICE_ID \<and>
     length (pp_app_userid p) = MAX_USER_ID \<and> pp_app_userid p ! (MAX_USER_ID - 1) = 0 \<and> length (pp_app_location p) = MAX_GEO_STR \<and>
     pp_pcp_version p \<le> PCP_MAX_SUPPORTED_VERSION \<and> (\<forall>sv\<in>set (pp_pcp_servers p). snd sv \<le> PCP_MAX_SUPPORTED_VERSION)"

definition number_fits :: "e_options \<times> string option \<Rightarrow> bool" where
  "number_fits oa \<longleftrightarrow>
     (fst oa \<in> {E_version, E_prot, E_lifetime, E_dscp_up, E_dscp_down, E_md_id, E_sadscp_jit, E_sadscp_los, E_sadscp_del} \<longrightarrow>
        arg_number (snd oa) \<noteq> None) \<and>
     (fst oa = E_user_id \<longrightarrow> snd oa \<noteq> None) \<and>
     (fst oa = E_timeout \<longrightarrow> (\<exists>n. arg_number (snd oa) = Some n \<and> - (2 ^ 31) \<le> n * 1000 \<and> n * 1000 < 2 ^ 31))"

lemma poke_fits: "off + length bs \<le> length buf \<Longrightarrow> \<exists>b. poke off bs buf = Some b \<and> length b = length buf"
  by (auto simp: poke_def)

lemma length_bytes [simp]: "length (bytes_of s) = length s" "length (cstr s) = Suc (length s)"
  by (simp_all add: bytes_of_def cstr_def)

definition parsed :: "(int + pcp_params) option \<Rightarrow> bool" where
  "parsed r \<longleftrightarrow> (\<exists>s. r = Some (Inl s) \<and> s \<in> {0, 1}) \<or> (\<exists>p. r = Some (Inr p) \<and> params_ok p)"

lemma dev_id_parsed: "params_ok p \<Longrightarrow> parsed (parse_opt_dev_id sysinfo p)"
proof -
  assume ok: "params_ok p"
  let ?n = "length (fst sysinfo)"
  show ?thesis
  proof (cases "int MAX_DEVICE_ID - int ?n - 1 > 0")
    case True
    then have n: "?n + 2 \<le> MAX_DEVICE_ID" by simp
    obtain d where d: "poke 0 (cstr (fst sysinfo)) (pp_app_deviceid p) = Some d" "length d = MAX_DEVICE_ID"
      using poke_fits [of 0 "cstr (fst sysinfo)" "pp_app_deviceid p"] ok n by (auto simp: params_ok_def)
    obtain e where e: "poke ?n (cstr '' '') d = Some e" "length e = MAX_DEVICE_ID"
      using poke_fits [of ?n "cstr '' ''" d] d(2) n by auto
    have "\<exists>g. (if int MAX_DEVICE_ID - int ?n - 1 - int (length (snd sysinfo)) > 0 then poke (?n + 1) (cstr (snd sysinfo)) e else Some e) =
        Some g \<and> length g = MAX_DEVICE_ID"
      using poke_fits [of "?n + 1" "cstr (snd sysinfo)" e] e(2) by auto
    with True d(1) e(1) ok show ?thesis by (auto simp: parse_opt_dev_id_def parsed_def params_ok_def)
  next
    case False
    then show ?thesis using ok by (simp add: parse_opt_dev_id_def parsed_def)
  qed
qed

lemma md_val_parsed: "params_ok p \<Longrightarrow> parsed (parse_opt_md_val optarg p)"
proof -
  let ?s = "case optarg of None \<Rightarrow> [] | Some s \<Rightarrow> s"
  show "params_ok p \<Longrightarrow> parsed (parse_opt_md_val optarg p)"
    using poke_fits [of 0 "take (if length ?s > 256 then 256 else length ?s) (bytes_of ?s)" "pp_opt_md_val p"]
    by (auto simp: parse_opt_md_val_def parsed_def params_ok_def Let_def)
qed

lemma location_parsed: "params_ok p \<Longrightarrow> parsed (parse_opt_location p)"
  by (simp add: parse_opt_location_def parsed_def params_ok_def poke_def)

lemma user_id_parsed: "params_ok p \<Longrightarrow> s \<noteq> None \<Longrightarrow> parsed (parse_opt_user_id s p)"
  by (cases s) (simp_all add: parse_opt_user_id_def parsed_def params_ok_def poke_def nth_append)

lemma parse_opt_parsed:
  assumes "params_ok p" "number_fits (opt, s)"
  shows "parsed (parse_opt sysinfo allocated opt s p)"
proof (cases opt)
  case E_server
  then show ?thesis using assms by (simp add: parsed_def params_ok_def parse_opt_server_def)
next
  case E_version
  then obtain n where "arg_number s = Some n" using assms(2) by (auto simp: number_fits_def)
  then show ?thesis using E_version assms(1)
    by (cases "PCP_MAX_SUPPORTED_VERSION < (word_of_int n :: u8)") (auto simp: parsed_def params_ok_def parse_opt_version_def)
next
  case E_timeout
  then show ?thesis using assms by (auto simp: parsed_def params_ok_def parse_opt_timeout_def number_fits_def)
next
  case E_md_val
  then show ?thesis using md_val_parsed assms by simp
next
  case E_dev_id
  then show ?thesis using dev_id_parsed assms by simp
next
  case E_location
  then show ?thesis using location_parsed assms by simp
next
  case E_user_id
  then show ?thesis using user_id_parsed assms by (simp add: number_fits_def)
qed (use assms in \<open>auto simp: parsed_def params_ok_def number_fits_def\<close>)

lemma parse_loop_parsed:
  "params_ok p \<Longrightarrow> \<forall>oa. Some oa \<in> set opts \<longrightarrow> number_fits oa \<Longrightarrow> parsed (parse_loop sysinfo malloc n opts p)"
proof (induction sysinfo malloc n opts p rule: parse_loop.induct)
  case (3 sysinfo malloc n opt s opts p)
  have "parsed (parse_opt sysinfo (malloc n) opt s p)" using 3(2,3) by (intro parse_opt_parsed) auto
  with 3 show ?case by (fastforce simp: parsed_def)
qed (simp_all add: parsed_def)

lemma parse_params_cases:
  assumes "parsed (parse_loop sysinfo malloc 0 opts params_init)"
  shows "(\<exists>status. parse_params sysinfo malloc argc opts = Some (Inl status) \<and> status \<in> {0, 1}) \<or>
    (\<exists>p. parse_params sysinfo malloc argc opts = Some (Inr p) \<and> params_ok p \<and> pp_has_mappeer_data p \<noteq> pp_has_sadscp_data p)"
proof -
  from assms consider status where "parse_loop sysinfo malloc 0 opts params_init = Some (Inl status)" "status \<in> {0, 1}"
    | p where "parse_loop sysinfo malloc 0 opts params_init = Some (Inr p)" "params_ok p" by (auto simp: parsed_def)
  then show ?thesis by cases (simp_all add: parse_params_def)
qed

lemma params_init_ok: "params_ok params_init"
  by (simp add: params_ok_def params_init_def)

text \<open>C25: command lines. For every list of options, in any order and repetition, whose numbers are there and fit an \<open>int\<close>, for every system name of the
  host and every success of allocations, parsing ends: with exit status 0 or 1, or with parameters for
  exactly one of the two kinds of requests, in which every array has its length (so nothing was written past
  an array, however long the arguments are), the user id is terminated and no protocol version above the
  maximal one is asked for.\<close>

theorem client_options_checked:
  assumes "\<forall>oa. Some oa \<in> set opts \<longrightarrow> number_fits oa"
  shows "(\<exists>status. parse_params sysinfo malloc argc opts = Some (Inl status) \<and> status \<in> {0, 1}) \<or>
    (\<exists>p. parse_params sysinfo malloc argc opts = Some (Inr p) \<and> params_ok p \<and> pp_has_mappeer_data p \<noteq> pp_has_sadscp_data p)"
  by (rule parse_params_cases [OF parse_loop_parsed [OF params_init_ok assms]])

theorem client_options_checked_witness:
  "\<exists>p. parse_params (''Linux'', ''x86_64'') (\<lambda>_. True) 3 [Some (E_server, Some ''10.0.0.1''), Some (E_prot, Some ''17'')] = Some (Inr p) \<and>
     params_ok p \<and> pp_has_mappeer_data p"
proof -
  let ?o = "[Some (E_server, Some ''10.0.0.1''), Some (E_prot, Some ''17'')]"
  have seventeen: "atoi ''17'' = Some 17" by code_simp
  have "number_fits (E_server, Some ''10.0.0.1'')" "number_fits (E_prot, Some ''17'')" by (simp_all add: number_fits_def arg_number_def seventeen)
  then have fit: "\<forall>oa. Some oa \<in> set ?o \<longrightarrow> number_fits oa" by simp
  have "\<not> pp_has_sadscp_data params_init" by (simp add: params_init_def)
  then obtain p where p: "parse_params (''Linux'', ''x86_64'') (\<lambda>_. True) 3 ?o = Some (Inr p)" "pp_has_mappeer_data p"
    using seventeen by (simp add: parse_params_def parse_opt_server_def arg_number_def)
  from client_options_checked [OF fit, of "(''Linux'', ''x86_64'')" "\<lambda>_. True" 3, unfolded p(1)] p show ?thesis by simp
qed

end
