(* ===== verification/Client_Runs.thy ===== *)
theory Client_Runs
  imports Client_App Terminate
begin

text \<open>
  Runs of the command line client: the session with the library returns, with a status that tells the state of the flows,
  and leaves nothing behind.
\<close>

section \<open>Sessions\<close>

text \<open>
  The servers can be registered one after the other, in the sense of \<open>permitted\<close>.
\<close>

fun servers_permitted :: "(string option \<Rightarrow> string option \<Rightarrow> sockaddr list option) \<Rightarrow> sockaddr \<Rightarrow> (string option \<times> u8) list \<Rightarrow> pcp_ctx \<Rightarrow> bool" where
  "servers_permitted gai sa_s [] c \<longleftrightarrow> True"
| "servers_permitted gai sa_s ((server, version) # servers) c \<longleftrightarrow>
     (case Sock_pton gai server sa_s of
        None \<Rightarrow> False
      | Some (None, sa_s') \<Rightarrow> servers_permitted gai (the sa_s') servers c
      | Some (Some sa, sa_s') \<Rightarrow> permitted (Add_server sa version) c \<and>
          (\<forall>r c'. pcp_add_server sa version c = Some (r, c') \<longrightarrow> servers_permitted gai (the sa_s') servers c'))"

lemma app_servers_runs:
  "api_inv c \<Longrightarrow> servers_permitted gai sa_s servers c \<Longrightarrow> runs (app_servers gai sa_s servers c) api_inv"
proof (induction gai sa_s servers c rule: app_servers.induct)
  case (2 gai sa_s server version servers c)
  obtain ret sa_s' where s: "Sock_pton gai server sa_s = Some (ret, sa_s')"
    using 2(4) by (auto split: option.splits)
  show ?case
  proof (cases ret)
    case None
    then show ?thesis using 2 s by simp
  next
    case (Some sa)
    then have "permitted (Add_server sa version) c" using 2(4) s by simp
    from add_server_runs [OF 2(3) this] obtain r c1 where c1: "pcp_add_server sa version c = Some (r, c1)" "api_inv c1"
      by (auto elim!: runsE)
    moreover have "servers_permitted gai (the sa_s') servers c1" using 2(4) s Some c1(1) by simp
    ultimately show ?thesis using 2(2) [OF s refl Some c1(1) refl] s Some by simp
  qed
qed simp

text \<open>A call that keeps a handle, made or not.\<close>

lemma optional_call:
  assumes "m = api_run call c" "api_inv c \<and> handle c f" "permitted call c" "\<not> runs_machines call" "deleted_by call = None"
  shows "runs (if b then m else Some c) (\<lambda>c'. api_inv c' \<and> handle c' f)"
proof (cases b)
  case True
  have "runs (api_run call c) (\<lambda>c'. api_inv c' \<and> (\<forall>q. handle c q \<and> deleted_by call \<noteq> Some q \<longrightarrow> handle c' q))"
    using assms by (intro api_run_total) auto
  then show ?thesis unfolding if_P [OF True] assms(1) by (rule runs_mono) (use assms in auto)
qed (use assms in simp)

lemma app_options_runs:
  assumes "api_inv c \<and> handle c f" "params_ok p"
  shows "runs (app_options p a f c) (\<lambda>c'. api_inv c' \<and> handle c' f)"
proof -
  let ?I = "\<lambda>c. api_inv c \<and> handle c f"
  have len: "length (pp_app_deviceid p) = MAX_DEVICE_ID" "length (pp_app_userid p) = MAX_USER_ID" "length (pp_app_location p) = MAX_GEO_STR"
    using assms(2) by (simp_all add: params_ok_def)
  have steps: "?I c \<Longrightarrow> runs (if b then pcp_flow_set_flowp (Some f) up down c else Some c) ?I"
    "?I c \<Longrightarrow> runs (if b then pcp_flow_add_md (Some f) i v c else Some c) ?I"
    "?I c \<Longrightarrow> runs (if b then map_option snd (pcp_flow_set_deviceid (Some f) (pp_app_deviceid p) c) else Some c) ?I"
    "?I c \<Longrightarrow> runs (if b then map_option snd (pcp_flow_set_location (Some f) (pp_app_location p) c) else Some c) ?I"
    "?I c \<Longrightarrow> runs (if b then map_option snd (pcp_flow_set_userid (Some f) (pp_app_userid p) c) else Some c) ?I"
    "?I c \<Longrightarrow> runs (if b then pcp_flow_set_filter_opt (Some f) addr prefix c else Some c) ?I"
    "?I c \<Longrightarrow> runs (if b then pcp_flow_set_prefer_failure_opt (Some f) c else Some c) ?I"
    "?I c \<Longrightarrow> runs (if b then pcp_flow_set_3rd_party_opt (Some f) addr c else Some c) ?I" for c b up down i v addr prefix
    using len by (simp_all only: optional_call [of _ "Set_flowp f up down"] optional_call [of _ "Add_md f i v"]
      optional_call [of _ "Set_deviceid f (pp_app_deviceid p)"] optional_call [of _ "Set_location f (pp_app_location p)"]
      optional_call [of _ "Set_userid f (pp_app_userid p)"] optional_call [of _ "Set_filter_opt f addr prefix"]
      optional_call [of _ "Set_prefer_failure_opt f"] optional_call [of _ "Set_3rd_party_opt f addr"]
      api_run.simps permitted.simps runs_machines.simps deleted_by.simps simp_thms)
  show ?thesis
    unfolding app_options_def
    by (rule runs_bind [OF steps(1) [OF assms(1)]], rule runs_bind [OF steps(2)], assumption, rule runs_bind [OF steps(3)], assumption,
        rule runs_bind [OF steps(4)], assumption, rule runs_bind [OF steps(5)], assumption, rule runs_bind [OF steps(6)], assumption,
        rule runs_bind [OF steps(7)], assumption, rule steps(8), assumption)
qed

lemma app_flow_runs:
  assumes inv: "api_inv c" and p: "params_ok p"
    and key: "pp_has_mappeer_data p \<Longrightarrow> requested_key (aa_source a) (Some (aa_destination a)) (pp_opt_protocol p) c \<noteq> None"
  shows "runs (app_flow p a c) (\<lambda>(r, c'). api_inv c' \<and> (r = Inl 1 \<or> (\<exists>flow. r = Inr flow \<and> (\<forall>f. flow = Some f \<longrightarrow> handle c' f))))"
proof (cases "pp_has_mappeer_data p")
  case True
  from new_flow_handle [OF inv key [OF True], of "if pp_ext_addr p \<noteq> None then Some (aa_ext a) else None" "pp_opt_lifetime p" 0]
  obtain fp c1 where c1: "pcp_new_flow (Some (aa_source a)) (Some (aa_destination a)) (if pp_ext_addr p \<noteq> None then Some (aa_ext a) else None)
      (pp_opt_protocol p) (pp_opt_lifetime p) 0 c = Some (fp, c1)" "api_inv c1" "\<forall>f. fp = Some f \<longrightarrow> handle c1 f" by (auto elim!: runsE)
  show ?thesis
  proof (cases fp)
    case None
    then show ?thesis using True c1 by (simp add: app_flow_def)
  next
    case (Some f)
    from app_options_runs [OF _ p, of c1 f a] c1 Some obtain c2 where "app_options p a f c1 = Some c2" "api_inv c2" "handle c2 f"
      by (auto elim!: runsE)
    then show ?thesis using True c1(1) Some by (simp add: app_flow_def)
  qed
next
  case False
  from pcp_learn_dscp_creates [OF inv, of "pp_delay_tolerance p" "pp_loss_tolerance p" "pp_jitter_tolerance p" "map_option bytes_of (pp_app_name p)"]
  obtain fp c1 where "pcp_learn_dscp (pp_delay_tolerance p) (pp_loss_tolerance p) (pp_jitter_tolerance p) (map_option bytes_of (pp_app_name p)) c =
      Some (fp, c1)" "api_inv c1" "\<forall>f. fp = Some f \<longrightarrow> handle c1 f" unfolding new_flows_def by blast
  then show ?thesis using False inv by (simp add: app_flow_def)
qed

section \<open>The exit status\<close>

lemma check_infos_status:
  "fst (check_infos is) \<in> {0, 2, 3, 4} \<and> (fst (check_infos is) = 0 \<longrightarrow> (\<exists>i\<in>set is. i_result i = pcp_state_succeeded))"
  by (induction "is") (auto split: pcp_fstate_e.splits)

lemma info_kids:
  assumes "kids (c_heap c) flow xs"
  shows "\<exists>is n. pcp_flow_get_info flow c = Some (is, c\<lparr>w_alloc_i := n\<rparr>) \<and>
    (\<forall>i\<in>set (case is of None \<Rightarrow> [] | Some is \<Rightarrow> is). \<exists>q\<in>set xs. i = flow_info (the (c_heap c q)))"
  using pcp_flow_get_info_core [OF assms] by (intro exI conjI) (auto split: if_splits)

text \<open>What is printed and freed after the wait.\<close>

lemma app_status_runs:
  assumes "kids (c_heap c) flow xs"
  shows "\<exists>status text n. app_status r flow c = Some ((status, text), c\<lparr>w_alloc_i := n\<rparr>) \<and> status \<in> {0, 2, 3, 4} \<and>
    (status = 0 \<longrightarrow> r = pcp_state_succeeded \<or>
       r = pcp_state_partial_result \<and> (\<exists>q\<in>set xs. i_result (flow_info (the (c_heap c q))) = pcp_state_succeeded))"
proof -
  have self: "\<exists>n. c = c\<lparr>w_alloc_i := n\<rparr>" by (rule exI [of _ "w_alloc_i c"]) simp
  obtain "is" n where i: "pcp_flow_get_info flow c = Some (is, c\<lparr>w_alloc_i := n\<rparr>)"
    "\<forall>i\<in>set (case is of None \<Rightarrow> [] | Some is \<Rightarrow> is). \<exists>q\<in>set xs. i = flow_info (the (c_heap c q))" using info_kids [OF assms] by blast
  obtain st tx where ci: "check_infos (case is of None \<Rightarrow> [] | Some is \<Rightarrow> is) = (st, tx)" by fastforce
  with check_infos_status [of "case is of None \<Rightarrow> [] | Some is \<Rightarrow> is"]
  have st: "st \<in> {0, 2, 3, 4}" "st = 0 \<longrightarrow> (\<exists>i\<in>set (case is of None \<Rightarrow> [] | Some is \<Rightarrow> is). i_result i = pcp_state_succeeded)" by auto
  show ?thesis
  proof (cases r)
    case pcp_state_partial_result
    have "app_status r flow c = Some ((st, tx), c\<lparr>w_alloc_i := n\<rparr>)"
      using pcp_state_partial_result i(1) ci by (simp add: app_status_def check_flow_info_def)
    moreover have "\<exists>q\<in>set xs. i_result (flow_info (the (c_heap c q))) = pcp_state_succeeded" if "st = 0"
      using st(2) i(2) that by metis
    ultimately show ?thesis using st(1) pcp_state_partial_result by (intro exI [of _ st] exI [of _ tx] exI [of _ n]) simp
  qed (use self in \<open>auto simp: app_status_def\<close>)
qed

lemma print_runs:
  assumes "kids (c_heap c) flow xs"
  shows "\<exists>rows n. (if b then print_ext_addr ntop ctime flow c else Some ([], c)) = Some (rows, c\<lparr>w_alloc_i := n\<rparr>)"
    "\<exists>rows n. (if b then print_get_dscp ntop ctime flow c else Some ([], c)) = Some (rows, c\<lparr>w_alloc_i := n\<rparr>)"
proof -
  have self: "\<exists>rows n. Some ([] :: string list, c) = Some (rows, c\<lparr>w_alloc_i := n\<rparr>)"
    by (intro exI [of _ "[]"] exI [of _ "w_alloc_i c"]) simp
  obtain "is" n where "pcp_flow_get_info flow c = Some (is, c\<lparr>w_alloc_i := n\<rparr>)" using info_kids [OF assms] by blast
  then have "\<exists>rows n. print_ext_addr ntop ctime flow c = Some (rows, c\<lparr>w_alloc_i := n\<rparr>)"
    "\<exists>rows n. print_get_dscp ntop ctime flow c = Some (rows, c\<lparr>w_alloc_i := n\<rparr>)"
    unfolding print_ext_addr_def print_get_dscp_def by (simp_all, blast+)
  with self show "\<exists>rows n. (if b then print_ext_addr ntop ctime flow c else Some ([], c)) = Some (rows, c\<lparr>w_alloc_i := n\<rparr>)"
    "\<exists>rows n. (if b then print_get_dscp ntop ctime flow c else Some ([], c)) = Some (rows, c\<lparr>w_alloc_i := n\<rparr>)"
    by (cases b; simp only: if_True if_False)+
qed

lemma app_finish_runs:
  assumes inv: "ctx_inv c1" and w: "pcp_wait flow (sint (pp_timeout p)) (pp_fast_return p) c = Some (r, c1)"
    and k: "kids (c_heap c1) flow xs"
  shows "\<exists>status out c'. app_finish env p flow c = Some (status, out, c') \<and> status \<in> {0, 2, 3, 4} \<and> db_flows c' = {} \<and> c_pcp_servers c' = [] \<and>
    (\<exists>n text. app_status r flow c1 = Some ((status, text), c1\<lparr>w_alloc_i := n\<rparr>))"
proof -
  from app_status_runs [OF k, of r] obtain status t n where
    s: "app_status r flow c1 = Some ((status, t), c1\<lparr>w_alloc_i := n\<rparr>)" "status \<in> {0, 2, 3, 4}" by blast
  from print_runs(1) [of "c1\<lparr>w_alloc_i := n\<rparr>" flow xs "pp_has_mappeer_data p" "ae_ntop env" "ae_ctime env"] k obtain ext m where
    e: "(if pp_has_mappeer_data p then print_ext_addr (ae_ntop env) (ae_ctime env) flow (c1\<lparr>w_alloc_i := n\<rparr>)
         else Some ([], c1\<lparr>w_alloc_i := n\<rparr>)) = Some (ext, c1\<lparr>w_alloc_i := m\<rparr>)" by auto
  from print_runs(2) [of "c1\<lparr>w_alloc_i := m\<rparr>" flow xs "pp_has_sadscp_data p" "ae_ntop env" "ae_ctime env"] k obtain dscp l where
    d: "(if pp_has_sadscp_data p then print_get_dscp (ae_ntop env) (ae_ctime env) flow (c1\<lparr>w_alloc_i := m\<rparr>)
         else Some ([], c1\<lparr>w_alloc_i := m\<rparr>)) = Some (dscp, c1\<lparr>w_alloc_i := l\<rparr>)" by auto
  have "ctx_inv (c1\<lparr>w_alloc_i := l\<rparr>)" using inv by simp
  then have "db_inv (c1\<lparr>w_alloc_i := l\<rparr>)" by (simp only: ctx_inv_def)
  from pcp_terminate_core [OF this] obtain c' where c': "pcp_terminate False (c1\<lparr>w_alloc_i := l\<rparr>) = Some c'" "db_flows c' = {}" "c_pcp_servers c' = []"
    by blast
  have "app_finish env p flow c = Some (status, t # ext @ dscp @ [newline], c')"
    unfolding app_finish_def w bind.simps prod.case s(1) e d c'(1) ..
  with s c' show ?thesis by blast
qed

lemma succeeded_state:
  assumes "api_inv c1" "kids (c_heap c1) (Some f) xs" "app_status r (Some f) c1 = Some ((0, t), c2)"
    and "r = pcp_state_processing \<or> (\<exists>k. pcp_eval_flow_state (Some f) c1 = Some (k, r))"
  shows "\<exists>q\<in>set xs. state_of c1 q = pfs_wait_for_lifetime_renew"
proof -
  from app_status_runs [OF assms(2), of r] obtain st t' n where
    s: "app_status r (Some f) c1 = Some ((st, t'), c1\<lparr>w_alloc_i := n\<rparr>)" "st = 0 \<longrightarrow> r = pcp_state_succeeded \<or>
       r = pcp_state_partial_result \<and> (\<exists>q\<in>set xs. i_result (flow_info (the (c_heap c1 q))) = pcp_state_succeeded)" by blast
  have "st = 0" using s(1) assms(3) by simp
  with s(2) have "r = pcp_state_succeeded \<or>
      r = pcp_state_partial_result \<and> (\<exists>q\<in>set xs. i_result (flow_info (the (c_heap c1 q))) = pcp_state_succeeded)" by blast
  then show ?thesis
  proof
    assume "r = pcp_state_succeeded"
    with assms(4) obtain k where "pcp_eval_flow_state (Some f) c1 = Some (k, pcp_state_succeeded)" by blast
    then have "result_spec (state_of c1 ` set xs) = pcp_state_succeeded" unfolding eval_flow_state_list [OF assms(2)] by simp
    then have "pfs_wait_for_lifetime_renew \<in> state_of c1 ` set xs" unfolding result_spec_def by (simp split: if_splits)
    then obtain q where q: "pfs_wait_for_lifetime_renew = state_of c1 q" "q \<in> set xs" by (rule imageE)
    from q(1) [symmetric] q(2) show ?thesis by (rule bexI)
  next
    assume "r = pcp_state_partial_result \<and> (\<exists>q\<in>set xs. i_result (flow_info (the (c_heap c1 q))) = pcp_state_succeeded)"
    then obtain q where "q \<in> set xs" "info_result (f_state (the (c_heap c1 q))) = pcp_state_succeeded" by (auto simp: flow_info_def Let_def)
    then show ?thesis by (intro bexI [of _ q]) (cases "f_state (the (c_heap c1 q))"; simp)
  qed
qed

text \<open>C24: the exit status. On a valid flow, with sockets that keep their contract and a clock that passes the end of the wait, the client
  goes on from the wait to its end: it exits with status 0, 2, 3 or 4, with 2 when the time was over; with 0 only
  if a flow of the request has got its mapping by then; and all flows and servers of the context
  are freed.\<close>

theorem client_exit_status:
  assumes inv: "api_inv c" and h: "handle c f" and ok: "responsive (Wait f (sint (pp_timeout p)) (pp_fast_return p)) c"
  shows "\<exists>r c1 status out c' xs. pcp_wait (Some f) (sint (pp_timeout p)) (pp_fast_return p) c = Some (r, c1) \<and>
    kids (c_heap c1) (Some f) xs \<and> app_finish env p (Some f) c = Some (status, out, c') \<and> status \<in> {0, 2, 3, 4} \<and>
    (r = pcp_state_processing \<longrightarrow> status = 2) \<and> (status = 0 \<longrightarrow> (\<exists>q\<in>set xs. state_of c1 q = pfs_wait_for_lifetime_renew)) \<and>
    db_flows c' = {} \<and> c_pcp_servers c' = []"
proof -
  have ci: "ctx_inv c" using inv by (simp add: api_inv_def)
  have "\<exists>c1. api_run (Wait f (sint (pp_timeout p)) (pp_fast_return p)) c = Some c1" by (rule machines_return [OF inv _ _ ok]) (use h in simp_all)
  then obtain r c1 where w: "pcp_wait (Some f) (sint (pp_timeout p)) (pp_fast_return p) c = Some (r, c1)" by auto
  from pcp_wait_core [OF ci w] have k: "keeps c c1" and r: "r = pcp_state_processing \<or> (\<exists>k. pcp_eval_flow_state (Some f) c1 = Some (k, r))"
    by blast+
  have inv1: "api_inv c1" using keeps_api [OF inv k] .
  obtain xs where xs: "kids (c_heap c1) (Some f) xs" using handle_kids [OF inv1 keeps_handle [OF k h]] .
  have "ctx_inv c1" using inv1 by (simp add: api_inv_def)
  from app_finish_runs [OF this w xs, of env] obtain status out c' n t where
    fin: "app_finish env p (Some f) c = Some (status, out, c')" "status \<in> {0, 2, 3, 4}" "db_flows c' = {}" "c_pcp_servers c' = []"
      "app_status r (Some f) c1 = Some ((status, t), c1\<lparr>w_alloc_i := n\<rparr>)" by blast
  have "\<exists>q\<in>set xs. state_of c1 q = pfs_wait_for_lifetime_renew" if "status = 0"
    using succeeded_state [OF inv1 xs _ r] fin(5) that by blast
  moreover have "status = 2" if "r = pcp_state_processing" using fin(5) that by (simp add: app_status_def)
  ultimately show ?thesis using w xs fin(1-4) by blast
qed

theorem client_exit_status_witness:
  "\<exists>out c'. app_finish \<lparr>ae_gai = \<lambda>_ _. None, ae_ntop = \<lambda>_. '''', ae_ctime = \<lambda>_. '''', ae_sysinfo = ('''', ''''), ae_malloc = \<lambda>_. True,
     ae_socket = True, ae_gws = [], ae_stack = \<lparr>aa_source = SA_other 0, aa_destination = SA_other 0, aa_ext = SA_other 0, aa_filter = SA_other 0,
     aa_thirdparty = SA_other 0\<rparr>\<rparr> (params_init\<lparr>pp_timeout := 0\<rparr>) (Some 0) ctx_idle_flow = Some (2, out, c') \<and> db_flows c' = {}"
proof -
  let ?c = ctx_idle_flow and ?p = "params_init\<lparr>pp_timeout := 0\<rparr>"
  let ?e = "\<lparr>ae_gai = \<lambda>_ _. None, ae_ntop = \<lambda>_. '''', ae_ctime = \<lambda>_. '''', ae_sysinfo = ('''', ''''), ae_malloc = \<lambda>_. True,
     ae_socket = True, ae_gws = [], ae_stack = \<lparr>aa_source = SA_other 0, aa_destination = SA_other 0, aa_ext = SA_other 0, aa_filter = SA_other 0,
     aa_thirdparty = SA_other 0\<rparr>\<rparr>"
  have tod: "w_tod ?c i = Timeval 1000 0" for i by (simp add: ctx_idle_flow_def ctx_one_server_def ctx_start_def)
  have inv: "api_inv ?c" by (rule ctx_idle_flow_api)
  have h: "handle ?c 0" by (simp add: handle_def kid_of_def ctx_idle_flow_def flow_zero_def)
  have net: "recv_ok (w_recvfrom ?c i)" for i by (simp add: ctx_idle_flow_def ctx_one_server_def ctx_start_def recv_ok_def)
  have "responsive (Wait 0 (sint (pp_timeout ?p)) (pp_fast_return ?p)) ?c"
    using tod net by (auto simp: responsive_def settles_def intro!: exI [of _ "Timeval 1000 0"])
  from client_exit_status [OF inv h this, of ?e] obtain r c1 status out c' where
    c1: "pcp_wait (Some 0) (sint (pp_timeout ?p)) (pp_fast_return ?p) ?c = Some (r, c1)" "app_finish ?e ?p (Some 0) ?c = Some (status, out, c')"
      "r = pcp_state_processing \<longrightarrow> status = 2" "db_flows c' = {}" by blast
  have "ctx_inv ?c" using inv by (simp add: api_inv_def)
  from pcp_wait_core [OF this c1(1)] have "r = pcp_state_processing" by (simp add: tod)
  with c1 show ?thesis by blast
qed

section \<open>The whole program\<close>

text \<open>
  What a run needs from its surroundings: the list of servers does not exceed its bound and the given servers can be registered; the key
  of the request is found without reading an IPv4 destination as an IPv6 one; and the sockets and the clock behave when
  the client waits. A request for DSCP values needs a context.
\<close>

definition app_usable :: "app_env \<Rightarrow> pcp_params \<Rightarrow> app_addrs \<Rightarrow> pcp_ctx \<Rightarrow> bool" where
  "app_usable env p a w \<longleftrightarrow>
     (\<forall>ok c. pcp_init (\<not> pp_dis_auto_discovery p) (ae_socket env) (ae_gws env) w = Some (ok, c) \<longrightarrow>
        (pp_has_sadscp_data p \<longrightarrow> ok) \<and>
        (ok \<longrightarrow> length (c_pcp_servers c) < 2 ^ 31 \<and> servers_permitted (ae_gai env) (SA_other 0) (pp_pcp_servers p) c \<and>
          (\<forall>c1. app_servers (ae_gai env) (SA_other 0) (pp_pcp_servers p) c = Some c1 \<longrightarrow>
             (pp_has_mappeer_data p \<longrightarrow> requested_key (aa_source a) (Some (aa_destination a)) (pp_opt_protocol p) c1 \<noteq> None) \<and>
             (\<forall>f c2. app_flow p a c1 = Some (Inr (Some f), c2) \<longrightarrow>
                responsive (Wait f (sint (pp_timeout p)) (pp_fast_return p)) c2))))"

lemma pcp_init_returns: "world_ok w \<Longrightarrow> \<exists>ok c. pcp_init autodiscovery socket_created gws w = Some (ok, c)"
proof -
  assume "world_ok w"
  then have "core_inv (ctx_calloc (w\<lparr>w_alloc_i := Suc (w_alloc_i w)\<rparr>))" by (simp add: ctx_calloc_core world_ok_def)
  from psd_add_gws_core [OF this, of gws] show ?thesis by (auto simp: pcp_init_def alloc_next_def)
qed

lemma finish_failed:
  "pcp_wait flow (sint (pp_timeout p)) (pp_fast_return p) c = Some (pcp_state_failed, c1) \<Longrightarrow>
     app_finish env p flow c = Some (status, out, c') \<Longrightarrow> status = 4 \<and> out \<noteq> []"
  by (auto simp: app_finish_def app_status_def bind_eq_Some_conv)

lemma finish_returns:
  assumes inv: "api_inv c" and h: "\<forall>f. flow = Some f \<longrightarrow> handle c f \<and> responsive (Wait f (sint (pp_timeout p)) (pp_fast_return p)) c"
  shows "\<exists>status out c'. app_finish env p flow c = Some (status, out, c') \<and> status \<in> {0, 2, 3, 4} \<and> db_flows c' = {} \<and> c_pcp_servers c' = []"
proof -
  have ci: "ctx_inv c" using inv by (simp add: api_inv_def)
  show ?thesis
  proof (cases flow)
    case None
    have "kids (c_heap c) None []" by simp
    then have "pcp_wait None (sint (pp_timeout p)) (pp_fast_return p) c = Some (pcp_state_failed, c)"
      using eval_flow_state_list [of c None "[]"] by (simp add: pcp_wait_def)
    from app_finish_runs [OF ci this, of "[]" env] None show ?thesis by auto
  next
    case (Some f)
    then have h: "handle c f" "responsive (Wait f (sint (pp_timeout p)) (pp_fast_return p)) c" using h by simp_all
    have "\<exists>c1. api_run (Wait f (sint (pp_timeout p)) (pp_fast_return p)) c = Some c1"
      by (rule machines_return [OF inv _ _ h(2)]) (use h(1) in simp_all)
    then obtain r c1 where w: "pcp_wait (Some f) (sint (pp_timeout p)) (pp_fast_return p) c = Some (r, c1)" by auto
    have k: "keeps c c1" using pcp_wait_core [OF ci w] by blast
    obtain xs where "kids (c_heap c1) (Some f) xs" using handle_kids [OF keeps_api [OF inv k] keeps_handle [OF k h(1)]] .
    moreover have "ctx_inv c1" using k by (simp add: keeps_def)
    ultimately show ?thesis using app_finish_runs [OF _ w, of xs env] Some by blast
  qed
qed

lemma addresses_params: "app_addresses gai p stack = Some (Inr (p', a)) \<Longrightarrow> params_ok p \<Longrightarrow> params_ok p'"
  by (auto simp: app_addresses_def params_ok_def bind_eq_Some_conv split: if_splits)

lemma addresses_status: "app_addresses gai p stack = Some (Inl status) \<Longrightarrow> status = 1"
  by (auto simp: app_addresses_def bind_eq_Some_conv split: if_splits)

lemma addresses_kind: "app_addresses gai p stack = Some (Inr (p', a)) \<Longrightarrow>
    pp_has_mappeer_data p' = pp_has_mappeer_data p \<and> pp_has_sadscp_data p' = pp_has_sadscp_data p"
  by (auto simp: app_addresses_def bind_eq_Some_conv split: if_splits)

lemma session_returns:
  assumes "world_ok w" "params_ok p" "app_usable env p a w" "pp_has_mappeer_data p \<or> pp_has_sadscp_data p"
  shows "\<exists>status out c'. app_session env p a w = Some (status, out, c') \<and> status \<in> {0, 1, 2, 3, 4} \<and>
    (status \<noteq> 1 \<longrightarrow> db_flows c' = {} \<and> c_pcp_servers c' = [])"
proof -
  from pcp_init_returns [OF assms(1)] obtain ok c where
    i: "pcp_init (\<not> pp_dis_auto_discovery p) (ae_socket env) (ae_gws env) w = Some (ok, c)" by blast
  note u = assms(3) [unfolded app_usable_def, rule_format, OF i]
  show ?thesis
  proof (cases ok)
    case False
    then have "pp_has_mappeer_data p" using u assms(4) by blast
    with False i show ?thesis by (simp add: app_session_def)
  next
    case True
    have core: "core_inv c" using pcp_init_core [OF assms(1) i [unfolded eqTrueI [OF True]]] .
    then have "api_inv c" using u True by (simp add: api_core)
    moreover have "servers_permitted (ae_gai env) (SA_other 0) (pp_pcp_servers p) c" using u True by blast
    ultimately obtain c1 where c1: "app_servers (ae_gai env) (SA_other 0) (pp_pcp_servers p) c = Some c1" "api_inv c1"
      using app_servers_runs by (blast elim: runsE)
    have "runs (app_flow p a c1) (\<lambda>(r, c'). api_inv c' \<and> (r = Inl 1 \<or> (\<exists>flow. r = Inr flow \<and> (\<forall>f. flow = Some f \<longrightarrow> handle c' f))))"
      by (rule app_flow_runs [OF c1(2) assms(2)]) (use u True c1(1) in blast)
    then obtain r c2 where
      c2: "app_flow p a c1 = Some (r, c2)" "api_inv c2" "r = Inl 1 \<or> (\<exists>flow. r = Inr flow \<and> (\<forall>f. flow = Some f \<longrightarrow> handle c2 f))"
      by (elim runsE) auto
    have run: "app_session env p a w = (case r of Inl status \<Rightarrow> Some (status, [], c2) | Inr flow \<Rightarrow> app_finish env p flow c2)"
      unfolding app_session_def i bind.simps prod.case c1(1) c2(1) using True by simp
    show ?thesis
    proof (cases r)
      case (Inl status)
      then show ?thesis using c2(3) run by auto
    next
      case (Inr flow)
      then have "\<forall>f. flow = Some f \<longrightarrow> handle c2 f \<and> responsive (Wait f (sint (pp_timeout p)) (pp_fast_return p)) c2"
        using c2 u True c1(1) by auto
      from finish_returns [OF c2(2) this, of env] show ?thesis using run Inr by auto
    qed
  qed
qed



end
