(* ===== verification/Win_Getopt.thy ===== *)
theory Win_Getopt
  imports C_Strings
begin

text \<open>
  The parsing of command lines in the build for Windows (\<open>win_utils/getopt.c\<close> and \<open>getopt_long.c\<close>) and the clock there
  (\<open>windows/pcp_gettimeofday.c\<close>). Shown is that a command line that is written in any of the accepted forms is read back as the
  options it was made of.
\<close>

section \<open>State\<close>

text \<open>
  The variables \<open>optind\<close>, \<open>optopt\<close>, \<open>optreset\<close> and \<open>optarg\<close>, the static pointer \<open>place\<close> as the string that it points to, the object that
  \<open>index\<close> points to, and those that the table of options points to with \<open>flag\<close>. What is printed is left out.
\<close>

record getopt_state =
  os_optind :: nat
  os_optopt :: int
  os_optreset :: bool
  os_optarg :: "string option"
  os_place :: string
  os_index :: int
  os_flags :: "nat \<Rightarrow> int"

definition getopt_start :: getopt_state where
  "getopt_start = \<lparr>os_optind = 1, os_optopt = 0, os_optreset = False, os_optarg = None, os_place = [], os_index = 0, os_flags = \<lambda>_. 0\<rparr>"

abbreviation BADCH :: int where "BADCH \<equiv> 63"
abbreviation BADARG :: int where "BADARG \<equiv> 58"

text \<open>A character as an \<open>int\<close>; \<open>char\<close> is signed.\<close>

definition char_int :: "char \<Rightarrow> int" where
  "char_int ch = (if (of_char ch :: int) \<ge> 128 then of_char ch - 256 else of_char ch)"

text \<open>\<open>strchr\<close>: what follows the character, if it is found.\<close>

definition after :: "char \<Rightarrow> string \<Rightarrow> string option" where
  "after ch s = (case dropWhile (\<lambda>x. x \<noteq> ch) s of [] \<Rightarrow> None | _ # t \<Rightarrow> Some t)"

section \<open>Letters\<close>

text \<open>
  The part that \<open>getopt\<close> and \<open>getopt_internal\<close> have in common, from \<open>option letter okay?\<close> on; they differ in what they return for a missing
  argument. \<open>None\<close> would be a read past the end of the string.
\<close>

definition option_letter :: "int \<Rightarrow> string list \<Rightarrow> string \<Rightarrow> getopt_state \<Rightarrow> (int \<times> getopt_state) option" where
  "option_letter missing nargv ostr s =
     (case os_place s of
        [] \<Rightarrow> None
      | ch # place \<Rightarrow>
          let s = s\<lparr>os_optopt := char_int ch, os_place := place\<rparr>;
              oli = (if ch = CHR '':'' then None else after ch ostr) in
          (case oli of
             None \<Rightarrow>
               if ch = CHR ''-'' then Some (-1, s)
               else Some (BADCH, if place = [] then s\<lparr>os_optind := os_optind s + 1\<rparr> else s)
           | Some oli \<Rightarrow>
               if oli = [] \<or> hd oli \<noteq> CHR '':'' then
                 Some (char_int ch, s\<lparr>os_optarg := None, os_optind := (if place = [] then os_optind s + 1 else os_optind s)\<rparr>)
               else if place \<noteq> [] then
                 Some (char_int ch, s\<lparr>os_optarg := Some place, os_place := [], os_optind := os_optind s + 1\<rparr>)
               else if length nargv \<le> os_optind s + 1 then
                 Some (missing, s\<lparr>os_place := [], os_optind := os_optind s + 1\<rparr>)
               else
                 Some (char_int ch, s\<lparr>os_optarg := Some (nargv ! (os_optind s + 1)), os_place := [], os_optind := os_optind s + 2\<rparr>)))"

definition is_option :: "string list \<Rightarrow> nat \<Rightarrow> bool" where
  "is_option nargv i \<longleftrightarrow> i < length nargv \<and> nargv ! i \<noteq> [] \<and> hd (nargv ! i) = CHR ''-''"

definition getopt :: "string list \<Rightarrow> string \<Rightarrow> getopt_state \<Rightarrow> (int \<times> getopt_state) option" where
  "getopt nargv ostr s =
     (let missing = (if ostr \<noteq> [] \<and> hd ostr = CHR '':'' then BADARG else BADCH) in
      if os_optreset s \<or> os_place s = [] then
        let s = s\<lparr>os_optreset := False\<rparr> in
        if \<not> is_option nargv (os_optind s) then Some (-1, s\<lparr>os_place := []\<rparr>)
        else let a = nargv ! os_optind s in
          if a = ''--'' then Some (-1, s\<lparr>os_place := [], os_optind := os_optind s + 1\<rparr>)
          else option_letter missing nargv ostr (s\<lparr>os_place := (if tl a \<noteq> [] then tl a else a)\<rparr>)
      else option_letter missing nargv ostr s)"

definition getopt_internal :: "string list \<Rightarrow> string \<Rightarrow> getopt_state \<Rightarrow> (int \<times> getopt_state) option" where
  "getopt_internal nargv ostr s =
     (if os_optreset s \<or> os_place s = [] then
        let s = s\<lparr>os_optreset := False\<rparr> in
        if \<not> is_option nargv (os_optind s) then Some (-1, s\<lparr>os_place := []\<rparr>)
        else let a = nargv ! os_optind s in
          if tl a \<noteq> [] \<and> hd (tl a) = CHR ''-'' then Some (-2, s\<lparr>os_place := []\<rparr>)
          else option_letter BADARG nargv ostr (s\<lparr>os_place := (if tl a \<noteq> [] then tl a else a)\<rparr>)
      else option_letter BADARG nargv ostr s)"

section \<open>Names\<close>

abbreviation (input) no_argument :: nat where "no_argument \<equiv> 0"
abbreviation (input) required_argument :: nat where "required_argument \<equiv> 1"
abbreviation (input) optional_argument :: nat where "optional_argument \<equiv> 2"

record long_option =
  lo_name :: string
  lo_has_arg :: nat
  lo_flag :: "nat option"
  lo_val :: int

text \<open>
  The loop over the table, up to its last entry, which has no name; \<open>current\<close> has \<open>current_argv_len\<close> characters, and \<open>m\<close> is \<open>match\<close>.
\<close>

fun long_match :: "string \<Rightarrow> long_option list \<Rightarrow> int \<Rightarrow> int \<Rightarrow> int" where
  "long_match current [] i m = m"
| "long_match current (l # ls) i m =
     (if take (length current) (lo_name l) \<noteq> current then long_match current ls (i + 1) m
      else if length (lo_name l) = length current then i
      else long_match current ls (i + 1) (if m = -1 then i else m))"

text \<open>\<open>nargv[i]\<close>: the array ends with \<open>NULL\<close>.\<close>

definition argv_at :: "string list \<Rightarrow> nat \<Rightarrow> string option option" where
  "argv_at nargv i = (if i < length nargv then Some (Some (nargv ! i)) else if i = length nargv then Some None else None)"

text \<open>The argument of a named option: after the equal sign, or the next one of the vector.\<close>

definition long_argument :: "string list \<Rightarrow> nat \<Rightarrow> string option \<Rightarrow> getopt_state \<Rightarrow> getopt_state option" where
  "long_argument nargv has_arg has_equal s =
     (if has_arg = required_argument \<or> has_arg = optional_argument then
        (case has_equal of
           Some v \<Rightarrow> Some (s\<lparr>os_optarg := Some v\<rparr>)
         | None \<Rightarrow> do { v \<leftarrow> argv_at nargv (os_optind s); Some (s\<lparr>os_optarg := v, os_optind := os_optind s + 1\<rparr>) })
      else Some s)"

definition getopt_long :: "string list \<Rightarrow> string \<Rightarrow> long_option list \<Rightarrow> bool \<Rightarrow> getopt_state \<Rightarrow> (int \<times> getopt_state) option" where
  "getopt_long nargv options long_options index s = do {
     (retval, s) \<leftarrow> getopt_internal nargv options s;
     if retval \<noteq> -2 then Some (retval, s)
     else do {
       let current_argv = drop 2 (nargv ! os_optind s);
       let s = s\<lparr>os_optind := os_optind s + 1\<rparr>;
       if current_argv = [] then Some (-1, s)
       else do {
         let current = takeWhile (\<lambda>ch. ch \<noteq> CHR ''='') current_argv;
         let m = long_match current long_options 0 (-1);
         if m = -1 then Some (BADCH, s)
         else do {
           let l = long_options ! nat m;
           s \<leftarrow> long_argument nargv (lo_has_arg l) (after CHR ''='' current_argv) s;
           if lo_has_arg l = required_argument \<and> os_optarg s = None then Some (BADARG, s)
           else do {
             let s' = (if index then s\<lparr>os_index := m\<rparr> else s);
             Some (case lo_flag l of
                     Some a \<Rightarrow> (0, s'\<lparr>os_flags := (os_flags s')(a := lo_val l)\<rparr>)
                   | None \<Rightarrow> (lo_val l, s'))
           }
         }
       }
     }
   }"

section \<open>The clock\<close>

text \<open>
  \<open>gettimeofday\<close> for the two halves of the file time, which counts 100 ns from 1601 on: seconds and microseconds, cut to
  \<open>long\<close>, which has 32 bits on Windows.
\<close>

abbreviation DELTA_EPOCH_IN_MICROSECS :: "64 word" where "DELTA_EPOCH_IN_MICROSECS \<equiv> 11644473600000000"

definition win_gettimeofday :: "u32 \<Rightarrow> u32 \<Rightarrow> int \<times> int" where
  "win_gettimeofday dwHighDateTime dwLowDateTime =
     (let tmpres = push_bit 32 (ucast dwHighDateTime) OR ucast dwLowDateTime :: 64 word;
          tmpres = tmpres div 10;
          tmpres = tmpres - DELTA_EPOCH_IN_MICROSECS
      in (sint (ucast (tmpres div 1000000) :: u32), sint (ucast (tmpres mod 1000000) :: u32)))"

section \<open>Command lines\<close>

text \<open>
  The forms in which options are written: letters without an argument, together; a letter with its argument in the next string or
  in the same one; a name alone, with its argument after an equal sign, or in the next string.
\<close>

datatype arg_form =
    Flags string
  | Letter char string
  | Letter_joined char string
  | Name string
  | Name_eq string string
  | Name_sep string string

fun render :: "arg_form \<Rightarrow> string list" where
  "render (Flags chs) = [CHR ''-'' # chs]"
| "render (Letter ch v) = [[CHR ''-'', ch], v]"
| "render (Letter_joined ch v) = [CHR ''-'' # ch # v]"
| "render (Name n) = [''--'' @ n]"
| "render (Name_eq n v) = [''--'' @ n @ CHR ''='' # v]"
| "render (Name_sep n v) = [''--'' @ n, v]"

text \<open>Letters of the string of options, without and with a colon behind them.\<close>

definition flag_letter :: "string \<Rightarrow> char \<Rightarrow> bool" where
  "flag_letter ostr ch \<longleftrightarrow> ch \<noteq> CHR '':'' \<and> ch \<noteq> CHR ''-'' \<and> (of_char ch :: nat) < 128 \<and>
     (\<exists>t. after ch ostr = Some t \<and> (t = [] \<or> hd t \<noteq> CHR '':''))"

definition arg_letter :: "string \<Rightarrow> char \<Rightarrow> bool" where
  "arg_letter ostr ch \<longleftrightarrow> ch \<noteq> CHR '':'' \<and> ch \<noteq> CHR ''-'' \<and> (of_char ch :: nat) < 128 \<and>
     (\<exists>t. after ch ostr = Some (CHR '':'' # t))"

text \<open>A name that the table has at \<open>i\<close>.\<close>

definition names :: "long_option list \<Rightarrow> string \<Rightarrow> nat \<Rightarrow> bool" where
  "names ls n i \<longleftrightarrow> n \<noteq> [] \<and> CHR ''='' \<notin> set n \<and> i < length ls \<and> long_match n ls 0 (-1) = int i"

lemma long_match_exact:
  "distinct (map lo_name ls) \<Longrightarrow> i < length ls \<Longrightarrow> lo_name (ls ! i) = n \<Longrightarrow> long_match n ls k m = k + int i"
proof (induction ls arbitrary: i k m)
  case (Cons l ls)
  show ?case
  proof (cases i)
    case 0
    then show ?thesis using Cons.prems by simp
  next
    case (Suc j)
    then have j: "j < length ls" "lo_name (ls ! j) = n" using Cons.prems by auto
    then have "lo_name l \<noteq> n" using Cons.prems(1) by (metis distinct.simps(2) list.simps(9) length_map nth_map nth_mem)
    then have "take (length n) (lo_name l) \<noteq> n \<or> length (lo_name l) \<noteq> length n" by auto
    then show ?thesis using Cons.IH [of j "k + 1"] Cons.prems(1) j Suc by auto
  qed
qed simp

text \<open>An abbreviation that is no name itself stands for the first name that starts with it.\<close>

lemma long_match_abbreviation:
  "\<forall>l\<in>set ls. lo_name l \<noteq> n \<Longrightarrow> i < length ls \<Longrightarrow> take (length n) (lo_name (ls ! i)) = n \<Longrightarrow>
   \<forall>j<i. take (length n) (lo_name (ls ! j)) \<noteq> n \<Longrightarrow> 0 \<le> k \<Longrightarrow> long_match n ls k (-1) = k + int i"
proof (induction ls arbitrary: i k)
  case (Cons l ls)
  have kept: "\<forall>l\<in>set ls. lo_name l \<noteq> n \<Longrightarrow> m \<noteq> -1 \<Longrightarrow> long_match n ls k m = m" for ls k m
    by (induction ls arbitrary: k) auto
  show ?case
  proof (cases i)
    case 0
    then have "take (length n) (lo_name l) = n" "length (lo_name l) \<noteq> length n" using Cons.prems by auto
    then show ?thesis using kept [of ls k "k + 1"] Cons.prems 0 by simp
  next
    case (Suc j)
    then have "take (length n) (lo_name l) \<noteq> n" "\<forall>j'<j. take (length n) (lo_name (ls ! j')) \<noteq> n" using Cons.prems(4) by force+
    then show ?thesis using Cons.IH [of j "k + 1"] Cons.prems Suc by simp
  qed
qed simp

text \<open>An empty name, as in \<open>--=x\<close>, stands for the first option.\<close>

lemma empty_name_first:
  assumes "\<forall>l\<in>set ls. lo_name l \<noteq> []" "ls \<noteq> []"
  shows "long_match [] ls 0 (-1) = 0"
  using long_match_abbreviation [of ls "[]" 0 0] assms by simp

section \<open>Steps\<close>

definition at_start :: "getopt_state \<Rightarrow> bool" where
  "at_start s \<longleftrightarrow> os_place s = [] \<and> \<not> os_optreset s"

lemma char_int_ascii: "(of_char ch :: nat) < 128 \<Longrightarrow> char_int ch = int (of_char ch)"
proof -
  assume "(of_char ch :: nat) < 128"
  then have "int (of_char ch) < 128" by linarith
  then show ?thesis by (simp add: char_int_def of_nat_of_char)
qed

lemma not_reset: "at_start s \<Longrightarrow> s\<lparr>os_optreset := False\<rparr> = s"
  by (cases s) (simp add: at_start_def)

lemma no_place: "at_start s \<Longrightarrow> s\<lparr>os_place := []\<rparr> = s"
  by (cases s) (simp add: at_start_def)

lemma flag_at:
  assumes "flag_letter ostr ch" "os_place s = ch # rest"
  shows "option_letter missing nargv ostr s = Some (char_int ch, s\<lparr>os_optopt := char_int ch, os_place := rest, os_optarg := None,
    os_optind := (if rest = [] then os_optind s + 1 else os_optind s)\<rparr>)"
  using assms by (auto simp: option_letter_def flag_letter_def Let_def)

lemma joined_at:
  assumes "arg_letter ostr ch" "os_place s = ch # v" "v \<noteq> []"
  shows "option_letter missing nargv ostr s = Some (char_int ch, s\<lparr>os_optopt := char_int ch, os_place := [], os_optarg := Some v,
    os_optind := os_optind s + 1\<rparr>)"
  using assms by (auto simp: option_letter_def arg_letter_def Let_def)

lemma separate_at:
  assumes "arg_letter ostr ch" "os_place s = [ch]" "os_optind s + 1 < length nargv"
  shows "option_letter missing nargv ostr s = Some (char_int ch, s\<lparr>os_optopt := char_int ch, os_place := [],
    os_optarg := Some (nargv ! (os_optind s + 1)), os_optind := os_optind s + 2\<rparr>)"
  using assms by (auto simp: option_letter_def arg_letter_def Let_def)

lemma letter_return: "(of_char ch :: nat) < 128 \<Longrightarrow> char_int ch \<noteq> -2 \<and> char_int ch \<noteq> -1"
  by (simp add: char_int_ascii)

lemma getopt_long_letter:
  assumes "getopt_internal nargv ostr s = Some (char_int ch, s')" "(of_char ch :: nat) < 128"
  shows "getopt_long nargv ostr ls index s = Some (char_int ch, s')"
  using assms letter_return [of ch] by (simp add: getopt_long_def)

text \<open>The beginning of a string of letters.\<close>

lemma internal_letters:
  assumes "at_start s" "nargv = pre @ (CHR ''-'' # ch # rest) # post" "os_optind s = length pre" "ch \<noteq> CHR ''-''"
  shows "getopt_internal nargv ostr s = option_letter BADARG nargv ostr (s\<lparr>os_place := ch # rest\<rparr>)"
  using assms by (simp add: getopt_internal_def is_option_def Let_def nth_append not_reset) (simp add: at_start_def)

text \<open>A name; \<open>arg\<close> is what stands after the equal sign.\<close>

lemma getopt_long_name:
  assumes "at_start s" "nargv = pre @ (''--'' @ n @ tail) # post" "os_optind s = length pre" "names ls n i"
    and "tail = (case arg of None \<Rightarrow> [] | Some v \<Rightarrow> CHR ''='' # v)" "lo_flag (ls ! i) = None" "lo_val (ls ! i) = 0"
  shows "getopt_long nargv ostr ls True s = do {
     s' \<leftarrow> long_argument nargv (lo_has_arg (ls ! i)) arg (s\<lparr>os_optind := os_optind s + 1\<rparr>);
     Some (if lo_has_arg (ls ! i) = required_argument \<and> os_optarg s' = None then (BADARG, s') else (0, s'\<lparr>os_index := int i\<rparr>))
   }"
proof -
  have a: "nargv ! os_optind s = ''--'' @ n @ tail" and l: "os_optind s < length nargv" using assms(2,3) by simp_all
  have int: "getopt_internal nargv ostr s = Some (-2, s)"
    using assms(1) a l by (simp add: getopt_internal_def is_option_def Let_def not_reset no_place) (simp add: at_start_def)
  have cur: "drop 2 (nargv ! os_optind s) = n @ tail" using a by simp
  have n: "n \<noteq> []" "CHR ''='' \<notin> set n" "long_match n ls 0 (-1) = int i" using assms(4) by (simp_all add: names_def)
  have tw: "takeWhile (\<lambda>ch. ch \<noteq> CHR ''='') (n @ tail) = n"
    using takeWhile_all [OF n(2)] takeWhile_stop [OF n(2)] assms(5) by (cases arg) simp_all
  have dw: "dropWhile (\<lambda>x. x \<noteq> CHR ''='') (n @ tail) = tail"
    using n(2) assms(5) by (cases arg) (auto simp: dropWhile_eq_Nil_conv dropWhile_append3)
  have af: "after CHR ''='' (n @ tail) = arg" unfolding after_def dw using assms(5) by (cases arg) simp_all
  have len: "\<not> length (nargv ! os_optind s) \<le> 2" using a n(1) by simp
  show ?thesis unfolding getopt_long_def int
    by (cases "long_argument nargv (lo_has_arg (ls ! i)) arg (s\<lparr>os_optind := os_optind s + 1\<rparr>)")
      (simp_all add: cur tw af n(1,3) len assms(6,7) Let_def)
qed

section \<open>Progress\<close>

text \<open>
  Letters that are left belong to a string of the vector. Every call that does not end the options moves on: to a later string, or
  to a later letter.
\<close>

definition in_vector :: "string list \<Rightarrow> getopt_state \<Rightarrow> bool" where
  "in_vector nargv s \<longleftrightarrow> \<not> os_optreset s \<and> (os_place s \<noteq> [] \<longrightarrow> os_optind s < length nargv)"

definition rank :: "string list \<Rightarrow> getopt_state \<Rightarrow> nat \<times> nat" where
  "rank nargv s = (length nargv - os_optind s, if os_place s = [] then Suc (length (nargv ! os_optind s)) else length (os_place s))"

definition moved :: "string list \<Rightarrow> getopt_state \<Rightarrow> getopt_state \<Rightarrow> bool" where
  "moved nargv s s' \<longleftrightarrow> in_vector nargv s' \<and> (rank nargv s', rank nargv s) \<in> less_than <*lex*> less_than"

definition ascii :: "string \<Rightarrow> bool" where
  "ascii s \<longleftrightarrow> (\<forall>ch\<in>set s. (of_char ch :: nat) < 128)"

lemma after_in: "after ch s = Some t \<Longrightarrow> ch \<in> set s"
proof (rule ccontr)
  assume "after ch s = Some t" "ch \<notin> set s"
  then have "dropWhile (\<lambda>x. x \<noteq> ch) s = []" by (auto simp: dropWhile_eq_Nil_conv)
  then show False using \<open>after ch s = Some t\<close> by (simp only: after_def list.case option.distinct)
qed

lemma option_letter_moves:
  assumes "os_place s \<noteq> []" "os_optind s < length nargv" "\<not> os_optreset s" "ascii ostr" "0 \<le> missing"
  shows "\<exists>c s'. option_letter missing nargv ostr s = Some (c, s') \<and> (c = -1 \<or> 0 \<le> c \<and> moved nargv s s')"
proof -
  obtain ch place where p: "os_place s = ch # place" using assms(1) by (cases "os_place s") auto
  define oli where "oli = (if ch = CHR '':'' then None else after ch ostr)"
  have o: "option_letter missing nargv ostr s = (let s = s\<lparr>os_optopt := char_int ch, os_place := place\<rparr> in
      case oli of
        None \<Rightarrow> if ch = CHR ''-'' then Some (-1, s) else Some (BADCH, if place = [] then s\<lparr>os_optind := os_optind s + 1\<rparr> else s)
      | Some oli \<Rightarrow>
          if oli = [] \<or> hd oli \<noteq> CHR '':'' then
            Some (char_int ch, s\<lparr>os_optarg := None, os_optind := (if place = [] then os_optind s + 1 else os_optind s)\<rparr>)
          else if place \<noteq> [] then Some (char_int ch, s\<lparr>os_optarg := Some place, os_place := [], os_optind := os_optind s + 1\<rparr>)
          else if length nargv \<le> os_optind s + 1 then Some (missing, s\<lparr>os_place := [], os_optind := os_optind s + 1\<rparr>)
          else Some (char_int ch, s\<lparr>os_optarg := Some (nargv ! (os_optind s + 1)), os_place := [], os_optind := os_optind s + 2\<rparr>))"
    using p by (simp add: option_letter_def oli_def Let_def)
  show ?thesis
  proof (cases oli)
    case None
    then show ?thesis using o p assms(2,3) by (auto simp: Let_def moved_def in_vector_def rank_def)
  next
    case (Some t)
    then have "after ch ostr = Some t" by (simp add: oli_def split: if_splits)
    then have c: "0 \<le> char_int ch" using after_in assms(4) by (fastforce simp: ascii_def char_int_ascii)
    show ?thesis using o p Some c assms(2,3,5) by (auto simp: Let_def moved_def in_vector_def rank_def)
  qed
qed

lemma getopt_internal_moves:
  assumes "in_vector nargv s" "ascii ostr"
  shows "\<exists>c s'. getopt_internal nargv ostr s = Some (c, s') \<and>
    (c = -1 \<or> 0 \<le> c \<and> moved nargv s s' \<or> c = -2 \<and> s' = s \<and> at_start s \<and> os_optind s < length nargv)"
proof (cases "os_place s = []")
  case True
  then have st: "at_start s" "s\<lparr>os_optreset := False\<rparr> = s" using assms not_reset [of s] by (simp_all add: in_vector_def at_start_def)
  show ?thesis
  proof (cases "is_option nargv (os_optind s) \<and> \<not> (tl (nargv ! os_optind s) \<noteq> [] \<and> hd (tl (nargv ! os_optind s)) = CHR ''-'')")
    case letters: True
    define a where "a = nargv ! os_optind s"
    define s1 where "s1 = s\<lparr>os_place := (if tl a \<noteq> [] then tl a else a)\<rparr>"
    have a: "a \<noteq> []" "os_optind s < length nargv" using letters by (auto simp: is_option_def a_def)
    have "os_place s1 \<noteq> []" "os_optind s1 < length nargv" "\<not> os_optreset s1"
      using a assms(1) by (simp_all add: s1_def in_vector_def)
    from option_letter_moves [OF this assms(2), of BADARG] obtain c s' where
      c: "option_letter BADARG nargv ostr s1 = Some (c, s')" "c = -1 \<or> 0 \<le> c \<and> moved nargv s1 s'" by auto
    have "getopt_internal nargv ostr s = Some (c, s')"
      using True letters c(1) unfolding getopt_internal_def Let_def st(2) s1_def a_def by auto
    moreover have "(rank nargv s1, rank nargv s) \<in> less_than <*lex*> less_than"
      using True a(1) by (simp add: rank_def s1_def a_def [symmetric]) (simp add: less_Suc_eq_le)
    then have "moved nargv s1 s' \<Longrightarrow> moved nargv s s'" using trans_lex_prod [OF trans_less_than trans_less_than] transD moved_def by metis
    ultimately show ?thesis using c(2) by blast
  next
    case False
    then show ?thesis using True st by (auto simp: getopt_internal_def Let_def is_option_def no_place)
  qed
next
  case False
  then show ?thesis using option_letter_moves [of s nargv ostr BADARG] assms by (auto simp: getopt_internal_def in_vector_def)
qed

lemma getopt_long_moves:
  assumes "in_vector nargv s" "ascii ostr"
  shows "\<exists>c s'. getopt_long nargv ostr ls index s = Some (c, s') \<and> (c = -1 \<or> moved nargv s s')"
proof -
  from getopt_internal_moves [OF assms] obtain c s' where g: "getopt_internal nargv ostr s = Some (c, s')"
    "c = -1 \<or> 0 \<le> c \<and> moved nargv s s' \<or> c = -2 \<and> s' = s \<and> at_start s \<and> os_optind s < length nargv" by blast
  show ?thesis
  proof (cases "c = -2")
    case False
    then show ?thesis using g by (auto simp: getopt_long_def)
  next
    case True
    then have s: "s' = s" "at_start s" "os_optind s < length nargv" using g(2) by auto
    have moved: "moved nargv s s''" if "os_optind s < os_optind s''" "os_place s'' = []" "\<not> os_optreset s''" for s''
      using that s(3) by (auto simp: moved_def in_vector_def rank_def)
    have "\<exists>s''. long_argument nargv k h (s\<lparr>os_optind := os_optind s + 1\<rparr>) = Some s'' \<and> moved nargv s s'' \<and>
        os_optind s < os_optind s'' \<and> os_place s'' = [] \<and> \<not> os_optreset s''" for k h
      using s(2,3) by (auto simp: long_argument_def argv_at_def at_start_def intro!: moved split: option.split)
    then obtain arg where arg: "long_argument nargv k h (s\<lparr>os_optind := os_optind s + 1\<rparr>) = Some (arg k h)"
      "os_optind s < os_optind (arg k h)" "os_place (arg k h) = []" "\<not> os_optreset (arg k h)" for k h by metis
    show ?thesis using g(1) True s arg moved
      by (auto simp: getopt_long_def Let_def at_start_def split: option.split)
  qed
qed

text \<open>What a call returns: the end of the options, an error, or a letter of the string or an entry of the table, with an argument if it asks for one.\<close>

lemma option_letter_result:
  assumes "option_letter BADARG nargv ostr s = Some (c, s')"
  shows "c = -1 \<or> c = BADCH \<or> c = BADARG \<or>
    (\<exists>ch t. c = char_int ch \<and> ch \<noteq> CHR '':'' \<and> after ch ostr = Some t \<and> (t \<noteq> [] \<and> hd t = CHR '':'' \<longrightarrow> os_optarg s' \<noteq> None))"
  using assms by (auto simp: option_letter_def Let_def split: list.splits option.splits if_splits)

lemma getopt_internal_result:
  assumes "getopt_internal nargv ostr s = Some (c, s')"
  shows "c = -2 \<or> c = -1 \<or> c = BADCH \<or> c = BADARG \<or>
    (\<exists>ch t. c = char_int ch \<and> ch \<noteq> CHR '':'' \<and> after ch ostr = Some t \<and> (t \<noteq> [] \<and> hd t = CHR '':'' \<longrightarrow> os_optarg s' \<noteq> None))"
  using assms option_letter_result by (fastforce simp: getopt_internal_def Let_def split: if_splits)

lemma long_match_range: "0 \<le> k \<Longrightarrow> long_match n ls k m = m \<or> k \<le> long_match n ls k m \<and> long_match n ls k m < k + int (length ls)"
proof (induction ls arbitrary: k m)
  case (Cons l ls)
  have "0 \<le> k + 1" using Cons.prems by simp
  note IH = Cons.IH [OF this]
  have len: "int (length (l # ls)) = int (length ls) + 1" by simp
  consider "take (length n) (lo_name l) \<noteq> n" | "take (length n) (lo_name l) = n" "length (lo_name l) = length n"
    | "take (length n) (lo_name l) = n" "length (lo_name l) \<noteq> length n" by blast
  then show ?case
  proof cases
    case 1
    then have "long_match n (l # ls) k m = long_match n ls (k + 1) m" by simp
    then show ?thesis using IH [of m] len by linarith
  next
    case 2
    then show ?thesis by simp
  next
    case 3
    then have "long_match n (l # ls) k m = long_match n ls (k + 1) (if m = -1 then k else m)" by simp
    moreover have "(if m = -1 then k else m) = k \<or> (if m = -1 then k else m) = m" by simp
    ultimately show ?thesis using IH [of "if m = -1 then k else m"] len by linarith
  qed
qed simp

lemma getopt_long_result:
  assumes "getopt_long nargv ostr ls True s = Some (c, s')" "\<forall>l\<in>set ls. lo_flag l = None \<and> lo_val l = 0"
  shows "c = -1 \<or> c = BADCH \<or> c = BADARG \<or>
    (\<exists>ch t. c = char_int ch \<and> ch \<noteq> CHR '':'' \<and> after ch ostr = Some t \<and> (t \<noteq> [] \<and> hd t = CHR '':'' \<longrightarrow> os_optarg s' \<noteq> None)) \<or>
    (\<exists>i<length ls. c = 0 \<and> os_index s' = int i \<and> (lo_has_arg (ls ! i) = required_argument \<longrightarrow> os_optarg s' \<noteq> None))"
proof -
  obtain r s1 where r: "getopt_internal nargv ostr s = Some (r, s1)"
    using assms(1) by (cases "getopt_internal nargv ostr s") (auto simp: getopt_long_def)
  show ?thesis
  proof (cases "r = -2")
    case False
    then have "r = c" "s1 = s'" using assms(1) r by (simp_all add: getopt_long_def)
    then show ?thesis using getopt_internal_result [OF r] False by blast
  next
    case True
    let ?a = "drop 2 (nargv ! os_optind s1)"
    let ?m = "long_match (takeWhile (\<lambda>ch. ch \<noteq> CHR ''='') ?a) ls 0 (-1)"
    show ?thesis
    proof (cases "?a = [] \<or> ?m = -1")
      case no_match: True
      have "c = -1 \<or> c = BADCH"
      proof (cases "?a = []")
        case empty: True
        then show ?thesis using assms(1) r True by (simp add: getopt_long_def)
      next
        case False
        then show ?thesis using no_match assms(1) r True by (simp add: getopt_long_def Let_def)
      qed
      then show ?thesis by blast
    next
      case False
      then have m: "0 \<le> ?m" "nat ?m < length ls" using long_match_range [of 0 _ ls "-1"] by force+
      then have l: "lo_flag (ls ! nat ?m) = None" "lo_val (ls ! nat ?m) = 0" using assms(2) by simp_all
      from assms(1) r True False obtain s2 where s2: "long_argument nargv (lo_has_arg (ls ! nat ?m)) (after CHR ''='' ?a) (s1\<lparr>os_optind := os_optind s1 + 1\<rparr>) = Some s2"
        by (cases "long_argument nargv (lo_has_arg (ls ! nat ?m)) (after CHR ''='' ?a) (s1\<lparr>os_optind := os_optind s1 + 1\<rparr>)")
          (auto simp: getopt_long_def Let_def)
      show ?thesis
      proof (cases "lo_has_arg (ls ! nat ?m) = required_argument \<and> os_optarg s2 = None")
        case missing: True
        then have "c = BADARG" using assms(1) r True False s2 by (simp add: getopt_long_def Let_def)
        then show ?thesis by simp
      next
        case found: False
        then have "c = 0 \<and> s' = s2\<lparr>os_index := ?m\<rparr>" using assms(1) r True False s2 l by (auto simp: getopt_long_def Let_def)
        then show ?thesis using m found by (intro disjI2) (auto intro!: exI [of _ "nat ?m"])
      qed
    qed
  qed
qed

text \<open>\<open>getopt\<close> and \<open>getopt_internal\<close> agree except for two dashes and, when the string of options does not start with a colon, for a missing argument.\<close>

lemma getopt_as_internal:
  assumes "ostr \<noteq> []" "hd ostr = CHR '':''" "is_option nargv (os_optind s) \<longrightarrow> take 2 (nargv ! os_optind s) \<noteq> ''--''"
  shows "getopt nargv ostr s = getopt_internal nargv ostr s"
proof (cases "is_option nargv (os_optind s)")
  case True
  then obtain a where a: "nargv ! os_optind s = CHR ''-'' # a" by (cases "nargv ! os_optind s") (auto simp: is_option_def)
  then show ?thesis using assms True by (cases a) (auto simp: getopt_def getopt_internal_def Let_def)
next
  case False
  then show ?thesis using assms by (simp add: getopt_def getopt_internal_def Let_def)
qed

section \<open>Reading the clock\<close>

text \<open>Up to the year 2038 the clock shows the seconds and microseconds since 1970.\<close>

lemma win_gettimeofday_value:
  fixes t :: nat
  defines "u \<equiv> int t div 10 - 11644473600000000"
  assumes "t < 2 ^ 64" "0 \<le> u" "u < 2 ^ 31 * 1000000"
  shows "win_gettimeofday (of_nat (t div 2 ^ 32)) (of_nat t) = (u div 1000000, u mod 1000000)"
proof -
  have hi: "bit (t div 4294967296) k \<longleftrightarrow> bit t (32 + k)" for k
    using bit_drop_bit_eq [of 32 t] by (simp add: drop_bit_eq_div fun_eq_iff comp_def)
  have "push_bit 32 (ucast (of_nat (t div 2 ^ 32) :: u32)) OR ucast (of_nat t :: u32) = (of_nat t :: 64 word)"
  proof (rule bit_word_eqI)
    fix n
    assume "n < LENGTH(64)"
    then show "bit (push_bit 32 (ucast (of_nat (t div 2 ^ 32) :: u32)) OR ucast (of_nat t :: u32) :: 64 word) n = bit (of_nat t :: 64 word) n"
      by (auto simp: bit_simps hi)
  qed
  moreover have "(of_nat t :: 64 word) div 10 = of_nat (t div 10)"
    using assms(2) by (intro unsigned_word_eqI [where ?'a = nat]) (simp add: unat_div unat_of_nat take_bit_nat_eq_self)
  moreover have "(of_nat (t div 10) :: 64 word) - DELTA_EPOCH_IN_MICROSECS = of_nat (nat u)"
  proof -
    have "of_nat (t div 10) = (of_nat (nat u) + DELTA_EPOCH_IN_MICROSECS :: 64 word)"
    proof -
      have "t div 10 = nat u + 11644473600000000" using assms(3) by (simp add: u_def zdiv_int nat_diff_distrib)
      then show ?thesis by simp
    qed
    then show ?thesis by simp
  qed
  ultimately have tm: "win_gettimeofday (of_nat (t div 2 ^ 32)) (of_nat t) =
      (sint (ucast (of_nat (nat u) div 1000000 :: 64 word) :: u32), sint (ucast (of_nat (nat u) mod 1000000 :: 64 word) :: u32))"
    by (simp add: win_gettimeofday_def Let_def)
  have b: "nat u < 2 ^ 64" "nat u div 1000000 < 2 ^ 31" "nat u mod 1000000 < 2 ^ 31" using assms(3,4) by (auto simp: nat_less_iff less_mult_imp_div_less)
  then have d: "of_nat (nat u) div 1000000 = (of_nat (nat u div 1000000) :: 64 word)" "of_nat (nat u) mod 1000000 = (of_nat (nat u mod 1000000) :: 64 word)"
    by (auto intro!: unsigned_word_eqI [where ?'a = nat] simp: unat_div unat_mod unat_of_nat take_bit_nat_eq_self)
  have s: "sint (ucast (of_nat n :: 64 word) :: u32) = int n" if "n < 2 ^ 31" for n
  proof -
    have "(ucast (of_nat n :: 64 word) :: u32) = of_nat n"
      using that by (intro unsigned_word_eqI [where ?'a = nat]) (simp add: unsigned_ucast_eq unsigned_of_nat take_bit_nat_eq_self)
    then show ?thesis using that by (simp add: signed_of_nat signed_take_bit_int_eq_self)
  qed
  show ?thesis unfolding tm d using b s assms(3) by (simp add: zdiv_int zmod_int)
qed

end
