(* ===== verification/Client_Options.thy ===== *)
theory Client_Options
  imports Client_App Win_Getopt
begin

text \<open>
  The table of options of the command line client (\<open>FOREACH_OPTION\<close> in \<open>pcp_app/pcp_app.c\<close>) and the loop over \<open>getopt_long\<close> in
  \<open>parse_params\<close>, for the build with the \<open>getopt_long\<close> of \<open>win_utils\<close>. Shown is that a command line has the effect of
  the options it was written from.
\<close>

section \<open>The table\<close>

text \<open>Option, letter (empty for \<open>NOSHORT\<close>), name, and whether it has an argument; \<open>E_##b\<close> is the position in the table.\<close>

definition option_table :: "(e_options \<times> string \<times> string \<times> bool) list" where
  "option_table =
     [(E_help, ''h'', ''help'', False), (E_server, ''s'', ''server'', True), (E_version, ''v'', ''pcp-version'', True),
      (E_disdisc, ''d'', ''disable-autodiscovery'', False), (E_timeout, ''T'', ''timeout'', True), (E_fast_ret, ''f'', ''fast-return'', False),
      (E_int, ''i'', ''internal'', True), (E_peer, ''p'', ''peer'', True), (E_ext, ''e'', ''external'', True), (E_tcp, ''t'', ''tcp'', False),
      (E_udp, ''u'', ''udp'', False), (E_prot, ''n'', ''protocol'', True), (E_lifetime, ''l'', ''lifetime'', True),
      (E_dscp_up, ''U'', ''dscp-up'', True), (E_dscp_down, ''D'', ''dscp-down'', True), (E_pfailure, ''P'', ''prefer-failure'', False),
      (E_filter, ''F'', ''filter'', True), (E_thirdparty, ''3'', ''third-party'', True), (E_md_id, ''I'', ''metadata-id'', True),
      (E_md_val, ''V'', ''metadata-value'', True), (E_dev_id, [], ''device-id'', False), (E_location, [], ''location'', False),
      (E_user_id, [], ''user-id'', True), (E_sadscp_jit, ''J'', ''jitter-tolerance'', True), (E_sadscp_los, ''L'', ''loss-tolerance'', True),
      (E_sadscp_del, ''E'', ''delay-tolerance'', True), (E_sadscp_app, ''A'', ''app-name'', True)]"

definition long_options :: "long_option list" where
  "long_options = map (\<lambda>(e, a, c, d). \<lparr>lo_name = c, lo_has_arg = (if d then required_argument else no_argument), lo_flag = None, lo_val = 0\<rparr>)
     option_table"

definition short_opts_string :: string where
  "short_opts_string = concat (map (\<lambda>(e, a, c, d). a @ (if d then '':'' else [])) option_table)"

text \<open>\<open>PARSE_OPTION\<close> for all rows: the option that \<open>c\<close> and \<open>option_index\<close> stand for, or \<open>None\<close> for the default action.\<close>

fun decode_option :: "int \<Rightarrow> int \<Rightarrow> int \<Rightarrow> (e_options \<times> string \<times> string \<times> bool) list \<Rightarrow> e_options option" where
  "decode_option c option_index i [] = None"
| "decode_option c option_index i ((e, a, n, d) # rows) =
     (if c = 0 \<and> option_index = i \<or> c = (case a of [] \<Rightarrow> 0 | ch # _ \<Rightarrow> char_int ch) \<and> c \<noteq> 0 then Some e
      else decode_option c option_index (i + 1) rows)"

text \<open>The loop: the options with \<open>optarg\<close>, up to the first that is not known, where the program ends.\<close>

partial_function (option) option_loop :: "string list \<Rightarrow> getopt_state \<Rightarrow> (e_options \<times> string option) option list option" where
  "option_loop argv s = do {
     (c, s) \<leftarrow> getopt_long argv short_opts_string long_options True s;
     if c = -1 then Some []
     else case decode_option c (os_index s) 0 option_table of
       None \<Rightarrow> Some [None]
     | Some e \<Rightarrow> do {
         opts \<leftarrow> option_loop argv s;
         Some (Some (e, os_optarg s) # opts)
       }
   }"

definition command_line :: "string list \<Rightarrow> (e_options \<times> string option) option list option" where
  "command_line argv = option_loop argv getopt_start"

section \<open>What command lines mean\<close>

definition letter_entry :: "char \<Rightarrow> (e_options \<times> bool) option" where
  "letter_entry ch = map_option (\<lambda>(e, a, n, d). (e, d)) (List.find (\<lambda>(e, a, n, d). a = [ch]) option_table)"

fun name_index :: "string \<Rightarrow> (e_options \<times> string \<times> string \<times> bool) list \<Rightarrow> nat \<Rightarrow> (nat \<times> e_options \<times> bool) option" where
  "name_index n [] i = None"
| "name_index n ((e, a, c, d) # rows) i = (if c = n then Some (i, e, d) else name_index n rows (i + 1))"

definition name_entry :: "string \<Rightarrow> (nat \<times> e_options \<times> bool) option" where
  "name_entry n = name_index n option_table 0"

fun form_ok :: "arg_form \<Rightarrow> bool" where
  "form_ok (Flags chs) \<longleftrightarrow> chs \<noteq> [] \<and> list_all (\<lambda>ch. case letter_entry ch of Some (e, d) \<Rightarrow> \<not> d | None \<Rightarrow> False) chs"
| "form_ok (Letter ch v) \<longleftrightarrow> (case letter_entry ch of Some (e, d) \<Rightarrow> d | None \<Rightarrow> False)"
| "form_ok (Letter_joined ch v) \<longleftrightarrow> v \<noteq> [] \<and> (case letter_entry ch of Some (e, d) \<Rightarrow> d | None \<Rightarrow> False)"
| "form_ok (Name n) \<longleftrightarrow> (case name_entry n of Some (i, e, d) \<Rightarrow> \<not> d | None \<Rightarrow> False)"
| "form_ok (Name_eq n v) \<longleftrightarrow> (case name_entry n of Some (i, e, d) \<Rightarrow> d | None \<Rightarrow> False)"
| "form_ok (Name_sep n v) \<longleftrightarrow> (case name_entry n of Some (i, e, d) \<Rightarrow> d | None \<Rightarrow> False)"

definition letter_opt :: "char \<Rightarrow> e_options" where
  "letter_opt ch = fst (the (letter_entry ch))"

definition name_opt :: "string \<Rightarrow> e_options" where
  "name_opt n = fst (snd (the (name_entry n)))"

fun form_means :: "arg_form \<Rightarrow> (e_options \<times> string option) option list" where
  "form_means (Flags chs) = map (\<lambda>ch. Some (letter_opt ch, None)) chs"
| "form_means (Letter ch v) = [Some (letter_opt ch, Some v)]"
| "form_means (Letter_joined ch v) = [Some (letter_opt ch, Some v)]"
| "form_means (Name n) = [Some (name_opt n, None)]"
| "form_means (Name_eq n v) = [Some (name_opt n, Some v)]"
| "form_means (Name_sep n v) = [Some (name_opt n, Some v)]"

text \<open>The end of the options: of the vector, an argument that is none, or two dashes.\<close>

fun options_end :: "string list \<Rightarrow> bool" where
  "options_end [] = True"
| "options_end (a # as) \<longleftrightarrow> a = [] \<or> hd a \<noteq> CHR ''-'' \<or> a = ''--''"

section \<open>Facts on the table\<close>

lemma table_letters:
  "list_all (\<lambda>(e, a, n, d). case a of [] \<Rightarrow> True | ch # _ \<Rightarrow>
     ch \<noteq> CHR '':'' \<and> ch \<noteq> CHR ''-'' \<and> (of_char ch :: nat) < 128 \<and> char_int ch \<noteq> 0 \<and>
     (case after ch short_opts_string of None \<Rightarrow> False | Some t \<Rightarrow> (t \<noteq> [] \<and> hd t = CHR '':'') = d) \<and>
     decode_option (char_int ch) 0 0 option_table = Some e) option_table"
  by code_simp

lemma table_names: "distinct (map lo_name long_options)" "list_all (\<lambda>(e, a, n, d). n \<noteq> [] \<and> CHR ''='' \<notin> set n) option_table"
  by code_simp+

lemma table_positions: "list_all (\<lambda>i. decode_option 0 (int i) 0 option_table = Some (fst (option_table ! i))) [0..<length option_table]"
  by code_simp

lemma decode_letter: "c \<noteq> 0 \<Longrightarrow> decode_option c k i rows = decode_option c 0 i rows"
  by (induction c k i rows rule: decode_option.induct) auto

definition takes_arg :: "e_options \<Rightarrow> bool" where
  "takes_arg e = list_ex (\<lambda>(e', a, n, d). e' = e \<and> d) option_table"

lemma table_takes: "list_all (\<lambda>(e, a, n, d). takes_arg e = d) option_table"
  by code_simp

lemma letter_facts:
  assumes "letter_entry ch = Some (e, d)"
  shows "if d then arg_letter short_opts_string ch else flag_letter short_opts_string ch" "(of_char ch :: nat) < 128"
    "decode_option (char_int ch) k 0 option_table = Some e" "takes_arg e = d" "letter_opt ch = e"
proof -
  from assms obtain n where row: "(e, [ch], n, d) \<in> set option_table"
    by (auto simp: letter_entry_def find_Some_iff) (metis nth_mem)
  from table_letters row have f: "ch \<noteq> CHR '':''" "ch \<noteq> CHR ''-''" "(of_char ch :: nat) < 128" "char_int ch \<noteq> 0"
      "case after ch short_opts_string of None \<Rightarrow> False | Some t \<Rightarrow> (t \<noteq> [] \<and> hd t = CHR '':'') = d"
      "decode_option (char_int ch) 0 0 option_table = Some e"
    by (fastforce simp: list_all_iff)+
  then obtain t where t: "after ch short_opts_string = Some t" "(t \<noteq> [] \<and> hd t = CHR '':'') = d" by (cases "after ch short_opts_string") auto
  show "if d then arg_letter short_opts_string ch else flag_letter short_opts_string ch"
    using f(1-3) t by (cases t) (auto simp: arg_letter_def flag_letter_def)
  show "(of_char ch :: nat) < 128" by (rule f(3))
  show "decode_option (char_int ch) k 0 option_table = Some e" using f(4,6) decode_letter by metis
  show "takes_arg e = d" using table_takes row by (fastforce simp: list_all_iff)
  show "letter_opt ch = e" using assms by (simp add: letter_opt_def)
qed

lemma name_index_nth: "name_index n rows k = Some (i, e, d) \<Longrightarrow> k \<le> i \<and> i - k < length rows \<and> (\<exists>a. rows ! (i - k) = (e, a, n, d))"
proof (induction n rows k rule: name_index.induct)
  case (2 n e' a c d' rows k)
  show ?case
  proof (cases "c = n")
    case False
    then have IH: "k + 1 \<le> i \<and> i - (k + 1) < length rows \<and> (\<exists>a. rows ! (i - (k + 1)) = (e, a, n, d))" using 2 by simp
    then have "i - k = Suc (i - (k + 1))" by arith
    then show ?thesis using IH by auto
  qed (use 2 in auto)
qed simp

lemma name_facts:
  assumes "name_entry n = Some (i, e, d)"
  shows "names long_options n i" "lo_has_arg (long_options ! i) = (if d then required_argument else no_argument)"
    "lo_flag (long_options ! i) = None" "lo_val (long_options ! i) = 0" "decode_option 0 (int i) 0 option_table = Some e"
    "takes_arg e = d" "name_opt n = e"
proof -
  from name_index_nth [of n option_table 0 i e d] assms obtain a where
    row: "i < length option_table" "option_table ! i = (e, a, n, d)" by (auto simp: name_entry_def)
  then have mem: "(e, a, n, d) \<in> set option_table" by (metis nth_mem)
  have lo: "long_options ! i = \<lparr>lo_name = n, lo_has_arg = (if d then required_argument else no_argument), lo_flag = None, lo_val = 0\<rparr>"
    "i < length long_options" using row by (simp_all add: long_options_def)
  then have "long_match n long_options 0 (-1) = int i" using long_match_exact [OF table_names(1), of i n 0] by simp
  moreover have "n \<noteq> []" "CHR ''='' \<notin> set n" using table_names(2) mem by (auto simp: list_all_iff)
  ultimately show "names long_options n i" using lo(2) by (simp add: names_def)
  show "lo_has_arg (long_options ! i) = (if d then required_argument else no_argument)" "lo_flag (long_options ! i) = None"
    "lo_val (long_options ! i) = 0" by (simp_all add: lo)
  show "decode_option 0 (int i) 0 option_table = Some e" using table_positions row by (simp add: list_all_iff)
  show "takes_arg e = d" using table_takes mem by (fastforce simp: list_all_iff)
  show "name_opt n = e" using assms by (simp add: name_opt_def)
qed

section \<open>Reading forms\<close>

text \<open>The argument of an option that takes none is what an earlier one left behind, and is not used.\<close>

fun same_option :: "(e_options \<times> string option) option \<Rightarrow> (e_options \<times> string option) option \<Rightarrow> bool" where
  "same_option (Some (e, a)) (Some (e', a')) \<longleftrightarrow> e = e' \<and> (takes_arg e \<longrightarrow> a = a')"
| "same_option None None \<longleftrightarrow> True"
| "same_option _ _ \<longleftrightarrow> False"

text \<open>One round of the loop that finds an option, and the reading of a part of the command line.\<close>

lemma option_loop_step:
  assumes "getopt_long argv short_opts_string long_options True s = Some (c, s')" "c \<noteq> -1"
    "decode_option c (os_index s') 0 option_table = Some e"
  shows "option_loop argv s = map_option ((#) (Some (e, os_optarg s'))) (option_loop argv s')"
  by (subst option_loop.simps) (use assms in \<open>cases "option_loop argv s'", simp_all\<close>)

definition reads :: "string list \<Rightarrow> getopt_state \<Rightarrow> (e_options \<times> string option) option list \<Rightarrow> nat \<Rightarrow> bool" where
  "reads argv s means k \<longleftrightarrow> (\<exists>opts s'. at_start s' \<and> os_optind s' = k \<and> list_all2 same_option opts means \<and>
     option_loop argv s = map_option ((@) opts) (option_loop argv s'))"

lemma reads_one:
  assumes "getopt_long argv short_opts_string long_options True s = Some (c, s')" "c \<noteq> -1"
    "decode_option c (os_index s') 0 option_table = Some e" "at_start s'" "os_optind s' = k" "takes_arg e \<longrightarrow> os_optarg s' = a"
  shows "reads argv s [Some (e, a)] k"
  unfolding reads_def using option_loop_step [OF assms(1-3)] assms(4-6)
  by (intro exI [of _ "[Some (e, os_optarg s')]"] exI [of _ s']) (auto intro!: option.map_cong)

lemma reads_more:
  assumes "option_loop argv s = map_option ((#) opt) (option_loop argv s')" "reads argv s' means k" "same_option opt mean"
  shows "reads argv s (mean # means) k"
proof -
  from assms(2) obtain opts s'' where "at_start s''" "os_optind s'' = k" "list_all2 same_option opts means"
    "option_loop argv s' = map_option ((@) opts) (option_loop argv s'')" by (auto simp: reads_def)
  then show ?thesis using assms(1,3) unfolding reads_def
    by (intro exI [of _ "opt # opts"] exI [of _ s'']) (auto simp: option.map_comp intro!: option.map_cong)
qed

text \<open>Letters in one string, from any of them on.\<close>

lemma reads_flags:
  "chs \<noteq> [] \<Longrightarrow> list_all (\<lambda>ch. case letter_entry ch of Some (e, d) \<Rightarrow> \<not> d | None \<Rightarrow> False) chs \<Longrightarrow>
   getopt_internal argv short_opts_string s = option_letter BADARG argv short_opts_string s1 \<Longrightarrow>
   os_place s1 = chs \<Longrightarrow> \<not> os_optreset s1 \<Longrightarrow> os_optind s1 = k \<Longrightarrow>
   reads argv s (map (\<lambda>ch. Some (letter_opt ch, None)) chs) (Suc k)"
proof (induction chs arbitrary: s s1)
  case (Cons ch chs)
  from Cons.prems(2) obtain e where e: "letter_entry ch = Some (e, False)" by (auto split: option.splits)
  note f = letter_facts [OF e]
  let ?s = "s1\<lparr>os_optopt := char_int ch, os_place := chs, os_optarg := None, os_optind := (if chs = [] then os_optind s1 + 1 else os_optind s1)\<rparr>"
  have "getopt_internal argv short_opts_string s = Some (char_int ch, ?s)"
    using Cons.prems(3) flag_at [of short_opts_string ch s1 chs BADARG argv] f(1) Cons.prems(4) by simp
  then have g: "getopt_long argv short_opts_string long_options True s = Some (char_int ch, ?s)"
    using getopt_long_letter f(2) by blast
  have ne: "char_int ch \<noteq> -1" using letter_return [OF f(2)] by simp
  show ?case
  proof (cases "chs = []")
    case True
    then show ?thesis using reads_one [OF g ne f(3), of "Suc k" None] Cons.prems f(4,5) by (simp add: at_start_def)
  next
    case False
    have "getopt_internal argv short_opts_string ?s = option_letter BADARG argv short_opts_string ?s"
      using False Cons.prems(5) by (simp add: getopt_internal_def)
    then have "reads argv ?s (map (\<lambda>ch. Some (letter_opt ch, None)) chs) (Suc k)"
      using Cons.IH [of ?s ?s] Cons.prems False by simp
    then show ?thesis using reads_more [OF option_loop_step [OF g ne f(3)]] f(4,5) by simp
  qed
qed simp

lemma reads_letter:
  assumes "letter_entry ch = Some (e, True)" "getopt_internal argv short_opts_string s = Some (char_int ch, s')"
    "at_start s'" "os_optind s' = k" "os_optarg s' = Some v"
  shows "reads argv s [Some (letter_opt ch, Some v)] k"
proof -
  note f = letter_facts [OF assms(1)]
  show ?thesis
    using reads_one [OF getopt_long_letter [OF assms(2) f(2)] _ f(3) assms(3,4)] letter_return [OF f(2)] assms(5) f(5) by simp
qed

lemma reads_name:
  assumes "name_entry n = Some (i, e, d)" "at_start s" "argv = pre @ (''--'' @ n @ tail) # post" "os_optind s = length pre"
    "tail = (case arg of None \<Rightarrow> [] | Some v \<Rightarrow> CHR ''='' # v)"
    "long_argument argv (if d then required_argument else no_argument) arg (s\<lparr>os_optind := os_optind s + 1\<rparr>) = Some s'"
    "at_start s'" "os_optind s' = k" "d \<longrightarrow> os_optarg s' = a \<and> a \<noteq> None"
  shows "reads argv s [Some (name_opt n, a)] k"
proof -
  note f = name_facts [OF assms(1)]
  have g: "getopt_long argv short_opts_string long_options True s = Some (0, s'\<lparr>os_index := int i\<rparr>)"
    using getopt_long_name [OF assms(2-4) f(1) assms(5) f(3,4), of short_opts_string] assms(6,9) f(2) by auto
  have "reads argv s [Some (e, a)] k" using reads_one [OF g, of e k a] assms(7-9) f(5,6) by (simp add: at_start_def)
  then show ?thesis using f(7) by simp
qed

text \<open>The forms one by one.\<close>

lemma reads_Flags:
  assumes "form_ok (Flags chs)" "at_start s" "argv = pre @ (CHR ''-'' # chs) # post" "os_optind s = length pre"
  shows "reads argv s (form_means (Flags chs)) (Suc (length pre))"
proof -
  obtain ch rest where chs: "chs = ch # rest" using assms(1) by (cases chs) auto
  then obtain e where e: "letter_entry ch = Some (e, False)" using assms(1) by (auto split: option.splits)
  have "ch \<noteq> CHR ''-''" using letter_facts(1) [OF e] by (simp add: flag_letter_def)
  then have g: "getopt_internal argv short_opts_string s = option_letter BADARG argv short_opts_string (s\<lparr>os_place := chs\<rparr>)"
    using internal_letters [OF assms(2) assms(3) [unfolded chs] assms(4)] chs by blast
  have "reads argv s (map (\<lambda>ch. Some (letter_opt ch, None)) chs) (Suc (length pre))"
    using reads_flags [OF _ _ g] assms(1,2,4) by (simp add: at_start_def)
  then show ?thesis by simp
qed

lemma arg_letter_entry:
  assumes "case letter_entry ch of Some (e, d) \<Rightarrow> d | None \<Rightarrow> False"
  obtains e where "letter_entry ch = Some (e, True)" "arg_letter short_opts_string ch" "ch \<noteq> CHR ''-''"
proof -
  from assms obtain e where e: "letter_entry ch = Some (e, True)" by (auto split: option.splits)
  show ?thesis using that [OF e] letter_facts(1) [OF e] by (simp add: arg_letter_def)
qed

lemma reads_Letter:
  assumes "form_ok (Letter ch v)" "at_start s" "argv = pre @ [CHR ''-'', ch] # v # post" "os_optind s = length pre"
  shows "reads argv s (form_means (Letter ch v)) (Suc (Suc (length pre)))"
proof -
  from assms(1) obtain e where e: "letter_entry ch = Some (e, True)" "arg_letter short_opts_string ch" "ch \<noteq> CHR ''-''"
    by (auto elim: arg_letter_entry)
  let ?s = "s\<lparr>os_place := [ch]\<rparr>"
  have v: "argv ! (os_optind ?s + 1) = v" "os_optind ?s + 1 < length argv" using assms(3,4) by (simp_all add: nth_append)
  have "getopt_internal argv short_opts_string s = option_letter BADARG argv short_opts_string ?s"
    using internal_letters [OF assms(2,3,4) e(3)] .
  also have "\<dots> = Some (char_int ch, ?s\<lparr>os_optopt := char_int ch, os_place := [], os_optarg := Some v, os_optind := os_optind ?s + 2\<rparr>)"
    using separate_at [OF e(2), of ?s argv BADARG] v by simp
  finally have g: "getopt_internal argv short_opts_string s = \<dots>" .
  have "reads argv s [Some (letter_opt ch, Some v)] (Suc (Suc (length pre)))"
    using reads_letter [OF e(1) g] assms(2,4) by (simp add: at_start_def)
  then show ?thesis by simp
qed

lemma reads_Letter_joined:
  assumes "form_ok (Letter_joined ch v)" "at_start s" "argv = pre @ (CHR ''-'' # ch # v) # post" "os_optind s = length pre"
  shows "reads argv s (form_means (Letter_joined ch v)) (Suc (length pre))"
proof -
  from assms(1) obtain e where e: "letter_entry ch = Some (e, True)" "arg_letter short_opts_string ch" "ch \<noteq> CHR ''-''"
    by (auto elim: arg_letter_entry)
  let ?s = "s\<lparr>os_place := ch # v\<rparr>"
  have "getopt_internal argv short_opts_string s = option_letter BADARG argv short_opts_string ?s"
    using internal_letters [OF assms(2,3,4) e(3)] .
  also have "\<dots> = Some (char_int ch, ?s\<lparr>os_optopt := char_int ch, os_place := [], os_optarg := Some v, os_optind := os_optind ?s + 1\<rparr>)"
    using joined_at [OF e(2), of ?s v BADARG argv] assms(1) by simp
  finally have g: "getopt_internal argv short_opts_string s = \<dots>" .
  have "reads argv s [Some (letter_opt ch, Some v)] (Suc (length pre))"
    using reads_letter [OF e(1) g] assms(2,4) by (simp add: at_start_def)
  then show ?thesis by simp
qed

lemma reads_Name:
  assumes "form_ok (Name n)" "at_start s" "argv = pre @ (''--'' @ n) # post" "os_optind s = length pre"
  shows "reads argv s (form_means (Name n)) (Suc (length pre))"
proof -
  from assms(1) obtain i e where e: "name_entry n = Some (i, e, False)" by (auto split: option.splits)
  let ?s = "s\<lparr>os_optind := os_optind s + 1\<rparr>"
  have "long_argument argv no_argument None ?s = Some ?s" by (simp add: long_argument_def)
  then have "reads argv s [Some (name_opt n, None)] (Suc (length pre))"
    using assms(2-4) by (intro reads_name [OF e assms(2), of argv pre "[]" post None ?s]) (simp_all add: at_start_def)
  then show ?thesis by simp
qed

lemma reads_Name_eq:
  assumes "form_ok (Name_eq n v)" "at_start s" "argv = pre @ (''--'' @ n @ CHR ''='' # v) # post" "os_optind s = length pre"
  shows "reads argv s (form_means (Name_eq n v)) (Suc (length pre))"
proof -
  from assms(1) obtain i e where e: "name_entry n = Some (i, e, True)" by (auto split: option.splits)
  let ?s = "s\<lparr>os_optind := os_optind s + 1\<rparr>"
  have "long_argument argv required_argument (Some v) ?s = Some (?s\<lparr>os_optarg := Some v\<rparr>)" by (simp add: long_argument_def)
  then have "reads argv s [Some (name_opt n, Some v)] (Suc (length pre))"
    using assms(2-4) by (intro reads_name [OF e assms(2), of argv pre "CHR ''='' # v" post "Some v" "?s\<lparr>os_optarg := Some v\<rparr>"])
      (simp_all add: at_start_def)
  then show ?thesis by simp
qed

lemma reads_Name_sep:
  assumes "form_ok (Name_sep n v)" "at_start s" "argv = pre @ (''--'' @ n) # v # post" "os_optind s = length pre"
  shows "reads argv s (form_means (Name_sep n v)) (Suc (Suc (length pre)))"
proof -
  from assms(1) obtain i e where e: "name_entry n = Some (i, e, True)" by (auto split: option.splits)
  let ?s = "s\<lparr>os_optind := os_optind s + 1\<rparr>"
  have "argv_at argv (os_optind ?s) = Some (Some v)" using assms(3,4) by (simp add: argv_at_def nth_append)
  then have "long_argument argv required_argument None ?s = Some (?s\<lparr>os_optarg := Some v, os_optind := os_optind ?s + 1\<rparr>)"
    by (simp add: long_argument_def)
  then have "reads argv s [Some (name_opt n, Some v)] (Suc (Suc (length pre)))"
    using assms(2-4)
    by (intro reads_name [OF e assms(2), of argv pre "[]" "v # post" None "?s\<lparr>os_optarg := Some v, os_optind := os_optind ?s + 1\<rparr>"])
      (simp_all add: at_start_def)
  then show ?thesis by simp
qed

lemma reads_form:
  assumes "form_ok f" "at_start s" "argv = pre @ render f @ post" "os_optind s = length pre"
  shows "reads argv s (form_means f) (length (pre @ render f))"
proof (cases f)
  case (Flags chs)
  then show ?thesis using reads_Flags [of chs s argv pre post] assms by simp
next
  case (Letter ch v)
  then show ?thesis using reads_Letter [of ch v s argv pre post] assms by simp
next
  case (Letter_joined ch v)
  then show ?thesis using reads_Letter_joined [of ch v s argv pre post] assms by simp
next
  case (Name n)
  then show ?thesis using reads_Name [of n s argv pre post] assms by simp
next
  case (Name_eq n v)
  then show ?thesis using reads_Name_eq [of n v s argv pre post] assms by simp
next
  case (Name_sep n v)
  then show ?thesis using reads_Name_sep [of n v s argv pre post] assms by simp
qed

lemma option_loop_end:
  assumes "at_start s" "argv = pre @ rest" "os_optind s = length pre" "options_end rest"
  shows "option_loop argv s = Some []"
proof -
  have "\<exists>s'. getopt_long argv short_opts_string long_options True s = Some (-1, s')"
  proof (cases "is_option argv (os_optind s)")
    case True
    then obtain as where r: "rest = ''--'' # as" using assms(2-4) by (cases rest) (auto simp: is_option_def nth_append)
    then have "getopt_internal argv short_opts_string s = Some (-2, s)"
      using assms True by (simp add: getopt_internal_def Let_def not_reset no_place) (simp add: at_start_def)
    then show ?thesis using r assms(2,3) by (simp add: getopt_long_def Let_def nth_append)
  next
    case False
    then have "getopt_internal argv short_opts_string s = Some (-1, s)"
      using assms(1) by (simp add: getopt_internal_def Let_def not_reset no_place) (simp add: at_start_def)
    then show ?thesis by (simp add: getopt_long_def)
  qed
  then show ?thesis by (subst option_loop.simps) auto
qed

lemma option_loop_forms:
  "\<forall>f\<in>set fs. form_ok f \<Longrightarrow> at_start s \<Longrightarrow> argv = pre @ concat (map render fs) @ rest \<Longrightarrow> os_optind s = length pre \<Longrightarrow> options_end rest \<Longrightarrow>
   \<exists>opts. option_loop argv s = Some opts \<and> list_all2 same_option opts (concat (map form_means fs))"
proof (induction fs arbitrary: s pre)
  case Nil
  then show ?case using option_loop_end [of s argv pre rest] by simp
next
  case (Cons f fs)
  from reads_form [of f s argv pre "concat (map render fs) @ rest"] Cons.prems obtain opts s' where
    f: "at_start s'" "os_optind s' = length (pre @ render f)" "list_all2 same_option opts (form_means f)"
      "option_loop argv s = map_option ((@) opts) (option_loop argv s')" by (auto simp: reads_def)
  from Cons.IH [OF _ f(1) _ f(2)] Cons.prems obtain opts' where
    "option_loop argv s' = Some opts'" "list_all2 same_option opts' (concat (map form_means fs))" by auto
  then show ?case using f(3,4) by (auto intro: list_all2_appendI)
qed

section \<open>The client\<close>

lemma parse_opt_arg: "\<not> takes_arg e \<Longrightarrow> parse_opt sysinfo allocated e a p = parse_opt sysinfo allocated e a' p"
  by (cases e) (simp_all add: takes_arg_def option_table_def)

lemma parse_loop_same: "list_all2 same_option opts opts' \<Longrightarrow> parse_loop sysinfo malloc n opts p = parse_loop sysinfo malloc n opts' p"
proof (induction opts opts' arbitrary: n p rule: list_all2_induct)
  case (Cons x xs y ys)
  show ?case
  proof (cases x)
    case None
    then show ?thesis using Cons by (cases y) auto
  next
    case (Some ea)
    then obtain e a a' where x: "x = Some (e, a)" "y = Some (e, a')" "takes_arg e \<longrightarrow> a = a'" using Cons by (cases y; cases ea) auto
    then have "parse_opt sysinfo (malloc n) e a p = parse_opt sysinfo (malloc n) e a' p" using parse_opt_arg by (cases "takes_arg e") blast+
    then show ?thesis using x Cons by (simp split: option.split sum.split)
  qed
qed simp

text \<open>C26: command lines of the client are read as they are written. For every sequence of options, by letter or by name, letters put together or not,
  arguments in the same string, after an equal sign or in the next string, and with any characters in them (such as dashes),
  followed by operands, two dashes or nothing, reading the command line returns, and the parameters are those of the
  options in the order in which they were written.\<close>

theorem command_line_read:
  assumes "\<forall>f\<in>set fs. form_ok f" "options_end rest" "argv = prog # concat (map render fs) @ rest"
  shows "\<exists>opts. command_line argv = Some opts \<and>
    (\<forall>sysinfo malloc argc. parse_params sysinfo malloc argc opts = parse_params sysinfo malloc argc (concat (map form_means fs)))"
proof -
  have "at_start getopt_start" "os_optind getopt_start = length [prog]" by (simp_all add: at_start_def getopt_start_def)
  with option_loop_forms [of fs getopt_start argv "[prog]" rest] assms obtain opts where
    o: "option_loop argv getopt_start = Some opts" "list_all2 same_option opts (concat (map form_means fs))" by auto
  then show ?thesis using parse_loop_same by (simp add: command_line_def parse_params_def)
qed

theorem command_line_read_witness:
  "\<exists>opts. command_line [''pcp'', ''-df'', ''-s'', ''-x'', ''-T5'', ''--tcp'', ''--internal=:80'', ''--pcp-version'', ''2'', ''--'', ''-q''] = Some opts \<and>
    (\<forall>sysinfo malloc argc. parse_params sysinfo malloc argc opts = parse_params sysinfo malloc argc
       [Some (E_disdisc, None), Some (E_fast_ret, None), Some (E_server, Some ''-x''), Some (E_timeout, Some ''5''), Some (E_tcp, None),
        Some (E_int, Some '':80''), Some (E_version, Some ''2'')])"
proof -
  let ?fs = "[Flags ''df'', Letter CHR ''s'' ''-x'', Letter_joined CHR ''T'' ''5'', Name ''tcp'', Name_eq ''internal'' '':80'', Name_sep ''pcp-version'' ''2'']"
  have "list_all form_ok ?fs" by code_simp
  moreover have "concat (map form_means ?fs) =
     [Some (E_disdisc, None), Some (E_fast_ret, None), Some (E_server, Some ''-x''), Some (E_timeout, Some ''5''), Some (E_tcp, None),
      Some (E_int, Some '':80''), Some (E_version, Some ''2'')]" by code_simp
  moreover have "options_end [''--'', ''-q'']" by simp
  ultimately show ?thesis
    using command_line_read [of ?fs "[''--'', ''-q'']" "''pcp'' # concat (map render ?fs) @ [''--'', ''-q'']" "''pcp''"] by (simp add: list_all_iff)
qed

section \<open>Every command line\<close>

lemma short_opts_ascii: "ascii short_opts_string"
proof -
  have "list_all (\<lambda>ch. (of_char ch :: nat) < 128) short_opts_string" by code_simp
  then show ?thesis by (simp add: ascii_def list_all_iff)
qed

lemma short_opts_letters: "list_all (\<lambda>ch. ch = CHR '':'' \<or> letter_entry ch \<noteq> None) short_opts_string"
  by code_simp

lemma decode_errors: "decode_option BADCH k 0 option_table = None" "decode_option BADARG k 0 option_table = None"
proof -
  have "decode_option BADCH 0 0 option_table = None" "decode_option BADARG 0 0 option_table = None" by code_simp+
  then show "decode_option BADCH k 0 option_table = None" "decode_option BADARG k 0 option_table = None"
    using decode_letter [of BADCH k] decode_letter [of BADARG k] by simp_all
qed

text \<open>The letter for metadata has two colons behind it, of which the second belongs to an option without a letter.\<close>

lemma metadata_letter_colons: "after CHR ''V'' short_opts_string = Some ''::J:L:E:A:''"
  by code_simp

lemma found_has_argument:
  assumes "getopt_long argv short_opts_string long_options True s = Some (c, s')" "c \<noteq> -1"
    "decode_option c (os_index s') 0 option_table = Some e" "takes_arg e"
  shows "os_optarg s' \<noteq> None"
proof -
  have "\<forall>l\<in>set long_options. lo_flag l = None \<and> lo_val l = 0" by (auto simp: long_options_def)
  from getopt_long_result [OF assms(1) this] assms(2,3) consider
      (letter) ch t where "c = char_int ch" "ch \<noteq> CHR '':''" "after ch short_opts_string = Some t"
        "t \<noteq> [] \<and> hd t = CHR '':'' \<longrightarrow> os_optarg s' \<noteq> None"
    | (name) i where "i < length long_options" "c = 0" "os_index s' = int i" "lo_has_arg (long_options ! i) = required_argument \<longrightarrow> os_optarg s' \<noteq> None"
    by (auto simp: decode_errors)
  then show ?thesis
  proof cases
    case letter
    then have "letter_entry ch \<noteq> None" using after_in [OF letter(3)] short_opts_letters by (auto simp: list_all_iff)
    then obtain e' d where e': "letter_entry ch = Some (e', d)" by auto
    then have "e' = e" "d" using letter_facts(3,4) [OF e'] assms(3,4) letter(1) by auto
    then have "arg_letter short_opts_string ch" using letter_facts(1) [OF e'] by simp
    then show ?thesis using letter(3,4) by (auto simp: arg_letter_def)
  next
    case name
    then have i: "i < length option_table" by (simp add: long_options_def)
    obtain e' a n d where row: "option_table ! i = (e', a, n, d)" by (cases "option_table ! i") auto
    have "decode_option 0 (int i) 0 option_table = Some e'" using table_positions i row by (simp add: list_all_iff)
    then have "e' = e" using assms(3) name(2,3) by simp
    then have "d" using table_takes row i nth_mem [OF i] assms(4) by (fastforce simp: list_all_iff)
    then have "lo_has_arg (long_options ! i) = required_argument" using row i by (simp add: long_options_def)
    then show ?thesis using name(4) by simp
  qed
qed

definition arguments_there :: "(e_options \<times> string option) option list \<Rightarrow> bool" where
  "arguments_there opts \<longleftrightarrow> (\<forall>e a. Some (e, a) \<in> set opts \<and> takes_arg e \<longrightarrow> a \<noteq> None)"

lemma option_loop_returns: "in_vector argv s \<Longrightarrow> \<exists>opts. option_loop argv s = Some opts \<and> arguments_there opts"
proof (induction "rank argv s" arbitrary: s rule: wf_induct_rule [OF wf_lex_prod [OF wf_less_than wf_less_than]])
  case 1
  from getopt_long_moves [OF 1(2) short_opts_ascii] obtain c s' where
    g: "getopt_long argv short_opts_string long_options True s = Some (c, s')" "c = -1 \<or> moved argv s s'" by blast
  show ?case
  proof (cases "c = -1")
    case True
    then show ?thesis using g(1) by (subst option_loop.simps) (simp add: arguments_there_def)
  next
    case False
    show ?thesis
    proof (cases "decode_option c (os_index s') 0 option_table")
      case None
      then show ?thesis using g(1) False by (subst option_loop.simps) (simp add: arguments_there_def)
    next
      case (Some e)
      have "moved argv s s'" using g(2) False by simp
      then obtain opts where opts: "option_loop argv s' = Some opts" "arguments_there opts" using 1(1) [of s'] by (auto simp: moved_def)
      have "option_loop argv s = Some (Some (e, os_optarg s') # opts)" using option_loop_step [OF g(1) False Some] opts(1) by simp
      moreover have "takes_arg e \<longrightarrow> os_optarg s' \<noteq> None" using found_has_argument [OF g(1) False Some] by blast
      ultimately show ?thesis using opts(2) by (auto simp: arguments_there_def)
    qed
  qed
qed

text \<open>C27: reading the command line of the client ends, whatever the vector holds: strings of any length, any letters and names, arguments that
  are missing; and no option that asks for an argument comes without one, so that the code that stores it never reads
  through a null pointer.\<close>

theorem command_line_returns: "\<exists>opts. command_line argv = Some opts \<and> (\<forall>e a. Some (e, a) \<in> set opts \<longrightarrow> takes_arg e \<longrightarrow> a \<noteq> None)"
proof -
  have "in_vector argv getopt_start" by (simp add: in_vector_def getopt_start_def)
  from option_loop_returns [OF this] show ?thesis unfolding command_line_def arguments_there_def by blast
qed

theorem command_line_returns_witness:
  "\<exists>opts. command_line [''pcp'', ''--server''] = Some opts \<and> Some (E_server, None) \<notin> set opts"
proof -
  have "takes_arg E_server" by code_simp
  then show ?thesis using command_line_returns [of "[''pcp'', ''--server'']"] by blast
qed

end
