(* ===== verification/Logger.thy ===== *)
theory Logger
  imports Pcp_Utils C_Strings
begin

text \<open>
  Logging (\<open>pcp_logger.c\<close>): the level that is read from the environment, the formatting of a message in a buffer that
  grows, and the default logger with its time stamps. The text that a format yields is an argument, since \<open>vsnprintf\<close>
  belongs to the C library; so are the readings of the clock and the success of the allocations. Shown is which messages
  of a run reach the logger, that they reach it whole, and what the default logger prints.
\<close>

section \<open>Numbers of the C library\<close>

text \<open>\<open>strtol\<close> with base 0: the value, which stays in the range of \<open>long\<close>, and the rest of the string.\<close>

definition digit_val :: "char \<Rightarrow> nat" where
  "digit_val ch =
     (let n = of_char ch in
      if 48 \<le> n \<and> n \<le> 57 then n - 48 else if 97 \<le> n \<and> n \<le> 122 then n - 87 else if 65 \<le> n \<and> n \<le> 90 then n - 55 else 36)"

definition value_of_digits :: "nat \<Rightarrow> string \<Rightarrow> nat" where
  "value_of_digits base ds = foldl (\<lambda>a ch. base * a + digit_val ch) 0 ds"

definition number_base :: "string \<Rightarrow> nat \<times> string" where
  "number_base s =
     (case s of
        z # x # d # t \<Rightarrow>
          if z = CHR ''0'' \<and> (x = CHR ''x'' \<or> x = CHR ''X'') \<and> digit_val d < 16 then (16, d # t)
          else if z = CHR ''0'' then (8, s) else (10, s)
      | z # t \<Rightarrow> if z = CHR ''0'' then (8, s) else (10, s)
      | [] \<Rightarrow> (10, []))"

definition strtol :: "string \<Rightarrow> int \<times> string" where
  "strtol s =
     (let t = dropWhile is_space s;
          minus = (t \<noteq> [] \<and> hd t = CHR ''-'');
          t = (if t \<noteq> [] \<and> (hd t = CHR ''-'' \<or> hd t = CHR ''+'') then tl t else t);
          (base, t) = number_base t;
          ds = takeWhile (\<lambda>ch. digit_val ch < base) t;
          v = int (value_of_digits base ds)
      in if ds = [] then (0, s)
         else (max (- (2 ^ 63)) (min (2 ^ 63 - 1) (if minus then - v else v)), drop (length ds) t))"

text \<open>A value of type \<open>long\<close>; overflow is undefined.\<close>

definition long :: "int \<Rightarrow> int option" where
  "long n = (if - (2 ^ 63) \<le> n \<and> n < 2 ^ 63 then Some n else None)"

text \<open>The fields \<open>%3llu\<close>, \<open>%03llu\<close> and \<open>%-7s\<close>, the first two for an argument of type \<open>long long\<close>.\<close>

definition llu :: "char \<Rightarrow> int \<Rightarrow> string" where
  "llu fill n = (let s = decimal (nat (n mod 2 ^ 64)) in replicate (3 - length s) fill @ s)"

definition left7 :: "string \<Rightarrow> string" where
  "left7 s = s @ replicate (7 - length s) CHR '' ''"

section \<open>The logger\<close>

abbreviation (input) PCP_LOGLVL_NONE :: nat where "PCP_LOGLVL_NONE \<equiv> 0"
abbreviation (input) PCP_LOGLVL_ERR :: nat where "PCP_LOGLVL_ERR \<equiv> 1"
abbreviation (input) PCP_LOGLVL_WARN :: nat where "PCP_LOGLVL_WARN \<equiv> 2"
abbreviation (input) PCP_LOGLVL_INFO :: nat where "PCP_LOGLVL_INFO \<equiv> 3"
abbreviation (input) PCP_LOGLVL_PERR :: nat where "PCP_LOGLVL_PERR \<equiv> 4"
abbreviation (input) PCP_LOGLVL_DEBUG :: nat where "PCP_LOGLVL_DEBUG \<equiv> 5"

text \<open>The build without \<open>DEBUG\<close>.\<close>

definition PCP_MAX_LOG_LEVEL :: nat where
  "PCP_MAX_LOG_LEVEL = PCP_LOGLVL_INFO"

text \<open>
  The variables of the file: \<open>pcp_log_level\<close>, \<open>logger\<close> and the static time stamp; and the effects: lines on
  \<open>stderr\<close> and calls of a function of the user, which is known by a number.
\<close>

datatype logger_fn = Default_logfn | External nat

datatype log_effect = Stderr string | Call nat nat string

record log_state =
  lg_level :: nat
  lg_logger :: "logger_fn option"
  lg_prev :: timeval
  lg_out :: "log_effect list"

definition log_start :: log_state where
  "log_start = \<lparr>lg_level = PCP_MAX_LOG_LEVEL, lg_logger = Some Default_logfn, lg_prev = Timeval 0 0, lg_out = []\<rparr>"

definition pcp_logger_init :: "string option \<Rightarrow> log_state \<Rightarrow> log_state" where
  "pcp_logger_init env s =
     (case env of
        None \<Rightarrow> s
      | Some e \<Rightarrow>
          (case strtol e of (lvl, ret) \<Rightarrow>
             if ret = [] \<and> 0 \<le> lvl \<and> lvl \<le> int PCP_MAX_LOG_LEVEL then s\<lparr>lg_level := nat lvl\<rparr> else s))"

definition log_prefix :: "nat \<Rightarrow> string" where
  "log_prefix mode =
     (if mode = PCP_LOGLVL_ERR \<or> mode = PCP_LOGLVL_PERR then ''ERROR''
      else if mode = PCP_LOGLVL_WARN then ''WARNING''
      else if mode = PCP_LOGLVL_INFO then ''INFO''
      else if mode = PCP_LOGLVL_DEBUG then ''DEBUG''
      else ''UNKNOWN'')"

text \<open>\<open>diff\<close> is unsigned; it is read as signed before it is divided, except for the milliseconds.\<close>

definition log_line :: "64 word \<Rightarrow> nat \<Rightarrow> string \<Rightarrow> string" where
  "log_line diff mode msg =
     llu CHR '' '' (sint diff sdiv 1000000) @ ''s '' @
     llu CHR ''0'' (sint (diff mod 1000000) sdiv 1000) @ ''ms '' @
     llu CHR ''0'' (sint diff smod 1000) @ ''us '' @ left7 (log_prefix mode) @ '': '' @ msg @ [CHR 0x0A]"

definition default_logfn :: "nat \<Rightarrow> string \<Rightarrow> timeval \<Rightarrow> log_state \<Rightarrow> log_state option" where
  "default_logfn mode msg cur s =
     (if tv_sec (lg_prev s) = 0 \<and> tv_usec (lg_prev s) = 0
      then Some (s\<lparr>lg_prev := cur, lg_out := lg_out s @ [Stderr (log_line 0 mode msg)]\<rparr>)
      else do {
        secs \<leftarrow> long (tv_sec cur - tv_sec (lg_prev s));
        usecs \<leftarrow> long (secs * 1000000);
        rest \<leftarrow> long (tv_usec cur - tv_usec (lg_prev s));
        diff \<leftarrow> long (usecs + rest);
        Some (s\<lparr>lg_out := lg_out s @ [Stderr (log_line (word_of_int diff) mode msg)]\<rparr>)
      })"

definition pcp_set_loggerfn :: "logger_fn option \<Rightarrow> log_state \<Rightarrow> log_state" where
  "pcp_set_loggerfn ext_log s = s\<lparr>lg_logger := ext_log\<rparr>"

text \<open>
  \<open>vsnprintf(p, size, fmt, ap)\<close>: the return value and the string in the buffer; \<open>out\<close> is the text that the format yields, or
  \<open>None\<close> when that fails.
\<close>

definition vsnprintf :: "string option \<Rightarrow> int \<Rightarrow> int \<times> string" where
  "vsnprintf out sz = (case out of None \<Rightarrow> (-1, []) | Some t \<Rightarrow> (int (length t), take (nat sz - 1) t))"

text \<open>
  The loop: the string that was formatted, or \<open>None\<close> when the memory is used up; \<open>alloc k\<close> is the success of the allocation
  number \<open>k\<close>. \<open>sz\<close> is the variable \<open>size\<close>, an \<open>int\<close>.
\<close>

partial_function (option) logger_loop :: "string option \<Rightarrow> (nat \<Rightarrow> bool) \<Rightarrow> nat \<Rightarrow> int \<Rightarrow> string option option" where
  "logger_loop out alloc k sz =
     (case vsnprintf out sz of (n, p) \<Rightarrow>
        if n > -1 \<and> n < sz then Some (Some p)
        else let sz = (if n > -1 then n + 1 else sz * 2) in
          if sz \<ge> 2 ^ 31 then None
          else if \<not> alloc k then Some None
          else logger_loop out alloc (k + 1) sz)"

definition pcp_logger :: "nat \<Rightarrow> string option \<Rightarrow> (nat \<Rightarrow> bool) \<Rightarrow> timeval \<Rightarrow> log_state \<Rightarrow> log_state option" where
  "pcp_logger log_level out alloc now s =
     (if log_level > lg_level s then Some s
      else if \<not> alloc 0 then Some s
      else do {
        p \<leftarrow> logger_loop out alloc 1 256;
        case p of
          None \<Rightarrow> Some s
        | Some msg \<Rightarrow>
            (case lg_logger s of
               None \<Rightarrow> Some s
             | Some Default_logfn \<Rightarrow> default_logfn log_level msg now s
             | Some (External f) \<Rightarrow> Some (s\<lparr>lg_out := lg_out s @ [Call f log_level msg]\<rparr>))
      })"

text \<open>The macro, for the build without \<open>DEBUG\<close>.\<close>

definition PCP_LOG :: "nat \<Rightarrow> string option \<Rightarrow> (nat \<Rightarrow> bool) \<Rightarrow> timeval \<Rightarrow> log_state \<Rightarrow> log_state option" where
  "PCP_LOG level out alloc now s = (if level \<le> PCP_MAX_LOG_LEVEL then pcp_logger level out alloc now s else Some s)"

text \<open>
  \<open>strerror_r\<close> of POSIX stores as much of the text of the error as fits, with a terminator, when there is room for it.
\<close>

definition pcp_strerror :: "(int \<Rightarrow> string) \<Rightarrow> int \<Rightarrow> nat \<Rightarrow> string option" where
  "pcp_strerror strerror errnum buflen = do {
     let buf = replicate buflen (CHR 0x00);
     if buflen = 0 then Some buf else poke 0 (take (buflen - 1) (strerror errnum) @ [CHR 0x00]) buf
   }"

section \<open>Formatting\<close>

text \<open>A text of less than 256 characters needs one allocation, and every other one needs two.\<close>

definition enough_memory :: "(nat \<Rightarrow> bool) \<Rightarrow> string \<Rightarrow> bool" where
  "enough_memory alloc t \<longleftrightarrow> alloc 0 \<and> (length t < 256 \<or> alloc 1)"

lemma logger_loop_text:
  assumes "length t < 2 ^ 31 - 1"
  shows "logger_loop (Some t) alloc 1 256 = Some (if length t < 256 \<or> alloc 1 then Some t else None)"
proof (cases "length t < 256")
  case True
  then show ?thesis by (simp add: logger_loop.simps vsnprintf_def)
next
  case False
  have "logger_loop (Some t) alloc (Suc (Suc 0)) (int (length t) + 1) = Some (Some t)"
    by (simp add: logger_loop.simps vsnprintf_def nat_add_distrib)
  moreover have "\<not> 2 ^ 31 \<le> int (length t) + 1" using assms by simp
  ultimately show ?thesis using False
    by (subst logger_loop.simps) (simp add: vsnprintf_def)
qed

text \<open>A format that fails doubles the buffer until the memory is used up or \<open>size\<close> overflows.\<close>

lemma logger_loop_failing:
  "logger_loop None (\<lambda>_. True) k (2 ^ (8 + j)) = logger_loop None (\<lambda>_. True) (k + i) (2 ^ (8 + j + i)) \<or> 23 \<le> j + i"
proof (induction i arbitrary: k j)
  case (Suc i)
  show ?case
  proof (cases "23 \<le> j + Suc i")
    case False
    then have "(2::int) ^ (8 + Suc j) < 2 ^ 31" by (intro power_strict_increasing) auto
    moreover have "(2::int) ^ (8 + j) * 2 = 2 ^ (8 + Suc j)" by (simp add: power_add)
    ultimately have "logger_loop None (\<lambda>_. True) k (2 ^ (8 + j)) = logger_loop None (\<lambda>_. True) (k + 1) (2 ^ (8 + Suc j))"
      by (subst logger_loop.simps) (simp add: vsnprintf_def del: power_Suc add_Suc_right)
    then show ?thesis using Suc.IH [of "k + 1" "Suc j"] False by (simp add: add.assoc)
  qed simp
qed simp

lemma failing_format_overflows: "logger_loop None (\<lambda>_. True) 1 256 = None"
proof -
  have "logger_loop None (\<lambda>_. True) 1 (2 ^ (8 + 0)) = logger_loop None (\<lambda>_. True) (1 + 22) (2 ^ (8 + 0 + 22))"
    using logger_loop_failing [of 1 0 22] by simp
  then show ?thesis by (simp add: logger_loop.simps [of _ _ 23] vsnprintf_def)
qed

lemma pcp_logger_text:
  assumes "length t < 2 ^ 31 - 1"
  shows "pcp_logger lvl (Some t) alloc now s =
    (if lvl \<le> lg_level s \<and> enough_memory alloc t then
       case lg_logger s of
         None \<Rightarrow> Some s
       | Some Default_logfn \<Rightarrow> default_logfn lvl t now s
       | Some (External f) \<Rightarrow> Some (s\<lparr>lg_out := lg_out s @ [Call f lvl t]\<rparr>)
     else Some s)"
  using logger_loop_text [OF assms, of alloc] by (auto simp: pcp_logger_def enough_memory_def)

section \<open>Lines\<close>

text \<open>What the line says about \<open>d\<close> microseconds since the first message.\<close>

definition stamp :: "int \<Rightarrow> string" where
  "stamp d = llu CHR '' '' (d div 1000000) @ ''s '' @ llu CHR ''0'' (d mod 1000000 div 1000) @ ''ms '' @ llu CHR ''0'' (d mod 1000) @ ''us ''"

lemma log_line_stamp:
  assumes "0 \<le> d" "d < 2 ^ 63"
  shows "log_line (word_of_int d) lvl t = stamp d @ left7 (log_prefix lvl) @ '': '' @ t @ [CHR 0x0A]"
proof -
  have "sint (word_of_int d :: 64 word) = d" using assms by (simp add: sint_sbintrunc' signed_take_bit_int_eq_self)
  moreover have "sint (word_of_int d mod 1000000 :: 64 word) = d mod 1000000"
  proof -
    have "word_of_int d mod 1000000 = (word_of_int (d mod 1000000) :: 64 word)"
      using assms by (intro word_uint_eqI) (simp add: uint_mod uint_word_of_int)
    moreover have "d mod 1000000 < 1000000" "0 \<le> d mod 1000000" by simp_all
    ultimately show ?thesis by (simp add: sint_sbintrunc' signed_take_bit_int_eq_self)
  qed
  ultimately show ?thesis using assms by (simp add: log_line_def stamp_def signed_divide_int_def signed_modulo_int_def sgn_if)
qed

lemma log_line_start: "log_line 0 lvl t = stamp 0 @ left7 (log_prefix lvl) @ '': '' @ t @ [CHR 0x0A]"
  using log_line_stamp [of 0] by simp

section \<open>Runs\<close>

text \<open>A message as the program logs it: its text, and what memory and clock answer.\<close>

record log_call =
  lc_level :: nat
  lc_text :: string
  lc_alloc :: "nat \<Rightarrow> bool"
  lc_tod :: timeval

definition log_step :: "log_call \<Rightarrow> log_state \<Rightarrow> log_state option" where
  "log_step m = PCP_LOG (lc_level m) (Some (lc_text m)) (lc_alloc m) (lc_tod m)"

fun log_run :: "log_call list \<Rightarrow> log_state \<Rightarrow> log_state option" where
  "log_run [] s = Some s"
| "log_run (m # ms) s = Option.bind (log_step m s) (log_run ms)"

text \<open>The messages that pass the level and for which there is memory, and what has to come of them.\<close>

definition passes :: "nat \<Rightarrow> log_call \<Rightarrow> bool" where
  "passes level m \<longleftrightarrow> lc_level m \<le> min level PCP_MAX_LOG_LEVEL \<and> enough_memory (lc_alloc m) (lc_text m)"

definition usecs :: "timeval \<Rightarrow> int" where
  "usecs tv = tv_sec tv * 1000000 + tv_usec tv"

definition line_of :: "timeval \<Rightarrow> log_call \<Rightarrow> log_effect" where
  "line_of first m =
     Stderr (stamp (usecs (lc_tod m) - usecs first) @ left7 (log_prefix (lc_level m)) @ '': '' @ lc_text m @ [CHR 0x0A])"

fun effects :: "logger_fn option \<Rightarrow> log_call list \<Rightarrow> log_effect list" where
  "effects None ms = []"
| "effects (Some (External f)) ms = map (\<lambda>m. Call f (lc_level m) (lc_text m)) ms"
| "effects (Some Default_logfn) ms = map (line_of (lc_tod (hd ms))) ms"

text \<open>Texts whose length is an \<open>int\<close>, and a clock that runs forward within the range of the time stamps.\<close>

definition call_ok :: "log_call \<Rightarrow> bool" where
  "call_ok m \<longleftrightarrow> length (lc_text m) < 2 ^ 31 - 1 \<and> 0 < tv_sec (lc_tod m) \<and> tv_sec (lc_tod m) < 2 ^ 42 \<and>
     0 \<le> tv_usec (lc_tod m) \<and> tv_usec (lc_tod m) < 1000000"

lemma log_step_result:
  assumes "call_ok m"
  shows "log_step m s =
    (if \<not> passes (lg_level s) m then Some s
     else case lg_logger s of
         None \<Rightarrow> Some s
       | Some Default_logfn \<Rightarrow> default_logfn (lc_level m) (lc_text m) (lc_tod m) s
       | Some (External f) \<Rightarrow> Some (s\<lparr>lg_out := lg_out s @ [Call f (lc_level m) (lc_text m)]\<rparr>))"
  using assms by (auto simp: log_step_def PCP_LOG_def pcp_logger_text passes_def call_ok_def)

lemma default_logfn_first:
  assumes "lg_prev s = Timeval 0 0"
  shows "default_logfn (lc_level m) (lc_text m) (lc_tod m) s =
    Some (s\<lparr>lg_prev := lc_tod m, lg_out := lg_out s @ [line_of (lc_tod m) m]\<rparr>)"
  using assms by (simp add: default_logfn_def line_of_def log_line_start)

lemma default_logfn_later:
  assumes "call_ok m" "0 < tv_sec (lg_prev s)" "0 \<le> tv_usec (lg_prev s)" "tv_usec (lg_prev s) < 1000000" "usecs (lg_prev s) \<le> usecs (lc_tod m)"
  shows "default_logfn (lc_level m) (lc_text m) (lc_tod m) s = Some (s\<lparr>lg_out := lg_out s @ [line_of (lg_prev s) m]\<rparr>)"
proof -
  let ?d = "usecs (lc_tod m) - usecs (lg_prev s)"
  have d: "(tv_sec (lc_tod m) - tv_sec (lg_prev s)) * 1000000 + (tv_usec (lc_tod m) - tv_usec (lg_prev s)) = ?d"
    by (simp add: usecs_def algebra_simps)
  have "tv_sec (lg_prev s) \<le> tv_sec (lc_tod m)" using assms by (simp add: usecs_def call_ok_def)
  then have "long (tv_sec (lc_tod m) - tv_sec (lg_prev s)) = Some (tv_sec (lc_tod m) - tv_sec (lg_prev s))"
    "long ((tv_sec (lc_tod m) - tv_sec (lg_prev s)) * 1000000) = Some ((tv_sec (lc_tod m) - tv_sec (lg_prev s)) * 1000000)"
    "long (tv_usec (lc_tod m) - tv_usec (lg_prev s)) = Some (tv_usec (lc_tod m) - tv_usec (lg_prev s))" "long ?d = Some ?d" "0 \<le> ?d" "?d < 2 ^ 63"
    using assms by (auto simp: long_def call_ok_def usecs_def)
  moreover from this have "Stderr (log_line (word_of_int ?d) (lc_level m) (lc_text m)) = line_of (lg_prev s) m"
    by (simp only: line_of_def log_line_stamp)
  ultimately show ?thesis using assms(2)
    by (simp add: default_logfn_def d del: left_diff_distrib_numeral of_int_diff)
qed

text \<open>With the time stamp set, the default logger counts from it.\<close>

lemma log_run_stamped:
  "\<forall>m\<in>set ms. call_ok m \<and> usecs (lg_prev s) \<le> usecs (lc_tod m) \<Longrightarrow> lg_logger s = Some Default_logfn \<Longrightarrow>
   0 < tv_sec (lg_prev s) \<Longrightarrow> 0 \<le> tv_usec (lg_prev s) \<Longrightarrow> tv_usec (lg_prev s) < 1000000 \<Longrightarrow>
   log_run ms s = Some (s\<lparr>lg_out := lg_out s @ map (line_of (lg_prev s)) (filter (passes (lg_level s)) ms)\<rparr>)"
proof (induction ms arbitrary: s)
  case Nil
  then show ?case by simp
next
  case (Cons m ms)
  show ?case
  proof (cases "passes (lg_level s) m")
    case False
    then show ?thesis using Cons by (simp add: log_step_result)
  next
    case True
    then have "log_step m s = Some (s\<lparr>lg_out := lg_out s @ [line_of (lg_prev s) m]\<rparr>)"
      using Cons.prems default_logfn_later [of m s] by (simp add: log_step_result)
    then show ?thesis using True Cons.IH [of "s\<lparr>lg_out := lg_out s @ [line_of (lg_prev s) m]\<rparr>"] Cons.prems by simp
  qed
qed

text \<open>The first message that is delivered sets it.\<close>

lemma log_run_default:
  "\<forall>m\<in>set ms. call_ok m \<Longrightarrow> sorted (map (usecs \<circ> lc_tod) ms) \<Longrightarrow> lg_logger s = Some Default_logfn \<Longrightarrow> lg_prev s = Timeval 0 0 \<Longrightarrow>
   \<exists>p. log_run ms s = Some (s\<lparr>lg_prev := p, lg_out := lg_out s @ effects (lg_logger s) (filter (passes (lg_level s)) ms)\<rparr>)"
proof (induction ms)
  case Nil
  then show ?case by (intro exI [of _ "lg_prev s"]) simp
next
  case (Cons m ms)
  show ?case
  proof (cases "passes (lg_level s) m")
    case False
    then show ?thesis using Cons by (simp add: log_step_result)
  next
    case True
    let ?s = "s\<lparr>lg_prev := lc_tod m, lg_out := lg_out s @ [line_of (lc_tod m) m]\<rparr>"
    have "log_step m s = Some ?s"
      using True Cons.prems by (simp add: log_step_result default_logfn_first)
    moreover have "log_run ms ?s = Some (?s\<lparr>lg_out := lg_out ?s @ map (line_of (lg_prev ?s)) (filter (passes (lg_level ?s)) ms)\<rparr>)"
      using Cons.prems by (intro log_run_stamped) (auto simp: call_ok_def)
    ultimately show ?thesis using Cons.prems True by (intro exI [of _ "lc_tod m"]) simp
  qed
qed

lemma log_run_external:
  "\<forall>m\<in>set ms. call_ok m \<Longrightarrow> lg_logger s \<noteq> Some Default_logfn \<Longrightarrow>
   log_run ms s = Some (s\<lparr>lg_out := lg_out s @ effects (lg_logger s) (filter (passes (lg_level s)) ms)\<rparr>)"
proof (induction ms arbitrary: s)
  case Nil
  then show ?case by (cases "lg_logger s"; cases "the (lg_logger s)") auto
next
  case (Cons m ms)
  show ?case
  proof (cases "lg_logger s")
    case None
    then show ?thesis using Cons by (simp add: log_step_result)
  next
    case (Some l)
    then obtain f where f: "lg_logger s = Some (External f)" using Cons.prems by (cases l) auto
    show ?thesis
    proof (cases "passes (lg_level s) m")
      case False
      then show ?thesis using Cons f by (simp add: log_step_result)
    next
      case True
      then have "log_step m s = Some (s\<lparr>lg_out := lg_out s @ [Call f (lc_level m) (lc_text m)]\<rparr>)"
        using Cons.prems f by (simp add: log_step_result)
      then show ?thesis
        using True Cons.IH [of "s\<lparr>lg_out := lg_out s @ [Call f (lc_level m) (lc_text m)]\<rparr>"] Cons.prems f by simp
    qed
  qed
qed

text \<open>C28: logging is complete and in order. In a run of messages of any length and level, with the clock going forward and memory
  failing at any point, logging returns, and exactly the messages take effect that are within the level of the build and the
  level set at run time and for which the one or two allocations succeed: each is passed on once, whole and in order, to the
  function of the user, or printed by the default logger with the time since the first message that was printed; without a
  logger there is no effect.\<close>

theorem log_run_correct:
  assumes "\<forall>m\<in>set ms. call_ok m" "sorted (map (usecs \<circ> lc_tod) ms)" "lg_prev s = Timeval 0 0"
  shows "\<exists>s'. log_run ms s = Some s' \<and> lg_level s' = lg_level s \<and> lg_logger s' = lg_logger s \<and>
    lg_out s' = lg_out s @ effects (lg_logger s) (filter (passes (lg_level s)) ms)"
proof (cases "lg_logger s = Some Default_logfn")
  case True
  then show ?thesis using log_run_default [OF assms(1,2) _ assms(3)] by auto
next
  case False
  then show ?thesis using log_run_external [OF assms(1)] by simp
qed

theorem log_run_correct_witness:
  "\<exists>s'. log_run [\<lparr>lc_level = 1, lc_text = ''a'', lc_alloc = \<lambda>_. True, lc_tod = Timeval 5 999000\<rparr>,
      \<lparr>lc_level = 5, lc_text = ''b'', lc_alloc = \<lambda>_. True, lc_tod = Timeval 6 0\<rparr>,
      \<lparr>lc_level = 3, lc_text = ''c'', lc_alloc = \<lambda>_. True, lc_tod = Timeval 17 1234\<rparr>] log_start = Some s' \<and>
    lg_out s' = [Stderr (''  0s 000ms 000us ERROR  : a'' @ [CHR 0x0A]), Stderr ('' 11s 002ms 234us INFO   : c'' @ [CHR 0x0A])]"
proof -
  let ?ms = "[\<lparr>lc_level = 1, lc_text = ''a'', lc_alloc = \<lambda>_. True, lc_tod = Timeval 5 999000\<rparr>,
      \<lparr>lc_level = 5, lc_text = ''b'', lc_alloc = \<lambda>_. True, lc_tod = Timeval 6 0\<rparr>,
      \<lparr>lc_level = 3, lc_text = ''c'', lc_alloc = \<lambda>_. True, lc_tod = Timeval 17 1234\<rparr>]"
  have stamps: "stamp 0 = ''  0s 000ms 000us ''" "stamp 11002234 = '' 11s 002ms 234us ''" by code_simp+
  have "filter (passes (lg_level log_start)) ?ms = [?ms ! 0, ?ms ! 2]"
    by (simp add: passes_def log_start_def PCP_MAX_LOG_LEVEL_def enough_memory_def)
  then have eff: "effects (lg_logger log_start) (filter (passes (lg_level log_start)) ?ms) =
      [Stderr (''  0s 000ms 000us ERROR  : a'' @ [CHR 0x0A]), Stderr ('' 11s 002ms 234us INFO   : c'' @ [CHR 0x0A])]"
    using stamps by (simp add: log_start_def line_of_def usecs_def left7_def log_prefix_def numeral_2_eq_2 numeral_3_eq_3)
  have "\<forall>m\<in>set ?ms. call_ok m" "sorted (map (usecs \<circ> lc_tod) ?ms)" "lg_prev log_start = Timeval 0 0" and out: "lg_out log_start = []"
    by (simp_all add: call_ok_def usecs_def log_start_def)
  from log_run_correct [OF this(1-3)] show ?thesis unfolding eff out by auto
qed

section \<open>The level in the environment\<close>

lemma digit_value: "is_digit ch \<longleftrightarrow> digit_val ch < 10"
  by (auto simp: is_digit_def digit_val_def Let_def)

lemma value_of_decimal: "value_of_digits 10 (decimal n) = n"
proof (induction n rule: decimal.induct)
  case (1 n)
  have v: "digit_val (char_of (48 + k)) = k" if "k < 10" for k using that by (simp add: digit_val_def)
  show ?case
  proof (cases "n < 10")
    case True
    then show ?thesis by (subst decimal.simps) (simp add: value_of_digits_def v)
  next
    case False
    then show ?thesis using 1 by (subst decimal.simps) (simp add: value_of_digits_def v)
  qed
qed

lemma decimal_head: "0 < n \<Longrightarrow> hd (decimal n) \<noteq> CHR ''0''"
proof (induction n rule: decimal.induct)
  case (1 n)
  have "char_of (48 + n) \<noteq> CHR ''0''" if "0 < n" "n < 10"
  proof
    assume "char_of (48 + n) = CHR ''0''"
    then have "of_char (char_of (48 + n) :: char) = (of_char CHR ''0'' :: nat)" by simp
    then show False using that by simp
  qed
  then show ?case using 1 decimal_not_Nil [of "n div 10"] by (subst decimal.simps) (auto simp: div_greater_zero_iff)
qed

lemma strtol_decimal:
  assumes "int n < 2 ^ 63"
  shows "strtol (decimal n) = (int n, [])"
proof -
  obtain ch t where d: "decimal n = ch # t" using decimal_not_Nil by (cases "decimal n") auto
  then have "is_digit ch" using decimal_digits [of n] by simp
  then have sp: "\<not> is_space ch" "ch \<noteq> CHR ''-''" "ch \<noteq> CHR ''+''" by (auto simp: is_digit_def is_space_def)
  have tw: "takeWhile (\<lambda>ch. digit_val ch < 10) (decimal n) = decimal n"
    using decimal_digits [of n] by (simp add: takeWhile_eq_all_conv digit_value)
  show ?thesis
  proof (cases "n = 0")
    case True
    moreover have "strtol (decimal 0) = (0, [])" by code_simp
    ultimately show ?thesis by simp
  next
    case False
    then have "ch \<noteq> CHR ''0''" using decimal_head [of n] d by simp
    then have "number_base (decimal n) = (10, decimal n)" by (simp add: number_base_def d split: list.split)
    then show ?thesis using sp d tw value_of_decimal [of n] assms by (simp add: strtol_def)
  qed
qed

text \<open>A level is taken over from the environment when it is one of the build, and kept otherwise; in no case it leaves that range.\<close>

lemma logger_init_decimal:
  assumes "int n < 2 ^ 63"
  shows "pcp_logger_init (Some (decimal n)) s = (if n \<le> PCP_MAX_LOG_LEVEL then s\<lparr>lg_level := n\<rparr> else s)"
  using strtol_decimal [OF assms] by (simp add: pcp_logger_init_def)

lemma logger_init_level: "lg_level s \<le> PCP_MAX_LOG_LEVEL \<Longrightarrow> lg_level (pcp_logger_init env s) \<le> PCP_MAX_LOG_LEVEL"
  by (auto simp: pcp_logger_init_def split: option.split prod.split)

text \<open>An empty variable turns logging off: nothing is converted, and the end of the string is reached.\<close>

lemma logger_init_empty: "pcp_logger_init (Some []) s = s\<lparr>lg_level := PCP_LOGLVL_NONE\<rparr>"
  by (simp add: pcp_logger_init_def strtol_def number_base_def)

text \<open>The text of an error is always terminated within the buffer.\<close>

lemma pcp_strerror_terminated:
  assumes "0 < buflen"
  shows "\<exists>buf. pcp_strerror strerror errnum buflen = Some buf \<and> length buf = buflen \<and> last buf = CHR 0x00 \<and>
    take (min (buflen - 1) (length (strerror errnum))) buf = take (buflen - 1) (strerror errnum)"
proof -
  let ?t = "take (buflen - 1) (strerror errnum)" and ?n = "min (buflen - 1) (length (strerror errnum))"
  have t: "length ?t = ?n" by simp
  have "buflen - ?n = Suc (buflen - Suc ?n)" using assms by auto
  then have rest: "CHR 0x00 # replicate (buflen - Suc ?n) (CHR 0x00) = replicate (buflen - ?n) (CHR 0x00)" by simp
  have "Suc ?n \<le> buflen" using assms by auto
  then have "pcp_strerror strerror errnum buflen = Some (?t @ CHR 0x00 # replicate (buflen - Suc ?n) (CHR 0x00))"
    using assms by (simp add: pcp_strerror_def poke_def Let_def min.commute)
  then have "pcp_strerror strerror errnum buflen = Some (?t @ replicate (buflen - ?n) (CHR 0x00))" by (simp only: rest)
  moreover have "0 < buflen - ?n" using assms by auto
  ultimately show ?thesis using t by (auto simp: last_append min_def)
qed

end
