(* ===== verification/Spec2Isabelle.thy ===== *)
theory Spec2Isabelle
  imports Full_Exchange Mock_Socket Auto_Discovery Sock_Impl Client_Runs Client_Options Logger
begin

text \<open>
  A verification of \<open>libpcp\<close>, a client library for the Port Control Protocol (RFC 6887) and NAT-PMP.

  \<^bold>\<open>The program.\<close> A program asks the library for port mappings (flows). The library keeps a context with a
  hash table of flows and an array of servers (\<open>libpcp/src/pcp_client_db.c\<close>). The public interface
  (\<open>pcp_api.c\<close>) creates one flow per server, links the flows of one request by \<open>next_child\<close>, changes, closes
  and deletes them. The event handler (\<open>pcp_event_handler.c\<close>) runs one state machine per server and one per
  flow: servers are pinged and their protocol version is negotiated, requests are built (\<open>pcp_msg.c\<close>), sent
  and repeated with growing timeouts, responses are parsed, matched to a flow by its key data and stored,
  and mappings are renewed. Servers are registered by hand or found as gateways
  (\<open>pcp_server_discovery.c\<close>, \<open>net/findsaddr-udp.c\<close>). Everything runs from \<open>pcp_pulse\<close>, in one thread.

  \<^bold>\<open>Theories and sources.\<close> Definitions keep the names of the source; a function with a loop has the loop as a
  definition of its own.
    \<^item> \<open>Prelude\<close>: bytes and words, bounded buffers, the option monad, \<open>runs\<close>.
    \<^item> \<open>Pcp_Types\<close>: \<open>pcp.h\<close>, \<open>pcp_client_db.h\<close>, \<open>pcp_event_handler.h\<close>, \<open>pcp_msg_structs.h\<close>, \<open>default_config.h\<close>.
    \<^item> \<open>Net_Addr\<close>, \<open>Pcp_Utils\<close>: address conversions of \<open>net/pcp_socket.c\<close>; \<open>pcp_utils.h\<close>.
    \<^item> \<open>Client_Db\<close>: all functions of \<open>pcp_client_db.c\<close>. \<open>Flow_Table\<close> and \<open>Server_Table\<close> prove that chains with
      back links represent a set of flows (\<open>db_rep\<close>, \<open>db_inv\<close>) and that every operation refines an operation on
      that set; the locale \<open>flow_visitor\<close> states what a callback has to respect for the iteration over the
      table to be a fold, and the locale of tables what a lookup returns after a history of changes.
    \<^item> \<open>Msg_Build\<close>, \<open>Msg_Wire\<close>: the first half of \<open>pcp_msg.c\<close>; requests are the wire form, in bounds.
    \<^item> \<open>Msg_Parse\<close>: the second half; parsing inverts the wire form of responses and stays in bounds.
    \<^item> \<open>Flow_Machine\<close>: flow tables and handlers of \<open>pcp_event_handler.c\<close>; the event loop ends.
    \<^item> \<open>Server_Machine\<close>, \<open>Server_Inv\<close>, \<open>Pulse\<close>: server table and handlers, \<open>pcp_pulse\<close>; the invariant \<open>ctx_inv\<close>
      of contexts, and that every handler and the whole pump return and keep it.
    \<^item> \<open>Discovery\<close>, \<open>Register\<close>: \<open>pcp_server_discovery.c\<close>, \<open>findsaddr-udp.c\<close>; registration of servers.
    \<^item> \<open>Pcp_Api\<close>: \<open>pcp_api.c\<close>. \<open>Api_Inv\<close>, \<open>Flow_Create\<close>, \<open>Api_Calls\<close>: handles as lists of flows
      (\<open>kids\<close>, \<open>handle\<close>), the invariant \<open>api_inv\<close>, and what each call does.
    \<^item> \<open>Api_Runs\<close>: sequences of calls as a step relation with reachability; every permitted call returns.
      \<open>Exchange\<close>: the way of a response from the wire into its flow. \<open>Terminate\<close>: the end of a context.
    \<^item> \<open>Gateway\<close>: the Linux code of \<open>net/gateway.c\<close>: the netlink dump is requested, received in parts and
      walked; for every well-formed answer the result is the list of gateways that the routes of the main
      table name. \<open>Gateway_Systems\<close>: the same for the code of BSD and macOS (\<open>sysctl\<close>) and of Windows.
      \<open>Auto_Discovery\<close>: \<open>pcp_init\<close> with automatic discovery; the locale \<open>gateway_source\<close> says what a system has to
      deliver for routes to become servers, and is interpreted for all three.
    \<^item> \<open>C_Strings\<close>: strings of C and \<open>atoi\<close>. \<open>Sock_Text\<close>: \<open>net/sock_ntop.c\<close>; an address that is printed is
      read back, and what an address with a prefix length means.
    \<^item> \<open>Sock_Impl\<close>: the functions of the default socket table in \<open>net/pcp_socket.c\<close> over the answers of the
      system calls; they fulfil the contract on sockets that the rest of the development assumes.
    \<^item> \<open>Mock_Server\<close>, \<open>Mock_Answers\<close>: the server of the tests, \<open>pcp_server/pcp_server.c\<close>, with its options and
      its loop; \<open>Mock_Socket\<close>: its socket. \<open>Full_Exchange\<close>: a request that the client builds, answered by that server, ends in the flow.
    \<^item> \<open>Client_App\<close>, \<open>Client_Runs\<close>: the command line client \<open>pcp_app/pcp_app.c\<close>: its options, the calls that
      it makes, and that it ends with an exit status that tells how the request ended.
    \<^item> \<open>Win_Getopt\<close>: \<open>win_utils/getopt.c\<close>, \<open>getopt_long.c\<close> and \<open>windows/pcp_gettimeofday.c\<close>. \<open>Client_Options\<close>: the table of
      options of the client and its loop over \<open>getopt_long\<close>; every command line is read to its end, and one that is
      written in the accepted forms is read as it was meant.
    \<^item> \<open>Logger\<close>: \<open>pcp_logger.c\<close>; which messages reach the logger, and what is printed.

  \<^bold>\<open>State.\<close> \<open>pcp_ctx\<close> is \<open>struct pcp_ctx_s\<close> together with a heap of flows (a map from addresses to
  \<open>pcp_flow\<close>; \<open>c_brk\<close> is the next free address, so that addresses are never reused) and with what the
  environment answers: the readings of the clock (\<open>w_tod\<close>), the results of sendto and recvfrom, of
  malloc (\<open>w_alloc\<close>), of the route lookup of the kernel (\<open>w_route\<close>), and the random numbers. These are
  functions of a running index, so that each call may be answered differently; all theorems hold for all of
  them, under \<open>world_ok\<close> and \<open>recv_ok\<close> where the code relies on a socket that does not report more bytes
  than it was asked for.

  \<^bold>\<open>Results.\<close> \<open>None\<close> is undefined behaviour: an access to memory that is not allocated or outside a
  buffer, a failed assert, signed overflow, or a loop that does not end (\<open>partial_function (option)\<close>).
  Error codes are ordinary values. So every theorem that an operation returns \<open>Some\<close> says that it is
  memory safe and ends; no operation of the model uses fuel.

  \<^bold>\<open>Configuration.\<close> The default build by CMake on a little-endian LP64 system: SADSCP, experimental
  options, flow priority, NAT-PMP and the IPv6 socket are on; five pings, an initial retransmission time of
  3000 ms, three retransmissions, a limit of 1024 s and an hour between pings of a server that does not work.

  \<^bold>\<open>Termination.\<close> \<open>pcp_pulse\<close> and \<open>pcp_wait\<close> read the clock in loops. They are shown to return for every clock
  whose readings finally settle (\<open>settles\<close>: it may advance or jump for any number of readings and then shows
  one time); for a clock that leaps over every timer at each reading the loops of the source do not end either.

  \<^bold>\<open>Simplifications.\<close> Log output is left out, with the texts of addresses that only it uses. The user
  callback is an entry in a log: a callback that calls the library again is not covered. \<open>select\<close> only lets
  time pass. In the programs, the answers of the system and of libc (the \<open>getopt_long\<close> of the C library, \<open>inet_pton\<close>,
  \<open>inet_ntop\<close>, \<open>getaddrinfo\<close>, \<open>ctime_r\<close>, \<open>uname\<close>, the results of socket calls) are parameters or fields of
  a record; a blocking receive that is never answered is \<open>None\<close>; the log file of the server is a list of
  lines, and what the programs print for the user beside their result is left out. The copies of host names
  that \<open>net/sock_ntop.c\<close> takes are assumed to be allocated.

  \<^bold>\<open>Not modelled.\<close> Of Windows support the types and macros for the compiler, the socket code and the time zone of
  \<open>gettimeofday\<close>, which the library does not ask for; the routing socket operations in \<open>net/gateway.c\<close>, which \<open>#if 0\<close>
  disables; the calls of the logger inside the library, which have no effect on its state (\<open>Logger\<close> covers what such a
  call does); the example and the tests, which only call what is modelled; of the programs the texts of help and error
  messages and the seed of the random numbers (\<open>mix\<close>).
\<close>

end
